(* ===== verification/Prelude.thy ===== *)
theory Prelude
  imports Main "HOL-Library.Word"
begin

text \<open>
  Shared ground of the development: the machine integer types of the C++ sources, the
  values that stand for a failed assertion, a thrown exception, an access outside an
  object and a call that blocks, the byte layout of integers in shared memory, and the
  generic lemmas on byte lists and words that the component theories use.
\<close>

unbundle bit_operations_syntax

named_theorems failure_splits \<open>case splits on results\<close>

type_synonym u8 = "8 word"
type_synonym u16 = "16 word"
type_synonym u32 = "32 word"
type_synonym u64 = "64 word"
type_synonym bytes = "u8 list"

text \<open>
  What an operation does when it does not return a value. \<open>Assertion\<close> is a failed
  \<open>assert\<close> (the sources are modelled with assertions enabled, as their death tests run
  them), \<open>Thrown\<close> an exception of class toroni::exception with its message,
  \<open>OutOfBounds\<close> an access outside the object, which is undefined behaviour in C++, and
  \<open>Blocked\<close> a call that never returns.
\<close>

datatype failure = Assertion | Thrown string | OutOfBounds | Blocked

type_synonym 'a result = "failure + 'a"

lemmas [failure_splits] = sum.splits option.splits prod.splits

section \<open>Integers in memory\<close>

text \<open>
  The code stores integers through \<open>reinterpret_cast\<close>, so the layout is the machine's:
  little-endian on the platforms the library is built for. \<open>le_bytes n w\<close> is the
  \<open>n\<close>-byte image of \<open>w\<close>.
\<close>

fun le_bytes :: "nat \<Rightarrow> 'a::len word \<Rightarrow> bytes" where
  "le_bytes 0 w = []"
| "le_bytes (Suc n) w = ucast w # le_bytes n (drop_bit 8 w)"

fun le_word :: "bytes \<Rightarrow> 'a::len word" where
  "le_word [] = 0"
| "le_word (b # bs) = ucast b OR push_bit 8 (le_word bs)"

lemma length_le_bytes [simp]: "length (le_bytes n w) = n"
  by (induction n arbitrary: w) auto

lemma le_word_le_bytes_take_bit: "le_word (le_bytes n w) = take_bit (8 * n) w"
proof (induction n arbitrary: w)
  case 0
  then show ?case by simp
next
  case (Suc n)
  show ?case
    by (rule bit_word_eqI)
      (auto simp: Suc bit_simps not_less)
qed

lemma le_word_le_bytes:
  fixes w :: "'a::len word"
  assumes "LENGTH('a) \<le> 8 * n"
  shows "le_word (le_bytes n w) = w"
  using assms by (simp add: le_word_le_bytes_take_bit take_bit_word_eq_self)

lemma le_bytes_inject:
  fixes v w :: "'a::len word"
  assumes "LENGTH('a) \<le> 8 * n"
  shows "le_bytes n v = le_bytes n w \<longleftrightarrow> v = w"
  using le_word_le_bytes [OF assms] by metis

section \<open>Reading and writing a run of bytes\<close>

definition read_at :: "nat \<Rightarrow> nat \<Rightarrow> bytes \<Rightarrow> bytes result" where
  "read_at i n m = (if i + n \<le> length m then Inr (take n (drop i m)) else Inl OutOfBounds)"

definition write_at :: "nat \<Rightarrow> bytes \<Rightarrow> bytes \<Rightarrow> bytes result" where
  "write_at i xs m =
     (if i + length xs \<le> length m then Inr (take i m @ xs @ drop (i + length xs) m)
      else Inl OutOfBounds)"

text \<open>The pure update that a successful \<open>write_at\<close> performs.\<close>

definition patch :: "nat \<Rightarrow> bytes \<Rightarrow> bytes \<Rightarrow> bytes" where
  "patch i xs m = take i m @ xs @ drop (i + length xs) m"

lemma write_at_patch: "i + length xs \<le> length m \<Longrightarrow> write_at i xs m = Inr (patch i xs m)"
  by (simp add: write_at_def patch_def)

lemma length_patch [simp]: "i + length xs \<le> length m \<Longrightarrow> length (patch i xs m) = length m"
  by (simp add: patch_def)

lemma read_patch_same [simp]:
  "i + length xs \<le> length m \<Longrightarrow> take (length xs) (drop i (patch i xs m)) = xs"
  by (simp add: patch_def)

lemma nth_patch:
  assumes "i + length xs \<le> length m" "k < length m"
  shows "patch i xs m ! k = (if i \<le> k \<and> k < i + length xs then xs ! (k - i) else m ! k)"
  using assms by (auto simp: patch_def nth_append min_def)

lemma read_patch_disjoint:
  assumes "i + length xs \<le> length m" "j + n \<le> length m" "j + n \<le> i \<or> i + length xs \<le> j"
  shows "take n (drop j (patch i xs m)) = take n (drop j m)"
  using assms by (intro nth_equalityI) (auto simp: nth_patch)

lemma patch_append:
  assumes "i + length xs + length ys \<le> length m"
  shows "patch (i + length xs) ys (patch i xs m) = patch i (xs @ ys) m"
  using assms by (intro nth_equalityI) (auto simp: nth_patch nth_append)

lemma patch_Nil [simp]: "patch i [] m = m"
  by (simp add: patch_def)

lemma take_drop_append_split:
  assumes "take (length xs) (drop i m) = xs" "take (length ys) (drop (i + length xs) m) = ys"
    "i + length xs + length ys \<le> length m"
  shows "take (length xs + length ys) (drop i m) = xs @ ys"
  using assms by (metis add.commute drop_drop take_add)

section \<open>Word arithmetic\<close>

text \<open>Distances between wrapping positions are word differences read as naturals.\<close>

lemma unat_add_small:
  fixes a b :: "'a::len word"
  assumes "unat a + unat b < 2 ^ LENGTH('a)"
  shows "unat (a + b) = unat a + unat b"
  using assms by (simp add: unat_word_ariths)

lemma unat_diff_small:
  fixes a b :: "'a::len word"
  assumes "unat b \<le> unat a"
  shows "unat (a - b) = unat a - unat b"
  using assms by (simp add: unat_sub word_le_nat_alt)

lemma unat_of_nat_small:
  assumes "n < 2 ^ LENGTH('a::len)"
  shows "unat (of_nat n :: 'a word) = n"
  using assms by (simp add: unat_of_nat)

lemma unat_ucast_up [simp]:
  fixes w :: "'a::len word"
  assumes "LENGTH('a) \<le> LENGTH('b::len)"
  shows "unat (ucast w :: 'b word) = unat w"
proof -
  have "unat w < 2 ^ LENGTH('a)" by (rule unsigned_less)
  also have "(2::nat) ^ LENGTH('a) \<le> 2 ^ LENGTH('b)" using assms by simp
  finally show ?thesis by (simp add: unsigned_ucast_eq take_bit_nat_eq_self)
qed

lemma u64_bound: "unat (x :: u64) < 2 ^ 64"
proof -
  have "unat x < 2 ^ LENGTH(64)" by (rule unsigned_less)
  then show ?thesis by simp
qed

lemma of_nat_u64_inj: "a < 2 ^ 64 \<Longrightarrow> b < 2 ^ 64 \<Longrightarrow> (of_nat a :: u64) = of_nat b \<longleftrightarrow> a = b"
  by (auto dest: arg_cong [where f = unat] simp: unat_of_nat_small)

lemma map_sum_Inr:
  assumes "map_sum f g x = Inr z"
  obtains y where "x = Inr y" "z = g y"
  using assms by (cases x) auto

end
