(* ===== verification/MsgHeader.thy ===== *)
theory MsgHeader
  imports Prelude
begin

text \<open>
  rmp/detail/msgHeader.hpp and the \<open>Overlay\<close> template of rmp/detail/util.hpp: the packed
  five-byte header in front of every message and padding run of the ring, and its image in
  memory.
\<close>

definition MSG :: u8 where
  "MSG = 0"

definition PADDING :: u8 where
  "PADDING = 1"

text \<open>\<open>#pragma pack(1)\<close>: one byte of type, four of length, no gap.\<close>

record MsgHeader =
  hdr_type :: u8
  hdr_length :: u32

definition sizeof_MsgHeader :: u64 where
  "sizeof_MsgHeader = 5"

definition Valid :: "MsgHeader \<Rightarrow> bool" where
  "Valid h \<longleftrightarrow> (hdr_type h = MSG \<or> hdr_type h = PADDING) \<and> hdr_length h \<noteq> 0"

definition hdr_bytes :: "MsgHeader \<Rightarrow> bytes" where
  "hdr_bytes h = hdr_type h # le_bytes 4 (hdr_length h)"

definition hdr_of_bytes :: "bytes \<Rightarrow> MsgHeader" where
  "hdr_of_bytes bs = \<lparr> hdr_type = hd bs, hdr_length = le_word (take 4 (tl bs)) \<rparr>"

text \<open>\<open>Overlay\<close> as a read and as a write of a whole header at an index of the data.\<close>

definition load_header :: "nat \<Rightarrow> bytes \<Rightarrow> MsgHeader result" where
  "load_header i m = map_sum id hdr_of_bytes (read_at i 5 m)"

definition store_header :: "nat \<Rightarrow> MsgHeader \<Rightarrow> bytes \<Rightarrow> bytes result" where
  "store_header i h m = write_at i (hdr_bytes h) m"

lemma length_hdr_bytes [simp]: "length (hdr_bytes h) = 5"
  by (simp add: hdr_bytes_def)

lemma unat_sizeof_MsgHeader [simp]: "unat sizeof_MsgHeader = 5"
  by (simp add: sizeof_MsgHeader_def)

lemma MSG_neq_PADDING [simp]: "MSG \<noteq> PADDING" "PADDING \<noteq> MSG"
  by (simp_all add: MSG_def PADDING_def)

lemma hdr_of_bytes_hdr_bytes: "hdr_of_bytes (hdr_bytes h) = h"
  by (simp add: hdr_of_bytes_def hdr_bytes_def le_word_le_bytes)

lemma hdr_bytes_inject [simp]: "hdr_bytes g = hdr_bytes h \<longleftrightarrow> g = h"
  by (metis hdr_of_bytes_hdr_bytes)

text \<open>The header found at \<open>i\<close> depends on five bytes only.\<close>

lemma load_header_cong:
  "take 5 (drop i m) = take 5 (drop i m') \<Longrightarrow> length m = length m' \<Longrightarrow> load_header i m = load_header i m'"
  by (simp add: load_header_def read_at_def)

lemma load_header_bytes:
  assumes "take 5 (drop i m) = hdr_bytes h" "i + 5 \<le> length m"
  shows "load_header i m = Inr h"
  using assms by (simp add: load_header_def read_at_def hdr_of_bytes_hdr_bytes)

lemma load_store_header:
  assumes "store_header i h m = Inr m'"
  shows "load_header i m' = Inr h"
proof -
  have m': "i + 5 \<le> length m" "m' = patch i (hdr_bytes h) m"
    using assms by (auto simp: store_header_def write_at_def patch_def split: if_splits)
  then have "take 5 (drop i m') = hdr_bytes h"
    using read_patch_same [of i "hdr_bytes h" m] by simp
  then show ?thesis using m' by (intro load_header_bytes) simp_all
qed

section \<open>Properties\<close>

text \<open>
  Headers in the buffer. A header stored at an index inside the data is read back
  unchanged from there, and every run of bytes that does not overlap its five bytes is
  read as before.
\<close>

lemma store_header_correct:
  assumes "store_header i h m = Inr m'"
  shows "load_header i m' = Inr h \<and> length m' = length m
    \<and> (\<forall>j n. j + n \<le> i \<or> i + 5 \<le> j \<longrightarrow> read_at j n m' = read_at j n m)"
proof -
  have m': "i + 5 \<le> length m" "m' = patch i (hdr_bytes h) m"
    using assms by (auto simp: store_header_def write_at_def patch_def split: if_splits)
  then show ?thesis
    using load_store_header [OF assms] read_patch_disjoint [of i "hdr_bytes h" m] by (auto simp: read_at_def)
qed

lemma store_header_correct_witness:
  "\<exists>m'. store_header 1 \<lparr> hdr_type = PADDING, hdr_length = 513 \<rparr> [9, 9, 9, 9, 9, 9, 9, 8] = Inr m'
    \<and> load_header 1 m' = Inr \<lparr> hdr_type = PADDING, hdr_length = 513 \<rparr> \<and> read_at 6 2 m' = Inr [9, 8]"
proof -
  have "\<exists>m'. store_header 1 \<lparr> hdr_type = PADDING, hdr_length = 513 \<rparr> [9, 9, 9, 9, 9, 9, 9, 8] = Inr m'"
    by (simp add: store_header_def write_at_def)
  then obtain m' where m': "store_header 1 \<lparr> hdr_type = PADDING, hdr_length = 513 \<rparr> [9, 9, 9, 9, 9, 9, 9, 8] = Inr m'" ..
  from store_header_correct [OF m'] have "load_header 1 m' = Inr \<lparr> hdr_type = PADDING, hdr_length = 513 \<rparr>"
      and "read_at 6 2 m' = read_at 6 2 [9, 9, 9, 9, 9, 9, 9, 8]"
    by simp_all
  with m' show ?thesis by (auto simp: read_at_def)
qed

end
