(* ===== verification/Positions.thy ===== *)
theory Positions
  imports Prelude
begin

text \<open>
  rmp/stream.hpp, rmp/detail/util.hpp and rmp/detail/positionOpt.hpp: stream positions.
  A position is a 64-bit counter of the bytes ever put on the stream; it wraps, and the
  comparisons below read the sign of a 64-bit difference. The lemmas relate them to the
  distance \<open>dist p q\<close>, the number of bytes from \<open>p\<close> forward to \<open>q\<close>, which is what the ring
  invariants are stated with.
\<close>

type_synonym position = u64
type_synonym position_opt = "u64 option"

definition EMPTY_POSITION :: position_opt where
  "EMPTY_POSITION = None"

definition BufIndex :: "position \<Rightarrow> position \<Rightarrow> position" where
  "BufIndex indexMask pos = pos AND indexMask"

definition GreaterThan :: "position \<Rightarrow> position \<Rightarrow> bool" where
  "GreaterThan a b \<longleftrightarrow> sint (b - a) < 0"

definition GreaterOrEqualThan :: "position \<Rightarrow> position \<Rightarrow> bool" where
  "GreaterOrEqualThan a b \<longleftrightarrow> sint (b - a) \<le> 0"

definition Expired :: "position \<Rightarrow> position \<Rightarrow> position \<Rightarrow> bool" where
  "Expired pos freePos bufSize \<longleftrightarrow> GreaterOrEqualThan freePos (pos + bufSize)"

definition IsZeroOrPowerOfTwo :: "position \<Rightarrow> bool" where
  "IsZeroOrPowerOfTwo x \<longleftrightarrow> x AND (x - 1) = 0"

definition IndexMask :: "position \<Rightarrow> position result" where
  "IndexMask bufSizePowOf2 =
     (if IsZeroOrPowerOfTwo bufSizePowOf2 then Inr (bufSizePowOf2 - 1) else Inl Assertion)"

section \<open>Distances\<close>

definition dist :: "position \<Rightarrow> position \<Rightarrow> nat" where
  "dist p q = unat (q - p)"

lemma dist_self [simp]: "dist p p = 0"
  by (simp add: dist_def)

lemma dist_0_iff [simp]: "dist p q = 0 \<longleftrightarrow> p = q"
  by (auto simp: dist_def unat_eq_0)

lemma dist_add [simp]: "dist p (p + n) = unat n"
  by (simp add: dist_def)

lemma dist_add_right:
  assumes "dist p q + unat n < 2 ^ 64"
  shows "dist p (q + n) = dist p q + unat n"
proof -
  have "q + n - p = (q - p) + n" by simp
  moreover have "unat ((q - p) + n) = unat (q - p) + unat n"
    by (rule unat_add_small) (use assms in \<open>simp add: dist_def\<close>)
  ultimately show ?thesis by (simp only: dist_def)
qed

lemma dist_add_left:
  assumes "unat n \<le> dist p q"
  shows "dist (p + n) q = dist p q - unat n"
proof -
  have "q - (p + n) = (q - p) - n" by simp
  moreover have "unat ((q - p) - n) = unat (q - p) - unat n"
    by (rule unat_diff_small) (use assms in \<open>simp add: dist_def\<close>)
  ultimately show ?thesis by (simp only: dist_def)
qed

lemma word_of_int_unat: "word_of_int (int (unat w)) = (w :: u64)"
  by (simp flip: uint_nat)

lemma sint_of_int_diff:
  assumes "a < 2 ^ 63" "b \<le> 2 ^ 63"
  shows "sint (word_of_int (int a - int b) :: u64) = int a - int b"
proof -
  have *: "- (2 ^ 63) \<le> int a - int b" "int a - int b < 2 ^ 63" using assms by auto
  have "sint (word_of_int (int a - int b) :: u64) = signed_take_bit 63 (int a - int b)"
    by (simp only: sint_sbintrunc') simp
  also have "\<dots> = int a - int b" by (rule signed_take_bit_int_eq_self [OF *])
  finally show ?thesis .
qed

lemma sint_dist:
  assumes "unat s < 2 ^ 63" "dist p q \<le> 2 ^ 63"
  shows "sint (p + s - q) = int (unat s) - int (dist p q)"
proof -
  have "p + s - q = s - (q - p)" by simp
  also have "\<dots> = word_of_int (int (unat s)) - word_of_int (int (unat (q - p)))"
    by (simp only: word_of_int_unat)
  also have "\<dots> = word_of_int (int (unat s) - int (dist p q))"
    by (simp only: dist_def of_int_diff)
  finally have "sint (p + s - q) = sint (word_of_int (int (unat s) - int (dist p q)) :: u64)"
    by (rule arg_cong)
  also have "\<dots> = int (unat s) - int (dist p q)"
    using assms by (rule sint_of_int_diff)
  finally show ?thesis .
qed

lemma GreaterThan_dist:
  assumes "dist b a \<le> 2 ^ 63"
  shows "GreaterThan a b \<longleftrightarrow> 0 < dist b a"
  using sint_dist [of 0 b a] assms by (simp add: GreaterThan_def)

lemma not_GreaterThan_dist:
  assumes "dist a b < 2 ^ 63"
  shows "\<not> GreaterThan a b"
proof -
  have "b - a = word_of_int (int (dist a b) - int 0)"
    by (simp add: dist_def)
  then have "sint (b - a) = sint (word_of_int (int (dist a b) - int 0) :: u64)" by (rule arg_cong)
  also have "\<dots> = int (dist a b) - int 0"
    by (rule sint_of_int_diff) (use assms in simp_all)
  finally show ?thesis by (simp add: GreaterThan_def)
qed

lemma Expired_dist:
  assumes "unat bufSize < 2 ^ 63" "dist pos freePos \<le> 2 ^ 63"
  shows "Expired pos freePos bufSize \<longleftrightarrow> unat bufSize \<le> dist pos freePos"
  unfolding Expired_def GreaterOrEqualThan_def sint_dist [OF assms] by linarith

section \<open>Buffer sizes and buffer indexes\<close>

lemma and_double_nat:
  "(2 * a) AND Suc (2 * b) = 2 * (a AND b :: nat)" "Suc (2 * a) AND (2 * b) = 2 * (a AND b :: nat)"
  by (subst and_rec, simp)+

lemma and_minus_one_nat:
  "n AND (n - 1) = (0::nat) \<longleftrightarrow> n = 0 \<or> (\<exists>k. n = 2 ^ k)"
proof (induction n rule: less_induct)
  case (less n)
  consider (zero) "n = 0" | (even) m where "n = 2 * Suc m" | (odd) m where "n = Suc (2 * m)"
    by (metis dvd_def not0_implies_Suc oddE Suc_eq_plus1 mult_0_right)
  then show ?case
  proof cases
    case zero
    then show ?thesis by simp
  next
    case even
    have pow: "(\<exists>k. n = 2 ^ k) \<longleftrightarrow> (\<exists>k. Suc m = 2 ^ k)"
    proof
      assume "\<exists>k. n = 2 ^ k"
      then obtain k where "2 * Suc m = 2 ^ k" using even by auto
      then have "\<exists>j. k = Suc j" by (cases k) simp_all
      then obtain j where "k = Suc j" ..
      with \<open>2 * Suc m = 2 ^ k\<close> have "Suc m = 2 ^ j" by simp
      then show "\<exists>k. Suc m = 2 ^ k" ..
    next
      assume "\<exists>k. Suc m = 2 ^ k"
      then obtain k where "Suc m = 2 ^ k" ..
      then show "\<exists>k. n = 2 ^ k" using even by (intro exI [of _ "Suc k"]) simp
    qed
    have "n AND (n - 1) = 2 * (Suc m AND m)"
      using and_double_nat(1) [of "Suc m" m] by (simp add: even)
    then show ?thesis using less.IH [of "Suc m"] even pow by simp
  next
    case odd
    have "n AND (n - 1) = 2 * m"
      using and_double_nat(2) [of m m] by (simp add: odd)
    moreover have "(\<exists>k. n = 2 ^ k) \<longleftrightarrow> m = 0"
    proof
      assume "\<exists>k. n = 2 ^ k"
      then obtain k where "Suc (2 * m) = 2 ^ k" using odd by auto
      then show "m = 0" by (cases k) (auto, presburger)
    qed (use odd in \<open>auto intro: exI [of _ 0]\<close>)
    ultimately show ?thesis by (simp add: odd)
  qed
qed

lemma unat_exp_u64:
  assumes "k < 64"
  shows "unat (2 ^ k :: u64) = 2 ^ k"
proof -
  have "(2::nat) ^ k < 2 ^ 64" using assms by (rule power_strict_increasing) simp
  then have "unat (of_nat (2 ^ k) :: u64) = 2 ^ k"
    by (intro unat_of_nat_small) (simp only: len_num0 len_bit0 len_bit1 len_num1 mult_numeral_1_right, simp)
  then show ?thesis by (simp only: of_nat_power of_nat_numeral)
qed

lemma unat_pow2_iff: "(\<exists>k. unat x = 2 ^ k) \<longleftrightarrow> (\<exists>k<64. (x::u64) = 2 ^ k)"
proof
  assume "\<exists>k. unat x = 2 ^ k"
  then obtain k where k: "unat x = 2 ^ k" ..
  have "unat x < 2 ^ 64" using unsigned_less [of x] by (simp only: len_bit0 len_num1 mult_1_right, simp)
  then have less: "k < 64" unfolding k by (rule power_less_imp_less_exp [rotated]) simp
  moreover have "x = 2 ^ k"
    by (simp only: word_unat_eq_iff k unat_exp_u64 [OF less])
  ultimately show "\<exists>k<64. x = 2 ^ k" by blast
next
  assume "\<exists>k<64. x = 2 ^ k"
  then show "\<exists>k. unat x = 2 ^ k" using unat_exp_u64 by blast
qed

lemma IsZeroOrPowerOfTwo_iff:
  "IsZeroOrPowerOfTwo x \<longleftrightarrow> x = 0 \<or> (\<exists>k<64. x = 2 ^ k)"
proof (cases "x = 0")
  case True
  then show ?thesis by (simp add: IsZeroOrPowerOfTwo_def)
next
  case False
  then have minus: "unat (x - 1) = unat x - 1"
    by (rule unat_minus_one)
  have "IsZeroOrPowerOfTwo x \<longleftrightarrow> unat (x AND (x - 1)) = 0"
    by (simp only: IsZeroOrPowerOfTwo_def unsigned_eq_0_iff)
  also have "\<dots> \<longleftrightarrow> unat x AND (unat x - 1) = 0"
    by (simp only: unsigned_and_eq minus)
  also have "\<dots> \<longleftrightarrow> (\<exists>k. unat x = 2 ^ k)"
    using False by (simp only: and_minus_one_nat unsigned_eq_0_iff simp_thms)
  finally show ?thesis using False unat_pow2_iff by simp
qed

text \<open>
  The sizes a ring buffer is meant to have: a power of two that has room for a header and
  whose messages have a size of 32 bits. Below \<open>2 ^ 62\<close> the signed differences above tell the
  order of positions that are less than two buffers apart.
\<close>

definition good_size :: "u64 \<Rightarrow> bool" where
  "good_size bufSize \<longleftrightarrow> IsZeroOrPowerOfTwo bufSize \<and> 8 \<le> unat bufSize \<and> unat bufSize \<le> 2 ^ 32"

definition index_of :: "u64 \<Rightarrow> position \<Rightarrow> nat" where
  "index_of bufSize pos = unat pos mod unat bufSize"

lemma good_sizeE:
  assumes "good_size bufSize"
  obtains k where "3 \<le> k" "k \<le> 32" "bufSize = 2 ^ k" "unat bufSize = 2 ^ k"
proof -
  obtain k where k: "k < 64" "bufSize = 2 ^ k"
    using assms by (auto simp: good_size_def IsZeroOrPowerOfTwo_iff)
  then have u: "unat bufSize = 2 ^ k" using unat_exp_u64 by simp
  have "(2::nat) ^ 3 \<le> 2 ^ k" "(2::nat) ^ k \<le> 2 ^ 32"
    using assms u by (auto simp: good_size_def)
  then have "3 \<le> k" "k \<le> 32"
    by (metis one_less_numeral_iff power_le_imp_le_exp semiring_norm(76))+
  with k u show thesis using that by blast
qed

lemma good_size_bounds:
  assumes "good_size bufSize"
  shows "8 \<le> unat bufSize" "unat bufSize \<le> 2 ^ 32" "unat bufSize < 2 ^ 63" "0 < unat bufSize"
  using assms by (auto simp: good_size_def)

lemma BufIndex_mask:
  assumes "good_size bufSize"
  shows "unat (BufIndex (bufSize - 1) pos) = index_of bufSize pos"
proof -
  from assms obtain k where k: "k \<le> 32" "bufSize = 2 ^ k" "unat bufSize = 2 ^ k"
    by (rule good_sizeE)
  have "pos AND (bufSize - 1) = take_bit k pos"
    by (simp only: k(2) take_bit_eq_mask mask_eq_exp_minus_1)
  then have "unat (BufIndex (bufSize - 1) pos) = take_bit k (unat pos)"
    by (simp only: BufIndex_def unsigned_take_bit_eq)
  then show ?thesis by (simp only: index_of_def k(3) take_bit_eq_mod)
qed

lemma index_of_less: "good_size bufSize \<Longrightarrow> index_of bufSize pos < unat bufSize"
  using good_size_bounds(4) by (simp add: index_of_def)

lemma index_of_add:
  assumes "good_size bufSize"
  shows "index_of bufSize (pos + n) = (index_of bufSize pos + unat n) mod unat bufSize"
proof -
  from assms obtain k where k: "k \<le> 32" "unat bufSize = 2 ^ k" by (rule good_sizeE)
  have "(2::nat) ^ k dvd 2 ^ 64" using k by (intro le_imp_power_dvd) simp
  then have "unat (pos + n) mod 2 ^ k = (unat pos + unat n) mod 2 ^ k"
    by (simp add: unat_word_ariths mod_mod_cancel)
  then show ?thesis
    by (simp add: index_of_def k mod_add_left_eq)
qed

lemma index_of_wrap:
  assumes "good_size B"
  shows "index_of B (f + of_nat (unat B - index_of B f)) = 0"
proof -
  let ?r = "unat B - index_of B f"
  have "?r < 2 ^ 64" using good_size_bounds(2) [OF assms] by simp
  then have "index_of B (f + of_nat ?r) = (index_of B f + ?r) mod unat B"
    by (simp add: index_of_add [OF assms] unat_of_nat_small)
  then show ?thesis using index_of_less [OF assms, of f] by simp
qed

section \<open>Properties\<close>

text \<open>
  Expiry over the wrap of the position counter. For a stream end \<open>d\<close> bytes after a
  position, \<open>d\<close> at most half the counter's range, the position has expired exactly if a
  whole buffer or more has been written since, wherever the 64-bit counter wraps.
\<close>

lemma Expired_window:
  assumes "unat bufSize < 2 ^ 63" "unat d \<le> 2 ^ 63"
  shows "Expired pos (pos + d) bufSize \<longleftrightarrow> bufSize \<le> d"
  using Expired_dist [OF assms(1), of pos "pos + d"] assms(2) by (simp add: word_le_nat_alt)

lemma Expired_window_witness:
  "Expired (- 3) 61 64 \<and> \<not> Expired (- 3) 60 64"
  using Expired_window [of 64 64 "- 3"] Expired_window [of 64 63 "- 3"] by simp

text \<open>
  Buffer indexes. The constructor check accepts exactly zero and the powers of two, and
  with the mask it returns the index of every position is the position modulo the buffer
  size, hence inside the buffer.
\<close>

lemma IndexMask_BufIndex:
  assumes "IndexMask bufSize = Inr msk" "bufSize \<noteq> 0"
  shows "(\<exists>k<64. bufSize = 2 ^ k) \<and> unat (BufIndex msk pos) = unat pos mod unat bufSize
    \<and> BufIndex msk pos < bufSize"
proof -
  obtain k where k: "k < 64" "bufSize = 2 ^ k" and m: "msk = bufSize - 1"
    using assms IsZeroOrPowerOfTwo_iff [of bufSize] by (auto simp: IndexMask_def split: if_splits)
  have "BufIndex msk pos = take_bit k pos"
    by (simp add: BufIndex_def m k(2) take_bit_eq_mask mask_eq_exp_minus_1)
  then have "unat (BufIndex msk pos) = take_bit k (unat pos)" by (simp only: unsigned_take_bit_eq)
  then have "unat (BufIndex msk pos) = unat pos mod 2 ^ k" by (simp only: take_bit_eq_mod)
  then show ?thesis using k unat_exp_u64 [OF k(1)] by (auto simp: word_less_nat_alt)
qed

lemma IndexMask_BufIndex_witness:
  "unat (BufIndex 63 1000) = 1000 mod 64"
proof -
  have "IndexMask 64 = Inr 63" by (simp add: IndexMask_def IsZeroOrPowerOfTwo_def)
  from IndexMask_BufIndex [OF this, of 1000] show ?thesis by simp
qed

end
