(* ===== verification/RobustProcMutex.thy ===== *)
theory RobustProcMutex
  imports Prelude
begin

text \<open>
  traits/posix/robustProcMutex.hpp: the robust process-shared mutex. The pthread functions
  it calls are not part of the repository, so they are a parameter, a record of functions on
  an unspecified mutex representation \<open>'m\<close>. What POSIX documents of them is the locale
  \<open>robust_pthread\<close>, over a view of the representation; the locale \<open>robust_mutex\<close> is the
  interface the rest of the library uses, and the sublocale below shows that the class
  implements it on every pthread implementation that keeps the documented behaviour.
\<close>

type_synonym tid = nat

definition EOWNERDEAD :: int where
  "EOWNERDEAD = 130"

definition EBUSY :: int where
  "EBUSY = 16"

text \<open>
  \<open>pthread_lock\<close> answers \<open>None\<close> when the call blocks in the given state; the other calls
  return at once. Each takes the calling thread.
\<close>

record 'm pthread_api =
  pthread_init :: "int \<times> 'm"
  pthread_lock :: "tid \<Rightarrow> 'm \<Rightarrow> (int \<times> 'm) option"
  pthread_trylock :: "tid \<Rightarrow> 'm \<Rightarrow> int \<times> 'm"
  pthread_unlock :: "tid \<Rightarrow> 'm \<Rightarrow> int \<times> 'm"
  pthread_consistent :: "tid \<Rightarrow> 'm \<Rightarrow> int \<times> 'm"

section \<open>The class\<close>

definition mk_RobustProcMutex :: "'m pthread_api \<Rightarrow> 'm result" where
  "mk_RobustProcMutex pt =
     (case pthread_init pt of (r, m) \<Rightarrow> if r \<noteq> 0 then Inl Assertion else Inr m)"

definition SetConsistent :: "'m pthread_api \<Rightarrow> tid \<Rightarrow> int \<Rightarrow> 'm \<Rightarrow> (bool \<times> 'm) result" where
  "SetConsistent pt t lockResult m =
     (if lockResult = EOWNERDEAD
      then (case pthread_consistent pt t m of (r, m') \<Rightarrow>
              if r \<noteq> 0 then Inl Assertion else Inr (True, m'))
      else Inr (False, m))"

definition Lock :: "'m pthread_api \<Rightarrow> tid \<Rightarrow> 'm \<Rightarrow> 'm result" where
  "Lock pt t m =
     (case pthread_lock pt t m of
        None \<Rightarrow> Inl Blocked
      | Some (r, m') \<Rightarrow>
          (case SetConsistent pt t r m' of
             Inl e \<Rightarrow> Inl e
           | Inr (dead, m'') \<Rightarrow> if \<not> dead \<and> r \<noteq> 0 then Inl Assertion else Inr m''))"

definition TryLock :: "'m pthread_api \<Rightarrow> tid \<Rightarrow> 'm \<Rightarrow> (bool \<times> 'm) result" where
  "TryLock pt t m =
     (case pthread_trylock pt t m of (r, m') \<Rightarrow>
        if r = EBUSY then Inr (False, m')
        else if r = 0 then Inr (True, m')
        else (case SetConsistent pt t r m' of
                Inl e \<Rightarrow> Inl e
              | Inr (dead, m'') \<Rightarrow> if dead then Inr (True, m'') else Inl Assertion))"

definition Unlock :: "'m pthread_api \<Rightarrow> tid \<Rightarrow> 'm \<Rightarrow> 'm result" where
  "Unlock pt t m =
     (case pthread_unlock pt t m of (r, m') \<Rightarrow> if r \<noteq> 0 then Inl Assertion else Inr m')"

section \<open>The documented behaviour of the pthread calls\<close>

text \<open>
  What a thread can see of a robust mutex: free, held by a thread, held by a thread that
  has died, or held again after such a death but not yet marked consistent.
\<close>

datatype mutex_view = Free | Held tid | OwnerDied tid | Inconsistent tid

locale robust_pthread =
  fixes pt :: "'m pthread_api" and view :: "'m \<Rightarrow> mutex_view"
  assumes init_free: "fst (pthread_init pt) = 0 \<and> view (snd (pthread_init pt)) = Free"
    and lock_free: "view m = Free \<Longrightarrow> \<exists>m'. pthread_lock pt t m = Some (0, m') \<and> view m' = Held t"
    and lock_dead: "view m = OwnerDied d \<Longrightarrow>
      \<exists>m'. pthread_lock pt t m = Some (EOWNERDEAD, m') \<and> view m' = Inconsistent t"
    and lock_held: "view m = Held d \<Longrightarrow> pthread_lock pt t m = None"
    and trylock_free: "view m = Free \<Longrightarrow>
      \<exists>m'. pthread_trylock pt t m = (0, m') \<and> view m' = Held t"
    and trylock_dead: "view m = OwnerDied d \<Longrightarrow>
      \<exists>m'. pthread_trylock pt t m = (EOWNERDEAD, m') \<and> view m' = Inconsistent t"
    and trylock_held: "view m = Held d \<Longrightarrow> pthread_trylock pt t m = (EBUSY, m)"
    and unlock_held: "view m = Held t \<Longrightarrow>
      \<exists>m'. pthread_unlock pt t m = (0, m') \<and> view m' = Free"
    and consistent_ok: "view m = Inconsistent t \<Longrightarrow>
      \<exists>m'. pthread_consistent pt t m = (0, m') \<and> view m' = Held t"

section \<open>The interface the ring buffer and the reader slots rely on\<close>

text \<open>
  \<open>holder\<close> says who holds the mutex: \<open>None\<close> when it can be acquired, because it is free
  or because its owner has died.
\<close>

fun holder_of :: "mutex_view \<Rightarrow> tid option" where
  "holder_of Free = None"
| "holder_of (Held t) = Some t"
| "holder_of (OwnerDied t) = None"
| "holder_of (Inconsistent t) = Some t"

locale robust_mutex =
  fixes lock :: "tid \<Rightarrow> 'm \<Rightarrow> 'm result"
    and trylock :: "tid \<Rightarrow> 'm \<Rightarrow> (bool \<times> 'm) result"
    and unlock :: "tid \<Rightarrow> 'm \<Rightarrow> 'm result"
    and holder :: "'m \<Rightarrow> tid option"
    and ok :: "'m \<Rightarrow> bool"
  assumes lock_acquires: "ok m \<Longrightarrow> holder m = None \<Longrightarrow>
      \<exists>m'. lock t m = Inr m' \<and> ok m' \<and> holder m' = Some t"
    and lock_blocks: "ok m \<Longrightarrow> holder m = Some d \<Longrightarrow> lock t m = Inl Blocked"
    and trylock_acquires: "ok m \<Longrightarrow> holder m = None \<Longrightarrow>
      \<exists>m'. trylock t m = Inr (True, m') \<and> ok m' \<and> holder m' = Some t"
    and trylock_busy: "ok m \<Longrightarrow> holder m = Some d \<Longrightarrow> trylock t m = Inr (False, m)"
    and unlock_releases: "ok m \<Longrightarrow> holder m = Some t \<Longrightarrow>
      \<exists>m'. unlock t m = Inr m' \<and> ok m' \<and> holder m' = None"
begin

lemma lock_unlock:
  assumes "ok m" "holder m = None"
  shows "\<exists>m' m''. lock t m = Inr m' \<and> unlock t m' = Inr m'' \<and> ok m'' \<and> holder m'' = None"
  using lock_acquires [OF assms, of t] unlock_releases by fastforce

lemma trylock_total:
  assumes "ok m"
  shows "\<exists>b m'. trylock t m = Inr (b, m') \<and> ok m' \<and> b = (holder m = None) \<and>
    holder m' = (if b then Some t else holder m)"
proof (cases "holder m")
  case None
  then show ?thesis using trylock_acquires [OF assms None, of t] by auto
next
  case (Some d)
  then show ?thesis using trylock_busy [OF assms Some, of t] assms by auto
qed

lemma no_double_hold:
  assumes "ok m" "trylock t m = Inr (True, m')"
  shows "trylock u m' = Inr (False, m')"
  using trylock_total [OF assms(1), of t] trylock_busy assms(2) by fastforce

end

text \<open>
  A mutex a user of the class can meet between calls is never in the inconsistent state:
  the class marks it consistent before it returns.
\<close>

definition settled :: "mutex_view \<Rightarrow> bool" where
  "settled v \<longleftrightarrow> (\<forall>t. v \<noteq> Inconsistent t)"

lemma settled_simps [simp]:
  "settled Free" "settled (Held t)" "settled (OwnerDied t)" "\<not> settled (Inconsistent t)"
  by (simp_all add: settled_def)

lemma settled_holder_None: "settled v \<Longrightarrow> holder_of v = None \<Longrightarrow> v = Free \<or> (\<exists>d. v = OwnerDied d)"
  by (cases v) auto

lemma settled_holder_Some: "settled v \<Longrightarrow> holder_of v = Some d \<Longrightarrow> v = Held d"
  by (cases v) auto

lemma errno_distinct [simp]: "EOWNERDEAD \<noteq> 0" "EBUSY \<noteq> 0" "EOWNERDEAD \<noteq> EBUSY" "0 \<noteq> EBUSY"
  by (simp_all add: EOWNERDEAD_def EBUSY_def)

context robust_pthread
begin

lemma Lock_acquires:
  assumes "settled (view m)" "holder_of (view m) = None"
  shows "\<exists>m'. Lock pt t m = Inr m' \<and> view m' = Held t"
proof -
  consider "view m = Free" | d where "view m = OwnerDied d"
    using settled_holder_None [OF assms] by blast
  then show ?thesis
  proof cases
    case 1
    then show ?thesis using lock_free [OF 1, of t] by (auto simp: Lock_def SetConsistent_def)
  next
    case (2 d)
    then obtain m1 where m1: "pthread_lock pt t m = Some (EOWNERDEAD, m1)" "view m1 = Inconsistent t"
      using lock_dead by blast
    then show ?thesis using consistent_ok [OF m1(2)] by (auto simp: Lock_def SetConsistent_def)
  qed
qed

lemma TryLock_acquires:
  assumes "settled (view m)" "holder_of (view m) = None"
  shows "\<exists>m'. TryLock pt t m = Inr (True, m') \<and> view m' = Held t"
proof -
  consider "view m = Free" | d where "view m = OwnerDied d"
    using settled_holder_None [OF assms] by blast
  then show ?thesis
  proof cases
    case 1
    then show ?thesis using trylock_free [OF 1, of t] by (auto simp: TryLock_def)
  next
    case (2 d)
    then obtain m1 where m1: "pthread_trylock pt t m = (EOWNERDEAD, m1)" "view m1 = Inconsistent t"
      using trylock_dead by blast
    then show ?thesis using consistent_ok [OF m1(2)] by (auto simp: TryLock_def SetConsistent_def)
  qed
qed

lemma Lock_blocks: "view m = Held d \<Longrightarrow> Lock pt t m = Inl Blocked"
  by (simp add: Lock_def lock_held)

lemma TryLock_busy: "view m = Held d \<Longrightarrow> TryLock pt t m = Inr (False, m)"
  by (simp add: TryLock_def trylock_held)

lemma Unlock_releases: "view m = Held t \<Longrightarrow> \<exists>m'. Unlock pt t m = Inr m' \<and> view m' = Free"
  using unlock_held by (fastforce simp: Unlock_def)

end

sublocale robust_pthread \<subseteq>
  rpm: robust_mutex "Lock pt" "TryLock pt" "Unlock pt" "\<lambda>m. holder_of (view m)" "\<lambda>m. settled (view m)"
proof unfold_locales
  fix m t assume "settled (view m)" "holder_of (view m) = None"
  then show "\<exists>m'. Lock pt t m = Inr m' \<and> settled (view m') \<and> holder_of (view m') = Some t"
    using Lock_acquires by fastforce
next
  fix m t d assume "settled (view m)" "holder_of (view m) = Some d"
  then show "Lock pt t m = Inl Blocked"
    using settled_holder_Some Lock_blocks by blast
next
  fix m t assume "settled (view m)" "holder_of (view m) = None"
  then show "\<exists>m'. TryLock pt t m = Inr (True, m') \<and> settled (view m') \<and> holder_of (view m') = Some t"
    using TryLock_acquires by fastforce
next
  fix m t d assume "settled (view m)" "holder_of (view m) = Some d"
  then show "TryLock pt t m = Inr (False, m)"
    using settled_holder_Some TryLock_busy by blast
next
  fix m t assume "settled (view m)" "holder_of (view m) = Some t"
  then show "\<exists>m'. Unlock pt t m = Inr m' \<and> settled (view m') \<and> holder_of (view m') = None"
    using settled_holder_Some Unlock_releases by fastforce
qed

section \<open>An implementation with the documented behaviour\<close>

text \<open>
  The POSIX text read as a state machine: an instance of the parameter, used to discharge
  the locale and in the witnesses.
\<close>

definition posix_pthread :: "mutex_view pthread_api" where
  "posix_pthread =
     \<lparr> pthread_init = (0, Free),
       pthread_lock = (\<lambda>t m. case m of
           Free \<Rightarrow> Some (0, Held t) | OwnerDied d \<Rightarrow> Some (EOWNERDEAD, Inconsistent t) | _ \<Rightarrow> None),
       pthread_trylock = (\<lambda>t m. case m of
           Free \<Rightarrow> (0, Held t) | OwnerDied d \<Rightarrow> (EOWNERDEAD, Inconsistent t) | _ \<Rightarrow> (EBUSY, m)),
       pthread_unlock = (\<lambda>t m. if m = Held t \<or> m = Inconsistent t then (0, Free) else (1, m)),
       pthread_consistent = (\<lambda>t m. if m = Inconsistent t then (0, Held t) else (22, m)) \<rparr>"

interpretation posix: robust_pthread posix_pthread id
  by unfold_locales (auto simp: posix_pthread_def)

text \<open>The death of a thread: what the kernel does to a mutex it holds.\<close>

definition thread_death :: "tid \<Rightarrow> mutex_view \<Rightarrow> mutex_view" where
  "thread_death t v = (if holder_of v = Some t then OwnerDied t else v)"

section \<open>Properties\<close>

text \<open>
  C25: Recovery and exclusion. On every pthread implementation that behaves as documented, a
  mutex whose owner died is acquired by Lock and by TryLock alike without an assertion
  failing, is then held exclusively (TryLock of any thread fails, Lock blocks), and is free
  after the owner's Unlock.
\<close>

theorem RobustProcMutex_recovers:
  assumes "robust_pthread pt view" "view m = OwnerDied d"
  shows "\<exists>m1 m2 m3. Lock pt t m = Inr m1 \<and> view m1 = Held t \<and> TryLock pt t m = Inr (True, m2) \<and> view m2 = Held t
    \<and> TryLock pt u m1 = Inr (False, m1) \<and> Lock pt u m1 = Inl Blocked
    \<and> Unlock pt t m1 = Inr m3 \<and> view m3 = Free"
proof -
  have free: "settled (view m)" "holder_of (view m) = None" using assms(2) by simp_all
  obtain m1 where m1: "Lock pt t m = Inr m1" "view m1 = Held t"
    using robust_pthread.Lock_acquires [OF assms(1) free] by blast
  moreover obtain m2 where "TryLock pt t m = Inr (True, m2)" "view m2 = Held t"
    using robust_pthread.TryLock_acquires [OF assms(1) free] by blast
  moreover obtain m3 where "Unlock pt t m1 = Inr m3" "view m3 = Free"
    using robust_pthread.Unlock_releases [OF assms(1) m1(2)] by blast
  ultimately show ?thesis
    using robust_pthread.TryLock_busy [OF assms(1) m1(2)] robust_pthread.Lock_blocks [OF assms(1) m1(2)] by auto
qed

theorem RobustProcMutex_recovers_witness:
  "\<exists>m1. Lock posix_pthread 2 (thread_death 1 (Held 1)) = Inr m1 \<and> TryLock posix_pthread 3 m1 = Inr (False, m1)"
  using RobustProcMutex_recovers [OF posix.robust_pthread_axioms, of "thread_death 1 (Held 1)" 1 2 3]
  by (auto simp: thread_death_def)

end
