(* ===== verification/ByteRingBuffer.thy ===== *)
theory ByteRingBuffer
  imports Positions RobustProcMutex
begin

text \<open>
  rmp/byteRingBuffer.hpp: the ring buffer in shared memory, a header followed by
  \<open>configBufSizeBytes\<close> bytes. The size of the header itself is fixed by the ABI and is a
  parameter of \<open>Size\<close>.
\<close>

record 'm ByteRingBuffer =
  configBufSizeBytes :: u64
  writerMtx :: 'm
  freePos :: position
  backPressureCount :: u64
  notificationCount :: u64
  rb_initialized :: bool
  rb_data :: bytes

definition ByteRingBuffer_Size :: "u64 \<Rightarrow> u32 \<Rightarrow> u32" where
  "ByteRingBuffer_Size sizeof_self configBufSize = ucast (sizeof_self + ucast configBufSize)"

text \<open>
  The constructor is a placement new on shared memory: the bytes after the header keep the
  value \<open>mem\<close> they had.
\<close>

definition mk_ByteRingBuffer :: "'m pthread_api \<Rightarrow> bytes \<Rightarrow> u64 \<Rightarrow> 'm ByteRingBuffer result" where
  "mk_ByteRingBuffer pt mem bufSizeBytes =
     (case mk_RobustProcMutex pt of
        Inl e \<Rightarrow> Inl e
      | Inr mtx \<Rightarrow> Inr
          \<lparr> configBufSizeBytes = bufSizeBytes, writerMtx = mtx, freePos = 0,
            backPressureCount = 0, notificationCount = 0, rb_initialized = True,
            rb_data = mem \<rparr>)"

definition ring_get :: "'m ByteRingBuffer \<Rightarrow> int \<Rightarrow> u8 result" where
  "ring_get rb index =
     (if 0 \<le> index \<and> nat index < length (rb_data rb) then Inr (rb_data rb ! nat index)
      else Inl OutOfBounds)"

definition ring_set :: "'m ByteRingBuffer \<Rightarrow> int \<Rightarrow> u8 \<Rightarrow> 'm ByteRingBuffer result" where
  "ring_set rb index v =
     (if 0 \<le> index \<and> nat index < length (rb_data rb)
      then Inr (rb\<lparr>rb_data := (rb_data rb)[nat index := v]\<rparr>)
      else Inl OutOfBounds)"

text \<open>A ring buffer that was constructed on memory of its size.\<close>

definition rb_ok :: "'m ByteRingBuffer \<Rightarrow> bool" where
  "rb_ok rb \<longleftrightarrow> good_size (configBufSizeBytes rb) \<and> length (rb_data rb) = unat (configBufSizeBytes rb)"

lemma rb_ok_good_size: "rb_ok rb \<Longrightarrow> good_size (configBufSizeBytes rb)"
  by (simp add: rb_ok_def)

lemma rb_ok_length: "rb_ok rb \<Longrightarrow> length (rb_data rb) = unat (configBufSizeBytes rb)"
  by (simp add: rb_ok_def)

lemma ring_get_set:
  "ring_set rb i v = Inr rb' \<Longrightarrow> ring_get rb' j = (if i = j then Inr v else ring_get rb j)"
  by (auto simp: ring_set_def ring_get_def nth_list_update split: if_splits)

end
