(* ===== verification/RingStream.thy ===== *)
theory RingStream
  imports MsgHeader ByteRingBuffer
begin

text \<open>
  The abstract view of the ring: the stream as a list of segments. A segment is what one
  reading step consumes: the blank bytes before the end of the buffer where not even a
  header fits, a padding run with its header, or a message. \<open>on_ring\<close> says that the bytes
  of the buffer from a position on hold a list of segments; it is the representation
  relation of the refinement between the byte buffer and the stream.
\<close>

datatype segment = Blank nat | Pad nat | Msg bytes

fun seg_len :: "segment \<Rightarrow> nat" where
  "seg_len (Blank n) = n"
| "seg_len (Pad n) = 5 + n"
| "seg_len (Msg d) = 5 + length d"

text \<open>The segments whose header the reader accepts (\<open>Valid\<close> refuses length zero).\<close>

fun seg_valid :: "segment \<Rightarrow> bool" where
  "seg_valid (Blank n) \<longleftrightarrow> True"
| "seg_valid (Pad n) \<longleftrightarrow> n \<noteq> 0"
| "seg_valid (Msg d) \<longleftrightarrow> d \<noteq> []"

fun seg_msgs :: "segment \<Rightarrow> bytes list" where
  "seg_msgs (Msg d) = [d]"
| "seg_msgs s = []"

definition total :: "segment list \<Rightarrow> nat" where
  "total ss = sum_list (map seg_len ss)"

definition messages :: "segment list \<Rightarrow> bytes list" where
  "messages ss = concat (map seg_msgs ss)"

lemma total_simps [simp]:
  "total [] = 0" "total (s # ss) = seg_len s + total ss" "total (ss @ ts) = total ss + total ts"
  by (simp_all add: total_def)

lemma messages_simps [simp]:
  "messages [] = []" "messages (s # ss) = seg_msgs s @ messages ss"
  "messages (ss @ ts) = messages ss @ messages ts"
  by (simp_all add: messages_def)

fun stored :: "u64 \<Rightarrow> bytes \<Rightarrow> position \<Rightarrow> segment \<Rightarrow> bool" where
  "stored B m p (Blank n) \<longleftrightarrow> index_of B p + n = unat B \<and> 0 < n \<and> n < 5"
| "stored B m p (Pad n) \<longleftrightarrow> index_of B p + 5 + n = unat B \<and>
     take 5 (drop (index_of B p) m) = hdr_bytes \<lparr> hdr_type = PADDING, hdr_length = of_nat n \<rparr>"
| "stored B m p (Msg d) \<longleftrightarrow> index_of B p + 5 + length d \<le> unat B \<and>
     take 5 (drop (index_of B p) m) = hdr_bytes \<lparr> hdr_type = MSG, hdr_length = of_nat (length d) \<rparr> \<and>
     take (length d) (drop (index_of B p + 5) m) = d"

fun on_ring :: "u64 \<Rightarrow> bytes \<Rightarrow> position \<Rightarrow> segment list \<Rightarrow> bool" where
  "on_ring B m p [] \<longleftrightarrow> True"
| "on_ring B m p (s # ss) \<longleftrightarrow> stored B m p s \<and> on_ring B m (p + of_nat (seg_len s)) ss"

lemma on_ring_append:
  "on_ring B m p (ss @ ts) \<longleftrightarrow> on_ring B m p ss \<and> on_ring B m (p + of_nat (total ss)) ts"
  by (induction ss arbitrary: p) (auto simp: add.assoc)

lemma stored_in_buffer: "stored B m p s \<Longrightarrow> index_of B p + seg_len s \<le> unat B"
  by (cases s) auto

lemma stored_seg_len_pos: "stored B m p s \<Longrightarrow> 0 < seg_len s"
  by (cases s) auto

text \<open>A segment depends on its own bytes only.\<close>

lemma stored_cong:
  assumes "stored B m p s"
    and "take (seg_len s) (drop (index_of B p) m') = take (seg_len s) (drop (index_of B p) m)"
  shows "stored B m' p s"
proof -
  have "take k (drop j m') = take k (drop j m)"
    if "index_of B p \<le> j" "j + k \<le> index_of B p + seg_len s" for j k
  proof -
    let ?i = "index_of B p"
    have "take k (drop (j - ?i) (take (seg_len s) (drop ?i x))) = take k (drop j x)" for x :: bytes
      using that by (simp add: drop_take min_absorb1)
    then show ?thesis using assms(2) by metis
  qed
  with assms(1) show ?thesis by (cases s) auto
qed

text \<open>Two runs of bytes that are disjoint on the stream are disjoint in the buffer.\<close>

lemma disjoint_mod:
  fixes S :: nat
  assumes "i + len \<le> S" "j + w \<le> S" "j = (i + d) mod S" "len \<le> d" "d + w \<le> S" "0 < S" "i < S"
  shows "i + len \<le> j \<or> j + w \<le> i"
proof (cases "i + d < S")
  case True
  then show ?thesis using assms by simp
next
  case False
  then have "j = i + d - S \<or> i + d - S = S"
    using assms by (auto simp: mod_if)
  then show ?thesis using assms False by auto
qed

lemma stored_patch:
  assumes good: "good_size B" and len: "length m = unat B"
    and st: "stored B m p s" and d: "seg_len s \<le> d" "d + length xs \<le> unat B"
    and j: "j = index_of B (p + of_nat d)" "j + length xs \<le> unat B"
  shows "stored B (patch j xs m) p s"
proof (rule stored_cong [OF st])
  have "d < 2 ^ 64" using d(2) good_size_bounds(2) [OF good] by simp
  then have "j = (index_of B p + d) mod unat B"
    by (simp add: j(1) index_of_add [OF good] unat_of_nat_small)
  then have "index_of B p + seg_len s \<le> j \<or> j + length xs \<le> index_of B p"
    using stored_in_buffer [OF st] j(2) d good_size_bounds(4) [OF good] index_of_less [OF good]
    by (intro disjoint_mod [where d = d and S = "unat B"]) auto
  then show "take (seg_len s) (drop (index_of B p) (patch j xs m)) = take (seg_len s) (drop (index_of B p) m)"
    using j(2) stored_in_buffer [OF st] len by (intro read_patch_disjoint) auto
qed

text \<open>
  The frame of a store: segments that end before the store on the stream, and begin at most
  one buffer length before its end, are untouched.
\<close>

lemma on_ring_patch:
  assumes good: "good_size B" and len: "length m = unat B"
    and "on_ring B m p ss" "total ss \<le> d" "d + length xs \<le> unat B"
    and "j = index_of B (p + of_nat d)" "j + length xs \<le> unat B"
  shows "on_ring B (patch j xs m) p ss"
  using assms(3-7)
proof (induction ss arbitrary: p d)
  case Nil
  then show ?case by simp
next
  case (Cons s ss)
  have le: "seg_len s \<le> d" using Cons.prems(2) by simp
  have "(of_nat d :: position) = of_nat (seg_len s) + of_nat (d - seg_len s)"
    by (simp only: flip: of_nat_add) (simp only: le_add_diff_inverse [OF le])
  then have j: "j = index_of B (p + of_nat (seg_len s) + of_nat (d - seg_len s))"
    using Cons.prems(4) by (simp only: add.assoc)
  have "on_ring B (patch j xs m) (p + of_nat (seg_len s)) ss"
  proof (rule Cons.IH [OF _ _ _ j])
    show "on_ring B m (p + of_nat (seg_len s)) ss" using Cons.prems(1) by simp
    show "total ss \<le> d - seg_len s" "d - seg_len s + length xs \<le> unat B"
      using Cons.prems(2,3) by simp_all
  qed (fact Cons.prems(5))
  moreover have "stored B (patch j xs m) p s"
    by (rule stored_patch [OF good len _ le]) (use Cons.prems in simp_all)
  ultimately show ?case by simp
qed

end
