(* ===== verification/SlotTable.thy ===== *)
theory SlotTable
  imports Prelude
begin

text \<open>
  The interface between the writer and the table of reader slots. \<open>search_slots\<close> is the
  loop the writer runs over the slots of the published range (rmp/writer.hpp,
  DetectReaderBackpressure); the locale \<open>slot_table\<close> is what the writer relies on: slots in
  range can be read, and every active slot lies in the published range. Its lemmas say that
  the loop then sees exactly what a loop over all slots would see.
\<close>

fun search_slots :: "(int \<Rightarrow> 'i result) \<Rightarrow> ('i \<Rightarrow> 'r option) \<Rightarrow> nat \<Rightarrow> nat \<Rightarrow> 'r option result" where
  "search_slots get f i 0 = Inr None"
| "search_slots get f i (Suc k) =
     (case get (int i) of
        Inl e \<Rightarrow> Inl e
      | Inr info \<Rightarrow> (case f info of Some r \<Rightarrow> Inr (Some r) | None \<Rightarrow> search_slots get f (Suc i) k))"

lemma search_slots_append:
  "search_slots get f i (j + k) =
     (case search_slots get f i j of Inr None \<Rightarrow> search_slots get f (i + j) k | r \<Rightarrow> r)"
  by (induction get f i j rule: search_slots.induct) (auto split: sum.splits option.splits)

lemma search_slots_none:
  assumes "\<And>x. i \<le> x \<Longrightarrow> x < i + k \<Longrightarrow> \<exists>info. get (int x) = Inr info \<and> f info = None"
  shows "search_slots get f i k = Inr None"
  using assms
proof (induction k arbitrary: i)
  case 0
  then show ?case by simp
next
  case (Suc k)
  obtain info where "get (int i) = Inr info" "f info = None" using Suc.prems [of i] by auto
  moreover have "search_slots get f (Suc i) k = Inr None" using Suc.prems by (intro Suc.IH) auto
  ultimately show ?case by simp
qed

lemma search_slots_Inr_None:
  assumes "search_slots get f i k = Inr None" "i \<le> x" "x < i + k"
  shows "\<exists>info. get (int x) = Inr info \<and> f info = None"
  using assms
proof (induction k arbitrary: i)
  case 0
  then show ?case by simp
next
  case (Suc k)
  then show ?case by (cases "x = i") (auto split: sum.splits option.splits)
qed

lemma search_slots_Inr_Some:
  assumes "search_slots get f i k = Inr (Some r)"
  shows "\<exists>x info. i \<le> x \<and> x < i + k \<and> get (int x) = Inr info \<and> f info = Some r"
  using assms
proof (induction k arbitrary: i)
  case 0
  then show ?case by simp
next
  case (Suc k)
  then obtain info where info: "get (int i) = Inr info" by (cases "get (int i)") auto
  show ?case
  proof (cases "f info")
    case None
    then have "search_slots get f (Suc i) k = Inr (Some r)" using Suc.prems info by simp
    then obtain x j where "Suc i \<le> x" "x < Suc i + k" "get (int x) = Inr j" "f j = Some r"
      using Suc.IH by blast
    then show ?thesis by (intro exI [of _ x] exI [of _ j]) simp
  next
    case (Some q)
    then show ?thesis using Suc.prems info by (intro exI [of _ i] exI [of _ info]) simp
  qed
qed

lemma search_slots_total:
  assumes "\<And>x. i \<le> x \<Longrightarrow> x < i + k \<Longrightarrow> \<exists>info. get (int x) = Inr info"
  shows "\<exists>r. search_slots get f i k = Inr r"
  using assms
proof (induction k arbitrary: i)
  case 0
  then show ?case by simp
next
  case (Suc k)
  obtain info where "get (int i) = Inr info" using Suc.prems [of i] by auto
  moreover have "\<exists>r. search_slots get f (Suc i) k = Inr r" using Suc.prems by (intro Suc.IH) auto
  ultimately show ?case by (auto split: option.splits)
qed

locale slot_table =
  fixes rng :: "'t \<Rightarrow> u16 \<times> u16"
    and get :: "'t \<Rightarrow> int \<Rightarrow> 'i result"
    and active :: "'i \<Rightarrow> bool"
    and count :: "'t \<Rightarrow> nat"
    and inv :: "'t \<Rightarrow> bool"
  assumes get_slot: "inv t \<Longrightarrow> i < count t \<Longrightarrow> \<exists>info. get t (int i) = Inr info"
    and covers: "inv t \<Longrightarrow> i < count t \<Longrightarrow> get t (int i) = Inr info \<Longrightarrow> active info \<Longrightarrow>
      unat (fst (rng t)) \<le> i \<and> i < unat (snd (rng t))"
    and bounded: "inv t \<Longrightarrow> unat (snd (rng t)) \<le> count t"
begin

definition search_range :: "'t \<Rightarrow> ('i \<Rightarrow> 'r option) \<Rightarrow> 'r option result" where
  "search_range t f =
     search_slots (get t) f (unat (fst (rng t))) (unat (snd (rng t)) - unat (fst (rng t)))"

lemma search_range_total: "inv t \<Longrightarrow> \<exists>r. search_range t f = Inr r"
  unfolding search_range_def
  using bounded [of t] by (intro search_slots_total get_slot) auto

lemma search_range_None:
  assumes "inv t" "\<And>info r. f info = Some r \<Longrightarrow> active info"
  shows "search_range t f = Inr None \<longleftrightarrow>
    (\<forall>i info. i < count t \<longrightarrow> get t (int i) = Inr info \<longrightarrow> f info = None)"
proof
  assume none: "search_range t f = Inr None"
  show "\<forall>i info. i < count t \<longrightarrow> get t (int i) = Inr info \<longrightarrow> f info = None"
  proof (intro allI impI)
    fix i info assume i: "i < count t" "get t (int i) = Inr info"
    show "f info = None"
    proof (rule ccontr)
      assume "f info \<noteq> None"
      then have "active info" using assms(2) by auto
      from covers [OF assms(1) i this] search_slots_Inr_None [OF none [unfolded search_range_def], of i]
      show False using i(2) \<open>f info \<noteq> None\<close> by auto
    qed
  qed
next
  assume all: "\<forall>i info. i < count t \<longrightarrow> get t (int i) = Inr info \<longrightarrow> f info = None"
  show "search_range t f = Inr None"
    unfolding search_range_def
  proof (rule search_slots_none)
    fix x assume "x < unat (fst (rng t)) + (unat (snd (rng t)) - unat (fst (rng t)))" "unat (fst (rng t)) \<le> x"
    then have "x < count t" using bounded [OF assms(1)] by simp
    then show "\<exists>info. get t (int x) = Inr info \<and> f info = None"
      using get_slot [OF assms(1)] all by blast
  qed
qed

lemma search_range_Some:
  assumes "inv t" "search_range t f = Inr (Some r)"
  shows "\<exists>i info. i < count t \<and> get t (int i) = Inr info \<and> f info = Some r"
proof -
  obtain x info where "x < unat (fst (rng t)) + (unat (snd (rng t)) - unat (fst (rng t)))"
      "unat (fst (rng t)) \<le> x" "get t (int x) = Inr info" "f info = Some r"
    using search_slots_Inr_Some [OF assms(2) [unfolded search_range_def]] by blast
  moreover from this have "x < count t" using bounded [OF assms(1)] by simp
  ultimately show ?thesis by blast
qed

end

end
