(* ===== verification/RmpReaderInfo.thy ===== *)
theory RmpReaderInfo
  imports Positions RobustProcMutex SlotTable
begin

text \<open>
  rmp/readerInfo.hpp: the shared table of reader slots. A slot is allocated by locking its
  mutex, activated with a stream position, deactivated and freed; writers look at the
  positions of the active slots in a published range [min, max). This theory has every
  operation as it runs without interference from other processes; ActiveRangeRace takes
  UpdateActiveRange apart into the steps that interleave.
\<close>

type_synonym reader_id = int

definition INVALID_READER_ID :: reader_id where
  "INVALID_READER_ID = -1"

record 'm Info =
  info_lock :: 'm
  info_position :: position
  info_isActive :: u8

record 'm ReaderInfo =
  expiredReaders :: u64
  ri_initialized :: bool
  configMaxReaders :: u16
  readersMinMax :: u32
  ri_slots :: "'m Info list"

definition slot_active :: "'m Info \<Rightarrow> bool" where
  "slot_active info \<longleftrightarrow> info_isActive info \<noteq> 0"

section \<open>Construction\<close>

definition ReaderInfo_Size :: "u64 \<Rightarrow> u64 \<Rightarrow> u16 \<Rightarrow> u32" where
  "ReaderInfo_Size sizeof_self sizeof_info maxReaders =
     ucast (sizeof_self + ucast maxReaders * sizeof_info)"

definition new_info :: "'m \<Rightarrow> 'm Info" where
  "new_info mtx = \<lparr> info_lock = mtx, info_position = 0, info_isActive = 0 \<rparr>"

definition mk_ReaderInfo :: "'m pthread_api \<Rightarrow> u16 \<Rightarrow> 'm ReaderInfo result" where
  "mk_ReaderInfo pt maxReaders =
     (if maxReaders = 0 then Inr \<lparr> expiredReaders = 0, ri_initialized = True,
         configMaxReaders = maxReaders, readersMinMax = 0, ri_slots = [] \<rparr>
      else (case mk_RobustProcMutex pt of
        Inl e \<Rightarrow> Inl e
      | Inr mtx \<Rightarrow> Inr \<lparr> expiredReaders = 0, ri_initialized = True,
         configMaxReaders = maxReaders, readersMinMax = 0,
         ri_slots = replicate (unat maxReaders) (new_info mtx) \<rparr>))"

section \<open>The published range of active slots\<close>

text \<open>One iteration of the scan, and the scan over the slots from index \<open>i\<close> on.\<close>

definition scan_slot :: "nat \<Rightarrow> bool \<Rightarrow> u16 \<times> u16 \<Rightarrow> u16 \<times> u16" where
  "scan_slot i active acc =
     (case acc of (mn, mx) \<Rightarrow>
        if active
        then (if i < unat mn then of_nat i else mn, if unat mx < i then of_nat i else mx)
        else (mn, mx))"

fun scan_from :: "nat \<Rightarrow> bool list \<Rightarrow> u16 \<times> u16 \<Rightarrow> u16 \<times> u16" where
  "scan_from i [] acc = acc"
| "scan_from i (a # as) acc = scan_from (Suc i) as (scan_slot i a acc)"

definition pack_range :: "u16 \<times> u16 \<Rightarrow> u32" where
  "pack_range acc = (case acc of (mn, mx) \<Rightarrow> push_bit 16 (ucast mn) OR (ucast mx + 1))"

definition active_flags :: "'m ReaderInfo \<Rightarrow> bool list" where
  "active_flags ri = map slot_active (take (unat (configMaxReaders ri)) (ri_slots ri))"

definition UpdateActiveRange :: "'m ReaderInfo \<Rightarrow> 'm ReaderInfo" where
  "UpdateActiveRange ri =
     ri\<lparr>readersMinMax := pack_range (scan_from 0 (active_flags ri) (configMaxReaders ri, 0))\<rparr>"

definition range_min :: "u32 \<Rightarrow> u16" where
  "range_min packed = ucast (drop_bit 16 packed)"

definition range_max :: "u32 \<Rightarrow> u16" where
  "range_max packed = ucast packed"

definition GetActiveRange :: "'m ReaderInfo \<Rightarrow> u16 \<times> u16" where
  "GetActiveRange ri = (range_min (readersMinMax ri), range_max (readersMinMax ri))"

definition Get :: "'m ReaderInfo \<Rightarrow> reader_id \<Rightarrow> 'm Info result" where
  "Get ri readerId =
     (if 0 \<le> readerId \<and> nat readerId < unat (configMaxReaders ri)
      then (if nat readerId < length (ri_slots ri) then Inr (ri_slots ri ! nat readerId)
            else Inl OutOfBounds)
      else Inl Assertion)"

section \<open>The slot life cycle\<close>

definition update_slot :: "reader_id \<Rightarrow> ('m Info \<Rightarrow> 'm Info) \<Rightarrow> 'm ReaderInfo \<Rightarrow> 'm ReaderInfo result" where
  "update_slot readerId f ri =
     (if 0 \<le> readerId \<and> nat readerId < length (ri_slots ri)
      then Inr (ri\<lparr>ri_slots := (ri_slots ri)[nat readerId := f (ri_slots ri ! nat readerId)]\<rparr>)
      else Inl OutOfBounds)"

definition Activate :: "reader_id \<Rightarrow> position \<Rightarrow> 'm ReaderInfo \<Rightarrow> 'm ReaderInfo result" where
  "Activate readerId pos ri =
     (if readerId = INVALID_READER_ID then Inr ri
      else map_sum id UpdateActiveRange
        (update_slot readerId (\<lambda>info. info\<lparr>info_position := pos, info_isActive := 1\<rparr>) ri))"

definition Deactivate :: "reader_id \<Rightarrow> 'm ReaderInfo \<Rightarrow> 'm ReaderInfo result" where
  "Deactivate readerId ri =
     (if readerId = INVALID_READER_ID then Inr ri
      else map_sum id UpdateActiveRange
        (update_slot readerId (\<lambda>info. info\<lparr>info_isActive := 0\<rparr>) ri))"

text \<open>
  The loop of \<open>Alloc\<close> from index \<open>i\<close> with \<open>n\<close> slots left to try; a slot is taken by the
  calling thread \<open>t\<close>.
\<close>

fun Alloc_from :: "'m pthread_api \<Rightarrow> tid \<Rightarrow> nat \<Rightarrow> nat \<Rightarrow> 'm ReaderInfo \<Rightarrow> (reader_id \<times> 'm ReaderInfo) result" where
  "Alloc_from pt t i 0 ri = Inr (INVALID_READER_ID, ri)"
| "Alloc_from pt t i (Suc n) ri =
     (if i < length (ri_slots ri)
      then (case TryLock pt t (info_lock (ri_slots ri ! i)) of
              Inl e \<Rightarrow> Inl e
            | Inr (acquired, m) \<Rightarrow>
                (let ri' = ri\<lparr>ri_slots := (ri_slots ri)[i := (ri_slots ri ! i)\<lparr>info_lock := m\<rparr>]\<rparr>
                 in if acquired then map_sum id (\<lambda>ri''. (int i, ri'')) (Deactivate (int i) ri')
                    else Alloc_from pt t (Suc i) n ri'))
      else Inl OutOfBounds)"

definition Alloc :: "'m pthread_api \<Rightarrow> tid \<Rightarrow> 'm ReaderInfo \<Rightarrow> (reader_id \<times> 'm ReaderInfo) result" where
  "Alloc pt t ri = Alloc_from pt t 0 (unat (configMaxReaders ri)) ri"

definition Free_slot :: "'m pthread_api \<Rightarrow> tid \<Rightarrow> reader_id \<Rightarrow> 'm ReaderInfo \<Rightarrow> 'm ReaderInfo result" where
  "Free_slot pt t readerId ri =
     (if readerId = INVALID_READER_ID then Inr ri
      else (case Deactivate readerId ri of
              Inl e \<Rightarrow> Inl e
            | Inr ri' \<Rightarrow>
                (case Unlock pt t (info_lock (ri_slots ri' ! nat readerId)) of
                   Inl e \<Rightarrow> Inl e
                 | Inr m \<Rightarrow> update_slot readerId (\<lambda>info. info\<lparr>info_lock := m\<rparr>) ri')))"

section \<open>The range covers the active slots\<close>

lemma unat_of_nat_u16: "i < 2 ^ 16 \<Longrightarrow> unat (of_nat i :: u16) = i"
  by (rule unat_of_nat_small) simp

definition scan_inv :: "nat \<Rightarrow> bool list \<Rightarrow> u16 \<Rightarrow> u16 \<times> u16 \<Rightarrow> bool" where
  "scan_inv i flags n acc \<longleftrightarrow>
     (\<forall>k<i. flags ! k \<longrightarrow> unat (fst acc) \<le> k \<and> k \<le> unat (snd acc)) \<and>
     (if \<exists>k<i. flags ! k
      then unat (fst acc) < i \<and> flags ! unat (fst acc) \<and> unat (snd acc) < i \<and> flags ! unat (snd acc)
      else acc = (n, 0))"

lemma scan_slot_inv:
  assumes inv: "scan_inv i flags n acc" and i: "i < unat n"
  shows "scan_inv (Suc i) flags n (scan_slot i (flags ! i) acc)"
proof -
  obtain mn mx where acc: "acc = (mn, mx)" by (cases acc)
  have u: "unat (of_nat i :: u16) = i"
    by (rule unat_of_nat_u16) (use i unsigned_less [of n, where ?'a = nat] in simp)
  have ex: "(\<exists>k<Suc i. flags ! k) \<longleftrightarrow> flags ! i \<or> (\<exists>k<i. flags ! k)"
    using less_Suc_eq by auto
  have all: "(\<forall>k<Suc i. flags ! k \<longrightarrow> P k) \<longleftrightarrow> (flags ! i \<longrightarrow> P i) \<and> (\<forall>k<i. flags ! k \<longrightarrow> P k)" for P
    using less_Suc_eq by auto
  show ?thesis
  proof (cases "flags ! i")
    case False
    then show ?thesis
      using inv unfolding scan_inv_def acc scan_slot_def ex all
      by (simp split: if_splits) (meson less_SucI)
  next
    case True
    show ?thesis
    proof (cases "\<exists>k<i. flags ! k")
      case some: True
      then have "unat mn < i" "flags ! unat mn" "unat mx < i"
        and cov: "\<forall>k<i. flags ! k \<longrightarrow> unat mn \<le> k \<and> k \<le> unat mx"
        using inv by (auto simp: scan_inv_def acc)
      then have "scan_slot i (flags ! i) acc = (mn, of_nat i)"
        using True by (simp add: scan_slot_def acc)
      then show ?thesis
        unfolding scan_inv_def ex all using True \<open>unat mn < i\<close> \<open>flags ! unat mn\<close> u cov by auto
    next
      case none: False
      then have "(mn, mx) = (n, 0)" using inv unfolding scan_inv_def acc by (simp only: if_False simp_thms)
      then have "mn = n" "mx = 0" by simp_all
      then have "scan_slot i (flags ! i) acc = (of_nat i, of_nat i)"
        using True i by (auto simp: scan_slot_def acc)
      then show ?thesis
        unfolding scan_inv_def ex all using True none u by auto
    qed
  qed
qed

lemma scan_from_inv:
  assumes "scan_inv i flags n acc" "length flags = unat n" "i \<le> unat n"
  shows "scan_inv (unat n) flags n (scan_from i (drop i flags) acc)"
  using assms
proof (induction "unat n - i" arbitrary: i acc)
  case 0
  then show ?case by simp
next
  case (Suc d)
  then have i: "i < unat n" by simp
  then have "drop i flags = flags ! i # drop (Suc i) flags"
    using Suc.prems by (simp add: Cons_nth_drop_Suc)
  moreover have "scan_inv (unat n) flags n (scan_from (Suc i) (drop (Suc i) flags) (scan_slot i (flags ! i) acc))"
    using Suc i by (intro Suc.hyps scan_slot_inv) auto
  ultimately show ?case by simp
qed

lemma scan_from_0:
  assumes "length flags = unat n"
  shows "scan_inv (unat n) flags n (scan_from 0 flags (n, 0))"
  using scan_from_inv [of 0 flags n "(n, 0)"] assms by (simp add: scan_inv_def)

lemma range_pack:
  assumes "unat mx + 1 < 2 ^ 16"
  shows "range_min (pack_range (mn, mx)) = mn" "unat (range_max (pack_range (mn, mx))) = unat mx + 1"
proof -
  have mx1: "unat (mx + 1) = unat mx + 1"
    using assms unat_add_small [of mx 1] by simp
  have "(ucast mx + 1 :: u32) = ucast (mx + 1 :: u16)"
    using assms by (simp add: word_unat_eq_iff mx1 unat_word_ariths)
  then have pk: "pack_range (mn, mx) = push_bit 16 (ucast mn) OR ucast (mx + 1)"
    by (simp add: pack_range_def)
  show "range_min (pack_range (mn, mx)) = mn"
    unfolding pk range_min_def by (rule bit_word_eqI) (auto simp: bit_simps dest: bit_imp_le_length)
  have "range_max (pack_range (mn, mx)) = mx + 1"
    unfolding pk range_max_def by (rule bit_word_eqI) (auto simp: bit_simps)
  then show "unat (range_max (pack_range (mn, mx))) = unat mx + 1" by (simp add: mx1)
qed

text \<open>The range a reader of the two halves obtains after an update.\<close>

definition active_at :: "'m ReaderInfo \<Rightarrow> nat \<Rightarrow> bool" where
  "active_at ri i \<longleftrightarrow> i < length (ri_slots ri) \<and> slot_active (ri_slots ri ! i)"

definition slots_ok :: "'m ReaderInfo \<Rightarrow> bool" where
  "slots_ok ri \<longleftrightarrow> length (ri_slots ri) = unat (configMaxReaders ri)"

definition range_covers :: "'m ReaderInfo \<Rightarrow> bool" where
  "range_covers ri \<longleftrightarrow>
     (\<forall>i. active_at ri i \<longrightarrow>
        unat (fst (GetActiveRange ri)) \<le> i \<and> i < unat (snd (GetActiveRange ri))) \<and>
     unat (snd (GetActiveRange ri)) \<le> unat (configMaxReaders ri)"

definition ri_inv :: "'m ReaderInfo \<Rightarrow> bool" where
  "ri_inv ri \<longleftrightarrow> slots_ok ri \<and> range_covers ri"

lemma UpdateActiveRange_frame [simp]:
  "ri_slots (UpdateActiveRange ri) = ri_slots ri"
  "configMaxReaders (UpdateActiveRange ri) = configMaxReaders ri"
  "expiredReaders (UpdateActiveRange ri) = expiredReaders ri"
  "ri_initialized (UpdateActiveRange ri) = ri_initialized ri"
  "active_at (UpdateActiveRange ri) = active_at ri"
  "slots_ok (UpdateActiveRange ri) = slots_ok ri"
  by (simp_all add: UpdateActiveRange_def active_at_def slots_ok_def fun_eq_iff)

lemma active_flags_nth:
  "slots_ok ri \<Longrightarrow> i < unat (configMaxReaders ri) \<Longrightarrow> active_flags ri ! i = active_at ri i"
  by (simp add: active_flags_def active_at_def slots_ok_def)

lemma length_active_flags: "slots_ok ri \<Longrightarrow> length (active_flags ri) = unat (configMaxReaders ri)"
  by (simp add: active_flags_def slots_ok_def)

lemma active_at_less: "slots_ok ri \<Longrightarrow> active_at ri i \<Longrightarrow> i < unat (configMaxReaders ri)"
  by (simp add: active_at_def slots_ok_def)

text \<open>
  The exact meaning of an update that runs alone: with no active slot the range is empty,
  otherwise it goes from the least active slot to one past the greatest.
\<close>

lemma UpdateActiveRange_exact:
  assumes ok: "slots_ok ri" and n: "0 < unat (configMaxReaders ri)"
  obtains mn mx where "GetActiveRange (UpdateActiveRange ri) = (mn, mx)"
    and "\<forall>i. active_at ri i \<longrightarrow> unat mn \<le> i \<and> i < unat mx"
    and "if \<exists>i. active_at ri i then active_at ri (unat mn) \<and> active_at ri (unat mx - 1) \<and> 0 < unat mx
         else mn = configMaxReaders ri \<and> unat mx = 1"
proof -
  define n where "n = configMaxReaders ri"
  define flags where "flags = active_flags ri"
  have len: "length flags = unat n" and nth: "\<And>i. i < unat n \<Longrightarrow> flags ! i = active_at ri i"
    using ok by (simp_all add: flags_def n_def length_active_flags active_flags_nth)
  obtain mn mx where acc: "scan_from 0 flags (n, 0) = (mn, mx)" by fastforce
  have inv: "scan_inv (unat n) flags n (mn, mx)" using scan_from_0 [OF len] acc by simp
  have act: "active_at ri i \<longleftrightarrow> i < unat n \<and> flags ! i" for i
    using nth active_at_less [OF ok] by (auto simp: n_def)
  have "unat n < 2 ^ 16" using unsigned_less [of n, where ?'a = nat] by simp
  then have mx: "unat mx + 1 < 2 ^ 16"
    using inv assms(2) by (auto simp: scan_inv_def n_def split: if_splits)
  have "GetActiveRange (UpdateActiveRange ri) = (mn, range_max (pack_range (mn, mx)))"
    using range_pack(1) [OF mx] acc
    by (simp add: GetActiveRange_def UpdateActiveRange_def flags_def n_def)
  moreover have "\<forall>i. active_at ri i \<longrightarrow> unat mn \<le> i \<and> i < unat (range_max (pack_range (mn, mx)))"
    using inv range_pack(2) [OF mx] by (auto simp: scan_inv_def act)
  moreover have "if \<exists>i. active_at ri i
      then active_at ri (unat mn) \<and> active_at ri (unat (range_max (pack_range (mn, mx))) - 1)
        \<and> 0 < unat (range_max (pack_range (mn, mx)))
      else mn = n \<and> unat (range_max (pack_range (mn, mx))) = 1"
    using inv range_pack(2) [OF mx] by (auto simp: scan_inv_def act split: if_splits)
  ultimately show thesis unfolding n_def by (rule that)
qed

lemma UpdateActiveRange_covers:
  assumes ok: "slots_ok ri" and n: "0 < unat (configMaxReaders ri)"
  shows "range_covers (UpdateActiveRange ri)"
proof -
  obtain mn mx where r: "GetActiveRange (UpdateActiveRange ri) = (mn, mx)"
    and cov: "\<forall>i. active_at ri i \<longrightarrow> unat mn \<le> i \<and> i < unat mx"
    and ends: "if \<exists>i. active_at ri i then active_at ri (unat mn) \<and> active_at ri (unat mx - 1) \<and> 0 < unat mx
         else mn = configMaxReaders ri \<and> unat mx = 1"
    by (rule UpdateActiveRange_exact [OF assms])
  have "unat mx \<le> unat (configMaxReaders ri)"
    using ends n active_at_less [OF ok, of "unat mx - 1"] by (auto split: if_splits)
  with r cov show ?thesis by (simp add: range_covers_def)
qed

section \<open>Every operation keeps the invariant\<close>

lemma update_slot_frame:
  assumes "update_slot r f ri = Inr ri'"
  shows "ri' = ri\<lparr>ri_slots := (ri_slots ri)[nat r := f (ri_slots ri ! nat r)]\<rparr>"
    and "0 \<le> r" "nat r < length (ri_slots ri)"
  using assms by (auto simp: update_slot_def split: if_splits)

lemma ri_inv_UpdateActiveRange:
  assumes "slots_ok ri" "i < length (ri_slots ri)"
  shows "ri_inv (UpdateActiveRange ri)"
  using assms UpdateActiveRange_covers [of ri] by (auto simp: ri_inv_def slots_ok_def)

lemma ri_inv_update_slots:
  assumes "length xs = unat (configMaxReaders ri)" "i < length xs"
  shows "ri_inv (UpdateActiveRange (ri\<lparr>ri_slots := xs\<rparr>))"
  using assms by (intro ri_inv_UpdateActiveRange [of _ i]) (simp_all add: slots_ok_def)

lemma Activate_spec:
  assumes "slots_ok ri" "0 \<le> r" "nat r < length (ri_slots ri)"
  shows "\<exists>ri'. Activate r pos ri = Inr ri' \<and> ri_inv ri' \<and> configMaxReaders ri' = configMaxReaders ri
    \<and> ri_slots ri' = (ri_slots ri)[nat r := (ri_slots ri ! nat r)\<lparr>info_position := pos, info_isActive := 1\<rparr>]"
  using assms ri_inv_update_slots [of _ ri "nat r"]
  by (simp add: Activate_def INVALID_READER_ID_def update_slot_def slots_ok_def)

lemma Deactivate_spec:
  assumes "slots_ok ri" "0 \<le> r" "nat r < length (ri_slots ri)"
  shows "\<exists>ri'. Deactivate r ri = Inr ri' \<and> ri_inv ri' \<and> configMaxReaders ri' = configMaxReaders ri
    \<and> ri_slots ri' = (ri_slots ri)[nat r := (ri_slots ri ! nat r)\<lparr>info_isActive := 0\<rparr>]"
  using assms ri_inv_update_slots [of _ ri "nat r"]
  by (simp add: Deactivate_def INVALID_READER_ID_def update_slot_def slots_ok_def)

lemma ReaderInfo_inv:
  assumes "mk_ReaderInfo pt n = Inr ri"
  shows "ri_inv ri \<and> ri_initialized ri \<and> (\<forall>i. \<not> active_at ri i)"
  using assms
  by (auto simp: mk_ReaderInfo_def ri_inv_def slots_ok_def range_covers_def active_at_def slot_active_def
      new_info_def GetActiveRange_def range_max_def range_min_def split: if_splits sum.splits)

section \<open>The table as the writer sees it\<close>

lemma Get_nat:
  "ri_inv ri \<Longrightarrow> i < unat (configMaxReaders ri) \<Longrightarrow> Get ri (int i) = Inr (ri_slots ri ! i)"
  by (simp add: Get_def ri_inv_def slots_ok_def)

interpretation table: slot_table GetActiveRange Get slot_active
  "\<lambda>ri. unat (configMaxReaders ri)" ri_inv
proof unfold_locales
  fix ri :: "'a ReaderInfo" and i and info
  assume inv: "ri_inv ri" and i: "i < unat (configMaxReaders ri)"
  show "\<exists>info. Get ri (int i) = Inr info" using Get_nat [OF inv i] ..
  assume "Get ri (int i) = Inr info" "slot_active info"
  then have "active_at ri i"
    using Get_nat [OF inv i] inv i by (simp add: active_at_def ri_inv_def slots_ok_def)
  then show "unat (fst (GetActiveRange ri)) \<le> i \<and> i < unat (snd (GetActiveRange ri))"
    using inv by (simp add: ri_inv_def range_covers_def)
next
  fix ri :: "'a ReaderInfo"
  assume "ri_inv ri"
  then show "unat (snd (GetActiveRange ri)) \<le> unat (configMaxReaders ri)"
    by (simp add: ri_inv_def range_covers_def)
qed

section \<open>Allocation is exclusive\<close>

text \<open>Between operations no slot mutex is left inconsistent.\<close>

definition locks_settled :: "('m \<Rightarrow> mutex_view) \<Rightarrow> 'm ReaderInfo \<Rightarrow> bool" where
  "locks_settled view ri \<longleftrightarrow> (\<forall>i < length (ri_slots ri). settled (view (info_lock (ri_slots ri ! i))))"

definition slot_holder :: "('m \<Rightarrow> mutex_view) \<Rightarrow> 'm ReaderInfo \<Rightarrow> nat \<Rightarrow> tid option" where
  "slot_holder view ri i = holder_of (view (info_lock (ri_slots ri ! i)))"

text \<open>The slot \<open>i\<close> as \<open>Alloc\<close> leaves it.\<close>

definition taken_slot :: "'m \<Rightarrow> 'm Info \<Rightarrow> 'm Info" where
  "taken_slot m info = info\<lparr>info_lock := m, info_isActive := 0\<rparr>"

lemma taken_slot_swap: "info\<lparr>info_isActive := 0, info_lock := m\<rparr> = taken_slot m info"
  by (cases info) (simp add: taken_slot_def)

definition all_held :: "('m \<Rightarrow> mutex_view) \<Rightarrow> 'm ReaderInfo \<Rightarrow> nat \<Rightarrow> nat \<Rightarrow> bool" where
  "all_held view ri i k \<longleftrightarrow> (\<forall>j. i \<le> j \<longrightarrow> j < k \<longrightarrow> slot_holder view ri j \<noteq> None)"

definition slot_acquired ::
    "('m \<Rightarrow> mutex_view) \<Rightarrow> tid \<Rightarrow> nat \<Rightarrow> 'm ReaderInfo \<Rightarrow> 'm ReaderInfo \<Rightarrow> bool" where
  "slot_acquired view t k ri ri' \<longleftrightarrow>
     k < length (ri_slots ri) \<and> slot_holder view ri k = None \<and> ri_inv ri' \<and>
     configMaxReaders ri' = configMaxReaders ri \<and>
     (\<exists>m. view m = Held t \<and> ri_slots ri' = (ri_slots ri)[k := taken_slot m (ri_slots ri ! k)])"

lemma all_held_empty [simp]: "all_held view ri i i"
  by (simp add: all_held_def)

lemma all_held_Suc: "slot_holder view ri i = Some d \<Longrightarrow> all_held view ri (Suc i) k \<Longrightarrow> all_held view ri i k"
  unfolding all_held_def by (metis Suc_leI le_neq_implies_less option.distinct(1))

context robust_pthread
begin

lemma Alloc_from_spec:
  assumes "locks_settled view ri" "slots_ok ri" "i + n = length (ri_slots ri)"
  shows "(all_held view ri i (i + n) \<and> Alloc_from pt t i n ri = Inr (INVALID_READER_ID, ri))
    \<or> (\<exists>k ri'. i \<le> k \<and> all_held view ri i k \<and> slot_acquired view t k ri ri'
        \<and> Alloc_from pt t i n ri = Inr (int k, ri'))"
  using assms
proof (induction n arbitrary: i)
  case 0
  then show ?case by simp
next
  case (Suc n)
  let ?lock = "info_lock (ri_slots ri ! i)"
  have i: "i < length (ri_slots ri)" and st: "settled (view ?lock)"
    using Suc.prems by (auto simp: locks_settled_def)
  show ?case
  proof (cases "slot_holder view ri i")
    case None
    then obtain m where m: "TryLock pt t ?lock = Inr (True, m)" "view m = Held t"
      using TryLock_acquires [OF st] by (auto simp: slot_holder_def)
    let ?ri = "ri\<lparr>ri_slots := (ri_slots ri)[i := (ri_slots ri ! i)\<lparr>info_lock := m\<rparr>]\<rparr>"
    obtain ri' where ri': "Deactivate (int i) ?ri = Inr ri'" "ri_inv ri'"
        "configMaxReaders ri' = configMaxReaders ri"
        "ri_slots ri' = (ri_slots ri)[i := taken_slot m (ri_slots ri ! i)]"
      using Deactivate_spec [of ?ri "int i"] Suc.prems(2) i by (auto simp: slots_ok_def taken_slot_def)
    then have "Alloc_from pt t i (Suc n) ri = Inr (int i, ri')"
      using m i by (simp add: Let_def)
    moreover have "slot_acquired view t i ri ri'"
      using i None m(2) ri' by (auto simp: slot_acquired_def)
    ultimately show ?thesis by (intro disjI2 exI [of _ i] exI [of _ ri']) simp
  next
    case (Some d)
    then have "TryLock pt t ?lock = Inr (False, ?lock)"
      using TryLock_busy settled_holder_Some [OF st] by (simp add: slot_holder_def)
    moreover have "ri\<lparr>ri_slots := (ri_slots ri)[i := (ri_slots ri ! i)\<lparr>info_lock := ?lock\<rparr>]\<rparr> = ri"
      by simp
    ultimately have step: "Alloc_from pt t i (Suc n) ri = Alloc_from pt t (Suc i) n ri"
      using i by (simp add: Let_def)
    have "Suc i + n = length (ri_slots ri)" using Suc.prems(3) by simp
    from Suc.IH [OF Suc.prems(1,2) this] show ?thesis
    proof (elim disjE exE conjE)
      assume "all_held view ri (Suc i) (Suc i + n)"
        "Alloc_from pt t (Suc i) n ri = Inr (INVALID_READER_ID, ri)"
      then show ?thesis using all_held_Suc [OF Some] by (simp only: step add_Suc add_Suc_right simp_thms)
    next
      fix k ri' assume "Suc i \<le> k" "all_held view ri (Suc i) k" "slot_acquired view t k ri ri'"
        "Alloc_from pt t (Suc i) n ri = Inr (int k, ri')"
      then show ?thesis
        using all_held_Suc [OF Some] by (intro disjI2 exI [of _ k] exI [of _ ri']) (simp add: step del: Alloc_from.simps)
    qed
  qed
qed

lemma Alloc_spec:
  assumes "locks_settled view ri" "slots_ok ri"
  shows "(all_held view ri 0 (length (ri_slots ri)) \<and> Alloc pt t ri = Inr (INVALID_READER_ID, ri))
    \<or> (\<exists>k ri'. all_held view ri 0 k \<and> slot_acquired view t k ri ri' \<and> Alloc pt t ri = Inr (int k, ri'))"
  using Alloc_from_spec [OF assms, of 0 "length (ri_slots ri)" t] assms(2)
  by (auto simp: Alloc_def slots_ok_def)

lemma Free_slot_spec:
  assumes "locks_settled view ri" "slots_ok ri" "k < length (ri_slots ri)" "slot_holder view ri k = Some t"
  shows "\<exists>ri' m. Free_slot pt t (int k) ri = Inr ri' \<and> view m = Free \<and> ri_inv ri'
    \<and> configMaxReaders ri' = configMaxReaders ri
    \<and> ri_slots ri' = (ri_slots ri)[k := taken_slot m (ri_slots ri ! k)]"
proof -
  obtain ri1 where ri1: "Deactivate (int k) ri = Inr ri1" "ri_inv ri1"
      "configMaxReaders ri1 = configMaxReaders ri"
      "ri_slots ri1 = (ri_slots ri)[k := (ri_slots ri ! k)\<lparr>info_isActive := 0\<rparr>]"
    using Deactivate_spec [OF assms(2), of "int k"] assms(3) by auto
  have "view (info_lock (ri_slots ri ! k)) = Held t"
    using assms settled_holder_Some by (auto simp: locks_settled_def slot_holder_def)
  then obtain m where m: "Unlock pt t (info_lock (ri_slots ri ! k)) = Inr m" "view m = Free"
    using Unlock_releases by blast
  let ?xs = "(ri_slots ri)[k := taken_slot m (ri_slots ri ! k)]"
  have "Free_slot pt t (int k) ri = Inr (ri1\<lparr>ri_slots := ?xs\<rparr>)"
    using ri1 m(1) assms(3) by (simp add: Free_slot_def INVALID_READER_ID_def update_slot_def taken_slot_swap)
  moreover have "ri_inv (ri1\<lparr>ri_slots := ?xs\<rparr>)"
    using ri1(2) assms(3)
    by (auto simp: ri_inv_def slots_ok_def range_covers_def active_at_def slot_active_def
        GetActiveRange_def ri1(4) nth_list_update taken_slot_def split: if_splits)
  ultimately show ?thesis using m(2) ri1(3) by (intro exI [of _ "ri1\<lparr>ri_slots := ?xs\<rparr>"] exI [of _ m]) simp
qed

end

section \<open>Any sequence of operations\<close>

datatype table_op =
    OpAlloc tid
  | OpActivate reader_id position
  | OpDeactivate reader_id
  | OpFree tid reader_id

fun table_step :: "'m pthread_api \<Rightarrow> table_op \<Rightarrow> 'm ReaderInfo \<Rightarrow> 'm ReaderInfo result" where
  "table_step pt (OpAlloc t) ri = map_sum id snd (Alloc pt t ri)"
| "table_step pt (OpActivate r pos) ri = Activate r pos ri"
| "table_step pt (OpDeactivate r) ri = Deactivate r ri"
| "table_step pt (OpFree t r) ri = Free_slot pt t r ri"

fun table_run :: "'m pthread_api \<Rightarrow> table_op list \<Rightarrow> 'm ReaderInfo \<Rightarrow> 'm ReaderInfo result" where
  "table_run pt [] ri = Inr ri"
| "table_run pt (a # as) ri = (case table_step pt a ri of Inl e \<Rightarrow> Inl e | Inr ri' \<Rightarrow> table_run pt as ri')"

text \<open>These lemmas need nothing of the mutex: whatever it answers, the table stays well-formed.\<close>

lemma ri_inv_lock:
  assumes "ri_inv ri" "i < length (ri_slots ri)"
  shows "ri_inv (ri\<lparr>ri_slots := (ri_slots ri)[i := (ri_slots ri ! i)\<lparr>info_lock := m\<rparr>]\<rparr>)"
proof -
  have "active_at (ri\<lparr>ri_slots := (ri_slots ri)[i := (ri_slots ri ! i)\<lparr>info_lock := m\<rparr>]\<rparr>) = active_at ri"
    using assms(2) by (auto simp: active_at_def fun_eq_iff nth_list_update slot_active_def)
  then show ?thesis using assms(1) by (simp add: ri_inv_def slots_ok_def range_covers_def GetActiveRange_def)
qed

lemma Activate_Inr: "Activate r pos ri = Inr ri' \<Longrightarrow> ri_inv ri \<Longrightarrow> ri_inv ri' \<and> configMaxReaders ri' = configMaxReaders ri"
  using Activate_spec [of ri r pos]
  by (cases "r = INVALID_READER_ID") (auto simp: Activate_def update_slot_def ri_inv_def split: if_splits)

lemma Deactivate_Inr: "Deactivate r ri = Inr ri' \<Longrightarrow> ri_inv ri \<Longrightarrow> ri_inv ri' \<and> configMaxReaders ri' = configMaxReaders ri"
  using Deactivate_spec [of ri r]
  by (cases "r = INVALID_READER_ID") (auto simp: Deactivate_def update_slot_def ri_inv_def split: if_splits)

lemma Alloc_from_Inr:
  "Alloc_from pt t i n ri = Inr (r, ri') \<Longrightarrow> ri_inv ri \<Longrightarrow> ri_inv ri' \<and> configMaxReaders ri' = configMaxReaders ri"
proof (induction n arbitrary: i ri)
  case 0
  then show ?case by simp
next
  case (Suc n)
  then have i: "i < length (ri_slots ri)" by (auto split: if_splits)
  then obtain b m where tl: "TryLock pt t (info_lock (ri_slots ri ! i)) = Inr (b, m)"
    using Suc.prems(1) by (auto split: sum.splits)
  let ?ri = "ri\<lparr>ri_slots := (ri_slots ri)[i := (ri_slots ri ! i)\<lparr>info_lock := m\<rparr>]\<rparr>"
  have inv: "ri_inv ?ri" by (rule ri_inv_lock [OF Suc.prems(2) i])
  show ?case
  proof (cases b)
    case True
    then obtain ri2 where "Deactivate (int i) ?ri = Inr ri2" "ri' = ri2"
      using Suc.prems(1) tl i by (cases "Deactivate (int i) ?ri") (auto simp: Let_def)
    then show ?thesis using Deactivate_Inr [OF _ inv] by fastforce
  next
    case False
    then have "Alloc_from pt t (Suc i) n ?ri = Inr (r, ri')" using Suc.prems(1) tl i by (simp add: Let_def)
    from Suc.IH [OF this inv] show ?thesis by simp
  qed
qed

lemma Free_slot_Inr:
  assumes "Free_slot pt t r ri = Inr ri'" "ri_inv ri"
  shows "ri_inv ri' \<and> configMaxReaders ri' = configMaxReaders ri"
proof (cases "r = INVALID_READER_ID")
  case True
  then show ?thesis using assms by (simp add: Free_slot_def)
next
  case False
  then obtain ri1 m where ri1: "Deactivate r ri = Inr ri1" and up: "update_slot r (\<lambda>info. info\<lparr>info_lock := m\<rparr>) ri1 = Inr ri'"
    using assms(1) by (auto simp: Free_slot_def split: sum.splits)
  from update_slot_frame [OF up] Deactivate_Inr [OF ri1 assms(2)] show ?thesis
    using ri_inv_lock [of ri1 "nat r" m] by auto
qed

lemma table_step_Inr:
  "table_step pt a ri = Inr ri' \<Longrightarrow> ri_inv ri \<Longrightarrow> ri_inv ri' \<and> configMaxReaders ri' = configMaxReaders ri"
proof (cases a)
  case (OpAlloc t)
  assume "table_step pt a ri = Inr ri'" "ri_inv ri"
  moreover from this(1) obtain r where "Alloc pt t ri = Inr (r, ri')"
    using OpAlloc by (cases "Alloc pt t ri") auto
  ultimately show ?thesis by (simp add: Alloc_def Alloc_from_Inr)
qed (simp_all add: Activate_Inr Deactivate_Inr Free_slot_Inr)

lemma table_run_Inr:
  "table_run pt as ri = Inr ri' \<Longrightarrow> ri_inv ri \<Longrightarrow> ri_inv ri' \<and> configMaxReaders ri' = configMaxReaders ri"
  by (induction as arbitrary: ri) (auto split: sum.splits dest: table_step_Inr)

section \<open>Properties\<close>

text \<open>
  C22: The published range. After any sequence of allocations, activations, deactivations and
  frees on a fresh table, whatever the mutexes answered, every active slot lies in the range
  that GetActiveRange returns, and the range lies in the table.
\<close>

theorem published_range_covers:
  assumes "mk_ReaderInfo pt n = Inr ri0" "table_run pt ops ri0 = Inr ri"
  shows "\<exists>mn mx. GetActiveRange ri = (mn, mx) \<and> mx \<le> n
    \<and> (\<forall>i. active_at ri i \<longrightarrow> unat mn \<le> i \<and> i < unat mx)"
proof -
  have "configMaxReaders ri0 = n"
    using assms(1) by (auto simp: mk_ReaderInfo_def split: if_splits sum.splits)
  moreover have "ri_inv ri \<and> configMaxReaders ri = configMaxReaders ri0"
    using table_run_Inr [OF assms(2)] ReaderInfo_inv [OF assms(1)] by blast
  ultimately show ?thesis
    by (cases "GetActiveRange ri") (auto simp: ri_inv_def range_covers_def word_le_nat_alt)
qed

theorem published_range_covers_witness:
  "\<exists>ri0 ri. mk_ReaderInfo posix_pthread 4 = Inr ri0
    \<and> table_run posix_pthread [OpAlloc 1, OpAlloc 2, OpActivate 1 40, OpActivate 0 8, OpDeactivate 0] ri0 = Inr ri
    \<and> (\<exists>mn mx. GetActiveRange ri = (mn, mx) \<and> mx \<le> 4
        \<and> (\<forall>i. active_at ri i \<longrightarrow> unat mn \<le> i \<and> i < unat mx))"
proof -
  obtain ri0 where ri0: "mk_ReaderInfo posix_pthread 4 = Inr ri0"
    by (simp add: mk_ReaderInfo_def mk_RobustProcMutex_def posix_pthread_def)
  have "(case mk_ReaderInfo posix_pthread 4 of Inl e \<Rightarrow> True | Inr r0 \<Rightarrow>
      isl (table_run posix_pthread [OpAlloc 1, OpAlloc 2, OpActivate 1 40, OpActivate 0 8, OpDeactivate 0] r0)) = False"
    by code_simp
  then obtain ri where ri: "table_run posix_pthread
      [OpAlloc 1, OpAlloc 2, OpActivate 1 40, OpActivate 0 8, OpDeactivate 0] ri0 = Inr ri"
    using ri0 by (cases "table_run posix_pthread
      [OpAlloc 1, OpAlloc 2, OpActivate 1 40, OpActivate 0 8, OpDeactivate 0] ri0") auto
  from published_range_covers [OF ri0 ri] ri0 ri show ?thesis by blast
qed

text \<open>
  The exact range. Run without interference on a table of at least one slot,
  UpdateActiveRange publishes the smallest range there is: it starts at the least active slot
  and ends after the greatest, and is empty if no slot is active.
\<close>

lemma UpdateActiveRange_smallest:
  assumes "length (ri_slots ri) = unat (configMaxReaders ri)" "0 < configMaxReaders ri"
  shows "\<exists>mn mx. GetActiveRange (UpdateActiveRange ri) = (mn, mx)
    \<and> (\<forall>i. active_at ri i \<longrightarrow> unat mn \<le> i \<and> i < unat mx)
    \<and> (if \<exists>i. active_at ri i then active_at ri (unat mn) \<and> active_at ri (unat mx - 1) else mx \<le> mn)"
proof -
  have "slots_ok ri" "0 < unat (configMaxReaders ri)"
    using assms by (simp_all add: slots_ok_def word_less_nat_alt)
  from UpdateActiveRange_exact [OF this] obtain mn mx where
    "GetActiveRange (UpdateActiveRange ri) = (mn, mx)"
    "\<forall>i. active_at ri i \<longrightarrow> unat mn \<le> i \<and> i < unat mx"
    "if \<exists>i. active_at ri i then active_at ri (unat mn) \<and> active_at ri (unat mx - 1) \<and> 0 < unat mx
     else mn = configMaxReaders ri \<and> unat mx = 1" by blast
  moreover from this(3) have "\<not> (\<exists>i. active_at ri i) \<longrightarrow> mx \<le> mn"
    using assms(2) by (auto simp: word_le_nat_alt word_less_nat_alt)
  ultimately show ?thesis by (auto simp del: One_nat_def)
qed

definition middle_active :: "mutex_view ReaderInfo" where
  "middle_active = \<lparr> expiredReaders = 0, ri_initialized = True, configMaxReaders = 3, readersMinMax = 0,
      ri_slots = [new_info Free, (new_info Free)\<lparr>info_isActive := 1\<rparr>, new_info Free] \<rparr>"

lemma UpdateActiveRange_smallest_witness:
  "\<exists>mn mx. GetActiveRange (UpdateActiveRange middle_active) = (mn, mx)
    \<and> active_at middle_active (unat mn) \<and> active_at middle_active (unat mx - 1)"
proof -
  have "active_at middle_active 1" by (simp add: middle_active_def active_at_def slot_active_def)
  then show ?thesis
    using UpdateActiveRange_smallest [of middle_active] by (auto simp: middle_active_def split: if_splits)
qed

text \<open>
  C24: Allocation. On a table whose mutexes are settled, Alloc takes the first slot that no
  live thread holds, including one whose holder died, marks it inactive and leaves all
  other slots as they are; if live threads hold every slot it answers INVALID_READER_ID and
  changes nothing.
\<close>

theorem Alloc_first_free:
  assumes "robust_pthread pt view" "locks_settled view ri" "ri_inv ri"
  shows "(if \<exists>i < length (ri_slots ri). slot_holder view ri i = None
     then \<exists>k m ri'. Alloc pt t ri = Inr (int k, ri') \<and> slot_holder view ri k = None
       \<and> (\<forall>j<k. slot_holder view ri j \<noteq> None) \<and> view m = Held t
       \<and> ri_slots ri' = (ri_slots ri)[k := (ri_slots ri ! k)\<lparr>info_lock := m, info_isActive := 0\<rparr>]
     else Alloc pt t ri = Inr (INVALID_READER_ID, ri))"
proof -
  have "slots_ok ri" using assms(3) by (simp add: ri_inv_def)
  from robust_pthread.Alloc_spec [OF assms(1,2) this, of t] show ?thesis
    by (auto simp: all_held_def slot_acquired_def taken_slot_def)
qed

definition dead_holder :: "mutex_view ReaderInfo" where
  "dead_holder = \<lparr> expiredReaders = 0, ri_initialized = True, configMaxReaders = 2, readersMinMax = 0x10002,
      ri_slots = [new_info (Held 1), (new_info (OwnerDied 2))\<lparr>info_isActive := 1\<rparr>] \<rparr>"

theorem Alloc_first_free_witness:
  "\<exists>ri' m. Alloc posix_pthread 3 dead_holder = Inr (1, ri')
    \<and> ri_slots ri' = [new_info (Held 1), (new_info (OwnerDied 2))\<lparr>info_lock := m, info_isActive := 0\<rparr>]"
proof -
  let ?ri = dead_holder
  have inv: "ri_inv ?ri" "locks_settled id ?ri"
    by (auto simp: dead_holder_def ri_inv_def slots_ok_def range_covers_def active_at_def slot_active_def new_info_def
        GetActiveRange_def range_min_def range_max_def locks_settled_def less_Suc_eq)
  have h: "slot_holder id ?ri 0 = Some 1" "slot_holder id ?ri 1 = None" "length (ri_slots ?ri) = 2"
    by (simp_all add: dead_holder_def slot_holder_def new_info_def)
  then have "\<exists>i < length (ri_slots ?ri). slot_holder id ?ri i = None" by (intro exI [of _ 1]) simp
  then obtain k m ri' where k: "Alloc posix_pthread 3 ?ri = Inr (int k, ri')" "\<forall>j<k. slot_holder id ?ri j \<noteq> None"
      "slot_holder id ?ri k = None"
      "ri_slots ri' = (ri_slots ?ri)[k := (ri_slots ?ri ! k)\<lparr>info_lock := m, info_isActive := 0\<rparr>]"
    using Alloc_first_free [OF posix.robust_pthread_axioms inv(2,1), of 3] by auto
  have "k = 1"
  proof (rule ccontr)
    assume "k \<noteq> 1"
    then have "k = 0 \<or> 1 < k" by auto
    then show False using k(2,3) h by auto
  qed
  with k show ?thesis by (auto simp: dead_holder_def)
qed

end
