(* ===== verification/Samples.thy ===== *)
theory Samples
  imports ByteRingBuffer RmpReaderInfo
begin

text \<open>
  Small concrete structures, built by the constructors on the POSIX mutex, on which the
  witnesses of the other theories evaluate.
\<close>

definition ring_32 :: "mutex_view ByteRingBuffer" where
  "ring_32 = \<lparr> configBufSizeBytes = 32, writerMtx = Free, freePos = 0, backPressureCount = 0,
     notificationCount = 0, rb_initialized = True, rb_data = replicate 32 0 \<rparr>"

definition table_2 :: "mutex_view ReaderInfo" where
  "table_2 = \<lparr> expiredReaders = 0, ri_initialized = True, configMaxReaders = 2,
     readersMinMax = 0, ri_slots = replicate 2 (new_info Free) \<rparr>"

lemma ring_32_made: "mk_ByteRingBuffer posix_pthread (replicate 32 0) 32 = Inr ring_32"
  by (simp add: mk_ByteRingBuffer_def mk_RobustProcMutex_def posix_pthread_def ring_32_def)

lemma table_2_made: "mk_ReaderInfo posix_pthread 2 = Inr table_2"
  by (simp add: mk_ReaderInfo_def mk_RobustProcMutex_def posix_pthread_def table_2_def)

lemma good_size_32: "good_size 32"
  by (auto simp: good_size_def IsZeroOrPowerOfTwo_def)

lemma ring_32_ok: "rb_ok ring_32"
  by (simp add: rb_ok_def ring_32_def good_size_32)

lemma ring_32_frame [simp]: "rb_initialized ring_32" "configBufSizeBytes ring_32 = 32" "freePos ring_32 = 0"
  "writerMtx ring_32 = Free" "rb_data ring_32 = replicate 32 0"
  by (simp_all add: ring_32_def)

lemma table_2_inv: "ri_inv table_2"
  using ReaderInfo_inv [OF table_2_made] by simp

lemma table_2_frame [simp]: "configMaxReaders table_2 = 2" "ri_slots table_2 = replicate 2 (new_info Free)"
  "ri_initialized table_2" "expiredReaders table_2 = 0" "readersMinMax table_2 = 0"
  by (simp_all add: table_2_def)

lemma table_2_settled: "locks_settled id table_2"
  by (simp add: locks_settled_def new_info_def nth_Cons' numeral_2_eq_2)

end
