(* ===== verification/RmpWriter.thy ===== *)
theory RmpWriter
  imports RingStream RmpReaderInfo Samples
begin

text \<open>
  rmp/writer.hpp: the stream writer. \<open>Write\<close> is split where the C++ body has its phases:
  the estimate of the bytes to write, the check for backpressure, the padding or blank run
  to the end of the buffer, and the message. \<open>WriteEx\<close> runs it under the writer mutex until
  it succeeds or the backpressure handler gives up.
\<close>

text \<open>The writer object holds the index mask; ring buffer and reader info are shared state.\<close>

record Writer =
  writer_indexMask :: u64

definition mk_Writer :: "'m ByteRingBuffer \<Rightarrow> Writer result" where
  "mk_Writer rb =
     (case IndexMask (configBufSizeBytes rb) of
        Inl e \<Rightarrow> Inl e
      | Inr msk \<Rightarrow> if \<not> rb_initialized rb then Inl (Thrown ''Ring buffer not initialized'')
                   else Inr \<lparr> writer_indexMask = msk \<rparr>)"

definition GetMaxMessageSize :: "'m ByteRingBuffer \<Rightarrow> u64" where
  "GetMaxMessageSize rb = configBufSizeBytes rb - sizeof_MsgHeader"

section \<open>Backpressure\<close>

text \<open>The body of the loop over the slots: the position to return, if this slot holds back.\<close>

definition bp_check :: "u64 \<Rightarrow> position \<Rightarrow> u64 \<Rightarrow> position_opt \<Rightarrow> 'm Info \<Rightarrow> position_opt" where
  "bp_check bufSize free n skipConsPos info =
     (let skipConsPosEmpty = (skipConsPos = None);
          skipConsPosValue = (case skipConsPos of None \<Rightarrow> 0 | Some v \<Rightarrow> v);
          readerPos = info_position info
      in if \<not> slot_active info then None
         else if Expired readerPos free bufSize then None
         else if skipConsPosEmpty \<or> GreaterThan readerPos skipConsPosValue
         then (if Expired readerPos (free + n) bufSize then Some readerPos else None)
         else None)"

definition DetectReaderBackpressure ::
    "u64 \<Rightarrow> position_opt \<Rightarrow> 'm ByteRingBuffer \<Rightarrow> 'm ReaderInfo \<Rightarrow> position_opt result" where
  "DetectReaderBackpressure n skipConsPos rb ri =
     (case GetActiveRange ri of (mn, mx) \<Rightarrow>
        search_slots (Get ri) (bp_check (configBufSizeBytes rb) (freePos rb) n skipConsPos)
          (unat mn) (unat mx - unat mn))"

section \<open>Writing one message\<close>

record write_plan =
  plan_bufIndex :: u64
  plan_lengthToBufEnd :: u64
  plan_bytesToWrite :: u64
  plan_addPadding :: bool
  plan_addBlank :: bool

definition Write_plan :: "u64 \<Rightarrow> u64 \<Rightarrow> position \<Rightarrow> u32 \<Rightarrow> write_plan" where
  "Write_plan indexMask bufSize free dataSize =
     (let bufIndex = BufIndex indexMask free;
          lengthToBufEnd = bufSize - bufIndex;
          bytesToWrite = sizeof_MsgHeader + ucast dataSize
      in if lengthToBufEnd < sizeof_MsgHeader
         then \<lparr> plan_bufIndex = bufIndex, plan_lengthToBufEnd = lengthToBufEnd,
                plan_bytesToWrite = bytesToWrite + lengthToBufEnd,
                plan_addPadding = False, plan_addBlank = True \<rparr>
         else if lengthToBufEnd < ucast dataSize + sizeof_MsgHeader
         then \<lparr> plan_bufIndex = bufIndex, plan_lengthToBufEnd = lengthToBufEnd,
                plan_bytesToWrite = bytesToWrite + lengthToBufEnd,
                plan_addPadding = True, plan_addBlank = False \<rparr>
         else \<lparr> plan_bufIndex = bufIndex, plan_lengthToBufEnd = lengthToBufEnd,
                plan_bytesToWrite = bytesToWrite,
                plan_addPadding = False, plan_addBlank = False \<rparr>)"

definition Write_pad :: "write_plan \<Rightarrow> 'm ByteRingBuffer \<Rightarrow> (u64 \<times> 'm ByteRingBuffer) result" where
  "Write_pad p rb =
     (if plan_addPadding p
      then (case store_header (unat (plan_bufIndex p))
                  \<lparr> hdr_type = PADDING, hdr_length = ucast (plan_lengthToBufEnd p - sizeof_MsgHeader) \<rparr>
                  (rb_data rb) of
              Inl e \<Rightarrow> Inl e
            | Inr m \<Rightarrow> Inr (0, rb\<lparr>rb_data := m, freePos := freePos rb + plan_lengthToBufEnd p\<rparr>))
      else if plan_addBlank p
      then Inr (0, rb\<lparr>freePos := freePos rb + plan_lengthToBufEnd p\<rparr>)
      else Inr (plan_bufIndex p, rb))"

text \<open>\<open>memcpy\<close> reads \<open>dataSize\<close> bytes at \<open>data\<close>.\<close>

definition Write_msg :: "u64 \<Rightarrow> bytes \<Rightarrow> u32 \<Rightarrow> 'm ByteRingBuffer \<Rightarrow> 'm ByteRingBuffer result" where
  "Write_msg bufIndex data dataSize rb =
     (case store_header (unat bufIndex) \<lparr> hdr_type = MSG, hdr_length = dataSize \<rparr> (rb_data rb) of
        Inl e \<Rightarrow> Inl e
      | Inr m \<Rightarrow>
          (case read_at 0 (unat dataSize) data of
             Inl e \<Rightarrow> Inl e
           | Inr d \<Rightarrow>
               (case write_at (unat bufIndex + 5) d m of
                  Inl e \<Rightarrow> Inl e
                | Inr m' \<Rightarrow>
                    Inr (rb\<lparr>rb_data := m', freePos := freePos rb + (sizeof_MsgHeader + ucast dataSize)\<rparr>))))"

definition Write ::
    "Writer \<Rightarrow> bytes \<Rightarrow> u32 \<Rightarrow> bool \<Rightarrow> position_opt \<Rightarrow> 'm ReaderInfo \<Rightarrow> 'm ByteRingBuffer
     \<Rightarrow> (position_opt \<times> 'm ByteRingBuffer) result" where
  "Write w data dataSize readerBP skipConsPos ri rb =
     (if GetMaxMessageSize rb < ucast dataSize then Inl Assertion
      else
        let p = Write_plan (writer_indexMask w) (configBufSizeBytes rb) (freePos rb) dataSize in
        case (if readerBP then DetectReaderBackpressure (plan_bytesToWrite p) skipConsPos rb ri
              else Inr None) of
          Inl e \<Rightarrow> Inl e
        | Inr (Some readerBpPos) \<Rightarrow> Inr (Some readerBpPos, rb)
        | Inr None \<Rightarrow>
            (case Write_pad p rb of
               Inl e \<Rightarrow> Inl e
             | Inr (bufIndex, rb1) \<Rightarrow>
                 (case Write_msg bufIndex data dataSize rb1 of
                    Inl e \<Rightarrow> Inl e
                  | Inr rb2 \<Rightarrow> Inr (EMPTY_POSITION, rb2))))"

section \<open>The write loop\<close>

text \<open>
  The backpressure handler is the client's: it sees the two positions it is called with and
  may change its own state \<open>'e\<close>; while it runs, readers of other processes move, which the
  handler's new reader info stands for. The loop may never end.
\<close>

type_synonym ('m, 'e) bp_handler =
  "position \<Rightarrow> position \<Rightarrow> 'm ReaderInfo \<times> 'e \<Rightarrow> bool \<times> 'm ReaderInfo \<times> 'e"

partial_function (option) WriteLoop ::
    "('m, 'e) bp_handler \<Rightarrow> Writer \<Rightarrow> bytes \<Rightarrow> u32 \<Rightarrow> 'm ByteRingBuffer \<times> 'm ReaderInfo \<times> 'e
     \<Rightarrow> ('m ByteRingBuffer \<times> 'm ReaderInfo \<times> 'e) result option" where
  "WriteLoop bpHandler w data dataSize s =
     (case s of (rb, ri, env) \<Rightarrow>
       (case Write w data dataSize True EMPTY_POSITION ri rb of
          Inl e \<Rightarrow> Some (Inl e)
        | Inr (None, rb1) \<Rightarrow> Some (Inr (rb1, ri, env))
        | Inr (Some readBp, rb1) \<Rightarrow>
            (let rb2 = rb1\<lparr>backPressureCount := backPressureCount rb1 + 1\<rparr> in
             case bpHandler 0 (freePos rb2) (ri, env) of (continueRunning, ri', env') \<Rightarrow>
               if continueRunning then WriteLoop bpHandler w data dataSize (rb2, ri', env')
               else (case Write w data dataSize False EMPTY_POSITION ri' rb2 of
                       Inl e \<Rightarrow> Some (Inl e)
                     | Inr (_, rb3) \<Rightarrow> Some (Inr (rb3, ri', env'))))))"

declare WriteLoop.simps [code]

text \<open>The lock guard releases the mutex on the normal path.\<close>

definition WriteEx ::
    "'m pthread_api \<Rightarrow> tid \<Rightarrow> ('m, 'e) bp_handler \<Rightarrow> Writer \<Rightarrow> bytes \<Rightarrow> u32
     \<Rightarrow> 'm ByteRingBuffer \<times> 'm ReaderInfo \<times> 'e
     \<Rightarrow> ('m ByteRingBuffer \<times> 'm ReaderInfo \<times> 'e) result option" where
  "WriteEx pt t bpHandler w data dataSize s =
     (case s of (rb, ri, env) \<Rightarrow>
       (case Lock pt t (writerMtx rb) of
          Inl e \<Rightarrow> Some (Inl e)
        | Inr m \<Rightarrow>
            (case WriteLoop bpHandler w data dataSize (rb\<lparr>writerMtx := m\<rparr>, ri, env) of
               None \<Rightarrow> None
             | Some (Inl e) \<Rightarrow> Some (Inl e)
             | Some (Inr (rb', ri', env')) \<Rightarrow>
                 (case Unlock pt t (writerMtx rb') of
                    Inl e \<Rightarrow> Some (Inl e)
                  | Inr m' \<Rightarrow> Some (Inr (rb'\<lparr>writerMtx := m'\<rparr>, ri', env'))))))"

section \<open>What a write puts on the stream\<close>

text \<open>The segments a write of \<open>d\<close> adds at the stream end \<open>f\<close>: the filler, then the message.\<close>

definition filler :: "u64 \<Rightarrow> position \<Rightarrow> nat \<Rightarrow> segment list" where
  "filler B f n =
     (let rest = unat B - index_of B f
      in if rest < 5 then [Blank rest] else if rest < 5 + n then [Pad (rest - 5)] else [])"

definition write_segments :: "u64 \<Rightarrow> position \<Rightarrow> bytes \<Rightarrow> segment list" where
  "write_segments B f d = filler B f (length d) @ [Msg d]"

lemma messages_write_segments [simp]: "messages (write_segments B f d) = [d]"
  by (simp add: write_segments_def filler_def Let_def)

lemma total_filler_le: "total (filler B f n) \<le> unat B - index_of B f"
  by (simp add: filler_def Let_def)

text \<open>A writer made on the ring buffer, and a message that fits.\<close>

definition writer_ok :: "Writer \<Rightarrow> 'm ByteRingBuffer \<Rightarrow> bool" where
  "writer_ok w rb \<longleftrightarrow> rb_ok rb \<and> writer_indexMask w = configBufSizeBytes rb - 1"

lemma mk_Writer_ok:
  assumes "rb_ok rb" "rb_initialized rb"
  shows "mk_Writer rb = Inr \<lparr> writer_indexMask = configBufSizeBytes rb - 1 \<rparr>"
    and "writer_ok \<lparr> writer_indexMask = configBufSizeBytes rb - 1 \<rparr> rb"
  using assms by (simp_all add: mk_Writer_def IndexMask_def rb_ok_def good_size_def writer_ok_def)

lemma unat_GetMaxMessageSize: "rb_ok rb \<Longrightarrow> unat (GetMaxMessageSize rb) = unat (configBufSizeBytes rb) - 5"
  using good_size_bounds(1) [OF rb_ok_good_size, of rb]
  by (simp add: GetMaxMessageSize_def unat_diff_small)

lemma Write_plan_eq:
  assumes good: "good_size B" and n: "unat n + 5 \<le> unat B"
  shows "\<exists>bi L T. Write_plan (B - 1) B f n =
      \<lparr> plan_bufIndex = bi, plan_lengthToBufEnd = L, plan_bytesToWrite = T,
        plan_addPadding = (5 \<le> unat B - index_of B f \<and> unat B - index_of B f < 5 + unat n),
        plan_addBlank = (unat B - index_of B f < 5) \<rparr>
    \<and> unat bi = index_of B f \<and> unat L = unat B - index_of B f
    \<and> unat T = total (filler B f (unat n)) + 5 + unat n"
proof -
  define bi where "bi = BufIndex (B - 1) f"
  define L where "L = B - bi"
  have bi: "unat bi = index_of B f" by (simp add: bi_def BufIndex_mask [OF good])
  have L: "unat L = unat B - index_of B f"
    using index_of_less [OF good, of f] by (simp add: L_def unat_diff_small bi)
  have S: "unat B \<le> 2 ^ 32" by (rule good_size_bounds(2) [OF good])
  have n5: "unat (sizeof_MsgHeader + ucast n :: u64) = 5 + unat n"
    using S n by (simp add: unat_word_ariths)
  have n5L: "unat (sizeof_MsgHeader + ucast n + L :: u64) = 5 + unat n + unat L"
    using unat_add_small [of "sizeof_MsgHeader + ucast n" L] S n L by (simp add: n5)
  have less5: "L < sizeof_MsgHeader \<longleftrightarrow> unat B - index_of B f < 5"
    by (simp add: word_less_nat_alt L)
  have less5n: "L < ucast n + sizeof_MsgHeader \<longleftrightarrow> unat B - index_of B f < 5 + unat n"
    by (simp add: word_less_nat_alt L n5 add.commute [of "ucast n"])
  show ?thesis
    unfolding Write_plan_def Let_def bi_def [symmetric] L_def [symmetric] less5 less5n
    using bi L n5 n5L by (auto simp: filler_def Let_def)
qed

text \<open>
  The two storing phases as one notion: a phase \<open>extends\<close> the ring by segments if whatever
  part of the stream is not overwritten stays on the ring, followed by the new segments.
\<close>

definition extends :: "u64 \<Rightarrow> bytes \<Rightarrow> position \<Rightarrow> segment list \<Rightarrow> bytes \<Rightarrow> bool" where
  "extends B m f new m' \<longleftrightarrow> length m' = length m \<and>
     (\<forall>p ss. on_ring B m p ss \<longrightarrow> f = p + of_nat (total ss) \<longrightarrow> total ss + total new \<le> unat B
        \<longrightarrow> on_ring B m' p (ss @ new))"

lemma extends_Nil: "extends B m f [] m"
  by (simp add: extends_def)

lemma extends_trans:
  assumes "extends B m f new m1" "extends B m1 (f + of_nat (total new)) new' m2"
  shows "extends B m f (new @ new') m2"
  using assms unfolding extends_def
  by (auto simp: add.assoc simp flip: append_assoc)

lemma extends_store:
  assumes good: "good_size B" and len: "length m = unat B"
    and fits: "index_of B f + length xs \<le> unat B" "length xs \<le> total new"
    and new: "on_ring B (patch (index_of B f) xs m) f new"
  shows "extends B m f new (patch (index_of B f) xs m)"
  unfolding extends_def
proof (intro conjI allI impI)
  show "length (patch (index_of B f) xs m) = length m" using fits(1) len by simp
  fix p ss assume ss: "on_ring B m p ss" "f = p + of_nat (total ss)" "total ss + total new \<le> unat B"
  have "on_ring B (patch (index_of B f) xs m) p ss"
    using fits ss by (intro on_ring_patch [OF good len, of _ _ "total ss"]) auto
  then show "on_ring B (patch (index_of B f) xs m) p (ss @ new)"
    using new ss(2) by (simp add: on_ring_append)
qed

lemma ucast_sub_header:
  assumes "5 \<le> unat L" "unat L \<le> 2 ^ 32"
  shows "(ucast (L - sizeof_MsgHeader) :: u32) = of_nat (unat L - 5)"
proof -
  have "unat (L - sizeof_MsgHeader) = unat L - 5"
    using assms by (simp add: unat_diff_small)
  then have "(of_nat (unat (L - sizeof_MsgHeader)) :: u32) = of_nat (unat L - 5)" by (rule arg_cong)
  then show ?thesis by simp
qed

text \<open>What the two kinds of store leave at the end of the stream.\<close>

lemma stored_pad:
  assumes "index_of B f + 5 + n = unat B" "length m = unat B"
  shows "stored B (patch (index_of B f) (hdr_bytes \<lparr> hdr_type = PADDING, hdr_length = of_nat n \<rparr>) m) f (Pad n)"
  using assms read_patch_same [of "index_of B f" "hdr_bytes \<lparr> hdr_type = PADDING, hdr_length = of_nat n \<rparr>" m] by simp

lemma stored_msg:
  assumes "index_of B f + 5 + length d \<le> unat B" "length m = unat B"
  shows "stored B (patch (index_of B f + 5) d
    (patch (index_of B f) (hdr_bytes \<lparr> hdr_type = MSG, hdr_length = of_nat (length d) \<rparr>) m)) f (Msg d)"
proof -
  let ?i = "index_of B f" and ?h = "hdr_bytes \<lparr> hdr_type = MSG, hdr_length = of_nat (length d) \<rparr>"
  let ?m = "patch (?i + 5) d (patch ?i ?h m)"
  have "?m = patch ?i (?h @ d) m" using patch_append [of ?i ?h d m] assms by simp
  moreover have "take (length (?h @ d)) (drop ?i (patch ?i (?h @ d) m)) = ?h @ d"
    using assms by (intro read_patch_same) simp
  ultimately have run: "take (length (?h @ d)) (drop ?i ?m) = ?h @ d" by (simp only:)
  have "take 5 (drop ?i ?m) = take 5 (take (length (?h @ d)) (drop ?i ?m))" by (simp add: min_absorb1)
  also have "\<dots> = ?h" by (simp only: run) simp
  finally have hdr: "take 5 (drop ?i ?m) = ?h" .
  have "take (length d) (drop (?i + 5) ?m) = drop 5 (take (length (?h @ d)) (drop ?i ?m))"
    by (simp add: drop_take add.commute)
  also have "\<dots> = d" by (simp only: run) simp
  finally have "take (length d) (drop (?i + 5) ?m) = d" .
  then show ?thesis using hdr assms(1) by simp
qed

text \<open>The bytes of the buffer after the first phase, for a message of \<open>n\<close> bytes.\<close>

definition padded :: "u64 \<Rightarrow> position \<Rightarrow> nat \<Rightarrow> bytes \<Rightarrow> bytes" where
  "padded B f n m =
     (let i = index_of B f; rest = unat B - i
      in if 5 \<le> rest \<and> rest < 5 + n
         then patch i (hdr_bytes \<lparr> hdr_type = PADDING, hdr_length = of_nat (rest - 5) \<rparr>) m else m)"

lemma Write_pad_extends:
  assumes good: "good_size (configBufSizeBytes rb)" and len: "length (rb_data rb) = unat (configBufSizeBytes rb)"
    and n: "unat n + 5 \<le> unat (configBufSizeBytes rb)"
  defines "B \<equiv> configBufSizeBytes rb"
  defines "pads \<equiv> filler B (freePos rb) (unat n)"
  shows "\<exists>bi m. m = padded B (freePos rb) (unat n) (rb_data rb)
    \<and> Write_pad (Write_plan (B - 1) B (freePos rb) n) rb =
      Inr (bi, rb\<lparr>rb_data := m, freePos := freePos rb + of_nat (total pads)\<rparr>)
    \<and> extends B (rb_data rb) (freePos rb) pads m
    \<and> unat bi = index_of B (freePos rb + of_nat (total pads)) \<and> unat bi + 5 + unat n \<le> unat B"
proof -
  let ?f = "freePos rb" and ?rest = "unat B - index_of B (freePos rb)"
  note goodB = good [folded B_def] and lenB = len [folded B_def] and nB = n [folded B_def]
  obtain bi L T where plan: "Write_plan (B - 1) B ?f n =
      \<lparr> plan_bufIndex = bi, plan_lengthToBufEnd = L, plan_bytesToWrite = T,
        plan_addPadding = (5 \<le> ?rest \<and> ?rest < 5 + unat n), plan_addBlank = (?rest < 5) \<rparr>"
    and bi: "unat bi = index_of B ?f" and L: "unat L = ?rest"
    using Write_plan_eq [OF goodB nB, of ?f] by auto
  have Lnat: "L = of_nat ?rest" by (simp flip: L)
  have idx: "index_of B ?f < unat B" by (rule index_of_less [OF goodB])
  have wrap: "index_of B (?f + of_nat ?rest) = 0" by (rule index_of_wrap [OF goodB])
  consider (blank) "?rest < 5" | (pad) "5 \<le> ?rest" "?rest < 5 + unat n" | (none) "5 + unat n \<le> ?rest"
    by linarith
  then show ?thesis
  proof cases
    case blank
    then have pads: "pads = [Blank ?rest]" by (simp add: pads_def filler_def)
    have "extends B (rb_data rb) ?f pads (rb_data rb)"
      using blank idx lenB by (auto simp: extends_def pads on_ring_append)
    then show ?thesis
      using blank wrap nB Lnat by (intro exI [of _ 0] exI [of _ "rb_data rb"]) (simp add: plan Write_pad_def pads padded_def Let_def)
  next
    case pad
    then have pads: "pads = [Pad (?rest - 5)]" by (simp add: pads_def filler_def)
    let ?h = "hdr_bytes \<lparr> hdr_type = PADDING, hdr_length = of_nat (?rest - 5) \<rparr>"
    have L32: "?rest \<le> 2 ^ 32" using good_size_bounds(2) [OF goodB] by simp
    have "(ucast (L - sizeof_MsgHeader) :: u32) = of_nat (?rest - 5)"
      using ucast_sub_header [of L] pad L32 by (simp only: L)
    moreover have fit: "index_of B ?f + 5 \<le> unat B" using pad(1) idx by simp
    moreover have "extends B (rb_data rb) ?f pads (patch (index_of B ?f) ?h (rb_data rb))"
      using fit pad idx lenB read_patch_same [of "index_of B ?f" ?h "rb_data rb"]
      by (intro extends_store [OF goodB]) (simp_all add: pads)
    ultimately show ?thesis
      using pad wrap nB lenB Lnat idx
      by (intro exI [of _ 0] exI [of _ "patch (index_of B ?f) ?h (rb_data rb)"])
        (simp add: plan Write_pad_def store_header_def write_at_patch bi pads padded_def Let_def)
  next
    case none
    then have pads: "pads = []" using nB idx by (simp add: pads_def filler_def)
    then show ?thesis
      using none bi idx by (intro exI [of _ bi] exI [of _ "rb_data rb"])
        (simp add: plan Write_pad_def extends_Nil padded_def Let_def)
  qed
qed

lemma Write_msg_extends:
  assumes good: "good_size (configBufSizeBytes rb)" and len: "length (rb_data rb) = unat (configBufSizeBytes rb)"
    and bi: "unat bi = index_of (configBufSizeBytes rb) (freePos rb)"
    and n: "unat bi + 5 + unat n \<le> unat (configBufSizeBytes rb)" "unat n \<le> length data"
  defines "d \<equiv> take (unat n) data"
  shows "\<exists>m. m = patch (unat bi) (hdr_bytes \<lparr> hdr_type = MSG, hdr_length = n \<rparr> @ d) (rb_data rb)
    \<and> Write_msg bi data n rb =
      Inr (rb\<lparr>rb_data := m, freePos := freePos rb + of_nat (total [Msg d])\<rparr>)
    \<and> extends (configBufSizeBytes rb) (rb_data rb) (freePos rb) [Msg d] m
    \<and> on_ring (configBufSizeBytes rb) m (freePos rb) [Msg d]"
proof -
  let ?B = "configBufSizeBytes rb" and ?i = "index_of (configBufSizeBytes rb) (freePos rb)"
  let ?h = "hdr_bytes \<lparr> hdr_type = MSG, hdr_length = n \<rparr>"
  let ?m = "patch ?i (?h @ d) (rb_data rb)"
  have d: "length d = unat n" using n(2) by (simp add: d_def)
  have fit: "?i + length (?h @ d) \<le> length (rb_data rb)" using n(1) bi d len by simp
  have two: "patch (?i + 5) d (patch ?i ?h (rb_data rb)) = ?m"
    using patch_append [of ?i ?h d "rb_data rb"] fit by simp
  have pos: "(sizeof_MsgHeader + ucast n :: u64) = of_nat (total [Msg d])"
    by (simp add: d sizeof_MsgHeader_def)
  have "Write_msg bi data n rb = Inr (rb\<lparr>rb_data := ?m, freePos := freePos rb + of_nat (total [Msg d])\<rparr>)"
    using fit n bi two pos
    by (simp add: Write_msg_def store_header_def write_at_patch read_at_def d_def)
  moreover have st: "on_ring ?B ?m (freePos rb) [Msg d]"
    using stored_msg [of ?B "freePos rb" d "rb_data rb"] n(1) bi d len by (simp add: two)
  moreover have "extends ?B (rb_data rb) (freePos rb) [Msg d] ?m"
    using fit len st by (intro extends_store [OF good len]) simp_all
  ultimately show ?thesis by (intro exI [of _ ?m] conjI) (simp_all only: bi)
qed

text \<open>
  The whole write once backpressure is out of the way: it succeeds, keeps every field but
  the data and the stream end, extends the ring by the filler and the message, and leaves
  the message itself on the ring in any case.
\<close>

definition stored_write :: "'m ByteRingBuffer \<Rightarrow> bytes \<Rightarrow> 'm ByteRingBuffer \<Rightarrow> bool" where
  "stored_write rb d rb' \<longleftrightarrow>
     (\<exists>m. rb' = rb\<lparr>rb_data := m,
         freePos := freePos rb + of_nat (total (write_segments (configBufSizeBytes rb) (freePos rb) d))\<rparr>
       \<and> extends (configBufSizeBytes rb) (rb_data rb) (freePos rb)
           (write_segments (configBufSizeBytes rb) (freePos rb) d) m
       \<and> on_ring (configBufSizeBytes rb) m
           (freePos rb + of_nat (total (filler (configBufSizeBytes rb) (freePos rb) (length d)))) [Msg d])"

lemma Write_stores:
  assumes w: "writer_ok w rb" and n: "ucast n \<le> GetMaxMessageSize rb" "unat n \<le> length data"
    and bp: "readerBP \<Longrightarrow> DetectReaderBackpressure
        (plan_bytesToWrite (Write_plan (writer_indexMask w) (configBufSizeBytes rb) (freePos rb) n)) skip rb ri
        = Inr None"
  shows "\<exists>rb'. Write w data n readerBP skip ri rb = Inr (None, rb') \<and> stored_write rb (take (unat n) data) rb'"
proof -
  let ?B = "configBufSizeBytes rb" and ?f = "freePos rb" and ?d = "take (unat n) data"
  let ?p = "Write_plan (?B - 1) ?B ?f n"
  have ok: "rb_ok rb" and mask: "writer_indexMask w = ?B - 1" using w by (auto simp: writer_ok_def)
  have n5: "unat n + 5 \<le> unat ?B"
    using n(1) good_size_bounds(1) [OF rb_ok_good_size [OF ok]]
    by (simp add: word_le_nat_alt unat_GetMaxMessageSize [OF ok])
  obtain bi m where pad: "Write_pad ?p rb =
        Inr (bi, rb\<lparr>rb_data := m, freePos := ?f + of_nat (total (filler ?B ?f (unat n)))\<rparr>)"
      and ext: "extends ?B (rb_data rb) ?f (filler ?B ?f (unat n)) m"
      and bi: "unat bi = index_of ?B (?f + of_nat (total (filler ?B ?f (unat n))))"
        "unat bi + 5 + unat n \<le> unat ?B"
    using Write_pad_extends [OF rb_ok_good_size [OF ok] rb_ok_length [OF ok] n5] by blast
  let ?rb1 = "rb\<lparr>rb_data := m, freePos := ?f + of_nat (total (filler ?B ?f (unat n)))\<rparr>"
  have len: "length m = unat ?B" using ext rb_ok_length [OF ok] by (simp add: extends_def)
  obtain m' where msg: "Write_msg bi data n ?rb1 =
        Inr (?rb1\<lparr>rb_data := m', freePos := freePos ?rb1 + of_nat (total [Msg ?d])\<rparr>)"
      and ext': "extends ?B m (freePos ?rb1) [Msg ?d] m'" and st: "on_ring ?B m' (freePos ?rb1) [Msg ?d]"
    using Write_msg_extends [of ?rb1 bi n data] rb_ok_good_size [OF ok] len bi n(2) by auto
  have "Write w data n readerBP skip ri rb =
      Inr (None, ?rb1\<lparr>rb_data := m', freePos := freePos ?rb1 + of_nat (total [Msg ?d])\<rparr>)"
    using n(1) bp pad msg by (simp add: Write_def Let_def mask not_less EMPTY_POSITION_def)
  moreover have "extends ?B (rb_data rb) ?f (filler ?B ?f (unat n) @ [Msg ?d]) m'"
    using ext ext' by (intro extends_trans) simp_all
  ultimately show ?thesis
    using st n(2) unfolding stored_write_def write_segments_def
    by (intro exI conjI) (auto simp: min_absorb2 add.assoc)
qed

text \<open>The bytes a successful write leaves: the two stores, in their order, and nothing else.\<close>

lemma Write_bytes:
  assumes w: "writer_ok w rb" and n: "ucast n \<le> GetMaxMessageSize rb" "unat n \<le> length data"
    and wr: "Write w data n readerBP skip ri rb = Inr (None, rb')"
  defines "B \<equiv> configBufSizeBytes rb"
  shows "rb_data rb' =
    patch (index_of B (freePos rb + of_nat (total (filler B (freePos rb) (unat n)))))
      (hdr_bytes \<lparr> hdr_type = MSG, hdr_length = n \<rparr> @ take (unat n) data)
      (padded B (freePos rb) (unat n) (rb_data rb))"
proof -
  let ?f = "freePos rb"
  have ok: "rb_ok rb" and mask: "writer_indexMask w = B - 1" using w by (auto simp: writer_ok_def B_def)
  have n5: "unat n + 5 \<le> unat (configBufSizeBytes rb)"
    using n(1) good_size_bounds(1) [OF rb_ok_good_size [OF ok]]
    by (simp add: word_le_nat_alt unat_GetMaxMessageSize [OF ok])
  obtain bi m where m: "m = padded B ?f (unat n) (rb_data rb)"
      and pad: "Write_pad (Write_plan (B - 1) B ?f n) rb =
        Inr (bi, rb\<lparr>rb_data := m, freePos := ?f + of_nat (total (filler B ?f (unat n)))\<rparr>)"
      and ext: "extends B (rb_data rb) ?f (filler B ?f (unat n)) m"
      and bi: "unat bi = index_of B (?f + of_nat (total (filler B ?f (unat n))))"
        "unat bi + 5 + unat n \<le> unat B"
    using Write_pad_extends [OF rb_ok_good_size [OF ok] rb_ok_length [OF ok] n5] unfolding B_def by blast
  let ?rb1 = "rb\<lparr>rb_data := m, freePos := ?f + of_nat (total (filler B ?f (unat n)))\<rparr>"
  have len: "length m = unat B" using ext rb_ok_length [OF ok] by (simp add: extends_def B_def)
  have "\<exists>fp. Write_msg bi data n ?rb1 = Inr (?rb1\<lparr>rb_data :=
      patch (unat bi) (hdr_bytes \<lparr> hdr_type = MSG, hdr_length = n \<rparr> @ take (unat n) data) m, freePos := fp\<rparr>)"
    using Write_msg_extends [of ?rb1 bi n data] rb_ok_good_size [OF ok] len bi n(2) by (auto simp: B_def)
  then show ?thesis
    using wr n(1) pad mask unfolding B_def [symmetric]
    by (auto simp: Write_def Let_def m bi(1) EMPTY_POSITION_def simp flip: B_def split: if_splits sum.splits option.splits)
qed

section \<open>What backpressure detection finds\<close>

lemma bp_check_active: "bp_check B f n skip info = Some r \<Longrightarrow> slot_active info"
  by (auto simp: bp_check_def Let_def split: if_splits)

lemma Detect_search_range:
  "DetectReaderBackpressure n skip rb ri =
     table.search_range ri (bp_check (configBufSizeBytes rb) (freePos rb) n skip)"
  by (simp add: DetectReaderBackpressure_def table.search_range_def split: prod.splits)

lemma Detect_total: "ri_inv ri \<Longrightarrow> \<exists>r. DetectReaderBackpressure n skip rb ri = Inr r"
  unfolding Detect_search_range by (rule table.search_range_total)

lemma Detect_None_iff:
  assumes "ri_inv ri"
  shows "DetectReaderBackpressure n skip rb ri = Inr None \<longleftrightarrow>
    (\<forall>i. active_at ri i \<longrightarrow> bp_check (configBufSizeBytes rb) (freePos rb) n skip (ri_slots ri ! i) = None)"
proof -
  have act: "active_at ri i \<longleftrightarrow> i < unat (configMaxReaders ri) \<and> slot_active (ri_slots ri ! i)" for i
    using assms by (auto simp: active_at_def ri_inv_def slots_ok_def)
  have "DetectReaderBackpressure n skip rb ri = Inr None \<longleftrightarrow>
      (\<forall>i info. i < unat (configMaxReaders ri) \<longrightarrow> Get ri (int i) = Inr info \<longrightarrow>
        bp_check (configBufSizeBytes rb) (freePos rb) n skip info = None)"
    unfolding Detect_search_range
    by (rule table.search_range_None [OF assms]) (auto dest: bp_check_active)
  also have "\<dots> \<longleftrightarrow> (\<forall>i. i < unat (configMaxReaders ri) \<longrightarrow>
        bp_check (configBufSizeBytes rb) (freePos rb) n skip (ri_slots ri ! i) = None)"
    using Get_nat [OF assms] by auto
  also have "\<dots> \<longleftrightarrow> (\<forall>i. active_at ri i \<longrightarrow>
        bp_check (configBufSizeBytes rb) (freePos rb) n skip (ri_slots ri ! i) = None)"
    using bp_check_active by (metis act not_None_eq)
  finally show ?thesis .
qed

lemma Detect_Some:
  assumes "ri_inv ri" "DetectReaderBackpressure n skip rb ri = Inr (Some r)"
  shows "\<exists>i. active_at ri i \<and> bp_check (configBufSizeBytes rb) (freePos rb) n skip (ri_slots ri ! i) = Some r"
proof -
  obtain i info where i: "i < unat (configMaxReaders ri)" "Get ri (int i) = Inr info"
      "bp_check (configBufSizeBytes rb) (freePos rb) n skip info = Some r"
    using table.search_range_Some [OF assms(1) assms(2) [unfolded Detect_search_range]] by blast
  then have "info = ri_slots ri ! i" using Get_nat [OF assms(1)] by auto
  then show ?thesis
    using i bp_check_active [OF i(3)] assms(1)
    by (intro exI [of _ i]) (auto simp: active_at_def ri_inv_def slots_ok_def)
qed

text \<open>For a slot less than half the position space behind, the check compares distances.\<close>

lemma bp_check_dist:
  assumes "good_size B" "dist (info_position info) f + unat n < 2 ^ 63"
  shows "bp_check B f n None info =
    (if slot_active info \<and> dist (info_position info) f < unat B
        \<and> unat B \<le> dist (info_position info) f + unat n
     then Some (info_position info) else None)"
proof -
  have "dist (info_position info) (f + n) = dist (info_position info) f + unat n"
    using assms(2) by (intro dist_add_right) simp
  then show ?thesis
    using assms(2) good_size_bounds(3) [OF assms(1)] by (simp add: bp_check_def Let_def Expired_dist)
qed

section \<open>The write loop\<close>

lemma writer_ok_update [simp]:
  "writer_ok w (rb\<lparr>backPressureCount := c\<rparr>) = writer_ok w rb"
  "writer_ok w (rb\<lparr>writerMtx := mtx\<rparr>) = writer_ok w rb"
  "GetMaxMessageSize (rb\<lparr>backPressureCount := c\<rparr>) = GetMaxMessageSize rb"
  "GetMaxMessageSize (rb\<lparr>writerMtx := mtx\<rparr>) = GetMaxMessageSize rb"
  by (simp_all add: writer_ok_def rb_ok_def GetMaxMessageSize_def)

lemma Write_forced:
  assumes "writer_ok w rb" "ucast n \<le> GetMaxMessageSize rb" "unat n \<le> length data"
  shows "\<exists>rb'. Write w data n False skip ri rb = Inr (None, rb') \<and> stored_write rb (take (unat n) data) rb'"
  using Write_stores [OF assms, of False skip ri] by simp

lemma Write_checked:
  assumes w: "writer_ok w rb" and n: "ucast n \<le> GetMaxMessageSize rb" "unat n \<le> length data"
    and ri: "ri_inv ri"
  shows "(\<exists>rb'. Write w data n True skip ri rb = Inr (None, rb') \<and> stored_write rb (take (unat n) data) rb')
    \<or> (\<exists>r. Write w data n True skip ri rb = Inr (Some r, rb))"
proof -
  let ?D = "DetectReaderBackpressure
    (plan_bytesToWrite (Write_plan (writer_indexMask w) (configBufSizeBytes rb) (freePos rb) n)) skip rb ri"
  obtain r where D: "?D = Inr r" using Detect_total [OF ri] by blast
  show ?thesis
  proof (cases r)
    case None
    then show ?thesis using Write_stores [OF w n, of True skip ri] D by simp
  next
    case (Some p)
    then show ?thesis using D n(1) by (simp add: Write_def Let_def not_less)
  qed
qed

text \<open>What the loop leaves behind: the message is stored, after some backpressure events.\<close>

definition written :: "'m ByteRingBuffer \<Rightarrow> bytes \<Rightarrow> 'm ByteRingBuffer \<Rightarrow> bool" where
  "written rb d rb' \<longleftrightarrow> (\<exists>c. stored_write (rb\<lparr>backPressureCount := c\<rparr>) d rb')"

lemma stored_write_written: "stored_write rb d rb' \<Longrightarrow> written rb d rb'"
  unfolding written_def by (rule exI [of _ "backPressureCount rb"]) simp

lemma written_backpressure: "written (rb\<lparr>backPressureCount := c\<rparr>) d rb' \<Longrightarrow> written rb d rb'"
  by (simp add: written_def)

definition handler_keeps :: "('m, 'e) bp_handler \<Rightarrow> bool" where
  "handler_keeps h \<longleftrightarrow> (\<forall>p f ri env. ri_inv ri \<longrightarrow> ri_inv (fst (snd (h p f (ri, env)))))"

lemma handler_keepsD:
  "handler_keeps h \<Longrightarrow> ri_inv ri \<Longrightarrow> h p f (ri, env) = (c, ri', env') \<Longrightarrow> ri_inv ri'"
  unfolding handler_keeps_def by (metis fst_conv snd_conv)

text \<open>
  Total correctness: if every answer "continue" of the handler decreases a measure of the
  state it sees, the loop returns, without failure and with the message written.
\<close>

lemma WriteLoop_returns:
  fixes \<mu> :: "'m ReaderInfo \<times> 'e \<Rightarrow> nat"
  assumes keeps: "handler_keeps h"
    and decr: "\<And>p f ri env ri' env'. h p f (ri, env) = (True, ri', env') \<Longrightarrow> \<mu> (ri', env') < \<mu> (ri, env)"
    and "writer_ok w rb" "ucast n \<le> GetMaxMessageSize rb" "unat n \<le> length data" "ri_inv ri"
  shows "\<exists>rb' ri' env'. WriteLoop h w data n (rb, ri, env) = Some (Inr (rb', ri', env'))
    \<and> written rb (take (unat n) data) rb' \<and> ri_inv ri'"
  using assms(3-6)
proof (induction "\<mu> (ri, env)" arbitrary: rb ri env rule: less_induct)
  case less
  from Write_checked [OF less.prems, of EMPTY_POSITION] show ?case
  proof (elim disjE exE conjE)
    fix rb' assume "Write w data n True EMPTY_POSITION ri rb = Inr (None, rb')"
      "stored_write rb (take (unat n) data) rb'"
    then show ?thesis using less.prems(4) by (subst WriteLoop.simps) (auto intro: stored_write_written)
  next
    fix r assume bp: "Write w data n True EMPTY_POSITION ri rb = Inr (Some r, rb)"
    let ?rb = "rb\<lparr>backPressureCount := backPressureCount rb + 1\<rparr>"
    obtain c ri' env' where h: "h 0 (freePos rb) (ri, env) = (c, ri', env')" by (metis prod_cases3)
    have inv: "ri_inv ri'" by (rule handler_keepsD [OF keeps less.prems(4) h])
    show ?thesis
    proof (cases c)
      case True
      then have "\<mu> (ri', env') < \<mu> (ri, env)" using decr [of 0 "freePos rb" ri env ri' env'] h by simp
      from less.hyps [OF this, of ?rb] obtain rb'' ri'' env''
        where loop: "WriteLoop h w data n (?rb, ri', env') = Some (Inr (rb'', ri'', env''))"
          "written ?rb (take (unat n) data) rb''" "ri_inv ri''"
        using less.prems inv by auto
      then show ?thesis
        using bp h True written_backpressure by (subst WriteLoop.simps) (auto simp: Let_def)
    next
      case False
      obtain rb'' where "Write w data n False EMPTY_POSITION ri' ?rb = Inr (None, rb'')"
          "stored_write ?rb (take (unat n) data) rb''"
        using Write_forced [of w ?rb n data] less.prems by auto
      then show ?thesis
        using bp h False inv by (subst WriteLoop.simps) (auto simp: Let_def written_def)
    qed
  qed
qed

lemma stored_write_frame:
  assumes "stored_write rb d rb'"
  shows "configBufSizeBytes rb' = configBufSizeBytes rb" "length (rb_data rb') = length (rb_data rb)"
    "rb_initialized rb' = rb_initialized rb" "writerMtx rb' = writerMtx rb"
    "notificationCount rb' = notificationCount rb" "backPressureCount rb' = backPressureCount rb"
    "rb_ok rb' = rb_ok rb" "writer_ok w rb' = writer_ok w rb"
  using assms by (auto simp: stored_write_def extends_def rb_ok_def writer_ok_def)

text \<open>
  The write under the mutex: if the mutex can be acquired, the call returns with the message
  written and the mutex free again, although its owner may have died holding it.
\<close>

definition written_free :: "('m \<Rightarrow> mutex_view) \<Rightarrow> 'm ByteRingBuffer \<Rightarrow> bytes \<Rightarrow> 'm ByteRingBuffer \<Rightarrow> bool" where
  "written_free view rb d rb' \<longleftrightarrow>
     (\<exists>c m m'. stored_write (rb\<lparr>writerMtx := m, backPressureCount := c\<rparr>) d (rb'\<lparr>writerMtx := m\<rparr>)
        \<and> writerMtx rb' = m' \<and> view m' = Free)"

context robust_pthread
begin

lemma WriteEx_returns:
  fixes \<mu> :: "'m ReaderInfo \<times> 'e \<Rightarrow> nat"
  assumes keeps: "handler_keeps h"
    and decr: "\<And>p f ri env ri' env'. h p f (ri, env) = (True, ri', env') \<Longrightarrow> \<mu> (ri', env') < \<mu> (ri, env)"
    and w: "writer_ok w rb" and n: "ucast n \<le> GetMaxMessageSize rb" "unat n \<le> length data" and ri: "ri_inv ri"
    and mtx: "settled (view (writerMtx rb))" "holder_of (view (writerMtx rb)) = None"
  shows "\<exists>rb' ri' env'. WriteEx pt t h w data n (rb, ri, env) = Some (Inr (rb', ri', env'))
    \<and> written_free view rb (take (unat n) data) rb' \<and> ri_inv ri'"
proof -
  obtain m where m: "Lock pt t (writerMtx rb) = Inr m" "view m = Held t"
    using Lock_acquires [OF mtx] by blast
  let ?rb = "rb\<lparr>writerMtx := m\<rparr>"
  have "\<exists>rb' ri' env'. WriteLoop h w data n (?rb, ri, env) = Some (Inr (rb', ri', env'))
      \<and> written ?rb (take (unat n) data) rb' \<and> ri_inv ri'"
    by (rule WriteLoop_returns [of h \<mu>]) (use keeps decr w n ri in simp_all)
  then obtain rb1 ri' env' where loop: "WriteLoop h w data n (?rb, ri, env) = Some (Inr (rb1, ri', env'))"
      and wr: "written ?rb (take (unat n) data) rb1" and ri': "ri_inv ri'"
    by blast
  from wr obtain c where st: "stored_write (?rb\<lparr>backPressureCount := c\<rparr>) (take (unat n) data) rb1"
    by (auto simp: written_def)
  then have "writerMtx rb1 = m" using stored_write_frame(4) [OF st] by simp
  moreover obtain m' where m': "Unlock pt t m = Inr m'" "view m' = Free" using Unlock_releases [OF m(2)] by blast
  ultimately have ex: "WriteEx pt t h w data n (rb, ri, env) = Some (Inr (rb1\<lparr>writerMtx := m'\<rparr>, ri', env'))"
    by (simp add: WriteEx_def m loop)
  have "rb1\<lparr>writerMtx := m', writerMtx := m\<rparr> = rb1" using \<open>writerMtx rb1 = m\<close> by simp
  then have "written_free view rb (take (unat n) data) (rb1\<lparr>writerMtx := m'\<rparr>)"
    unfolding written_free_def using st m'(2)
    by (intro exI [of _ c] exI [of _ m] exI [of _ m']) simp
  with ex ri' show ?thesis by blast
qed

end

section \<open>A write that can never succeed\<close>

lemma Write_blocked:
  assumes w: "writer_ok w rb" and n: "ucast n \<le> GetMaxMessageSize rb" and ri: "ri_inv ri"
    and act: "active_at ri k" "info_position (ri_slots ri ! k) = freePos rb"
    and big: "unat (configBufSizeBytes rb) \<le> total (filler (configBufSizeBytes rb) (freePos rb) (unat n)) + 5 + unat n"
  shows "\<exists>r. Write w data n True EMPTY_POSITION ri rb = Inr (Some r, rb)"
proof -
  let ?B = "configBufSizeBytes rb" and ?f = "freePos rb"
  let ?T = "plan_bytesToWrite (Write_plan (writer_indexMask w) ?B ?f n)"
  have ok: "rb_ok rb" and mask: "writer_indexMask w = ?B - 1" using w by (auto simp: writer_ok_def)
  note good = rb_ok_good_size [OF ok]
  have n5: "unat n + 5 \<le> unat ?B"
    using n good_size_bounds(1) [OF good] by (simp add: word_le_nat_alt unat_GetMaxMessageSize [OF ok])
  have T: "unat ?T = total (filler ?B ?f (unat n)) + 5 + unat n"
    using Write_plan_eq [OF good n5, of ?f] by (auto simp: mask)
  have Tle: "unat ?T \<le> 2 * unat ?B" using T total_filler_le [of ?B ?f "unat n"] n5 by simp
  have "bp_check ?B ?f ?T None (ri_slots ri ! k) = Some ?f"
    using act big T Tle good_size_bounds [OF good] bp_check_dist [OF good, of "ri_slots ri ! k" ?f ?T]
    by (auto simp: active_at_def)
  then have "DetectReaderBackpressure ?T EMPTY_POSITION rb ri \<noteq> Inr None"
    unfolding EMPTY_POSITION_def using Detect_None_iff [OF ri, of ?T None rb] act(1) by auto
  then obtain r where "DetectReaderBackpressure ?T EMPTY_POSITION rb ri = Inr (Some r)"
    using Detect_total [OF ri, of ?T EMPTY_POSITION rb] by (metis not_None_eq)
  then show ?thesis using n by (simp add: Write_def Let_def not_less)
qed

lemma WriteLoop_never_returns:
  fixes h :: "('m, 'e) bp_handler"
  assumes blocked: "\<And>c. \<exists>r. Write w data n True EMPTY_POSITION ri (rb\<lparr>backPressureCount := c\<rparr>)
      = Inr (Some r, rb\<lparr>backPressureCount := c\<rparr>)"
    and h: "\<And>p f env. \<exists>env'. h p f (ri, env) = (True, ri, env')"
  shows "WriteLoop h w data n (rb, ri, env) = None"
proof (rule ccontr)
  assume "WriteLoop h w data n (rb, ri, env) \<noteq> None"
  then obtain y where y: "WriteLoop h w data n (rb, ri, env) = Some y" by blast
  define stuck where "stuck = (\<lambda>h' w' data' n' (s :: 'm ByteRingBuffer \<times> 'm ReaderInfo \<times> 'e)
    (y' :: ('m ByteRingBuffer \<times> 'm ReaderInfo \<times> 'e) result).
    h' = h \<and> w' = w \<and> data' = data \<and> n' = n \<and> (\<exists>c env. s = (rb\<lparr>backPressureCount := c\<rparr>, ri, env)))"
  have "\<not> stuck h w data n (rb, ri, env) y"
  proof (rule WriteLoop.raw_induct [OF _ y, where P = "\<lambda>h' w' data' n' s y'. \<not> stuck h' w' data' n' s y'"])
    fix loop and h' :: "('m, 'e) bp_handler" and w' data' n' s y'
    assume IH: "\<And>h' w' data' n' s y'. loop h' w' data' n' s = Some y' \<Longrightarrow> \<not> stuck h' w' data' n' s y'"
      and body: "(case s of (rb, ri, env) \<Rightarrow>
       (case Write w' data' n' True EMPTY_POSITION ri rb of
          Inl e \<Rightarrow> Some (Inl e)
        | Inr (None, rb1) \<Rightarrow> Some (Inr (rb1, ri, env))
        | Inr (Some readBp, rb1) \<Rightarrow>
            (let rb2 = rb1\<lparr>backPressureCount := backPressureCount rb1 + 1\<rparr> in
             case h' 0 (freePos rb2) (ri, env) of (continueRunning, ri', env') \<Rightarrow>
               if continueRunning then loop h' w' data' n' (rb2, ri', env')
               else (case Write w' data' n' False EMPTY_POSITION ri' rb2 of
                       Inl e \<Rightarrow> Some (Inl e)
                     | Inr (_, rb3) \<Rightarrow> Some (Inr (rb3, ri', env')))))) = Some y'"
    show "\<not> stuck h' w' data' n' s y'"
    proof
      assume "stuck h' w' data' n' s y'"
      then obtain c env where eq: "h' = h" "w' = w" "data' = data" "n' = n" "s = (rb\<lparr>backPressureCount := c\<rparr>, ri, env)"
        by (auto simp: stuck_def)
      obtain r where wr: "Write w data n True EMPTY_POSITION ri (rb\<lparr>backPressureCount := c\<rparr>)
          = Inr (Some r, rb\<lparr>backPressureCount := c\<rparr>)" using blocked by blast
      obtain env' where "h 0 (freePos rb) (ri, env) = (True, ri, env')" using h by blast
      then have "loop h w data n (rb\<lparr>backPressureCount := c + 1\<rparr>, ri, env') = Some y'"
        using body wr by (simp add: eq)
      from IH [OF this] show False unfolding stuck_def by blast
    qed
  qed
  moreover have "stuck h w data n (rb, ri, env) y"
    unfolding stuck_def by (intro conjI refl exI [of _ "backPressureCount rb"] exI [of _ env]) simp
  ultimately show False by blast
qed

section \<open>Properties\<close>

lemma Write_stored:
  assumes "writer_ok w rb" "ri_inv ri" "ucast n \<le> GetMaxMessageSize rb" "unat n \<le> length data"
  shows "(\<exists>r. readerBP \<and> Write w data n readerBP EMPTY_POSITION ri rb = Inr (Some r, rb))
    \<or> (\<exists>rb'. Write w data n readerBP EMPTY_POSITION ri rb = Inr (None, rb') \<and> stored_write rb (take (unat n) data) rb')"
  using Write_checked [OF assms(1,3,4,2)] Write_forced [OF assms(1,3,4)] by (cases readerBP) auto

text \<open>
  C20: Backpressure detection. While every active slot is less than half the position space
  behind, DetectReaderBackpressure looks at every active slot and at no other, although it
  only scans the published range: it reports nothing exactly if no reader that has not
  expired yet would be expired by \<open>n\<close> more bytes, and otherwise the position of one that
  would be.
\<close>

theorem backpressure_detected:
  assumes "rb_ok rb" "ri_inv ri"
    and "\<And>k. active_at ri k \<Longrightarrow> dist (info_position (ri_slots ri ! k)) (freePos rb) + unat n < 2 ^ 63"
  shows "\<exists>res. DetectReaderBackpressure n EMPTY_POSITION rb ri = Inr res
    \<and> (case res of
         None \<Rightarrow> \<forall>k. active_at ri k \<longrightarrow>
           dist (info_position (ri_slots ri ! k)) (freePos rb) < unat (configBufSizeBytes rb) \<longrightarrow>
           dist (info_position (ri_slots ri ! k)) (freePos rb) + unat n < unat (configBufSizeBytes rb)
       | Some r \<Rightarrow> \<exists>k. active_at ri k \<and> r = info_position (ri_slots ri ! k) \<and>
           dist r (freePos rb) < unat (configBufSizeBytes rb) \<and>
           unat (configBufSizeBytes rb) \<le> dist r (freePos rb) + unat n)"
proof -
  obtain res where res: "DetectReaderBackpressure n EMPTY_POSITION rb ri = Inr res"
    using Detect_total [OF assms(2)] by blast
  note chk = bp_check_dist [OF rb_ok_good_size [OF assms(1)] assms(3)]
  show ?thesis
  proof (cases res)
    case None
    then show ?thesis
      using res Detect_None_iff [OF assms(2), of n None rb] chk
      by (auto simp: EMPTY_POSITION_def active_at_def not_le split: if_splits)
  next
    case (Some r)
    then have "\<exists>k. active_at ri k \<and> bp_check (configBufSizeBytes rb) (freePos rb) n None (ri_slots ri ! k) = Some r"
      using res by (intro Detect_Some [OF assms(2)]) (simp add: EMPTY_POSITION_def)
    then obtain k where "active_at ri k"
      "bp_check (configBufSizeBytes rb) (freePos rb) n None (ri_slots ri ! k) = Some r" by blast
    then show ?thesis using res Some chk [of k] by (auto split: if_splits)
  qed
qed

text \<open>Two readers, one of them inactive.\<close>

definition one_behind :: "mutex_view ReaderInfo" where
  "one_behind = table_2\<lparr>readersMinMax := 0x10002,
     ri_slots := [new_info Free, (new_info (Held 1))\<lparr>info_isActive := 1, info_position := 7\<rparr>]\<rparr>"

lemma one_behind_inv: "ri_inv one_behind"
  by (auto simp: one_behind_def ri_inv_def slots_ok_def range_covers_def active_at_def slot_active_def new_info_def
      GetActiveRange_def range_min_def range_max_def less_Suc_eq)

lemma one_behind_active: "active_at one_behind k \<longleftrightarrow> k = 1"
  by (auto simp: one_behind_def active_at_def slot_active_def new_info_def less_Suc_eq)

theorem backpressure_detected_witness:
  "DetectReaderBackpressure 20 EMPTY_POSITION (ring_32\<lparr>freePos := 20\<rparr>) one_behind = Inr (Some 7)
   \<and> DetectReaderBackpressure 18 EMPTY_POSITION (ring_32\<lparr>freePos := 20\<rparr>) one_behind = Inr None"
proof -
  have ok: "rb_ok (ring_32\<lparr>freePos := 20\<rparr>)" by (simp add: rb_ok_def good_size_32)
  have pos: "info_position (ri_slots one_behind ! 1) = 7" by (simp add: one_behind_def)
  have "\<And>k n. active_at one_behind k \<Longrightarrow> n < 2 ^ 62 \<Longrightarrow>
      dist (info_position (ri_slots one_behind ! k)) (freePos (ring_32\<lparr>freePos := 20\<rparr>)) + n < 2 ^ 63"
    using pos by (simp add: one_behind_active dist_def)
  from backpressure_detected [OF ok one_behind_inv this, of 20]
    backpressure_detected [OF ok one_behind_inv this, of 18] pos
  show ?thesis by (auto simp: one_behind_active dist_def split: option.splits)
qed

text \<open>
  C21: What one write does, to the byte. For a message that fits, Write either reports
  backpressure and leaves the ring exactly as it was (only if asked to respect it), or moves
  the end of the stream behind the filler and the message and stores in the buffer, in this
  order, the PADDING header with the length of the run at the old end, when there is room for
  a header there but not for the message, and the MSG header and the data at the new place;
  no other byte and no other field changes. The header and the data can be read back at the
  new place. It never fails.
\<close>

theorem Write_outcome:
  assumes "writer_ok w rb" "ri_inv ri" "ucast n \<le> GetMaxMessageSize rb" "unat n \<le> length data"
    and "start = unat (freePos rb) mod unat (configBufSizeBytes rb)"
    and "rest = unat (configBufSizeBytes rb) - start"
  shows "(\<exists>r. readerBP \<and> Write w data n readerBP EMPTY_POSITION ri rb = Inr (Some r, rb))
    \<or> (\<exists>rb' p i. Write w data n readerBP EMPTY_POSITION ri rb = Inr (None, rb')
        \<and> p = freePos rb + of_nat (total (filler (configBufSizeBytes rb) (freePos rb) (unat n)))
        \<and> i = unat p mod unat (configBufSizeBytes rb)
        \<and> rb' = rb\<lparr>freePos := p + 5 + ucast n,
            rb_data := patch i (hdr_bytes \<lparr> hdr_type = MSG, hdr_length = n \<rparr> @ take (unat n) data)
              (if 5 \<le> rest \<and> rest < 5 + unat n
               then patch start (hdr_bytes \<lparr> hdr_type = PADDING, hdr_length = of_nat (rest - 5) \<rparr>) (rb_data rb)
               else rb_data rb)\<rparr>
        \<and> load_header i (rb_data rb') = Inr \<lparr> hdr_type = MSG, hdr_length = n \<rparr>
        \<and> read_at (i + 5) (unat n) (rb_data rb') = Inr (take (unat n) data))"
proof -
  from Write_stored [OF assms(1-4), of readerBP] show ?thesis
  proof (elim disjE exE conjE)
    fix rb' assume wr: "Write w data n readerBP EMPTY_POSITION ri rb = Inr (None, rb')"
      and st: "stored_write rb (take (unat n) data) rb'"
    define d where "d = take (unat n) data"
    let ?B = "configBufSizeBytes rb"
    define p where "p = freePos rb + of_nat (total (filler ?B (freePos rb) (unat n)))"
    have len: "length d = unat n" using assms(4) by (simp add: d_def)
    have ok: "rb_ok rb" using assms(1) by (simp add: writer_ok_def)
    have data: "length (rb_data rb') = unat ?B"
      using stored_write_frame(2) [OF st] rb_ok_length [OF ok] by simp
    have on: "stored ?B (rb_data rb') p (Msg d)" and f: "freePos rb' = p + of_nat (5 + unat n)"
      using st unfolding d_def [symmetric] by (auto simp: stored_write_def len write_segments_def add.assoc p_def)
    have "(of_nat (5 + unat n) :: u64) = 5 + ucast n" by simp
    then have "freePos rb' = p + 5 + ucast n" by (simp only: f add.assoc)
    moreover have "rb' = rb\<lparr>freePos := freePos rb', rb_data := rb_data rb'\<rparr>"
      using st by (cases rb) (auto simp: stored_write_def)
    moreover note Write_bytes [OF assms(1,3,4) wr]
    moreover have "load_header (index_of ?B p) (rb_data rb') = Inr \<lparr> hdr_type = MSG, hdr_length = n \<rparr>"
      using on data by (intro load_header_bytes) (auto simp: len)
    moreover have "read_at (index_of ?B p + 5) (unat n) (rb_data rb') = Inr d"
      using on data by (auto simp: read_at_def len)
    ultimately show ?thesis
      using wr assms(5,6) unfolding index_of_def padded_def Let_def d_def [symmetric] p_def [symmetric] by simp
  qed blast
qed

text \<open>
  C40: Unread messages survive. Whatever run of segments ends at the end of the stream, a
  successful write of a message keeps it on the ring, byte for byte, unless the run and the new
  segments together are longer than the buffer, and continues it by the filler (a padding run
  with its header, or the blank bytes where not even a header fits) and the message.
\<close>

theorem Write_keeps_stream:
  assumes "writer_ok w rb" "ri_inv ri" "ucast n \<le> GetMaxMessageSize rb" "unat n \<le> length data"
    and "Write w data n readerBP EMPTY_POSITION ri rb = Inr (None, rb')"
    and "on_ring (configBufSizeBytes rb) (rb_data rb) p ss" "freePos rb = p + of_nat (total ss)"
    and "total ss + total (write_segments (configBufSizeBytes rb) (freePos rb) (take (unat n) data))
      \<le> unat (configBufSizeBytes rb)"
  shows "on_ring (configBufSizeBytes rb') (rb_data rb') p
      (ss @ filler (configBufSizeBytes rb) (freePos rb) (unat n) @ [Msg (take (unat n) data)])"
proof -
  have "stored_write rb (take (unat n) data) rb'"
    using Write_stored [OF assms(1-4), of readerBP] assms(5) by auto
  then show ?thesis
    using assms(4,6-8) by (auto simp: stored_write_def extends_def write_segments_def min_absorb2)
qed

definition writer_32 :: Writer where
  "writer_32 = \<lparr> writer_indexMask = 31 \<rparr>"

lemma writer_32_ok: "rb_ok rb \<Longrightarrow> configBufSizeBytes rb = 32 \<Longrightarrow> writer_ok writer_32 rb"
  by (simp add: writer_ok_def writer_32_def)

lemma max_32: "configBufSizeBytes rb = 32 \<Longrightarrow> GetMaxMessageSize rb = 27"
  by (simp add: GetMaxMessageSize_def sizeof_MsgHeader_def)

theorem Write_outcome_witness:
  "Write writer_32 [7, 8, 9] 2 False EMPTY_POSITION table_2 (ring_32\<lparr>freePos := 26\<rparr>) = Inr (None,
     ring_32\<lparr>freePos := 39, rb_data := hdr_bytes \<lparr> hdr_type = MSG, hdr_length = 2 \<rparr> @ [7, 8] @ replicate 19 0
       @ hdr_bytes \<lparr> hdr_type = PADDING, hdr_length = 1 \<rparr> @ [0]\<rparr>)"
proof -
  let ?rb = "ring_32\<lparr>freePos := 26\<rparr>"
  have ok: "writer_ok writer_32 ?rb" by (intro writer_32_ok) (simp_all add: rb_ok_def good_size_32)
  have len: "ucast (2 :: u32) \<le> GetMaxMessageSize ?rb" by (subst max_32) simp_all
  have fill: "total (filler 32 26 2) = 6" by (simp add: filler_def index_of_def)
  have bytes: "patch 0 (hdr_bytes \<lparr> hdr_type = MSG, hdr_length = 2 \<rparr> @ [7, 8])
      (patch 26 (hdr_bytes \<lparr> hdr_type = PADDING, hdr_length = 1 \<rparr>) (replicate 32 0)) =
    hdr_bytes \<lparr> hdr_type = MSG, hdr_length = 2 \<rparr> @ [7, 8] @ replicate 19 0
       @ hdr_bytes \<lparr> hdr_type = PADDING, hdr_length = 1 \<rparr> @ [0]"
    by code_simp
  from Write_outcome [OF ok table_2_inv len _ refl refl, of "[7, 8, 9]" False]
  show ?thesis by (simp add: fill bytes del: append.simps append_assoc)
qed

text \<open>A message of two bytes waits at position 19; the next one does not fit before the end.\<close>

definition one_waiting :: "mutex_view ByteRingBuffer" where
  "one_waiting = ring_32\<lparr>freePos := 26,
     rb_data := replicate 19 0 @ hdr_bytes \<lparr> hdr_type = MSG, hdr_length = 2 \<rparr> @ [7, 8] @ replicate 6 0\<rparr>"

theorem Write_keeps_stream_witness:
  "\<exists>rb'. Write writer_32 [4, 5] 2 False EMPTY_POSITION table_2 one_waiting = Inr (None, rb')
    \<and> on_ring 32 (rb_data rb') 19 [Msg [7, 8], Pad 1, Msg [4, 5]]"
proof -
  have frame: "configBufSizeBytes one_waiting = 32" "freePos one_waiting = 26"
    by (simp_all add: one_waiting_def)
  have ok: "writer_ok writer_32 one_waiting"
    by (intro writer_32_ok) (simp_all add: rb_ok_def good_size_32 one_waiting_def)
  have len: "ucast (2 :: u32) \<le> GetMaxMessageSize one_waiting" by (subst max_32) (simp_all add: frame)
  have fill: "filler 32 26 2 = [Pad 1]" by (simp add: filler_def index_of_def)
  have on: "on_ring 32 (rb_data one_waiting) 19 [Msg [7, 8]]" by (simp add: one_waiting_def index_of_def)
  obtain rb' where wr: "Write writer_32 [4, 5] 2 False EMPTY_POSITION table_2 one_waiting = Inr (None, rb')"
      and "configBufSizeBytes rb' = 32"
    using Write_stored [OF ok table_2_inv len, of "[4, 5]" False] stored_write_frame(1) frame(1) by fastforce
  then show ?thesis
    using Write_keeps_stream [OF ok table_2_inv len _ wr, of 19 "[Msg [7, 8]]"] on
    by (simp add: frame fill fill [unfolded numeral_2_eq_2] write_segments_def index_of_def)
qed

text \<open>
  C6: Total correctness of WriteEx. If the writer mutex can be acquired, possibly from an
  owner that died, and the client's handler cannot answer "continue" for ever (a measure of
  what it sees decreases), WriteEx returns without failure, the message is on the ring and
  the mutex is free again.
\<close>

theorem WriteEx_total:
  fixes \<mu> :: "'m ReaderInfo \<times> 'e \<Rightarrow> nat"
  assumes "robust_pthread pt view" "handler_keeps h"
    and "\<And>p f ri env ri' env'. h p f (ri, env) = (True, ri', env') \<Longrightarrow> \<mu> (ri', env') < \<mu> (ri, env)"
    and "writer_ok w rb" "ri_inv ri" "ucast n \<le> GetMaxMessageSize rb" "unat n \<le> length data"
    and "settled (view (writerMtx rb))" "holder_of (view (writerMtx rb)) = None"
  shows "\<exists>rb' ri' env' m c. WriteEx pt t h w data n (rb, ri, env) = Some (Inr (rb', ri', env'))
    \<and> stored_write (rb\<lparr>writerMtx := m, backPressureCount := c\<rparr>) (take (unat n) data) (rb'\<lparr>writerMtx := m\<rparr>)
    \<and> view (writerMtx rb') = Free"
proof -
  have "\<exists>rb' ri' env'. WriteEx pt t h w data n (rb, ri, env) = Some (Inr (rb', ri', env'))
      \<and> written_free view rb (take (unat n) data) rb' \<and> ri_inv ri'"
    by (rule robust_pthread.WriteEx_returns [OF assms(1), where \<mu> = \<mu>]) (use assms in simp_all)
  then show ?thesis unfolding written_free_def by blast
qed

theorem WriteEx_total_witness:
  "\<exists>rb' ri' env' m c. WriteEx posix_pthread 2 (\<lambda>p f (ri, k). (k \<noteq> 0, ri, k - 1)) writer_32 (replicate 30 1) 27
      (ring_32\<lparr>writerMtx := OwnerDied 1\<rparr>, one_behind, 3 :: nat) = Some (Inr (rb', ri', env'))
    \<and> stored_write (ring_32\<lparr>writerMtx := m, backPressureCount := c\<rparr>) (replicate 27 1) (rb'\<lparr>writerMtx := m\<rparr>)
    \<and> writerMtx rb' = Free"
proof -
  let ?h = "\<lambda>p f (ri :: mutex_view ReaderInfo, k :: nat). (k \<noteq> 0, ri, k - 1)"
  let ?rb = "ring_32\<lparr>writerMtx := OwnerDied 1\<rparr>"
  have "handler_keeps ?h" by (simp add: handler_keeps_def)
  moreover have "writer_ok writer_32 ?rb" by (intro writer_32_ok) (simp_all add: rb_ok_def good_size_32)
  moreover have "ucast (27 :: u32) \<le> GetMaxMessageSize ?rb" by (subst max_32) simp_all
  ultimately show ?thesis
    using WriteEx_total [OF posix.robust_pthread_axioms, of ?h snd writer_32 ?rb one_behind 27 "replicate 30 1" 2 3]
      one_behind_inv
    by auto
qed

text \<open>
  A write that never returns. If the filler to the end of the buffer and the message with
  its header are together as long as the buffer, an active reader that has already read
  everything still counts as holding the write back. With a handler that keeps answering
  "continue", as the callback is documented to wait, WriteEx never returns.
\<close>

lemma WriteEx_livelock:
  assumes "robust_pthread pt view" "writer_ok w rb" "ri_inv ri" "ucast n \<le> GetMaxMessageSize rb"
    and "active_at ri k" "info_position (ri_slots ri ! k) = freePos rb"
    and "unat (configBufSizeBytes rb) \<le> total (filler (configBufSizeBytes rb) (freePos rb) (unat n)) + 5 + unat n"
    and "\<And>p f env. \<exists>env'. h p f (ri, env) = (True, ri, env')"
    and "settled (view (writerMtx rb))" "holder_of (view (writerMtx rb)) = None"
  shows "WriteEx pt t h w data n (rb, ri, env) = None"
proof -
  obtain m where m: "Lock pt t (writerMtx rb) = Inr m"
    using robust_pthread.Lock_acquires [OF assms(1,9,10)] by blast
  have "WriteLoop h w data n (rb\<lparr>writerMtx := m\<rparr>, ri, env) = None"
  proof (rule WriteLoop_never_returns)
    fix c
    show "\<exists>r. Write w data n True EMPTY_POSITION ri (rb\<lparr>writerMtx := m, backPressureCount := c\<rparr>)
        = Inr (Some r, rb\<lparr>writerMtx := m, backPressureCount := c\<rparr>)"
      using assms(2-7) by (intro Write_blocked) simp_all
  qed (rule assms(8))
  then show ?thesis by (simp add: WriteEx_def m)
qed

lemma WriteEx_livelock_witness:
  "WriteEx posix_pthread 2 (\<lambda>p f s. (True, s)) writer_32 (replicate 21 1) 21 (ring_32\<lparr>freePos := 7\<rparr>, one_behind, ()) = None"
proof -
  let ?rb = "ring_32\<lparr>freePos := 7\<rparr>"
  have "writer_ok writer_32 ?rb" by (intro writer_32_ok) (simp_all add: rb_ok_def good_size_32)
  moreover have "ucast (21 :: u32) \<le> GetMaxMessageSize ?rb" by (subst max_32) simp_all
  moreover have "info_position (ri_slots one_behind ! 1) = 7" by (simp add: one_behind_def)
  ultimately show "WriteEx posix_pthread 2 (\<lambda>p f s. (True, s)) writer_32 (replicate 21 1) 21 (?rb, one_behind, ()) = None"
    using WriteEx_livelock [OF posix.robust_pthread_axioms, of writer_32 ?rb one_behind 21 1 "\<lambda>p f s. (True, s)" 2]
      one_behind_inv
    by (simp add: one_behind_active filler_def index_of_def)
qed

end
