(* ===== verification/RmpReader.thy ===== *)
theory RmpReader
  imports RingStream RmpReaderInfo Samples
begin

text \<open>
  rmp/reader.hpp and rmp/copyConfirmHandler.hpp: the stream reader and the default handler.
  \<open>read_iter\<close> is one iteration of the loop of \<open>ReadEx\<close>, \<open>ReadLoop\<close> the loop with no writer
  running, in which the stream end does not move. The copy-confirm callbacks are the
  client's: \<open>copy\<close> answers whether the message is wanted and may change the client's state,
  \<open>confirm\<close> delivers what was copied.
\<close>

datatype read_result = SUCCESS | INVALID_POSITION | EXPIRED_POSITION

record Reader =
  reader_indexMask :: u64

definition mk_Reader :: "'m ByteRingBuffer \<Rightarrow> Reader result" where
  "mk_Reader rb =
     (case IndexMask (configBufSizeBytes rb) of
        Inl e \<Rightarrow> Inl e
      | Inr msk \<Rightarrow> if \<not> rb_initialized rb then Inl (Thrown ''Ring buffer not initialized'')
                   else Inr \<lparr> reader_indexMask = msk \<rparr>)"

record 'h copy_confirm =
  cc_copy :: "bytes \<Rightarrow> 'h \<Rightarrow> bool \<times> 'h"
  cc_confirm :: "'h \<Rightarrow> 'h"

text \<open>What the loop carries: the two positions and the client's state.\<close>

record 'h read_state =
  rs_pos :: position
  rs_bpos :: position
  rs_handler :: 'h

datatype 's step_outcome = Continue 's | Return read_result 's

text \<open>The tail of an iteration: advance, and publish the position sparingly.\<close>

definition read_advance :: "u64 \<Rightarrow> u32 \<Rightarrow> 'h read_state \<Rightarrow> 'h read_state" where
  "read_advance bposMaxLag hlen s =
     (let pos' = rs_pos s + (sizeof_MsgHeader + ucast hlen)
      in s\<lparr>rs_pos := pos',
           rs_bpos := (if rs_bpos s + bposMaxLag \<le> pos' then pos' else rs_bpos s)\<rparr>)"

text \<open>
  The copy and confirm part, for a message (not padding) whose header is valid: \<open>None\<close> when
  the position has expired after the copy.
\<close>

definition read_message ::
    "'h copy_confirm \<Rightarrow> bool \<Rightarrow> bytes \<Rightarrow> 'h \<Rightarrow> 'h option \<times> 'h" where
  "read_message cc expired_now d h =
     (case cc_copy cc d h of (wanted, h1) \<Rightarrow>
        if wanted then (if expired_now then (None, h1) else (Some (cc_confirm cc h1), h1))
        else (Some h1, h1))"

definition read_iter ::
    "Reader \<Rightarrow> 'h copy_confirm \<Rightarrow> 'm ByteRingBuffer \<Rightarrow> 'h read_state \<Rightarrow> 'h read_state step_outcome result" where
  "read_iter r cc rb s =
     (let B = configBufSizeBytes rb;
          bufIndex = BufIndex (reader_indexMask r) (rs_pos s);
          expired = Expired (rs_pos s) (freePos rb) B
      in if B - bufIndex < sizeof_MsgHeader
         then Inr (Continue (s\<lparr>rs_pos := rs_pos s + (B - bufIndex)\<rparr>))
         else if expired then Inr (Return EXPIRED_POSITION s)
         else (case load_header (unat bufIndex) (rb_data rb) of
             Inl e \<Rightarrow> Inl e
           | Inr hdrCopy \<Rightarrow>
               if \<not> Valid hdrCopy \<or> expired then Inr (Return EXPIRED_POSITION s)
               else if B < bufIndex + sizeof_MsgHeader + ucast (hdr_length hdrCopy) then Inl Assertion
               else if hdr_type hdrCopy = MSG
               then (case read_at (unat bufIndex + 5) (unat (hdr_length hdrCopy)) (rb_data rb) of
                       Inl e \<Rightarrow> Inl e
                     | Inr d \<Rightarrow>
                         (case read_message cc expired d (rs_handler s) of
                            (None, h1) \<Rightarrow> Inr (Return EXPIRED_POSITION (s\<lparr>rs_handler := h1\<rparr>))
                          | (Some h2, _) \<Rightarrow>
                              Inr (Continue (read_advance (drop_bit 1 B) (hdr_length hdrCopy) (s\<lparr>rs_handler := h2\<rparr>)))))
               else Inr (Continue (read_advance (drop_bit 1 B) (hdr_length hdrCopy) s))))"

partial_function (option) ReadLoop ::
    "Reader \<Rightarrow> 'h copy_confirm \<Rightarrow> 'm ByteRingBuffer \<Rightarrow> 'h read_state
     \<Rightarrow> (read_result \<times> 'h read_state) result option" where
  "ReadLoop r cc rb s =
     (if rs_pos s = freePos rb then Some (Inr (SUCCESS, s\<lparr>rs_bpos := rs_pos s\<rparr>))
      else (case read_iter r cc rb s of
              Inl e \<Rightarrow> Some (Inl e)
            | Inr (Return res s') \<Rightarrow> Some (Inr (res, s'))
            | Inr (Continue s') \<Rightarrow> ReadLoop r cc rb s'))"

declare ReadLoop.simps [code]

definition ReadEx ::
    "Reader \<Rightarrow> 'h copy_confirm \<Rightarrow> 'm ByteRingBuffer \<Rightarrow> 'h read_state
     \<Rightarrow> (read_result \<times> 'h read_state) result option" where
  "ReadEx r cc rb s =
     (if GreaterThan (rs_pos s) (freePos rb) then Some (Inr (INVALID_POSITION, s))
      else ReadLoop r cc rb s)"

section \<open>The default handler\<close>

text \<open>
  \<open>CopyConfirmHandler\<close> keeps a copy of the message and hands it to the read callback, a
  client function on its own state, when the reader confirms.
\<close>

record 'e CopyConfirmHandler =
  cch_data :: bytes
  cch_env :: 'e

definition cch_Copy :: "bytes \<Rightarrow> 'e CopyConfirmHandler \<Rightarrow> bool \<times> 'e CopyConfirmHandler" where
  "cch_Copy d h = (True, h\<lparr>cch_data := d\<rparr>)"

definition cch_Confirm :: "(bytes \<Rightarrow> 'e \<Rightarrow> 'e) \<Rightarrow> 'e CopyConfirmHandler \<Rightarrow> 'e CopyConfirmHandler" where
  "cch_Confirm readCb h = h\<lparr>cch_env := readCb (cch_data h) (cch_env h)\<rparr>"

definition CopyConfirm :: "(bytes \<Rightarrow> 'e \<Rightarrow> 'e) \<Rightarrow> 'e CopyConfirmHandler copy_confirm" where
  "CopyConfirm readCb = \<lparr> cc_copy = cch_Copy, cc_confirm = cch_Confirm readCb \<rparr>"

section \<open>Reading a well-formed stream\<close>

text \<open>What a client that is offered the messages \<open>ds\<close> in order ends up with.\<close>

fun deliver :: "'h copy_confirm \<Rightarrow> bytes list \<Rightarrow> 'h \<Rightarrow> 'h" where
  "deliver cc [] h = h"
| "deliver cc (d # ds) h =
     (case cc_copy cc d h of (wanted, h1) \<Rightarrow> deliver cc ds (if wanted then cc_confirm cc h1 else h1))"

lemma deliver_append: "deliver cc (ds @ es) h = deliver cc es (deliver cc ds h)"
  by (induction cc ds h rule: deliver.induct) (simp_all split: prod.splits)

lemma read_message_fresh: "\<exists>x. read_message cc False d h = (Some (deliver cc [d] h), x)"
  by (simp add: read_message_def split: prod.splits)

definition reader_ok :: "Reader \<Rightarrow> 'm ByteRingBuffer \<Rightarrow> bool" where
  "reader_ok r rb \<longleftrightarrow> rb_ok rb \<and> reader_indexMask r = configBufSizeBytes rb - 1"

lemma mk_Reader_ok:
  assumes "rb_ok rb" "rb_initialized rb"
  shows "mk_Reader rb = Inr \<lparr> reader_indexMask = configBufSizeBytes rb - 1 \<rparr>"
    and "reader_ok \<lparr> reader_indexMask = configBufSizeBytes rb - 1 \<rparr> rb"
  using assms by (simp_all add: mk_Reader_def IndexMask_def rb_ok_def good_size_def reader_ok_def)

lemma mk_Reader_Inr: "mk_Reader rb = Inr r \<Longrightarrow> rb_ok rb \<Longrightarrow> reader_ok r rb"
  by (auto simp: mk_Reader_def reader_ok_def IndexMask_def rb_ok_def good_size_def split: if_splits)

lemma reader_index:
  fixes pos :: position
  assumes "reader_ok r rb"
  defines "i \<equiv> BufIndex (reader_indexMask r) pos"
  shows "unat i = index_of (configBufSizeBytes rb) pos"
    and "unat (configBufSizeBytes rb - i) = unat (configBufSizeBytes rb) - index_of (configBufSizeBytes rb) pos"
    and "configBufSizeBytes rb - i < sizeof_MsgHeader \<longleftrightarrow>
      unat (configBufSizeBytes rb) - index_of (configBufSizeBytes rb) pos < 5"
proof -
  have good: "good_size (configBufSizeBytes rb)" using assms by (simp add: reader_ok_def rb_ok_def)
  show i: "unat i = index_of (configBufSizeBytes rb) pos"
    using assms BufIndex_mask [OF good] by (simp add: reader_ok_def)
  show d: "unat (configBufSizeBytes rb - i) = unat (configBufSizeBytes rb) - index_of (configBufSizeBytes rb) pos"
    using index_of_less [OF good, of pos] by (simp add: unat_diff_small i)
  show "configBufSizeBytes rb - i < sizeof_MsgHeader \<longleftrightarrow>
      unat (configBufSizeBytes rb) - index_of (configBufSizeBytes rb) pos < 5"
    by (simp add: word_less_nat_alt d)
qed

lemma not_expired:
  assumes "rb_ok rb" "dist pos (freePos rb) < unat (configBufSizeBytes rb)"
  shows "\<not> Expired pos (freePos rb) (configBufSizeBytes rb)"
  using assms good_size_bounds [OF rb_ok_good_size [OF assms(1)]] by (simp add: Expired_dist)

text \<open>A header that fits in the buffer passes the assertion.\<close>

lemma header_fits:
  assumes "good_size B" "unat i + 5 + unat n \<le> unat B"
  shows "\<not> B < i + sizeof_MsgHeader + ucast (n::u32)"
proof -
  have "unat (i + sizeof_MsgHeader) = unat i + 5"
    using assms good_size_bounds(2) [OF assms(1)] by (simp add: unat_add_small)
  then have "unat (i + sizeof_MsgHeader + ucast n) = unat i + 5 + unat n"
    using assms good_size_bounds(2) [OF assms(1)] by (simp add: unat_add_small)
  then show ?thesis using assms(2) by (simp add: word_less_nat_alt)
qed

lemma unat_of_nat_u32:
  assumes "good_size B" "n < unat B"
  shows "unat (of_nat n :: u32) = n"
  by (rule unat_of_nat_small) (use assms good_size_bounds(2) [OF assms(1)] in simp)

lemma of_nat_u32_nonzero:
  assumes "good_size B" "n < unat B"
  shows "(of_nat n :: u32) = 0 \<longleftrightarrow> n = 0"
proof -
  have "(of_nat n :: u32) = 0 \<longleftrightarrow> unat (of_nat n :: u32) = 0" by (simp only: unsigned_eq_0_iff)
  then show ?thesis by (simp only: unat_of_nat_u32 [OF assms])
qed

lemma ucast_of_nat_u32:
  assumes "good_size B" "n < unat B"
  shows "(ucast (of_nat n :: u32) :: u64) = of_nat n"
proof -
  have "n < 2 ^ 64" using assms good_size_bounds(2) [OF assms(1)] by simp
  then show ?thesis
    by (simp add: word_unat_eq_iff unat_of_nat_u32 [OF assms] unat_of_nat_small)
qed

lemma load_header_stored:
  assumes "rb_ok rb" "take 5 (drop i (rb_data rb)) = hdr_bytes h" "i + 5 \<le> unat (configBufSizeBytes rb)"
  shows "load_header i (rb_data rb) = Inr h"
  using assms by (intro load_header_bytes) (simp_all add: rb_ok_def)

lemma read_advance_eq:
  assumes "good_size B" "n < unat B"
  shows "\<exists>bp. read_advance lag (of_nat n) s = s\<lparr>rs_pos := rs_pos s + of_nat (5 + n), rs_bpos := bp\<rparr>
    \<and> (bp = rs_bpos s \<or> bp = rs_pos s + of_nat (5 + n))"
  by (cases s) (simp add: read_advance_def Let_def ucast_of_nat_u32 [OF assms] sizeof_MsgHeader_def)

lemma read_iter_valid:
  fixes s :: "'h read_state"
  assumes r: "reader_ok r rb" and st: "stored (configBufSizeBytes rb) (rb_data rb) (rs_pos s) g"
    and fresh: "dist (rs_pos s) (freePos rb) < unat (configBufSizeBytes rb)" and v: "seg_valid g"
  shows "\<exists>bp. read_iter r cc rb s = Inr (Continue
      \<lparr> rs_pos = rs_pos s + of_nat (seg_len g), rs_bpos = bp, rs_handler = deliver cc (seg_msgs g) (rs_handler s) \<rparr>)
    \<and> (bp = rs_bpos s \<or> bp = rs_pos s + of_nat (seg_len g))"
proof -
  let ?B = "configBufSizeBytes rb" and ?i = "BufIndex (reader_indexMask r) (rs_pos s)"
  have ok: "rb_ok rb" using r by (simp add: reader_ok_def)
  note good = rb_ok_good_size [OF ok] and idx = reader_index [OF r, of "rs_pos s"]
  have ne: "\<not> Expired (rs_pos s) (freePos rb) ?B" by (rule not_expired [OF ok fresh])
  have adv: "\<exists>bp. read_advance lag (of_nat n) (s\<lparr>rs_handler := h\<rparr>) =
        \<lparr> rs_pos = rs_pos s + of_nat (5 + n), rs_bpos = bp, rs_handler = h \<rparr>
      \<and> (bp = rs_bpos s \<or> bp = rs_pos s + of_nat (5 + n))" if "n < unat ?B" for lag n h
    using read_advance_eq [OF good that, of lag "s\<lparr>rs_handler := h\<rparr>"] by (cases s) auto
  show ?thesis
  proof (cases g)
    case (Blank n)
    then have n: "?B - ?i < sizeof_MsgHeader" "?B - ?i = of_nat n"
      using st idx by (auto simp: word_unat_eq_iff unat_of_nat_small)
    then show ?thesis by (cases s) (simp add: read_iter_def Let_def Blank)
  next
    case (Pad n)
    let ?h = "\<lparr> hdr_type = PADDING, hdr_length = of_nat n \<rparr>"
    have n: "n < unat ?B" "index_of ?B (rs_pos s) + 5 + n = unat ?B" using st Pad by auto
    then have ge: "\<not> ?B - ?i < sizeof_MsgHeader" using idx(3) by simp
    have ld: "load_header (unat ?i) (rb_data rb) = Inr ?h"
      using st n by (intro load_header_stored [OF ok]) (simp_all add: Pad idx)
    have fits: "\<not> ?B < ?i + sizeof_MsgHeader + ucast (of_nat n :: u32)"
      using n by (intro header_fits [OF good]) (simp add: idx unat_of_nat_u32 [OF good])
    have val: "Valid ?h" using v n(1) by (simp add: Valid_def Pad of_nat_u32_nonzero [OF good])
    show ?thesis
      using adv [OF n(1), of "drop_bit 1 ?B" "rs_handler s"] ld fits val ne ge
      by (simp add: read_iter_def Let_def Pad)
  next
    case (Msg d)
    let ?n = "length d"
    let ?h = "\<lparr> hdr_type = MSG, hdr_length = of_nat ?n \<rparr>"
    have n: "?n < unat ?B" "index_of ?B (rs_pos s) + 5 + ?n \<le> unat ?B" using st Msg by auto
    then have ge: "\<not> ?B - ?i < sizeof_MsgHeader" using idx(3) by simp
    have ld: "load_header (unat ?i) (rb_data rb) = Inr ?h"
      using st n by (intro load_header_stored [OF ok]) (simp_all add: Msg idx)
    have fits: "\<not> ?B < ?i + sizeof_MsgHeader + ucast (of_nat ?n :: u32)"
      using n by (intro header_fits [OF good]) (simp add: idx unat_of_nat_u32 [OF good])
    have val: "Valid ?h" using v n(1) by (simp add: Valid_def Msg of_nat_u32_nonzero [OF good])
    have rd: "read_at (unat ?i + 5) ?n (rb_data rb) = Inr d"
      using st n rb_ok_length [OF ok] by (simp add: Msg idx read_at_def)
    obtain x where msg: "read_message cc False d (rs_handler s) = (Some (deliver cc [d] (rs_handler s)), x)"
      by (rule exE [OF read_message_fresh [of cc d "rs_handler s"]])
    show ?thesis
      using adv [OF n(1), of "drop_bit 1 ?B" "deliver cc [d] (rs_handler s)"] ld fits val ne ge rd msg
      by (simp add: read_iter_def Let_def Msg unat_of_nat_u32 [OF good n(1)])
  qed
qed

lemma read_iter_invalid:
  assumes r: "reader_ok r rb" and st: "stored (configBufSizeBytes rb) (rb_data rb) (rs_pos s) g"
    and fresh: "dist (rs_pos s) (freePos rb) < unat (configBufSizeBytes rb)" and v: "\<not> seg_valid g"
  shows "read_iter r cc rb s = Inr (Return EXPIRED_POSITION s)"
proof -
  let ?B = "configBufSizeBytes rb" and ?i = "BufIndex (reader_indexMask r) (rs_pos s)"
  have ok: "rb_ok rb" using r by (simp add: reader_ok_def)
  note idx = reader_index [OF r, of "rs_pos s"]
  obtain h where h: "take 5 (drop (index_of ?B (rs_pos s)) (rb_data rb)) = hdr_bytes h"
      "hdr_length h = 0" "index_of ?B (rs_pos s) + 5 \<le> unat ?B"
    using st v by (cases g) auto
  have "load_header (unat ?i) (rb_data rb) = Inr h"
    using h by (intro load_header_stored [OF ok]) (simp_all add: idx)
  then show ?thesis
    using h not_expired [OF ok fresh] idx(3) by (simp add: read_iter_def Let_def Valid_def)
qed

text \<open>The loop: \<open>run\<close> is the state after the segments \<open>ss\<close> have been consumed.\<close>

lemma dist_of_nat:
  assumes "n < 2 ^ 64"
  shows "dist p (p + of_nat n) = n"
  using assms by (simp add: unat_of_nat_small)

text \<open>
  The published position moves to positions between segments only, or stays where it was.
\<close>

lemma ReadLoop_prefix:
  assumes r: "reader_ok r rb"
    and "on_ring (configBufSizeBytes rb) (rb_data rb) (rs_pos s) ss"
    and "freePos rb = rs_pos s + of_nat (total ss + rest)"
    and "total ss + rest < unat (configBufSizeBytes rb)"
    and "\<And>g. g \<in> set ss \<Longrightarrow> seg_valid g"
  shows "\<exists>bp. ReadLoop r cc rb s = ReadLoop r cc rb
      \<lparr> rs_pos = rs_pos s + of_nat (total ss), rs_bpos = bp, rs_handler = deliver cc (messages ss) (rs_handler s) \<rparr>
    \<and> (bp = rs_bpos s \<or> (\<exists>n \<le> total ss. bp = rs_pos s + of_nat n))"
  using assms(2-5)
proof (induction ss arbitrary: s)
  case Nil
  show ?case by (intro exI [of _ "rs_bpos s"]) (cases s, simp)
next
  case (Cons g ss)
  let ?B = "configBufSizeBytes rb"
  have st: "stored ?B (rb_data rb) (rs_pos s) g" using Cons.prems(1) by simp
  have S: "unat ?B \<le> 2 ^ 32" using r good_size_bounds(2) by (simp add: reader_ok_def rb_ok_def)
  have d: "dist (rs_pos s) (freePos rb) = total (g # ss) + rest"
    unfolding Cons.prems(2) using Cons.prems(3) S by (intro dist_of_nat) simp
  obtain bp where it: "read_iter r cc rb s = Inr (Continue
      \<lparr> rs_pos = rs_pos s + of_nat (seg_len g), rs_bpos = bp, rs_handler = deliver cc (seg_msgs g) (rs_handler s) \<rparr>)"
      (is "_ = Inr (Continue ?s')")
      and bp: "bp = rs_bpos s \<or> bp = rs_pos s + of_nat (seg_len g)"
    using read_iter_valid [OF r st, of cc] Cons.prems(3,4) d by auto
  have "rs_pos s \<noteq> freePos rb" using d stored_seg_len_pos [OF st] by (metis dist_self add_gr_0 less_irrefl total_simps(2))
  then have loop: "ReadLoop r cc rb s = ReadLoop r cc rb ?s'" by (subst ReadLoop.simps) (simp add: it)
  have "\<exists>bp'. ReadLoop r cc rb ?s' = ReadLoop r cc rb
      \<lparr> rs_pos = rs_pos ?s' + of_nat (total ss), rs_bpos = bp', rs_handler = deliver cc (messages ss) (rs_handler ?s') \<rparr>
    \<and> (bp' = rs_bpos ?s' \<or> (\<exists>n \<le> total ss. bp' = rs_pos ?s' + of_nat n))"
    using Cons.prems by (intro Cons.IH) (simp_all add: add.assoc)
  then obtain bp' where bp': "ReadLoop r cc rb ?s' = ReadLoop r cc rb
      \<lparr> rs_pos = rs_pos ?s' + of_nat (total ss), rs_bpos = bp', rs_handler = deliver cc (messages ss) (rs_handler ?s') \<rparr>"
      "bp' = bp \<or> (\<exists>n \<le> total ss. bp' = rs_pos s + of_nat (seg_len g + n))"
    by (auto simp: add.assoc)
  have "bp' = rs_bpos s \<or> (\<exists>n \<le> total (g # ss). bp' = rs_pos s + of_nat n)"
    using bp bp'(2) by (metis add_left_mono le_add1 total_simps(2))
  with loop bp'(1) show ?case by (intro exI [of _ bp']) (simp add: deliver_append add.assoc)
qed

lemma ReadLoop_stream:
  assumes r: "reader_ok r rb"
    and ss: "on_ring (configBufSizeBytes rb) (rb_data rb) (rs_pos s) ss"
    and f: "freePos rb = rs_pos s + of_nat (total ss)"
    and fits: "total ss < unat (configBufSizeBytes rb)"
    and v: "\<And>g. g \<in> set ss \<Longrightarrow> seg_valid g"
  shows "ReadLoop r cc rb s = Some (Inr (SUCCESS,
      \<lparr> rs_pos = freePos rb, rs_bpos = freePos rb, rs_handler = deliver cc (messages ss) (rs_handler s) \<rparr>))"
proof -
  obtain bp where "ReadLoop r cc rb s = ReadLoop r cc rb
      \<lparr> rs_pos = rs_pos s + of_nat (total ss), rs_bpos = bp, rs_handler = deliver cc (messages ss) (rs_handler s) \<rparr>"
    using ReadLoop_prefix [OF r ss, of 0 cc] f fits v by auto
  then show ?thesis by (simp add: f [symmetric] ReadLoop.simps)
qed

lemma ReadLoop_stuck:
  assumes r: "reader_ok r rb"
    and ss: "on_ring (configBufSizeBytes rb) (rb_data rb) (rs_pos s) (ss @ bad # tail)"
    and f: "freePos rb = rs_pos s + of_nat (total (ss @ bad # tail))"
    and fits: "total (ss @ bad # tail) < unat (configBufSizeBytes rb)"
    and v: "\<And>g. g \<in> set ss \<Longrightarrow> seg_valid g" and bad: "\<not> seg_valid bad"
  shows "\<exists>bp. ReadLoop r cc rb s = Some (Inr (EXPIRED_POSITION,
      \<lparr> rs_pos = rs_pos s + of_nat (total ss), rs_bpos = bp, rs_handler = deliver cc (messages ss) (rs_handler s) \<rparr>))
    \<and> (bp = rs_bpos s \<or> (\<exists>n \<le> total ss. bp = rs_pos s + of_nat n))"
proof -
  let ?B = "configBufSizeBytes rb" and ?p = "rs_pos s + of_nat (total ss)"
  have S: "unat ?B \<le> 2 ^ 32" using r good_size_bounds(2) by (simp add: reader_ok_def rb_ok_def)
  have pre: "on_ring ?B (rb_data rb) (rs_pos s) ss" and st: "stored ?B (rb_data rb) ?p bad"
    using ss by (simp_all add: on_ring_append)
  obtain bp where loop: "ReadLoop r cc rb s = ReadLoop r cc rb
      \<lparr> rs_pos = ?p, rs_bpos = bp, rs_handler = deliver cc (messages ss) (rs_handler s) \<rparr>"
      (is "_ = ReadLoop r cc rb ?s'")
      and bp: "bp = rs_bpos s \<or> (\<exists>n \<le> total ss. bp = rs_pos s + of_nat n)"
    using ReadLoop_prefix [OF r pre, of "total (bad # tail)" cc] f fits v by auto
  have "freePos rb = ?p + of_nat (total (bad # tail))" by (simp add: f add.assoc)
  then have d: "dist ?p (freePos rb) = total (bad # tail)"
    using fits S by (simp only:) (intro dist_of_nat, simp)
  then have "read_iter r cc rb ?s' = Inr (Return EXPIRED_POSITION ?s')"
    using read_iter_invalid [OF r, of ?s' bad cc] st bad fits by simp
  moreover have "?p \<noteq> freePos rb"
    using d stored_seg_len_pos [OF st] by (metis dist_self add_gr_0 less_irrefl total_simps(2))
  ultimately have "ReadLoop r cc rb ?s' = Some (Inr (EXPIRED_POSITION, ?s'))" by (subst ReadLoop.simps) simp
  then show ?thesis unfolding loop using bp by blast
qed

text \<open>What is pending for a reader at a position: the segments from there to the stream end.\<close>

definition pending :: "'m ByteRingBuffer \<Rightarrow> position \<Rightarrow> segment list \<Rightarrow> bool" where
  "pending rb pos ss \<longleftrightarrow>
     on_ring (configBufSizeBytes rb) (rb_data rb) pos ss \<and> freePos rb = pos + of_nat (total ss) \<and>
     total ss < unat (configBufSizeBytes rb) \<and> list_all seg_valid ss"

lemma pending_dist:
  assumes "rb_ok rb" "pending rb pos ss"
  shows "dist pos (freePos rb) = total ss"
  using assms good_size_bounds(2) [OF rb_ok_good_size [OF assms(1)]]
  by (simp add: pending_def unat_of_nat_small)

lemma pending_empty: "rb_ok rb \<Longrightarrow> pending rb (freePos rb) []"
  using good_size_bounds(1) [OF rb_ok_good_size] by (fastforce simp: pending_def)

lemma ReadEx_pending:
  assumes "reader_ok r rb" "pending rb (rs_pos s) ss"
  shows "ReadEx r cc rb s = Some (Inr (SUCCESS,
    \<lparr> rs_pos = freePos rb, rs_bpos = freePos rb, rs_handler = deliver cc (messages ss) (rs_handler s) \<rparr>))"
proof -
  have "rb_ok rb" using assms(1) by (simp add: reader_ok_def)
  then have "dist (rs_pos s) (freePos rb) < 2 ^ 63"
    using pending_dist assms(2) good_size_bounds(3) [OF rb_ok_good_size] by (fastforce simp: pending_def)
  then show ?thesis
    using ReadLoop_stream [OF assms(1), of s ss cc] assms(2) not_GreaterThan_dist
    by (simp add: ReadEx_def pending_def list_all_iff)
qed

section \<open>Overwritten positions\<close>

text \<open>Whatever the bytes of the buffer are, a position a whole buffer behind is refused.\<close>

lemma read_iter_expired:
  assumes r: "reader_ok r rb"
    and d: "unat (configBufSizeBytes rb) \<le> dist (rs_pos s) (freePos rb)" "dist (rs_pos s) (freePos rb) \<le> 2 ^ 63"
  shows "read_iter r cc rb s = Inr (Return EXPIRED_POSITION s) \<or>
    (\<exists>k<5. k = unat (configBufSizeBytes rb) - index_of (configBufSizeBytes rb) (rs_pos s) \<and>
      read_iter r cc rb s = Inr (Continue (s\<lparr>rs_pos := rs_pos s + of_nat k\<rparr>)))"
proof -
  let ?B = "configBufSizeBytes rb" and ?i = "BufIndex (reader_indexMask r) (rs_pos s)"
  have good: "good_size ?B" using r by (simp add: reader_ok_def rb_ok_def)
  note idx = reader_index [OF r, of "rs_pos s"]
  have e: "Expired (rs_pos s) (freePos rb) ?B"
    using Expired_dist good_size_bounds(3) [OF good] d by blast
  show ?thesis
  proof (cases "unat ?B - index_of ?B (rs_pos s) < 5")
    case True
    moreover have "?B - ?i = of_nat (unat ?B - index_of ?B (rs_pos s))" by (simp flip: idx(2))
    ultimately show ?thesis using idx(3) by (simp add: read_iter_def Let_def)
  next
    case False
    then show ?thesis using e idx(3) by (simp add: read_iter_def Let_def)
  qed
qed

lemma ReadEx_expired_blank:
  assumes r: "reader_ok r rb"
    and d: "unat (configBufSizeBytes rb) +
        (let k = unat (configBufSizeBytes rb) - index_of (configBufSizeBytes rb) (rs_pos s) in if k < 5 then k else 0)
      \<le> dist (rs_pos s) (freePos rb)" "dist (rs_pos s) (freePos rb) < 2 ^ 63"
  shows "\<exists>p. ReadEx r cc rb s = Some (Inr (EXPIRED_POSITION, s\<lparr>rs_pos := p\<rparr>))"
proof -
  let ?B = "configBufSizeBytes rb" and ?k = "unat (configBufSizeBytes rb) - index_of (configBufSizeBytes rb) (rs_pos s)"
  have good: "good_size ?B" using r by (simp add: reader_ok_def rb_ok_def)
  have loop: "ReadEx r cc rb s = ReadLoop r cc rb s"
    using not_GreaterThan_dist [OF d(2)] by (simp add: ReadEx_def)
  have ne: "rs_pos s \<noteq> freePos rb" using d good_size_bounds(1) [OF good] by auto
  have exp: "dist (rs_pos s) (freePos rb) \<le> 2 ^ 63" "unat ?B \<le> dist (rs_pos s) (freePos rb)" using d by (simp_all add: Let_def split: if_splits)
  consider "read_iter r cc rb s = Inr (Return EXPIRED_POSITION s)"
    | "?k < 5" "read_iter r cc rb s = Inr (Continue (s\<lparr>rs_pos := rs_pos s + of_nat ?k\<rparr>))"
    using read_iter_expired [OF r exp(2,1)] by blast
  then show ?thesis
  proof cases
    case 1
    then show ?thesis
      unfolding loop by (intro exI [of _ "rs_pos s"]) (subst ReadLoop.simps, simp add: ne)
  next
    case 2
    let ?s = "s\<lparr>rs_pos := rs_pos s + of_nat ?k\<rparr>"
    have k: "unat (of_nat ?k :: position) = ?k" using 2(1) by (intro unat_of_nat_small) simp
    have "dist (rs_pos ?s) (freePos rb) = dist (rs_pos s) (freePos rb) - ?k"
      using dist_add_left [of "of_nat ?k" "rs_pos s" "freePos rb"] 2(1) d(1) by (simp add: k Let_def)
    then have d': "unat ?B \<le> dist (rs_pos ?s) (freePos rb)" "dist (rs_pos ?s) (freePos rb) \<le> 2 ^ 63"
      using d 2(1) by (simp_all add: Let_def)
    have "index_of ?B (rs_pos ?s) = 0" using index_of_wrap [OF good] by simp
    then have "read_iter r cc rb ?s = Inr (Return EXPIRED_POSITION ?s)"
      using read_iter_expired [OF r d'] good_size_bounds(1) [OF good] by auto
    moreover have "rs_pos ?s \<noteq> freePos rb" using d'(1) good_size_bounds(1) [OF good] by auto
    ultimately have "ReadLoop r cc rb ?s = Some (Inr (EXPIRED_POSITION, ?s))"
      by (subst ReadLoop.simps) simp
    then show ?thesis
      unfolding loop using 2(2) ne
      by (intro exI [of _ "rs_pos s + of_nat ?k"]) (subst ReadLoop.simps, simp)
  qed
qed

lemma ReadEx_expired:
  assumes "reader_ok r rb"
    and "unat (configBufSizeBytes rb) + 4 \<le> dist (rs_pos s) (freePos rb)" "dist (rs_pos s) (freePos rb) < 2 ^ 63"
  shows "\<exists>p. ReadEx r cc rb s = Some (Inr (EXPIRED_POSITION, s\<lparr>rs_pos := p\<rparr>))"
  by (rule ReadEx_expired_blank [OF assms(1) _ assms(3)]) (use assms(2) in \<open>simp add: Let_def\<close>)

section \<open>Properties\<close>

text \<open>A client that collects what it is handed, and a ring with two messages for the witnesses.\<close>

definition collect :: "bytes \<Rightarrow> bytes list \<Rightarrow> bytes list" where
  "collect d acc = acc @ [d]"

lemma deliver_collect:
  "cch_env (deliver (CopyConfirm collect) ds h) = cch_env h @ ds"
  by (induction ds arbitrary: h)
    (simp_all add: CopyConfirm_def cch_Copy_def cch_Confirm_def collect_def)

definition two_messages :: "mutex_view ByteRingBuffer" where
  "two_messages = ring_32\<lparr>freePos := 13, rb_data := hdr_bytes \<lparr> hdr_type = MSG, hdr_length = 2 \<rparr> @ [7, 8]
     @ hdr_bytes \<lparr> hdr_type = MSG, hdr_length = 1 \<rparr> @ [9] @ replicate 19 0\<rparr>"

definition reader_32 :: Reader where
  "reader_32 = \<lparr> reader_indexMask = 31 \<rparr>"

lemma two_messages_ok: "reader_ok reader_32 two_messages"
  by (simp add: reader_ok_def reader_32_def two_messages_def rb_ok_def good_size_32)

lemma two_messages_pending: "pending two_messages 0 [Msg [7, 8], Msg [9]]"
  by (simp add: pending_def two_messages_def index_of_def)

text \<open>
  C7: A read consumes the whole stream. If the bytes from the reader's position to the end of
  the stream are a sequence of well-formed segments shorter than the buffer, ReadEx returns
  SUCCESS after offering every message to the client once and in order, confirming exactly
  those it wanted to copy, and leaves both positions at the end of the stream.
\<close>

theorem ReadEx_delivers:
  assumes "reader_ok r rb" "pending rb (rs_pos s) ss"
  shows "ReadEx r cc rb s = Some (Inr (SUCCESS,
    \<lparr> rs_pos = freePos rb, rs_bpos = freePos rb,
      rs_handler = fold (\<lambda>d h. case cc_copy cc d h of (wanted, h1) \<Rightarrow> if wanted then cc_confirm cc h1 else h1)
        (messages ss) (rs_handler s) \<rparr>))"
proof -
  have fold_deliver: "deliver cc ds h =
      fold (\<lambda>d h. case cc_copy cc d h of (wanted, h1) \<Rightarrow> if wanted then cc_confirm cc h1 else h1) ds h" for ds h
    by (induction cc ds h rule: deliver.induct) (simp_all split: prod.splits)
  then show ?thesis using ReadEx_pending [OF assms, of cc] by simp
qed

theorem ReadEx_delivers_witness:
  "\<exists>h. ReadEx reader_32 (CopyConfirm collect) two_messages
      \<lparr> rs_pos = 0, rs_bpos = 0, rs_handler = \<lparr> cch_data = [], cch_env = [] \<rparr> \<rparr>
    = Some (Inr (SUCCESS, \<lparr> rs_pos = 13, rs_bpos = 13, rs_handler = h \<rparr>)) \<and> cch_env h = [[7, 8], [9]]"
  using ReadEx_delivers [OF two_messages_ok, of "\<lparr> rs_pos = 0, rs_bpos = 0,
      rs_handler = \<lparr> cch_data = [], cch_env = [] \<rparr> \<rparr>" _ "CopyConfirm collect"] two_messages_pending
  by (auto simp: two_messages_def CopyConfirm_def cch_Copy_def cch_Confirm_def collect_def)

text \<open>
  C12: Overwritten and future positions. Whatever bytes the buffer holds, a position that is a
  whole buffer and the longest blank run behind the stream end is refused with
  EXPIRED_POSITION, and a position after the stream end with INVALID_POSITION; in neither
  case is the client called or the published position changed.
\<close>

theorem ReadEx_refuses:
  assumes "reader_ok r rb"
    and "unat (configBufSizeBytes rb) + 4 \<le> dist (rs_pos s) (freePos rb) \<and> dist (rs_pos s) (freePos rb) < 2 ^ 63
      \<or> 0 < dist (freePos rb) (rs_pos s) \<and> dist (freePos rb) (rs_pos s) \<le> 2 ^ 63"
  shows "\<exists>res p. ReadEx r cc rb s = Some (Inr (res, s\<lparr>rs_pos := p\<rparr>))
    \<and> res = (if 0 < dist (freePos rb) (rs_pos s) \<and> dist (freePos rb) (rs_pos s) \<le> 2 ^ 63
             then INVALID_POSITION else EXPIRED_POSITION)"
proof (cases "0 < dist (freePos rb) (rs_pos s) \<and> dist (freePos rb) (rs_pos s) \<le> 2 ^ 63")
  case True
  then have "GreaterThan (rs_pos s) (freePos rb)" using GreaterThan_dist by simp
  then have "ReadEx r cc rb s = Some (Inr (INVALID_POSITION, s\<lparr>rs_pos := rs_pos s\<rparr>))"
    by (simp add: ReadEx_def)
  with True show ?thesis by (intro exI [of _ INVALID_POSITION] exI [of _ "rs_pos s"]) simp
next
  case False
  then show ?thesis using ReadEx_expired [OF assms(1), of s cc] assms(2) by (cases s) auto
qed

theorem ReadEx_refuses_witness:
  "(\<exists>p. ReadEx reader_32 (CopyConfirm collect) (two_messages\<lparr>freePos := 20\<rparr>)
      \<lparr> rs_pos = - 16, rs_bpos = 0, rs_handler = \<lparr> cch_data = [], cch_env = [] \<rparr> \<rparr>
    = Some (Inr (EXPIRED_POSITION, \<lparr> rs_pos = p, rs_bpos = 0, rs_handler = \<lparr> cch_data = [], cch_env = [] \<rparr> \<rparr>)))
   \<and> (\<exists>p. ReadEx reader_32 (CopyConfirm collect) two_messages
      \<lparr> rs_pos = 14, rs_bpos = 0, rs_handler = \<lparr> cch_data = [], cch_env = [] \<rparr> \<rparr>
    = Some (Inr (INVALID_POSITION, \<lparr> rs_pos = p, rs_bpos = 0, rs_handler = \<lparr> cch_data = [], cch_env = [] \<rparr> \<rparr>)))"
proof
  have "reader_ok reader_32 (two_messages\<lparr>freePos := 20\<rparr>)"
    using two_messages_ok by (simp add: reader_ok_def rb_ok_def)
  from ReadEx_refuses [OF this, of "\<lparr> rs_pos = - 16, rs_bpos = 0, rs_handler = \<lparr> cch_data = [], cch_env = [] \<rparr> \<rparr>"
      "CopyConfirm collect"]
  show "\<exists>p. ReadEx reader_32 (CopyConfirm collect) (two_messages\<lparr>freePos := 20\<rparr>)
      \<lparr> rs_pos = - 16, rs_bpos = 0, rs_handler = \<lparr> cch_data = [], cch_env = [] \<rparr> \<rparr>
    = Some (Inr (EXPIRED_POSITION, \<lparr> rs_pos = p, rs_bpos = 0, rs_handler = \<lparr> cch_data = [], cch_env = [] \<rparr> \<rparr>))"
    by (simp add: two_messages_def dist_def)
  from ReadEx_refuses [OF two_messages_ok, of "\<lparr> rs_pos = 14, rs_bpos = 0, rs_handler = \<lparr> cch_data = [], cch_env = [] \<rparr> \<rparr>"
      "CopyConfirm collect"]
  show "\<exists>p. ReadEx reader_32 (CopyConfirm collect) two_messages
      \<lparr> rs_pos = 14, rs_bpos = 0, rs_handler = \<lparr> cch_data = [], cch_env = [] \<rparr> \<rparr>
    = Some (Inr (INVALID_POSITION, \<lparr> rs_pos = p, rs_bpos = 0, rs_handler = \<lparr> cch_data = [], cch_env = [] \<rparr> \<rparr>))"
    by (simp add: two_messages_def dist_def)
qed

end
