(* ===== verification/RmpRoundTrip.thy ===== *)
theory RmpRoundTrip
  imports RmpWriter RmpReader
begin

text \<open>
  The writer and the reader of the reliable message protocol together: what a reader that
  has caught up with the stream sees of the next message, in the ordinary case and in the
  two cases in which the message cannot be read although nothing was lost.
\<close>

text \<open>The room that a write of \<open>n\<close> bytes takes on the stream.\<close>

definition room :: "'m ByteRingBuffer \<Rightarrow> u32 \<Rightarrow> nat" where
  "room rb n = total (filler (configBufSizeBytes rb) (freePos rb) (unat n)) + 5 + unat n"

text \<open>A successful write, seen by a reader at the old end of the stream.\<close>

lemma write_for_caught_up:
  assumes w: "writer_ok w rb" "ri_inv ri" "reader_ok r rb" "ucast n \<le> GetMaxMessageSize rb" "unat n = length d"
    and wr: "Write w d n readerBP EMPTY_POSITION ri rb = Inr (None, rb')"
  shows "reader_ok r rb'" "configBufSizeBytes rb' = configBufSizeBytes rb"
    "freePos rb' = freePos rb + of_nat (room rb n)"
    "room rb n \<le> unat (configBufSizeBytes rb) \<Longrightarrow>
      on_ring (configBufSizeBytes rb) (rb_data rb') (freePos rb)
        (filler (configBufSizeBytes rb) (freePos rb) (unat n) @ [Msg d])"
    "room rb n < 2 ^ 63" "dist (freePos rb) (freePos rb') = room rb n"
proof -
  have d: "take (unat n) d = d" "unat n \<le> length d" using w(5) by simp_all
  then have st: "stored_write rb d rb'"
    using Write_stored [OF w(1,2,4) d(2), of readerBP] wr by auto
  have ok: "rb_ok rb" using w(1) by (simp add: writer_ok_def)
  show "configBufSizeBytes rb' = configBufSizeBytes rb" by (rule stored_write_frame(1) [OF st])
  show "reader_ok r rb'"
    using w(3) stored_write_frame(1,7) [OF st] by (simp add: reader_ok_def)
  show f: "freePos rb' = freePos rb + of_nat (room rb n)"
    using st by (auto simp: stored_write_def write_segments_def w(5) add.assoc room_def)
  have "extends (configBufSizeBytes rb) (rb_data rb) (freePos rb)
      (filler (configBufSizeBytes rb) (freePos rb) (unat n) @ [Msg d]) (rb_data rb')"
    using st by (auto simp: stored_write_def write_segments_def w(5))
  then have "on_ring (configBufSizeBytes rb) (rb_data rb) (freePos rb) [] \<longrightarrow> freePos rb = freePos rb + of_nat (total [])
      \<longrightarrow> total [] + total (filler (configBufSizeBytes rb) (freePos rb) (unat n) @ [Msg d]) \<le> unat (configBufSizeBytes rb)
      \<longrightarrow> on_ring (configBufSizeBytes rb) (rb_data rb') (freePos rb)
        ([] @ filler (configBufSizeBytes rb) (freePos rb) (unat n) @ [Msg d])"
    unfolding extends_def by blast
  then show "room rb n \<le> unat (configBufSizeBytes rb) \<Longrightarrow>
      on_ring (configBufSizeBytes rb) (rb_data rb') (freePos rb)
        (filler (configBufSizeBytes rb) (freePos rb) (unat n) @ [Msg d])"
    by (simp add: room_def w(5) add.assoc)
  have "unat n + 5 \<le> unat (configBufSizeBytes rb)"
    using w(4) good_size_bounds(1) [OF rb_ok_good_size [OF ok]]
    by (simp add: word_le_nat_alt unat_GetMaxMessageSize [OF ok])
  then show r: "room rb n < 2 ^ 63"
    using total_filler_le [of "configBufSizeBytes rb" "freePos rb" "unat n"]
      good_size_bounds(2) [OF rb_ok_good_size [OF ok]] by (simp add: room_def)
  show "dist (freePos rb) (freePos rb') = room rb n"
    unfolding f using r by (intro dist_of_nat) simp
qed

section \<open>Properties\<close>

text \<open>
  Write, then read. If a write of a non-empty message takes less room than the buffer and
  does not start exactly five bytes before its end, a reader that had caught up reads exactly
  this message and has caught up again, whatever the buffer held before and wherever the
  message wraps.
\<close>

lemma write_then_read:
  assumes "writer_ok w rb" "ri_inv ri" "reader_ok r rb" "ucast n \<le> GetMaxMessageSize rb" "unat n = length d"
    and "Write w d n readerBP EMPTY_POSITION ri rb = Inr (None, rb')"
    and "d \<noteq> []" "room rb n < unat (configBufSizeBytes rb)"
    and "unat (configBufSizeBytes rb) - unat (freePos rb) mod unat (configBufSizeBytes rb) \<noteq> 5"
    and "rs_pos s = freePos rb"
  shows "\<exists>h. ReadEx r (CopyConfirm collect) rb' s =
      Some (Inr (SUCCESS, \<lparr> rs_pos = freePos rb', rs_bpos = freePos rb', rs_handler = h \<rparr>))
    \<and> cch_env h = cch_env (rs_handler s) @ [d]"
proof -
  note w = write_for_caught_up [OF assms(1-6)]
  let ?ss = "filler (configBufSizeBytes rb) (freePos rb) (unat n) @ [Msg d]"
  have on: "on_ring (configBufSizeBytes rb) (rb_data rb') (freePos rb) ?ss" using w(4) assms(8) by simp
  have tot: "total ?ss = room rb n" by (simp add: room_def assms(5))
  have "list_all seg_valid ?ss"
    using assms(7,9) by (auto simp: filler_def Let_def index_of_def)
  then have "ReadLoop r (CopyConfirm collect) rb' s = Some (Inr (SUCCESS,
      \<lparr> rs_pos = freePos rb', rs_bpos = freePos rb', rs_handler = deliver (CopyConfirm collect) (messages ?ss) (rs_handler s) \<rparr>))"
    using on tot w(2,3) assms(8,10)
    by (intro ReadLoop_stream [OF w(1), of s ?ss]) (auto simp: list_all_iff)
  moreover have "messages ?ss = [d]" by (auto simp: filler_def Let_def)
  moreover have "\<not> GreaterThan (rs_pos s) (freePos rb')"
    using not_GreaterThan_dist w(5,6) assms(10) by simp
  ultimately show ?thesis by (simp add: ReadEx_def deliver_collect del: deliver.simps messages_simps)
qed

definition fresh_state :: "bytes list CopyConfirmHandler read_state" where
  "fresh_state = \<lparr> rs_pos = 20, rs_bpos = 20, rs_handler = \<lparr> cch_data = [], cch_env = [] \<rparr> \<rparr>"

lemma reader_32_ok: "rb_ok rb \<Longrightarrow> configBufSizeBytes rb = 32 \<Longrightarrow> reader_ok reader_32 rb"
  by (simp add: reader_ok_def reader_32_def)

lemma write_then_read_witness:
  "\<exists>rb' h. Write writer_32 [1, 2, 3, 4, 5, 6, 7, 8, 9] 9 True EMPTY_POSITION table_2 (ring_32\<lparr>freePos := 20\<rparr>) = Inr (None, rb')
    \<and> ReadEx reader_32 (CopyConfirm collect) rb' fresh_state =
        Some (Inr (SUCCESS, \<lparr> rs_pos = freePos rb', rs_bpos = freePos rb', rs_handler = h \<rparr>))
    \<and> cch_env h = [[1, 2, 3, 4, 5, 6, 7, 8, 9]]"
proof -
  let ?rb = "ring_32\<lparr>freePos := 20\<rparr>" and ?d = "[1, 2, 3, 4, 5, 6, 7, 8, 9] :: bytes"
  have ok: "writer_ok writer_32 ?rb" "reader_ok reader_32 ?rb"
    by (intro writer_32_ok reader_32_ok; simp add: rb_ok_def good_size_32)+
  have max: "ucast (9 :: u32) \<le> GetMaxMessageSize ?rb" by (subst max_32) simp_all
  have "isl (Write writer_32 ?d 9 True EMPTY_POSITION table_2 ?rb) = False"
    "map_sum id fst (Write writer_32 ?d 9 True EMPTY_POSITION table_2 ?rb) = Inr None" by code_simp+
  then obtain rb' where wr: "Write writer_32 ?d 9 True EMPTY_POSITION table_2 ?rb = Inr (None, rb')"
    by (cases "Write writer_32 ?d 9 True EMPTY_POSITION table_2 ?rb") auto
  from write_then_read [OF ok(1) table_2_inv ok(2) max _ wr, of fresh_state] wr
  show ?thesis by (auto simp: room_def filler_def index_of_def fresh_state_def)
qed

text \<open>
  Padding of length zero. When a write starts exactly five bytes before the end of the
  buffer, its padding run has a header of length zero, which the reader takes for garbage: a
  reader that had caught up and lost nothing is told EXPIRED_POSITION, is handed nothing, and
  stays in front of the padding, so that every later read gives the same answer.
\<close>

lemma padding_of_length_zero_expires:
  assumes "writer_ok w rb" "ri_inv ri" "reader_ok r rb" "ucast n \<le> GetMaxMessageSize rb" "unat n = length d"
    and "Write w d n readerBP EMPTY_POSITION ri rb = Inr (None, rb')"
    and "d \<noteq> []" "room rb n < unat (configBufSizeBytes rb)"
    and "unat (configBufSizeBytes rb) - unat (freePos rb) mod unat (configBufSizeBytes rb) = 5"
    and "rs_pos s = freePos rb"
  shows "ReadEx r cc rb' s = Some (Inr (EXPIRED_POSITION, s))"
proof -
  note w = write_for_caught_up [OF assms(1-6)]
  have "filler (configBufSizeBytes rb) (freePos rb) (unat n) = [Pad 0]"
    using assms(5,7,9) by (simp add: filler_def Let_def index_of_def)
  then have "stored (configBufSizeBytes rb') (rb_data rb') (rs_pos s) (Pad 0)"
    using w(2,4) assms(8,10) by simp
  then have "read_iter r cc rb' s = Inr (Return EXPIRED_POSITION s)"
    using w(2,6) assms(8,10) by (intro read_iter_invalid [OF w(1), of s "Pad 0"]) simp_all
  moreover have "rs_pos s \<noteq> freePos rb'" using w(6) assms(10) by (auto simp: room_def)
  ultimately show ?thesis
    using not_GreaterThan_dist [of "rs_pos s" "freePos rb'"] w(5,6) assms(10)
    by (simp add: ReadEx_def) (subst ReadLoop.simps, simp)
qed

lemma padding_of_length_zero_expires_witness:
  "\<exists>rb'. Write writer_32 [1, 2] 2 True EMPTY_POSITION table_2 (ring_32\<lparr>freePos := 27\<rparr>) = Inr (None, rb')
    \<and> ReadEx reader_32 (CopyConfirm collect) rb' (fresh_state\<lparr>rs_pos := 27\<rparr>)
      = Some (Inr (EXPIRED_POSITION, fresh_state\<lparr>rs_pos := 27\<rparr>))"
proof -
  let ?rb = "ring_32\<lparr>freePos := 27\<rparr>"
  have ok: "writer_ok writer_32 ?rb" "reader_ok reader_32 ?rb"
    by (intro writer_32_ok reader_32_ok; simp add: rb_ok_def good_size_32)+
  have max: "ucast (2 :: u32) \<le> GetMaxMessageSize ?rb" by (subst max_32) simp_all
  have "map_sum id fst (Write writer_32 [1, 2] 2 True EMPTY_POSITION table_2 ?rb) = Inr None" by code_simp
  then obtain rb' where wr: "Write writer_32 [1, 2] 2 True EMPTY_POSITION table_2 ?rb = Inr (None, rb')"
    by (cases "Write writer_32 [1, 2] 2 True EMPTY_POSITION table_2 ?rb") auto
  from padding_of_length_zero_expires [OF ok(1) table_2_inv ok(2) max _ wr, of "fresh_state\<lparr>rs_pos := 27\<rparr>"] wr
  show ?thesis by (auto simp: room_def filler_def index_of_def)
qed

text \<open>
  The maximal message is unreadable. A message of the size that GetMaxMessageSize
  documents as the maximal useful one is written, but expires the moment it is: no reader,
  even one that had caught up with the stream, can ever read it.
\<close>

lemma maximal_message_unreadable:
  assumes "writer_ok w rb" "ri_inv ri" "reader_ok r rb" "ucast n = GetMaxMessageSize rb" "unat n = length d"
    and "Write w d n readerBP EMPTY_POSITION ri rb = Inr (None, rb')"
    and "rs_pos s = freePos rb"
  shows "\<exists>p. ReadEx r cc rb' s = Some (Inr (EXPIRED_POSITION, s\<lparr>rs_pos := p\<rparr>))"
proof -
  have max: "ucast n \<le> GetMaxMessageSize rb" using assms(4) by simp
  note w = write_for_caught_up [OF assms(1-3) max assms(5,6)]
  have ok: "rb_ok rb" using assms(1) by (simp add: writer_ok_def)
  have "unat n = unat (GetMaxMessageSize rb)" by (simp flip: assms(4))
  then have n: "unat n + 5 = unat (configBufSizeBytes rb)"
    using unat_GetMaxMessageSize [OF ok] good_size_bounds(1) [OF rb_ok_good_size [OF ok]] by simp
  show ?thesis
  proof (rule ReadEx_expired_blank [OF w(1)])
    show "unat (configBufSizeBytes rb') +
        (let k = unat (configBufSizeBytes rb') - index_of (configBufSizeBytes rb') (rs_pos s) in if k < 5 then k else 0)
      \<le> dist (rs_pos s) (freePos rb')"
      using n w(2,6) assms(7) by (simp add: room_def filler_def Let_def)
    show "dist (rs_pos s) (freePos rb') < 2 ^ 63" using w(5,6) assms(7) by simp
  qed
qed

lemma maximal_message_unreadable_witness:
  "\<exists>rb' p. Write writer_32 (replicate 27 1) 27 True EMPTY_POSITION table_2 ring_32 = Inr (None, rb')
    \<and> ReadEx reader_32 (CopyConfirm collect) rb' (fresh_state\<lparr>rs_pos := 0\<rparr>)
      = Some (Inr (EXPIRED_POSITION, fresh_state\<lparr>rs_pos := p\<rparr>))"
proof -
  have ok: "writer_ok writer_32 ring_32" "reader_ok reader_32 ring_32"
    by (intro writer_32_ok reader_32_ok ring_32_ok; simp)+
  have max: "ucast (27 :: u32) = GetMaxMessageSize ring_32" by (subst max_32) simp_all
  have "map_sum id fst (Write writer_32 (replicate 27 1) 27 True EMPTY_POSITION table_2 ring_32) = Inr None" by code_simp
  then obtain rb' where wr: "Write writer_32 (replicate 27 1) 27 True EMPTY_POSITION table_2 ring_32 = Inr (None, rb')"
    by (cases "Write writer_32 (replicate 27 1) 27 True EMPTY_POSITION table_2 ring_32") auto
  from maximal_message_unreadable [OF ok(1) table_2_inv ok(2) max _ wr, of "fresh_state\<lparr>rs_pos := 0\<rparr>"] wr
  show ?thesis by (auto simp: fresh_state_def)
qed

end
