(* ===== verification/ReaderWithBackpressure.thy ===== *)
theory ReaderWithBackpressure
  imports RmpReader
begin

text \<open>
  rmp/readerWithBackpressure.hpp: a reader that owns a slot of the reader table, keeps its
  own stream position and publishes it in the slot. The operations take and return the
  shared reader info beside the object.
\<close>

record ReaderWithBackpressure =
  rwb_reader :: Reader
  rwb_procReaderId :: reader_id
  rwb_readerPos :: position

text \<open>
  The constructor, by thread \<open>t\<close>. \<open>_readerPos\<close> is not initialised by it: \<open>pos0\<close> is whatever
  value the member starts with.
\<close>

definition mk_ReaderWithBackpressure ::
    "'m pthread_api \<Rightarrow> tid \<Rightarrow> position \<Rightarrow> 'm ByteRingBuffer \<Rightarrow> 'm ReaderInfo
     \<Rightarrow> (ReaderWithBackpressure \<times> 'm ReaderInfo) result" where
  "mk_ReaderWithBackpressure pt t pos0 rb ri =
     (case mk_Reader rb of
        Inl e \<Rightarrow> Inl e
      | Inr reader \<Rightarrow>
          if \<not> ri_initialized ri then Inl (Thrown ''Rmp reader info not initialized'')
          else (case Alloc pt t ri of
                  Inl e \<Rightarrow> Inl e
                | Inr (readerId, ri') \<Rightarrow>
                    if readerId = INVALID_READER_ID
                    then Inl (Thrown ''Unable to allocate proc reader info'')
                    else (case Get ri' readerId of
                            Inl e \<Rightarrow> Inl e
                          | Inr info \<Rightarrow> Inr (\<lparr> rwb_reader = reader, rwb_procReaderId = readerId,
                                              rwb_readerPos = pos0 \<rparr>, ri'))))"

definition rwb_destroy ::
    "'m pthread_api \<Rightarrow> tid \<Rightarrow> ReaderWithBackpressure \<Rightarrow> 'm ReaderInfo \<Rightarrow> 'm ReaderInfo result" where
  "rwb_destroy pt t rwb ri = Free_slot pt t (rwb_procReaderId rwb) ri"

definition rwb_Activate ::
    "ReaderWithBackpressure \<Rightarrow> 'm ByteRingBuffer \<Rightarrow> 'm ReaderInfo
     \<Rightarrow> (ReaderWithBackpressure \<times> 'm ReaderInfo) result" where
  "rwb_Activate rwb rb ri =
     (let rwb' = rwb\<lparr>rwb_readerPos := freePos rb\<rparr>
      in map_sum id (Pair rwb') (Activate (rwb_procReaderId rwb) (rwb_readerPos rwb') ri))"

definition rwb_Deactivate :: "ReaderWithBackpressure \<Rightarrow> 'm ReaderInfo \<Rightarrow> 'm ReaderInfo result" where
  "rwb_Deactivate rwb ri = Deactivate (rwb_procReaderId rwb) ri"

definition rwb_IsActive :: "ReaderWithBackpressure \<Rightarrow> 'm ReaderInfo \<Rightarrow> bool result" where
  "rwb_IsActive rwb ri = map_sum id slot_active (Get ri (rwb_procReaderId rwb))"

definition rwb_Pos :: "ReaderWithBackpressure \<Rightarrow> position" where
  "rwb_Pos rwb = rwb_readerPos rwb"

text \<open>
  \<open>ReadEx\<close>: the reader works on the object's position and, through the pointer \<open>_info\<close>, on
  the position of the slot.
\<close>

definition rwb_finish ::
    "ReaderWithBackpressure \<Rightarrow> 'm ReaderInfo \<Rightarrow> read_result \<Rightarrow> 'h read_state
     \<Rightarrow> (read_result \<times> ReaderWithBackpressure \<times> 'm ReaderInfo \<times> 'h) result" where
  "rwb_finish rwb ri res s =
     (case update_slot (rwb_procReaderId rwb) (\<lambda>info. info\<lparr>info_position := rs_bpos s\<rparr>) ri of
        Inl e \<Rightarrow> Inl e
      | Inr ri' \<Rightarrow>
          if res = INVALID_POSITION then Inl Assertion
          else Inr (res, rwb\<lparr>rwb_readerPos := rs_pos s\<rparr>,
                    (if res = EXPIRED_POSITION then ri'\<lparr>expiredReaders := expiredReaders ri' + 1\<rparr> else ri'),
                    rs_handler s))"

definition rwb_ReadEx ::
    "'h copy_confirm \<Rightarrow> 'm ByteRingBuffer \<Rightarrow> ReaderWithBackpressure \<times> 'm ReaderInfo \<times> 'h
     \<Rightarrow> (read_result \<times> ReaderWithBackpressure \<times> 'm ReaderInfo \<times> 'h) result option" where
  "rwb_ReadEx cc rb st =
     (case st of (rwb, ri, h) \<Rightarrow>
       (case Get ri (rwb_procReaderId rwb) of
          Inl e \<Rightarrow> Some (Inl e)
        | Inr info \<Rightarrow>
            if \<not> slot_active info then Some (Inl Assertion)
            else (case ReadEx (rwb_reader rwb) cc rb
                         \<lparr> rs_pos = rwb_readerPos rwb, rs_bpos = info_position info, rs_handler = h \<rparr> of
                    None \<Rightarrow> None
                  | Some (Inl e) \<Rightarrow> Some (Inl e)
                  | Some (Inr (res, s)) \<Rightarrow> Some (rwb_finish rwb ri res s))))"

section \<open>Activation and reading\<close>

definition set_position :: "position \<Rightarrow> 'm Info \<Rightarrow> 'm Info" where
  "set_position pos info = info\<lparr>info_position := pos\<rparr>"

lemma set_position_simps [simp]:
  "info_position (set_position pos info) = pos" "slot_active (set_position pos info) = slot_active info"
  "info_lock (set_position pos info) = info_lock info"
  by (simp_all add: set_position_def slot_active_def)

lemma active_at_set_position:
  "k < length (ri_slots ri) \<Longrightarrow> ri_slots ri' = (ri_slots ri)[k := set_position pos (ri_slots ri ! k)]
   \<Longrightarrow> active_at ri' i = active_at ri i"
  by (auto simp: active_at_def nth_list_update)

lemma ri_inv_set_position:
  assumes "ri_inv ri" "k < length (ri_slots ri)"
  shows "ri_inv (ri\<lparr>ri_slots := (ri_slots ri)[k := set_position pos (ri_slots ri ! k)]\<rparr>)"
  using assms active_at_set_position [of k ri "ri\<lparr>ri_slots := (ri_slots ri)[k := set_position pos (ri_slots ri ! k)]\<rparr>" pos]
  by (simp add: ri_inv_def slots_ok_def range_covers_def GetActiveRange_def)

lemma rwb_Activate_spec:
  assumes "slots_ok ri" "rwb_procReaderId rwb = int k" "k < length (ri_slots ri)"
  shows "\<exists>ri'. rwb_Activate rwb rb ri = Inr (rwb\<lparr>rwb_readerPos := freePos rb\<rparr>, ri') \<and> ri_inv ri'
    \<and> configMaxReaders ri' = configMaxReaders ri
    \<and> ri_slots ri' = (ri_slots ri)[k := (ri_slots ri ! k)\<lparr>info_position := freePos rb, info_isActive := 1\<rparr>]"
  using Activate_spec [OF assms(1), of "int k" "freePos rb"] assms(2,3)
  by (auto simp: rwb_Activate_def)

lemma mk_rwb_Inr:
  assumes "mk_ReaderWithBackpressure pt t pos0 rb ri = Inr (rwb, ri')"
  shows "\<exists>reader readerId. mk_Reader rb = Inr reader \<and> Alloc pt t ri = Inr (readerId, ri')
    \<and> readerId \<noteq> INVALID_READER_ID
    \<and> rwb = \<lparr> rwb_reader = reader, rwb_procReaderId = readerId, rwb_readerPos = pos0 \<rparr>"
  using assms by (auto simp: mk_ReaderWithBackpressure_def split: sum.splits if_splits prod.splits)

text \<open>A read that meets nothing but valid segments and is not lapped consumes all of them.\<close>

lemma rwb_ReadEx_stream:
  fixes ri :: "'m ReaderInfo"
  assumes ri: "ri_inv ri" and k: "rwb_procReaderId rwb = int k" "active_at ri k"
    and r: "reader_ok (rwb_reader rwb) rb"
    and ss: "on_ring (configBufSizeBytes rb) (rb_data rb) (rwb_readerPos rwb) ss"
      "freePos rb = rwb_readerPos rwb + of_nat (total ss)" "total ss < unat (configBufSizeBytes rb)"
      "\<And>g. g \<in> set ss \<Longrightarrow> seg_valid g"
  shows "rwb_ReadEx cc rb (rwb, ri, h) = Some (Inr (SUCCESS, rwb\<lparr>rwb_readerPos := freePos rb\<rparr>,
      ri\<lparr>ri_slots := (ri_slots ri)[k := set_position (freePos rb) (ri_slots ri ! k)]\<rparr>,
      deliver cc (messages ss) h))"
proof -
  let ?s = "\<lparr> rs_pos = rwb_readerPos rwb, rs_bpos = info_position (ri_slots ri ! k), rs_handler = h \<rparr>"
  have len: "k < length (ri_slots ri)" "slot_active (ri_slots ri ! k)" using k(2) by (auto simp: active_at_def)
  then have get: "Get ri (int k) = Inr (ri_slots ri ! k)"
    using Get_nat [OF ri] ri by (simp add: ri_inv_def slots_ok_def)
  have "dist (rs_pos ?s) (freePos rb) = total ss"
    using ss(2,3) good_size_bounds(2) [of "configBufSizeBytes rb"] r
    by (simp add: reader_ok_def rb_ok_def unat_of_nat_small)
  then have "\<not> GreaterThan (rs_pos ?s) (freePos rb)"
    using ss(3) good_size_bounds(3) [of "configBufSizeBytes rb"] r
    by (intro not_GreaterThan_dist) (simp add: reader_ok_def rb_ok_def)
  then have "ReadEx (rwb_reader rwb) cc rb ?s = Some (Inr (SUCCESS,
      \<lparr> rs_pos = freePos rb, rs_bpos = freePos rb, rs_handler = deliver cc (messages ss) h \<rparr>))"
    using ReadLoop_stream [OF r, of ?s ss cc] ss by (simp add: ReadEx_def)
  then show ?thesis
    using get len k(1) by (simp add: rwb_ReadEx_def rwb_finish_def update_slot_def set_position_def)
qed

text \<open>
  A read that meets a segment it refuses delivers what is before it, stays in front of it and
  counts the expiry; the published position stays or moves to at most that place.
\<close>

lemma rwb_ReadEx_stuck:
  fixes ri :: "'m ReaderInfo"
  assumes ri: "ri_inv ri" and k: "rwb_procReaderId rwb = int k" "active_at ri k"
    and r: "reader_ok (rwb_reader rwb) rb"
    and ss: "on_ring (configBufSizeBytes rb) (rb_data rb) (rwb_readerPos rwb) (ss @ bad # tail)"
      "freePos rb = rwb_readerPos rwb + of_nat (total (ss @ bad # tail))"
      "total (ss @ bad # tail) < unat (configBufSizeBytes rb)"
      "\<And>g. g \<in> set ss \<Longrightarrow> seg_valid g" "\<not> seg_valid bad"
  shows "\<exists>bp. rwb_ReadEx cc rb (rwb, ri, h) = Some (Inr (EXPIRED_POSITION,
      rwb\<lparr>rwb_readerPos := rwb_readerPos rwb + of_nat (total ss)\<rparr>,
      ri\<lparr>ri_slots := (ri_slots ri)[k := set_position bp (ri_slots ri ! k)],
         expiredReaders := expiredReaders ri + 1\<rparr>,
      deliver cc (messages ss) h))
    \<and> (bp = info_position (ri_slots ri ! k) \<or> (\<exists>n \<le> total ss. bp = rwb_readerPos rwb + of_nat n))"
proof -
  let ?s = "\<lparr> rs_pos = rwb_readerPos rwb, rs_bpos = info_position (ri_slots ri ! k), rs_handler = h \<rparr>"
  have len: "k < length (ri_slots ri)" "slot_active (ri_slots ri ! k)" using k(2) by (auto simp: active_at_def)
  then have get: "Get ri (int k) = Inr (ri_slots ri ! k)"
    using Get_nat [OF ri] ri by (simp add: ri_inv_def slots_ok_def)
  have "dist (rs_pos ?s) (freePos rb) = total (ss @ bad # tail)"
    unfolding ss(2) read_state.simps
    using ss(3) good_size_bounds(2) [of "configBufSizeBytes rb"] r
    by (intro dist_of_nat) (simp add: reader_ok_def rb_ok_def)
  then have "\<not> GreaterThan (rs_pos ?s) (freePos rb)"
    using ss(3) good_size_bounds(3) [of "configBufSizeBytes rb"] r
    by (intro not_GreaterThan_dist) (simp add: reader_ok_def rb_ok_def)
  then obtain bp where "ReadEx (rwb_reader rwb) cc rb ?s = Some (Inr (EXPIRED_POSITION,
      \<lparr> rs_pos = rwb_readerPos rwb + of_nat (total ss), rs_bpos = bp, rs_handler = deliver cc (messages ss) h \<rparr>))"
      and "bp = info_position (ri_slots ri ! k) \<or> (\<exists>n \<le> total ss. bp = rwb_readerPos rwb + of_nat n)"
    using ReadLoop_stuck [OF r, of ?s ss bad tail cc] ss by (auto simp: ReadEx_def)
  then show ?thesis
    using get len k(1)
    by (intro exI [of _ bp]) (simp add: rwb_ReadEx_def rwb_finish_def update_slot_def set_position_def)
qed

end
