(* ===== verification/RingAccesses.thy ===== *)
theory RingAccesses
  imports RmpWriter ReaderWithBackpressure
begin

text \<open>
  rmp/writer.hpp and rmp/reader.hpp at the grain of single memory accesses. The owner of the
  writer mutex and one reader run at the same time: the writer stores the bytes of headers and
  data one by one and moves the end of the stream with atomic additions, the reader loads the
  end of the stream at every test of its loop and copies headers and data byte by byte. Memory
  is sequentially consistent, with the accesses in program order. The first part shows that
  either side alone does what the sequential definitions of RmpWriter and RmpReader say; the
  second part is about their interleavings.
\<close>

section \<open>The writer's accesses\<close>

datatype mem_op = PutByte nat u8 | MoveEnd u64

fun put_bytes :: "nat \<Rightarrow> bytes \<Rightarrow> mem_op list" where
  "put_bytes i [] = []"
| "put_bytes i (b # bs) = PutByte i b # put_bytes (Suc i) bs"

definition pad_ops :: "write_plan \<Rightarrow> mem_op list" where
  "pad_ops p =
     (if plan_addPadding p
      then put_bytes (unat (plan_bufIndex p))
             (hdr_bytes \<lparr> hdr_type = PADDING, hdr_length = ucast (plan_lengthToBufEnd p - sizeof_MsgHeader) \<rparr>)
           @ [MoveEnd (plan_lengthToBufEnd p)]
      else if plan_addBlank p then [MoveEnd (plan_lengthToBufEnd p)]
      else [])"

definition msg_ops :: "nat \<Rightarrow> bytes \<Rightarrow> u32 \<Rightarrow> mem_op list" where
  "msg_ops i data dataSize =
     put_bytes i (hdr_bytes \<lparr> hdr_type = MSG, hdr_length = dataSize \<rparr>)
     @ put_bytes (i + 5) (take (unat dataSize) data) @ [MoveEnd (sizeof_MsgHeader + ucast dataSize)]"

definition Write_ops :: "write_plan \<Rightarrow> bytes \<Rightarrow> u32 \<Rightarrow> mem_op list" where
  "Write_ops p data dataSize =
     pad_ops p @ msg_ops (if plan_addPadding p \<or> plan_addBlank p then 0 else unat (plan_bufIndex p)) data dataSize"

definition exec_op :: "mem_op \<Rightarrow> 'm ByteRingBuffer \<Rightarrow> 'm ByteRingBuffer result" where
  "exec_op oper rb =
     (case oper of
        PutByte i b \<Rightarrow> if i < length (rb_data rb) then Inr (rb\<lparr>rb_data := (rb_data rb)[i := b]\<rparr>) else Inl OutOfBounds
      | MoveEnd k \<Rightarrow> Inr (rb\<lparr>freePos := freePos rb + k\<rparr>))"

fun exec_ops :: "mem_op list \<Rightarrow> 'm ByteRingBuffer \<Rightarrow> 'm ByteRingBuffer result" where
  "exec_ops [] rb = Inr rb"
| "exec_ops (oper # ops) rb = (case exec_op oper rb of Inl e \<Rightarrow> Inl e | Inr rb' \<Rightarrow> exec_ops ops rb')"

lemma exec_ops_append:
  "exec_ops (ops @ ops') rb = (case exec_ops ops rb of Inl e \<Rightarrow> Inl e | Inr rb' \<Rightarrow> exec_ops ops' rb')"
  by (induction ops rb rule: exec_ops.induct) (auto split: sum.splits)

lemma patch_Cons:
  assumes "i < length m" "Suc i + length bs \<le> length m"
  shows "patch (Suc i) bs (m[i := b]) = patch i (b # bs) m"
  using assms by (simp add: patch_def take_update_swap upd_conv_take_nth_drop take_Suc_conv_app_nth list_update_append add.commute)

lemma exec_put_bytes:
  "i \<le> length (rb_data rb) \<Longrightarrow> exec_ops (put_bytes i bs) rb =
     (if i + length bs \<le> length (rb_data rb) then Inr (rb\<lparr>rb_data := patch i bs (rb_data rb)\<rparr>) else Inl OutOfBounds)"
proof (induction i bs arbitrary: rb rule: put_bytes.induct)
  case (2 i b bs)
  then show ?case
    using patch_Cons [of i "rb_data rb" bs b] by (simp add: exec_op_def)
qed simp

lemma exec_header:
  assumes "i \<le> length (rb_data rb)"
  shows "exec_ops (put_bytes i (hdr_bytes h)) rb =
    map_sum id (\<lambda>m. rb\<lparr>rb_data := m\<rparr>) (store_header i h (rb_data rb))"
  using assms by (simp add: exec_put_bytes store_header_def write_at_def patch_def)

lemma exec_msg_ops:
  assumes "unat bi \<le> length (rb_data rb)" "unat n \<le> length data"
  shows "exec_ops (msg_ops (unat bi) data n) rb = Write_msg bi data n rb"
proof -
  let ?h = "\<lparr> hdr_type = MSG, hdr_length = n \<rparr>" and ?i = "unat bi"
  show ?thesis
  proof (cases "?i + 5 \<le> length (rb_data rb)")
    case True
    let ?m = "patch ?i (hdr_bytes ?h) (rb_data rb)"
    have "store_header ?i ?h (rb_data rb) = Inr ?m" using True by (simp add: store_header_def write_at_patch)
    moreover have "?i + 5 \<le> length ?m" using True by simp
    ultimately show ?thesis
      using assms exec_put_bytes [of "?i + 5" "rb\<lparr>rb_data := ?m\<rparr>" "take (unat n) data"]
      by (auto simp: msg_ops_def Write_msg_def exec_ops_append exec_header exec_op_def read_at_def write_at_def
          patch_def min_absorb2)
  next
    case False
    then show ?thesis
      using assms by (simp add: msg_ops_def Write_msg_def exec_ops_append exec_header store_header_def write_at_def)
  qed
qed

lemma exec_pad_ops:
  assumes "plan_addPadding p \<Longrightarrow> unat (plan_bufIndex p) \<le> length (rb_data rb)"
  shows "Write_pad p rb = map_sum id
    (Pair (if plan_addPadding p \<or> plan_addBlank p then 0 else plan_bufIndex p)) (exec_ops (pad_ops p) rb)"
  using assms by (auto simp: Write_pad_def pad_ops_def exec_ops_append exec_header exec_op_def split: sum.splits)

lemma exec_ops_length: "exec_ops ops rb = Inr rb' \<Longrightarrow> length (rb_data rb') = length (rb_data rb)"
  by (induction ops rb rule: exec_ops.induct)
    (auto simp: exec_op_def split: sum.splits mem_op.splits if_splits)

text \<open>
  C19: The writer's accesses are the write. Executing the single stores and additions of a
  write one after the other gives exactly what the sequential Write gives once backpressure is
  out of the way, out-of-bounds stores included, whatever the ring buffer holds.
\<close>

theorem Write_ops_exact:
  assumes "ucast n \<le> GetMaxMessageSize rb" "unat n \<le> length data"
    and "unat (BufIndex (writer_indexMask w) (freePos rb)) \<le> length (rb_data rb)"
  shows "Write w data n False skip ri rb = map_sum id (Pair None)
    (exec_ops (Write_ops (Write_plan (writer_indexMask w) (configBufSizeBytes rb) (freePos rb) n) data n) rb)"
proof -
  let ?p = "Write_plan (writer_indexMask w) (configBufSizeBytes rb) (freePos rb) n"
  let ?bi = "if plan_addPadding ?p \<or> plan_addBlank ?p then 0 else plan_bufIndex ?p"
  have bi: "unat (plan_bufIndex ?p) \<le> length (rb_data rb)"
    using assms(3) by (simp add: Write_plan_def Let_def)
  have pad: "Write_pad ?p rb = map_sum id (Pair ?bi) (exec_ops (pad_ops ?p) rb)"
    using bi by (intro exec_pad_ops)
  have un: "(if plan_addPadding ?p \<or> plan_addBlank ?p then 0 else unat (plan_bufIndex ?p)) = unat ?bi" by simp
  show ?thesis
  proof (cases "exec_ops (pad_ops ?p) rb")
    case (Inl e)
    then show ?thesis using leD [OF assms(1)] pad by (simp add: Write_def Let_def Write_ops_def exec_ops_append)
  next
    case (Inr rb1)
    have "length (rb_data rb1) = length (rb_data rb)"
      using exec_ops_length [OF Inr] .
    then have "exec_ops (msg_ops (unat ?bi) data n) rb1 = Write_msg ?bi data n rb1"
      using bi assms(2) by (intro exec_msg_ops) auto
    then show ?thesis
      using leD [OF assms(1)] pad Inr
      by (simp add: Write_def Let_def Write_ops_def exec_ops_append un EMPTY_POSITION_def split: sum.splits)
  qed
qed

theorem Write_ops_exact_witness:
  "Write writer_32 [7, 8, 9] 3 False None table_2 (ring_32\<lparr>freePos := 26\<rparr>) = map_sum id (Pair None)
     (exec_ops (Write_ops (Write_plan 31 32 26 3) [7, 8, 9] 3) (ring_32\<lparr>freePos := 26\<rparr>))"
proof -
  have "ucast (3 :: u32) \<le> GetMaxMessageSize (ring_32\<lparr>freePos := 26\<rparr>)" by (subst max_32) simp_all
  then show ?thesis
    using Write_ops_exact [of 3 "ring_32\<lparr>freePos := 26\<rparr>" "[7, 8, 9]" writer_32 None table_2]
    by (simp add: writer_32_def BufIndex_def ring_32_def)
qed

section \<open>The reader's accesses\<close>

text \<open>
  Where a reader is in ReadEx: at its entry, at the test of the loop, at the early expiry
  check, loading the header with the bytes it has so far, at the check of the header, loading
  the data, at the check after the copy, at the advance, at the store of the position at the
  end, returned, or failed.
\<close>

datatype reader_pc = Enter | Loop | Early | LoadHeader bytes | Check MsgHeader | LoadData MsgHeader bytes
  | Late MsgHeader bytes | Advance MsgHeader | Publish | Done read_result | Crashed failure

text \<open>
  The shared memory, the accesses the writer has still to make and the message it is writing,
  the reader with its own position and the messages it has confirmed, and the log of the
  messages whose write is complete.
\<close>

record 'm ring_race =
  x_rb :: "'m ByteRingBuffer"
  x_ri :: "'m ReaderInfo"
  x_ops :: "mem_op list"
  x_msg :: bytes
  x_pc :: reader_pc
  x_pos :: position
  x_got :: "bytes list"
  x_log :: "bytes list"

definition load_byte :: "nat \<Rightarrow> (u8 \<Rightarrow> reader_pc) \<Rightarrow> 'm ring_race \<Rightarrow> 'm ring_race" where
  "load_byte i next x =
     x\<lparr>x_pc := (if i < length (rb_data (x_rb x)) then next (rb_data (x_rb x) ! i) else Crashed OutOfBounds)\<rparr>"

text \<open>The position the reader shows to writers is that of its slot \<open>k\<close>.\<close>

definition show_position :: "nat \<Rightarrow> position \<Rightarrow> 'm ring_race \<Rightarrow> 'm ring_race" where
  "show_position k pos x =
     x\<lparr>x_ri := (x_ri x)\<lparr>ri_slots := (ri_slots (x_ri x))[k := set_position pos (ri_slots (x_ri x) ! k)]\<rparr>\<rparr>"

definition access_step :: "Reader \<Rightarrow> nat \<Rightarrow> 'm ring_race \<Rightarrow> 'm ring_race" where
  "access_step r k x =
     (let rb = x_rb x; B = configBufSizeBytes rb; free = freePos rb; pos = x_pos x;
          bufIndex = BufIndex (reader_indexMask r) pos; expired = Expired pos free B
      in case x_pc x of
        Enter \<Rightarrow> x\<lparr>x_pc := (if GreaterThan pos free then Done INVALID_POSITION else Loop)\<rparr>
      | Loop \<Rightarrow>
          if pos = free then x\<lparr>x_pc := Publish\<rparr>
          else if B - bufIndex < sizeof_MsgHeader then x\<lparr>x_pos := pos + (B - bufIndex)\<rparr>
          else x\<lparr>x_pc := Early\<rparr>
      | Early \<Rightarrow> x\<lparr>x_pc := (if expired then Done EXPIRED_POSITION else LoadHeader [])\<rparr>
      | LoadHeader acc \<Rightarrow>
          load_byte (unat bufIndex + length acc)
            (\<lambda>b. if length acc = 4 then Check (hdr_of_bytes (acc @ [b])) else LoadHeader (acc @ [b])) x
      | Check h \<Rightarrow>
          x\<lparr>x_pc := (if \<not> Valid h \<or> expired then Done EXPIRED_POSITION
             else if B < bufIndex + sizeof_MsgHeader + ucast (hdr_length h) then Crashed Assertion
             else if hdr_type h = MSG then LoadData h [] else Advance h)\<rparr>
      | LoadData h acc \<Rightarrow>
          load_byte (unat bufIndex + 5 + length acc)
            (\<lambda>b. if Suc (length acc) = unat (hdr_length h) then Late h (acc @ [b]) else LoadData h (acc @ [b])) x
      | Late h d \<Rightarrow>
          if expired then x\<lparr>x_pc := Done EXPIRED_POSITION\<rparr>
          else x\<lparr>x_got := x_got x @ [d], x_pc := Advance h\<rparr>
      | Advance h \<Rightarrow>
          (let pos' = pos + (sizeof_MsgHeader + ucast (hdr_length h)); x' = x\<lparr>x_pos := pos', x_pc := Loop\<rparr>
           in if info_position (ri_slots (x_ri x) ! k) + drop_bit 1 B \<le> pos' then show_position k pos' x' else x')
      | Publish \<Rightarrow> show_position k pos (x\<lparr>x_pc := Done SUCCESS\<rparr>)
      | Done res \<Rightarrow> x\<lparr>x_pc := Enter\<rparr>
      | Crashed e \<Rightarrow> x)"

text \<open>A loop over single bytes collects a run, or fails where the run leaves the buffer.\<close>

lemma load_bytes:
  fixes x :: "'m ring_race"
  assumes step: "\<And>acc. length acc < n \<Longrightarrow> access_step r k (x\<lparr>x_pc := pc acc\<rparr>) =
      load_byte (i + length acc) (\<lambda>b. if Suc (length acc) = n then fin (acc @ [b]) else pc (acc @ [b])) (x\<lparr>x_pc := pc acc\<rparr>)"
    and "length acc < n"
  shows "(access_step r k ^^ (n - length acc)) (x\<lparr>x_pc := pc acc\<rparr>) =
    x\<lparr>x_pc := (if i + n \<le> length (rb_data (x_rb x))
                then fin (acc @ take (n - length acc) (drop (i + length acc) (rb_data (x_rb x)))) else Crashed OutOfBounds)\<rparr>"
  using assms(2)
proof (induction "n - length acc" arbitrary: acc)
  case 0
  then show ?case by simp
next
  case (Suc d)
  let ?m = "rb_data (x_rb x)" and ?j = "i + length acc"
  have one: "(access_step r k ^^ (n - length acc)) (x\<lparr>x_pc := pc acc\<rparr>) =
      (access_step r k ^^ d) (access_step r k (x\<lparr>x_pc := pc acc\<rparr>))"
    using Suc.hyps(2) by (metis comp_apply funpow_Suc_right)
  have crash: "(access_step r k ^^ d) (x\<lparr>x_pc := Crashed e\<rparr>) = x\<lparr>x_pc := Crashed e\<rparr>" for e
    by (induction d) (simp_all add: access_step_def Let_def)
  show ?case
  proof (cases "?j < length ?m")
    case False
    then show ?thesis using one crash Suc.prems by (simp add: step [OF Suc.prems] load_byte_def)
  next
    case True
    then have split: "acc @ take (n - length acc) (drop ?j ?m) = (acc @ [?m ! ?j]) @ take d (drop (Suc ?j) ?m)"
      by (simp add: Cons_nth_drop_Suc [symmetric] Suc.hyps(2) [symmetric])
    show ?thesis
    proof (cases "Suc (length acc) = n")
      case last: True
      then have "d = 0" using Suc.hyps(2) by simp
      then show ?thesis using last one split True
        by (simp add: step [OF Suc.prems] load_byte_def)
    next
      case more: False
      have "(access_step r k ^^ (n - length (acc @ [?m ! ?j]))) (x\<lparr>x_pc := pc (acc @ [?m ! ?j])\<rparr>) =
          x\<lparr>x_pc := (if i + n \<le> length ?m then fin ((acc @ [?m ! ?j]) @ take (n - length (acc @ [?m ! ?j]))
            (drop (i + length (acc @ [?m ! ?j])) ?m)) else Crashed OutOfBounds)\<rparr>"
        using Suc.hyps Suc.prems more by (intro Suc.hyps(1)) simp_all
      moreover have "n - length (acc @ [?m ! ?j]) = d" using Suc.hyps(2) by simp
      ultimately show ?thesis using one split True more
        by (simp add: step [OF Suc.prems] load_byte_def)
    qed
  qed
qed

lemma load_header_bytes_loop:
  "(access_step r k ^^ 5) (x\<lparr>x_pc := LoadHeader []\<rparr>) =
     x\<lparr>x_pc := (case load_header (unat (BufIndex (reader_indexMask r) (x_pos x))) (rb_data (x_rb x)) of
       Inl e \<Rightarrow> Crashed e | Inr h \<Rightarrow> Check h)\<rparr>"
proof -
  have "access_step r k (x\<lparr>x_pc := LoadHeader acc\<rparr>) = load_byte (unat (BufIndex (reader_indexMask r) (x_pos x)) + length acc)
      (\<lambda>b. if Suc (length acc) = 5 then Check (hdr_of_bytes (acc @ [b])) else LoadHeader (acc @ [b]))
      (x\<lparr>x_pc := LoadHeader acc\<rparr>)" for acc
    by (simp add: access_step_def Let_def cong: if_cong)
  then show ?thesis
    using load_bytes [where n = 5 and pc = LoadHeader and fin = "\<lambda>acc. Check (hdr_of_bytes acc)" and acc = "[]" and x = x]
    by (simp add: load_header_def read_at_def)
qed

lemma load_data_loop:
  assumes "hdr_length h \<noteq> 0"
  shows "(access_step r k ^^ unat (hdr_length h)) (x\<lparr>x_pc := LoadData h []\<rparr>) =
     x\<lparr>x_pc := (case read_at (unat (BufIndex (reader_indexMask r) (x_pos x)) + 5) (unat (hdr_length h)) (rb_data (x_rb x)) of
       Inl e \<Rightarrow> Crashed e | Inr d \<Rightarrow> Late h d)\<rparr>"
proof -
  have "0 < unat (hdr_length h)" using assms by (simp add: unat_gt_0)
  moreover have "access_step r k (x\<lparr>x_pc := LoadData h acc\<rparr>) =
      load_byte (unat (BufIndex (reader_indexMask r) (x_pos x)) + 5 + length acc)
      (\<lambda>b. if Suc (length acc) = unat (hdr_length h) then Late h (acc @ [b]) else LoadData h (acc @ [b]))
      (x\<lparr>x_pc := LoadData h acc\<rparr>)" for acc
    by (simp add: access_step_def Let_def)
  ultimately show ?thesis
    using load_bytes [where n = "unat (hdr_length h)" and pc = "LoadData h" and fin = "Late h" and acc = "[]" and x = x]
    by (auto simp: read_at_def)
qed

text \<open>
  The state of a reader that runs alone, and the state of the sequential definition with the
  default handler.
\<close>

definition mirrors :: "nat \<Rightarrow> 'm ring_race \<Rightarrow> bytes list CopyConfirmHandler read_state \<Rightarrow> bool" where
  "mirrors k x s \<longleftrightarrow> x_pos x = rs_pos s \<and> info_position (ri_slots (x_ri x) ! k) = rs_bpos s
     \<and> x_got x = cch_env (rs_handler s) \<and> k < length (ri_slots (x_ri x))"

lemma show_position_simps [simp]:
  "x_rb (show_position k pos x) = x_rb x" "x_pos (show_position k pos x) = x_pos x"
  "x_got (show_position k pos x) = x_got x" "x_pc (show_position k pos x) = x_pc x"
  "x_ops (show_position k pos x) = x_ops x" "x_log (show_position k pos x) = x_log x"
  "x_msg (show_position k pos x) = x_msg x"
  "length (ri_slots (x_ri (show_position k pos x))) = length (ri_slots (x_ri x))"
  "k < length (ri_slots (x_ri x)) \<Longrightarrow> ri_slots (x_ri (show_position k pos x)) ! k = set_position pos (ri_slots (x_ri x) ! k)"
  by (simp_all add: show_position_def)

lemma advance_step:
  assumes "x_pc x = Advance h" "mirrors k x s"
  shows "x_pc (access_step r k x) = Loop \<and> x_rb (access_step r k x) = x_rb x
    \<and> mirrors k (access_step r k x) (read_advance (drop_bit 1 (configBufSizeBytes (x_rb x))) (hdr_length h) s)"
  using assms by (auto simp: access_step_def Let_def read_advance_def mirrors_def)

definition iter_result :: "nat \<Rightarrow> 'm ring_race \<Rightarrow> bytes list CopyConfirmHandler read_state step_outcome result \<Rightarrow> bool" where
  "iter_result k x out \<longleftrightarrow>
     (case out of
        Inl e \<Rightarrow> x_pc x = Crashed e
      | Inr (Return res s) \<Rightarrow> x_pc x = Done res \<and> mirrors k x s
      | Inr (Continue s) \<Rightarrow> x_pc x = Loop \<and> mirrors k x s)"

lemma funpow_after: "(f ^^ n) x = y \<Longrightarrow> (f ^^ m) y = z \<Longrightarrow> (f ^^ (m + n)) x = z"
  by (simp add: funpow_add)

lemma check_steps:
  assumes x: "x_pc x = Check h" "mirrors k x s" and ld: "load_header (unat (BufIndex (reader_indexMask r) (rs_pos s))) (rb_data (x_rb x)) = Inr h"
    and big: "\<not> configBufSizeBytes (x_rb x) - BufIndex (reader_indexMask r) (rs_pos s) < sizeof_MsgHeader"
    and fresh: "\<not> Expired (rs_pos s) (freePos (x_rb x)) (configBufSizeBytes (x_rb x))"
  shows "\<exists>n. iter_result k ((access_step r k ^^ n) x) (read_iter r (CopyConfirm collect) (x_rb x) s)
    \<and> x_rb ((access_step r k ^^ n) x) = x_rb x"
proof -
  let ?B = "configBufSizeBytes (x_rb x)" and ?bi = "BufIndex (reader_indexMask r) (rs_pos s)"
  have pos: "x_pos x = rs_pos s" using x(2) by (simp add: mirrors_def)
  have one: "access_step r k x = x\<lparr>x_pc := (if \<not> Valid h then Done EXPIRED_POSITION
             else if ?B < ?bi + sizeof_MsgHeader + ucast (hdr_length h) then Crashed Assertion
             else if hdr_type h = MSG then LoadData h [] else Advance h)\<rparr>"
    using fresh by (simp add: access_step_def x(1) Let_def pos)
  consider (bad) "\<not> Valid h" | (assert) "Valid h" "?B < ?bi + sizeof_MsgHeader + ucast (hdr_length h)"
    | (pad) "Valid h" "\<not> ?B < ?bi + sizeof_MsgHeader + ucast (hdr_length h)" "hdr_type h \<noteq> MSG"
    | (msg) "Valid h" "\<not> ?B < ?bi + sizeof_MsgHeader + ucast (hdr_length h)" "hdr_type h = MSG"
    by blast
  then show ?thesis
  proof cases
    case bad
    then show ?thesis using one ld big fresh x(2)
      by (intro exI [of _ 1]) (simp add: read_iter_def Let_def iter_result_def mirrors_def)
  next
    case assert
    then show ?thesis using one ld big fresh
      by (intro exI [of _ 1]) (simp add: read_iter_def Let_def iter_result_def)
  next
    case pad
    then have "x_pc (access_step r k x) = Advance h" "mirrors k (access_step r k x) s" "x_rb (access_step r k x) = x_rb x"
      using one x(2) by (simp_all add: mirrors_def)
    from advance_step [OF this(1,2), of r] this(3) show ?thesis
      using pad ld big fresh
      by (intro exI [of _ 2]) (simp add: read_iter_def Let_def iter_result_def numeral_2_eq_2)
  next
    case msg
    let ?len = "unat (hdr_length h)"
    have nz: "hdr_length h \<noteq> 0" using msg(1) by (simp add: Valid_def)
    have run: "(access_step r k ^^ (?len + 1)) x =
        x\<lparr>x_pc := (case read_at (unat ?bi + 5) ?len (rb_data (x_rb x)) of Inl e \<Rightarrow> Crashed e | Inr d \<Rightarrow> Late h d)\<rparr>"
      using load_data_loop [OF nz, of r k x] one msg by (intro funpow_after [where n = 1]) (simp_all add: pos)
    show ?thesis
    proof (cases "read_at (unat ?bi + 5) ?len (rb_data (x_rb x))")
      case (Inl e)
      then show ?thesis using run ld big fresh msg
        by (intro exI [of _ "?len + 1"]) (simp add: read_iter_def Let_def iter_result_def)
    next
      case (Inr d)
      let ?x1 = "x\<lparr>x_pc := Late h d\<rparr>" and ?s1 = "s\<lparr>rs_handler := cch_Confirm collect (snd (cch_Copy d (rs_handler s)))\<rparr>"
      let ?x2 = "x\<lparr>x_got := x_got x @ [d], x_pc := Advance h\<rparr>"
      have late: "access_step r k ?x1 = ?x2" using fresh by (simp add: access_step_def Let_def pos)
      have m2: "mirrors k ?x2 ?s1" using x(2) by (simp add: mirrors_def cch_Copy_def cch_Confirm_def collect_def)
      have "(access_step r k ^^ (2 + (?len + 1))) x = access_step r k ?x2"
        using run Inr late by (intro funpow_after [OF run]) (simp add: numeral_2_eq_2)
      then show ?thesis
        using advance_step [of ?x2 h k ?s1 r] m2 ld big fresh msg Inr
        by (intro exI [of _ "2 + (?len + 1)"])
          (simp add: read_iter_def Let_def iter_result_def read_message_def CopyConfirm_def cch_Copy_def split: prod.splits)
    qed
  qed
qed

lemma loop_steps:
  assumes x: "x_pc x = Loop" "mirrors k x s" "x_pos x \<noteq> freePos (x_rb x)"
  shows "\<exists>n. iter_result k ((access_step r k ^^ n) x) (read_iter r (CopyConfirm collect) (x_rb x) s)
    \<and> x_rb ((access_step r k ^^ n) x) = x_rb x"
proof -
  let ?B = "configBufSizeBytes (x_rb x)" and ?bi = "BufIndex (reader_indexMask r) (rs_pos s)"
  have pos: "x_pos x = rs_pos s" using x(2) by (simp add: mirrors_def)
  show ?thesis
  proof (cases "?B - ?bi < sizeof_MsgHeader")
    case True
    then show ?thesis using x pos
      by (intro exI [of _ 1]) (simp add: access_step_def read_iter_def Let_def iter_result_def mirrors_def)
  next
    case big: False
    have early: "(access_step r k ^^ 1) x = x\<lparr>x_pc := Early\<rparr>"
      using x big by (simp add: access_step_def Let_def pos)
    show ?thesis
    proof (cases "Expired (rs_pos s) (freePos (x_rb x)) ?B")
      case True
      have "(access_step r k ^^ (1 + 1)) x = x\<lparr>x_pc := Done EXPIRED_POSITION\<rparr>"
        using True by (intro funpow_after [OF early]) (simp add: access_step_def Let_def pos)
      then show ?thesis using x(2) True big
        by (intro exI [of _ "1 + 1"]) (simp add: read_iter_def Let_def iter_result_def mirrors_def)
    next
      case fresh: False
      have two: "(access_step r k ^^ (1 + 1)) x = x\<lparr>x_pc := LoadHeader []\<rparr>"
        using fresh by (intro funpow_after [OF early]) (simp add: access_step_def Let_def pos)
      have hdr: "(access_step r k ^^ (5 + (1 + 1))) x =
          x\<lparr>x_pc := (case load_header (unat ?bi) (rb_data (x_rb x)) of Inl e \<Rightarrow> Crashed e | Inr h \<Rightarrow> Check h)\<rparr>"
        using load_header_bytes_loop [of r k x] by (intro funpow_after [OF two]) (simp add: pos)
      show ?thesis
      proof (cases "load_header (unat ?bi) (rb_data (x_rb x))")
        case (Inl e)
        then show ?thesis using hdr big fresh
          by (intro exI [of _ "5 + (1 + 1)"]) (simp add: read_iter_def Let_def iter_result_def)
      next
        case (Inr h)
        let ?x = "x\<lparr>x_pc := Check h\<rparr>"
        have "mirrors k ?x s" using x(2) by (simp add: mirrors_def)
        then obtain n where "iter_result k ((access_step r k ^^ n) ?x) (read_iter r (CopyConfirm collect) (x_rb x) s)"
            "x_rb ((access_step r k ^^ n) ?x) = x_rb x"
          using check_steps [of ?x h k s r] Inr big fresh by auto
        then show ?thesis using funpow_after [OF hdr refl, of n] Inr by (intro exI [of _ "n + (5 + (1 + 1))"]) simp
      qed
    qed
  qed
qed

definition read_result_of :: "nat \<Rightarrow> 'm ring_race \<Rightarrow> (read_result \<times> bytes list CopyConfirmHandler read_state) result \<Rightarrow> bool" where
  "read_result_of k x out \<longleftrightarrow>
     (case out of Inl e \<Rightarrow> x_pc x = Crashed e | Inr (res, s) \<Rightarrow> x_pc x = Done res \<and> mirrors k x s)"

definition traced :: "nat \<Rightarrow> Reader \<Rightarrow> bytes list CopyConfirmHandler copy_confirm \<Rightarrow> 'm ByteRingBuffer
    \<Rightarrow> bytes list CopyConfirmHandler read_state \<Rightarrow> (read_result \<times> bytes list CopyConfirmHandler read_state) result \<Rightarrow> bool" where
  "traced k r cc rb s out \<longleftrightarrow>
     (\<forall>x. cc = CopyConfirm collect \<longrightarrow> x_pc x = Loop \<longrightarrow> mirrors k x s \<longrightarrow> x_rb x = rb \<longrightarrow>
       (\<exists>n. read_result_of k ((access_step r k ^^ n) x) out \<and> x_rb ((access_step r k ^^ n) x) = rb))"

lemma tracedD:
  assumes "traced k r (CopyConfirm collect) (x_rb x) s out" "x_pc x = Loop" "mirrors k x s"
  shows "\<exists>n. read_result_of k ((access_step r k ^^ n) x) out \<and> x_rb ((access_step r k ^^ n) x) = x_rb x"
  using assms by (simp add: traced_def)

lemma ReadLoop_traced:
  fixes rb :: "'m ByteRingBuffer"
  assumes "ReadLoop r cc rb s = Some out"
  shows "traced k r cc rb s out"
proof (rule ReadLoop.raw_induct [OF _ assms, where P = "\<lambda>r' cc' rb' s' y. traced k r' cc' rb' s' y"])
  fix rl r cc s y and rb :: "'m ByteRingBuffer"
  assume IH: "\<And>r cc rb s y. rl r cc rb s = Some y \<Longrightarrow> traced k r cc rb s y"
    and y: "(if rs_pos s = freePos rb then Some (Inr (SUCCESS, s\<lparr>rs_bpos := rs_pos s\<rparr>))
      else (case read_iter r cc rb s of
              Inl e \<Rightarrow> Some (Inl e)
            | Inr (Return res s') \<Rightarrow> Some (Inr (res, s'))
            | Inr (Continue s') \<Rightarrow> rl r cc rb s')) = Some y"
  show "traced k r cc rb s y"
    unfolding traced_def
  proof (intro allI impI)
    fix x :: "'m ring_race"
    assume x: "cc = CopyConfirm collect" "x_pc x = Loop" "mirrors k x s" "x_rb x = rb"
    show "\<exists>n. read_result_of k ((access_step r k ^^ n) x) y \<and> x_rb ((access_step r k ^^ n) x) = rb"
    proof (cases "rs_pos s = freePos rb")
      case True
      then have y': "y = Inr (SUCCESS, s\<lparr>rs_bpos := rs_pos s\<rparr>)" using y by simp
      have "(access_step r k ^^ 2) x = show_position k (x_pos x) (x\<lparr>x_pc := Done SUCCESS\<rparr>)"
        using x True by (simp add: numeral_2_eq_2 access_step_def Let_def mirrors_def)
      then show ?thesis using x y' by (intro exI [of _ 2]) (simp add: read_result_of_def mirrors_def)
    next
      case False
      then obtain n where n: "iter_result k ((access_step r k ^^ n) x) (read_iter r cc rb s)"
          "x_rb ((access_step r k ^^ n) x) = rb"
        using loop_steps [of x k s r] x by (auto simp: mirrors_def)
      show ?thesis
      proof (cases "\<exists>s'. read_iter r cc rb s = Inr (Continue s')")
        case True
        then obtain s' where s': "read_iter r cc rb s = Inr (Continue s')" by blast
        then have "traced k r cc rb s' y" using y False by (intro IH) simp
        then obtain m where "read_result_of k ((access_step r k ^^ m) ((access_step r k ^^ n) x)) y"
            "x_rb ((access_step r k ^^ m) ((access_step r k ^^ n) x)) = rb"
          using x(1) n s' by (auto simp: traced_def iter_result_def)
        then show ?thesis by (intro exI [of _ "m + n"]) (simp add: funpow_add)
      next
        case stop: False
        then show ?thesis using n y False
          by (intro exI [of _ n]) (auto simp: iter_result_def read_result_of_def split: sum.splits step_outcome.splits)
      qed
    qed
  qed
qed

text \<open>
  C18: The reader's accesses are the read. A reader that runs alone, one memory access at a
  time, ends where the sequential ReadEx with the default handler ends: the same result or
  failure, the same positions in the process and in the slot, and the same messages confirmed.
\<close>

theorem reader_steps_exact:
  assumes "ReadEx r (CopyConfirm collect) (x_rb x) s = Some out" "x_pc x = Enter" "mirrors k x s"
  shows "\<exists>n. let x' = (access_step r k ^^ n) x in x_rb x' = x_rb x \<and>
    (case out of
       Inl e \<Rightarrow> x_pc x' = Crashed e
     | Inr (res, s') \<Rightarrow> x_pc x' = Done res \<and> x_pos x' = rs_pos s' \<and> info_position (ri_slots (x_ri x') ! k) = rs_bpos s'
         \<and> x_got x' = cch_env (rs_handler s'))"
proof (cases "GreaterThan (rs_pos s) (freePos (x_rb x))")
  case True
  then show ?thesis using assms
    by (intro exI [of _ 1]) (auto simp: ReadEx_def access_step_def Let_def mirrors_def)
next
  case False
  let ?x1 = "x\<lparr>x_pc := Loop\<rparr>"
  have one: "(access_step r k ^^ 1) x = ?x1"
    using assms(2,3) False by (simp add: access_step_def Let_def mirrors_def)
  have "ReadLoop r (CopyConfirm collect) (x_rb x) s = Some out" "mirrors k ?x1 s"
    using assms(1,3) False by (simp_all add: ReadEx_def mirrors_def)
  then obtain n where "read_result_of k ((access_step r k ^^ n) ?x1) out" "x_rb ((access_step r k ^^ n) ?x1) = x_rb x"
    using tracedD [of k r ?x1 s out] ReadLoop_traced [of r _ "x_rb x" s out k] by auto
  then show ?thesis
    using funpow_after [OF one refl, of n]
    by (intro exI [of _ "n + 1"]) (auto simp: read_result_of_def mirrors_def split: sum.splits)
qed

definition alone :: "'m ByteRingBuffer \<Rightarrow> 'm ReaderInfo \<Rightarrow> position \<Rightarrow> 'm ring_race" where
  "alone rb ri pos =
     \<lparr> x_rb = rb, x_ri = ri, x_ops = [], x_msg = [], x_pc = Enter, x_pos = pos, x_got = [], x_log = [] \<rparr>"

theorem reader_steps_exact_witness:
  "\<exists>n. let x' = (access_step reader_32 1 ^^ n) (alone two_messages one_behind 0) in
     x_pc x' = Done SUCCESS \<and> x_pos x' = 13 \<and> x_got x' = [[7, 8], [9]]"
proof -
  let ?s = "\<lparr> rs_pos = 0, rs_bpos = 7, rs_handler = \<lparr> cch_data = [], cch_env = [] \<rparr> \<rparr>"
  let ?h = "deliver (CopyConfirm collect) [[7, 8], [9]] \<lparr> cch_data = [], cch_env = [] \<rparr>"
  have "freePos two_messages = 13" by (simp add: two_messages_def)
  then have h: "ReadEx reader_32 (CopyConfirm collect) two_messages ?s
      = Some (Inr (SUCCESS, \<lparr> rs_pos = 13, rs_bpos = 13, rs_handler = ?h \<rparr>))" "cch_env ?h = [[7, 8], [9]]"
    using ReadEx_pending [OF two_messages_ok, of ?s "[Msg [7, 8], Msg [9]]" "CopyConfirm collect"] two_messages_pending
    by (simp_all add: deliver_collect del: deliver.simps)
  have "mirrors 1 (alone two_messages one_behind 0) ?s"
    by (simp add: mirrors_def alone_def one_behind_def)
  from reader_steps_exact [OF _ _ this, of reader_32] h show ?thesis by (auto simp: alone_def Let_def)
qed

end
