(* ===== verification/ConcurrentRing.thy ===== *)
theory ConcurrentRing
  imports RingAccesses
begin

text \<open>
  The interleavings of one writer and one reader, each a sequence of memory accesses as
  RingAccesses has them. A run is a list of turns. The invariant of the runs in which the
  writer honours backpressure ties the ring, the write in flight and the program counter of
  the reader to the list of segments between the reader and the end of the stream.
\<close>

section \<open>Turns\<close>

text \<open>
  The writer begins a write, after the check for backpressure or without it; a begun write is
  one turn per access. The log grows when the last access of a message is made, which is the
  addition that moves the end of the stream past it.
\<close>

datatype turn = Begin u32 bytes | Force u32 bytes | WriterTurn | ReaderTurn

definition begin_write :: "Writer \<Rightarrow> bool \<Rightarrow> u32 \<Rightarrow> bytes \<Rightarrow> 'm ring_race \<Rightarrow> 'm ring_race" where
  "begin_write w readerBP n d x =
     (let rb = x_rb x; p = Write_plan (writer_indexMask w) (configBufSizeBytes rb) (freePos rb) n
      in if x_ops x \<noteq> [] \<or> unat n \<noteq> length d \<or> GetMaxMessageSize rb < ucast n then x
         else case (if readerBP then DetectReaderBackpressure (plan_bytesToWrite p) EMPTY_POSITION rb (x_ri x)
                    else Inr None) of
                Inr None \<Rightarrow> x\<lparr>x_ops := Write_ops p d n, x_msg := d\<rparr>
              | _ \<Rightarrow> x)"

definition writer_step :: "'m ring_race \<Rightarrow> 'm ring_race" where
  "writer_step x =
     (case x_ops x of
        [] \<Rightarrow> x
      | oper # ops \<Rightarrow>
          (case exec_op oper (x_rb x) of
             Inl e \<Rightarrow> x
           | Inr rb \<Rightarrow> x\<lparr>x_rb := rb, x_ops := ops, x_log := (if ops = [] then x_log x @ [x_msg x] else x_log x)\<rparr>))"

fun take_turn :: "Writer \<Rightarrow> Reader \<Rightarrow> nat \<Rightarrow> turn \<Rightarrow> 'm ring_race \<Rightarrow> 'm ring_race" where
  "take_turn w r k (Begin n d) x = begin_write w True n d x"
| "take_turn w r k (Force n d) x = begin_write w False n d x"
| "take_turn w r k WriterTurn x = writer_step x"
| "take_turn w r k ReaderTurn x = access_step r k x"

fun take_turns :: "Writer \<Rightarrow> Reader \<Rightarrow> nat \<Rightarrow> turn list \<Rightarrow> 'm ring_race \<Rightarrow> 'm ring_race" where
  "take_turns w r k [] x = x"
| "take_turns w r k (t # ts) x = take_turns w r k ts (take_turn w r k t x)"

fun honours :: "turn \<Rightarrow> bool" where
  "honours (Force n d) = False"
| "honours t = True"

section \<open>The write in flight\<close>

text \<open>
  \<open>producing B m f ops segs\<close>: from a ring with data \<open>m\<close> and end \<open>f\<close> the accesses \<open>ops\<close> add
  exactly the segments \<open>segs\<close>. Every store goes to the bytes of the segment at the end of the
  stream, every move is over a segment that is complete, and only the last segment has a message.
\<close>

fun producing :: "u64 \<Rightarrow> bytes \<Rightarrow> position \<Rightarrow> mem_op list \<Rightarrow> segment list \<Rightarrow> bool" where
  "producing B m f [] segs \<longleftrightarrow> segs = []"
| "producing B m f (PutByte i b # ops) segs \<longleftrightarrow>
     index_of B f \<le> i \<and> i < index_of B f + seg_len (hd segs) \<and> i < unat B \<and> segs \<noteq> [] \<and> ops \<noteq> [] \<and>
     producing B (m[i := b]) f ops segs"
| "producing B m f (MoveEnd n # ops) segs \<longleftrightarrow>
     segs \<noteq> [] \<and> n = of_nat (seg_len (hd segs)) \<and> stored B m f (hd segs) \<and>
     (ops = [] \<or> seg_msgs (hd segs) = []) \<and> producing B m (f + n) ops (tl segs)"

lemma producing_put_bytes:
  assumes "length m = unat B" "o1 + length bs \<le> seg_len g" "index_of B f + o1 + length bs \<le> unat B" "ops \<noteq> []"
    and "producing B (patch (index_of B f + o1) bs m) f ops (g # gs)"
  shows "producing B m f (put_bytes (index_of B f + o1) bs @ ops) (g # gs)"
  using assms
proof (induction bs arbitrary: m o1)
  case (Cons b bs)
  have "producing B (m[index_of B f + o1 := b]) f (put_bytes (index_of B f + Suc o1) bs @ ops) (g # gs)"
    using Cons.prems patch_Cons [of "index_of B f + o1" m bs b] by (intro Cons.IH) simp_all
  then show ?case using Cons.prems by auto
qed simp

lemma producing_msg:
  assumes good: "good_size B" and len: "length m = unat B" and n: "unat n = length d"
    and i: "index_of B f + 5 + length d \<le> unat B"
  shows "producing B m f (msg_ops (index_of B f) d n) [Msg d]"
proof -
  let ?i = "index_of B f"
  let ?h = "hdr_bytes \<lparr> hdr_type = MSG, hdr_length = n \<rparr>"
  have nd: "n = of_nat (length d)" by (simp flip: n)
  let ?m1 = "patch ?i ?h m"
  have k: "(sizeof_MsgHeader + ucast n :: u64) = of_nat (seg_len (Msg d))"
    by (simp add: sizeof_MsgHeader_def flip: n)
  have l1: "length ?m1 = unat B" using i len by simp
  have "producing B (patch (?i + 5) d ?m1) f [MoveEnd (sizeof_MsgHeader + ucast n)] [Msg d]"
    using stored_msg [OF i len] k nd by simp
  then have step: "producing B ?m1 f (put_bytes (?i + 5) d @ [MoveEnd (sizeof_MsgHeader + ucast n)]) [Msg d]"
    using i l1 by (intro producing_put_bytes) simp_all
  have "producing B m f (put_bytes (?i + 0) ?h @ put_bytes (?i + 5) d @ [MoveEnd (sizeof_MsgHeader + ucast n)]) [Msg d]"
    by (rule producing_put_bytes) (use i len step in simp_all)
  then show ?thesis using n by (simp add: msg_ops_def)
qed

lemma producing_nonempty: "producing B m f ops (g # gs) \<Longrightarrow> ops \<noteq> []"
  by (cases ops) auto

lemma producing_Write_ops:
  assumes good: "good_size B" and len: "length m = unat B" and n: "unat n = length d" "unat n + 5 \<le> unat B"
  shows "producing B m f (Write_ops (Write_plan (B - 1) B f n) d n) (write_segments B f d)"
proof -
  let ?rest = "unat B - index_of B f"
  obtain bi L T where plan: "Write_plan (B - 1) B f n =
      \<lparr> plan_bufIndex = bi, plan_lengthToBufEnd = L, plan_bytesToWrite = T,
        plan_addPadding = (5 \<le> ?rest \<and> ?rest < 5 + unat n), plan_addBlank = (?rest < 5) \<rparr>"
      and bi: "unat bi = index_of B f" and L: "unat L = ?rest"
    using Write_plan_eq [OF good n(2), of f] by auto
  have Lnat: "L = of_nat ?rest" by (simp flip: L)
  have idx: "index_of B f < unat B" by (rule index_of_less [OF good])
  have wrap: "index_of B (f + of_nat ?rest) = 0" by (rule index_of_wrap [OF good])
  have msg0: "producing B m' (f + of_nat ?rest) (msg_ops 0 d n) [Msg d]" if "length m' = unat B" for m'
    using producing_msg [OF good that n(1), of "f + of_nat ?rest"] n by (simp add: wrap)
  have nil: "msg_ops 0 d n \<noteq> []" by (simp add: msg_ops_def)
  consider (blank) "?rest < 5" | (pad) "5 \<le> ?rest" "?rest < 5 + unat n" | (none) "5 + unat n \<le> ?rest"
    by linarith
  then show ?thesis
  proof cases
    case blank
    then have "Write_ops (Write_plan (B - 1) B f n) d n = MoveEnd L # msg_ops 0 d n"
      by (simp add: Write_ops_def pad_ops_def plan)
    moreover have "write_segments B f d = [Blank ?rest, Msg d]"
      using blank by (simp add: write_segments_def filler_def)
    ultimately show ?thesis using msg0 [OF len] Lnat blank idx by simp
  next
    case pad
    let ?h = "hdr_bytes \<lparr> hdr_type = PADDING, hdr_length = of_nat (?rest - 5) \<rparr>"
    let ?m = "patch (index_of B f) ?h m"
    have L32: "?rest \<le> 2 ^ 32" using good_size_bounds(2) [OF good] by simp
    have "(ucast (L - sizeof_MsgHeader) :: u32) = of_nat (?rest - 5)"
      using ucast_sub_header [of L] pad L32 by (simp only: L)
    then have ops: "Write_ops (Write_plan (B - 1) B f n) d n =
        put_bytes (index_of B f + 0) ?h @ MoveEnd L # msg_ops 0 d n"
      using pad by (simp add: Write_ops_def pad_ops_def plan bi)
    have segs: "write_segments B f d = [Pad (?rest - 5), Msg d]"
      using pad n by (simp add: write_segments_def filler_def)
    have len': "length ?m = unat B" using pad idx len by simp
    have st: "stored B ?m f (Pad (?rest - 5))" using pad idx len by (intro stored_pad) simp_all
    have step: "producing B ?m f (MoveEnd L # msg_ops 0 d n) [Pad (?rest - 5), Msg d]"
      using msg0 [OF len'] Lnat pad st by (simp del: stored.simps of_nat_diff)
    show ?thesis
      unfolding ops segs
    proof (rule producing_put_bytes)
      show "producing B (patch (index_of B f + 0) ?h m) f (MoveEnd L # msg_ops 0 d n) [Pad (?rest - 5), Msg d]"
        using step by (simp only: add_0_right)
    qed (use pad idx len in simp_all)
  next
    case none
    then have "Write_ops (Write_plan (B - 1) B f n) d n = msg_ops (index_of B f) d n"
      using n by (simp add: Write_ops_def pad_ops_def plan bi)
    moreover have "write_segments B f d = [Msg d]" using none n by (simp add: write_segments_def filler_def)
    ultimately show ?thesis using producing_msg [OF good len n(1)] none n idx by simp
  qed
qed

section \<open>The invariant\<close>

text \<open>The header a segment has on the ring; a blank run has none.\<close>

fun headed :: "segment \<Rightarrow> MsgHeader \<Rightarrow> bool" where
  "headed (Blank n) h \<longleftrightarrow> False"
| "headed (Pad n) h \<longleftrightarrow> h = \<lparr> hdr_type = PADDING, hdr_length = of_nat n \<rparr>"
| "headed (Msg d) h \<longleftrightarrow> h = \<lparr> hdr_type = MSG, hdr_length = of_nat (length d) \<rparr>"

text \<open>
  What the reader holds at each point of its loop, when \<open>sent\<close> are the messages in front of its
  position and \<open>ss\<close> the segments from there to the end of the stream.
\<close>

fun holds :: "reader_pc \<Rightarrow> bytes list \<Rightarrow> bytes list \<Rightarrow> segment list \<Rightarrow> bool" where
  "holds Enter got sent ss \<longleftrightarrow> got = sent"
| "holds Loop got sent ss \<longleftrightarrow> got = sent"
| "holds Early got sent ss \<longleftrightarrow> got = sent \<and> ss \<noteq> [] \<and> (\<exists>h. headed (hd ss) h)"
| "holds (LoadHeader acc) got sent ss \<longleftrightarrow>
     got = sent \<and> ss \<noteq> [] \<and> length acc < 5 \<and> (\<exists>h. headed (hd ss) h \<and> acc = take (length acc) (hdr_bytes h))"
| "holds (Check h) got sent ss \<longleftrightarrow> got = sent \<and> ss \<noteq> [] \<and> headed (hd ss) h"
| "holds (LoadData h acc) got sent ss \<longleftrightarrow>
     got = sent \<and> ss \<noteq> [] \<and> headed (hd ss) h \<and>
     (\<exists>d. hd ss = Msg d \<and> length acc < length d \<and> acc = take (length acc) d)"
| "holds (Late h d) got sent ss \<longleftrightarrow> got = sent \<and> ss \<noteq> [] \<and> headed (hd ss) h \<and> hd ss = Msg d"
| "holds (Advance h) got sent ss \<longleftrightarrow> ss \<noteq> [] \<and> headed (hd ss) h \<and> got = sent @ seg_msgs (hd ss)"
| "holds Publish got sent ss \<longleftrightarrow> got = sent"
| "holds (Done res) got sent ss \<longleftrightarrow> got = sent \<and> res \<noteq> INVALID_POSITION
     \<and> (res = EXPIRED_POSITION \<longrightarrow> ss \<noteq> [] \<and> (\<exists>h. headed (hd ss) h) \<and> \<not> seg_valid (hd ss))"
| "holds (Crashed e) got sent ss \<longleftrightarrow> False"

definition ring_race_ok ::
    "Writer \<Rightarrow> Reader \<Rightarrow> nat \<Rightarrow> bytes list \<Rightarrow> nat \<Rightarrow> segment list \<Rightarrow> segment list \<Rightarrow> 'm ring_race \<Rightarrow> bool" where
  "ring_race_ok w r k sent lag ss segs x \<longleftrightarrow>
     writer_ok w (x_rb x) \<and> reader_ok r (x_rb x) \<and> ri_inv (x_ri x) \<and> active_at (x_ri x) k \<and>
     on_ring (configBufSizeBytes (x_rb x)) (rb_data (x_rb x)) (x_pos x) ss \<and>
     x_pos x + of_nat (total ss) = freePos (x_rb x) \<and>
     producing (configBufSizeBytes (x_rb x)) (rb_data (x_rb x)) (freePos (x_rb x)) (x_ops x) segs \<and>
     info_position (ri_slots (x_ri x) ! k) + of_nat lag = x_pos x \<and>
     lag + total ss + total segs < unat (configBufSizeBytes (x_rb x)) \<and>
     sent @ messages ss = x_log x \<and> messages segs = (if x_ops x = [] then [] else [x_msg x]) \<and>
     holds (x_pc x) (x_got x) sent ss"

definition ring_race_inv :: "Writer \<Rightarrow> Reader \<Rightarrow> nat \<Rightarrow> 'm ring_race \<Rightarrow> bool" where
  "ring_race_inv w r k x \<longleftrightarrow> (\<exists>sent lag ss segs. ring_race_ok w r k sent lag ss segs x)"

lemma ring_race_invI: "ring_race_ok w r k sent lag ss segs x \<Longrightarrow> ring_race_inv w r k x"
  by (auto simp: ring_race_inv_def)

lemma holds_append: "holds pc got sent ss \<Longrightarrow> holds pc got sent (ss @ ts)"
  by (cases pc) auto

lemma ring_race_ok_good: "ring_race_ok w r k sent lag ss segs x \<Longrightarrow> good_size (configBufSizeBytes (x_rb x))"
  by (simp add: ring_race_ok_def writer_ok_def rb_ok_def)

lemma ring_race_okD:
  assumes "ring_race_ok w r k sent lag ss segs x"
  shows "writer_ok w (x_rb x)" "reader_ok r (x_rb x)" "rb_ok (x_rb x)" "ri_inv (x_ri x)" "active_at (x_ri x) k"
    and "on_ring (configBufSizeBytes (x_rb x)) (rb_data (x_rb x)) (x_pos x) ss"
    and "x_pos x + of_nat (total ss) = freePos (x_rb x)"
    and "info_position (ri_slots (x_ri x) ! k) + of_nat lag = x_pos x"
    and "lag + total ss + total segs < unat (configBufSizeBytes (x_rb x))"
    and "length (rb_data (x_rb x)) = unat (configBufSizeBytes (x_rb x))"
    and "holds (x_pc x) (x_got x) sent ss"
  using assms by (simp_all add: ring_race_ok_def writer_ok_def rb_ok_def)

lemma ring_race_ok_fresh:
  assumes "ring_race_ok w r k sent lag ss segs x"
  shows "dist (x_pos x) (freePos (x_rb x)) = total ss"
    and "\<not> Expired (x_pos x) (freePos (x_rb x)) (configBufSizeBytes (x_rb x))"
    and "\<not> GreaterThan (x_pos x) (freePos (x_rb x))"
    and "(x_pos x = freePos (x_rb x)) = (ss = [])"
proof -
  let ?B = "configBufSizeBytes (x_rb x)"
  have B: "total ss < unat ?B" and ok: "rb_ok (x_rb x)"
    using assms by (auto simp: ring_race_ok_def writer_ok_def)
  note S = good_size_bounds [OF ring_race_ok_good [OF assms]]
  show d: "dist (x_pos x) (freePos (x_rb x)) = total ss"
    using assms B S(2) dist_of_nat [of "total ss" "x_pos x"] by (simp add: ring_race_ok_def)
  show "\<not> Expired (x_pos x) (freePos (x_rb x)) ?B"
    using B by (intro not_expired [OF ok]) (simp add: d)
  show "\<not> GreaterThan (x_pos x) (freePos (x_rb x))"
    using B S(3) by (intro not_GreaterThan_dist) (simp add: d)
  have "ss \<noteq> [] \<Longrightarrow> 0 < total ss"
    using assms by (cases ss) (auto simp: ring_race_ok_def dest: stored_seg_len_pos)
  moreover have "(x_pos x = freePos (x_rb x)) = (total ss = 0)"
    unfolding d [symmetric] by simp
  ultimately show "(x_pos x = freePos (x_rb x)) = (ss = [])" by (cases ss) auto
qed

section \<open>The writer keeps the invariant\<close>

lemma begin_write_inv:
  assumes inv: "ring_race_inv w r k x"
  shows "ring_race_inv w r k (begin_write w True n d x)"
proof -
  let ?rb = "x_rb x" and ?B = "configBufSizeBytes (x_rb x)" and ?f = "freePos (x_rb x)"
  let ?p = "Write_plan (writer_indexMask w) ?B ?f n" and ?i = "ri_slots (x_ri x) ! k"
  obtain sent lag ss segs where ok: "ring_race_ok w r k sent lag ss segs x" using inv by (auto simp: ring_race_inv_def)
  note good = ring_race_ok_good [OF ok]
  show ?thesis
  proof (cases "x_ops x = [] \<and> unat n = length d \<and> \<not> GetMaxMessageSize ?rb < ucast n
      \<and> DetectReaderBackpressure (plan_bytesToWrite ?p) EMPTY_POSITION ?rb (x_ri x) = Inr None")
    case False
    then have "begin_write w True n d x = x"
      by (auto simp: begin_write_def Let_def split: sum.splits option.splits)
    with inv show ?thesis by simp
  next
    case True
    then have start: "begin_write w True n d x = x\<lparr>x_ops := Write_ops ?p d n, x_msg := d\<rparr>" "x_ops x = []"
        "unat n = length d" "\<not> GetMaxMessageSize ?rb < ucast n"
        "DetectReaderBackpressure (plan_bytesToWrite ?p) EMPTY_POSITION ?rb (x_ri x) = Inr None"
      by (auto simp: begin_write_def Let_def)
    have rb: "rb_ok ?rb" and mask: "writer_indexMask w = ?B - 1" and len: "length (rb_data ?rb) = unat ?B"
      using ok by (auto simp: ring_race_ok_def writer_ok_def rb_ok_def)
    have n5: "unat n + 5 \<le> unat ?B"
      using start(4) good_size_bounds(1) [OF good] by (simp add: word_less_nat_alt unat_GetMaxMessageSize [OF rb])
    have T: "unat (plan_bytesToWrite ?p) = total (filler ?B ?f (unat n)) + 5 + unat n"
      using Write_plan_eq [OF good n5, of ?f] by (auto simp: mask)
    have pr: "producing ?B (rb_data ?rb) ?f (Write_ops ?p d n) (write_segments ?B ?f d)"
      using producing_Write_ops [OF good len start(3) n5] by (simp add: mask)
    have segs: "segs = []" and lt: "lag + total ss < unat ?B" using ok start(2) by (auto simp: ring_race_ok_def)
    have "?f = info_position ?i + of_nat (lag + total ss)"
      using ring_race_okD(7,8) [OF ok] by (simp flip: add.assoc)
    then have d: "dist (info_position ?i) ?f = lag + total ss"
      using lt good_size_bounds(2) [OF good] dist_of_nat [of "lag + total ss" "info_position ?i"] by simp
    have "active_at (x_ri x) k" "ri_inv (x_ri x)" using ok by (auto simp: ring_race_ok_def)
    then have "bp_check ?B ?f (plan_bytesToWrite ?p) None ?i = None" "slot_active ?i"
      using start(5) Detect_None_iff [of "x_ri x" "plan_bytesToWrite ?p" None ?rb]
      by (auto simp: EMPTY_POSITION_def active_at_def)
    moreover have "dist (info_position ?i) ?f + unat (plan_bytesToWrite ?p) < 2 ^ 63"
      using d lt T n5 good_size_bounds(2) [OF good] total_filler_le [of ?B ?f "unat n"] by simp
    ultimately have "lag + total ss + unat (plan_bytesToWrite ?p) < unat ?B"
      using bp_check_dist [OF good, of ?i ?f "plan_bytesToWrite ?p"] lt d by (auto simp: not_le split: if_splits)
    moreover have "total (write_segments ?B ?f d) = unat (plan_bytesToWrite ?p)"
      using T start(3) by (simp add: write_segments_def)
    moreover have "Write_ops ?p d n \<noteq> []"
      using pr by (auto simp: write_segments_def)
    ultimately have "ring_race_ok w r k sent lag ss (write_segments ?B ?f d) (x\<lparr>x_ops := Write_ops ?p d n, x_msg := d\<rparr>)"
      using ok pr by (simp add: ring_race_ok_def)
    then show ?thesis unfolding start(1) by (rule ring_race_invI)
  qed
qed

lemma list_update_patch: "i < length m \<Longrightarrow> m[i := b] = patch i [b] m"
  by (simp add: patch_def upd_conv_take_nth_drop)

lemma writer_step_inv:
  assumes inv: "ring_race_inv w r k x"
  shows "ring_race_inv w r k (writer_step x)"
proof (cases "x_ops x")
  case Nil
  then show ?thesis using inv by (simp add: writer_step_def)
next
  case ops: (Cons oper ops)
  let ?rb = "x_rb x" and ?B = "configBufSizeBytes (x_rb x)" and ?f = "freePos (x_rb x)"
  obtain sent lag ss segs where ok: "ring_race_ok w r k sent lag ss segs x" using inv by (auto simp: ring_race_inv_def)
  note good = ring_race_ok_good [OF ok]
  have len: "length (rb_data ?rb) = unat ?B"
    and pr: "producing ?B (rb_data ?rb) ?f (oper # ops) segs"
    using ok ops by (auto simp: ring_race_ok_def writer_ok_def rb_ok_def)
  then obtain g gs where segs: "segs = g # gs" by (cases oper; cases segs) auto
  have len_all: "lag + total ss + seg_len g + total gs < unat ?B" using ok by (simp add: ring_race_ok_def segs)
  show ?thesis
  proof (cases oper)
    case (PutByte i b)
    define o1 where "o1 = i - index_of ?B ?f"
    have i: "i = index_of ?B ?f + o1" "o1 < seg_len g" "i < unat ?B" "ops \<noteq> []"
      and pr': "producing ?B ((rb_data ?rb)[i := b]) ?f ops segs"
      using pr by (auto simp: PutByte segs o1_def)
    have "index_of ?B (?f + of_nat o1) = (index_of ?B ?f + o1) mod unat ?B"
      using i(2) len_all good_size_bounds(2) [OF good] index_of_add [OF good, of ?f "of_nat o1"]
      by (simp add: unat_of_nat_small)
    moreover have "x_pos x + of_nat (total ss + o1) = ?f + of_nat o1"
      unfolding ring_race_okD(7) [OF ok, symmetric] by (simp add: add.assoc)
    ultimately have idx: "i = index_of ?B (x_pos x + of_nat (total ss + o1))"
      using i by (simp only:) simp
    have m: "(rb_data ?rb)[i := b] = patch i [b] (rb_data ?rb)" using i(3) len by (simp add: list_update_patch)
    have "on_ring ?B (patch i [b] (rb_data ?rb)) (x_pos x) ss"
      using ring_race_okD(6) [OF ok] i(2,3) len_all by (intro on_ring_patch [OF good len _ _ _ idx]) simp_all
    then have "ring_race_ok w r k sent lag ss segs (x\<lparr>x_rb := ?rb\<lparr>rb_data := (rb_data ?rb)[i := b]\<rparr>, x_ops := ops\<rparr>)"
      using ok ops i pr' m by (simp add: ring_race_ok_def writer_ok_def reader_ok_def rb_ok_def)
    moreover have "writer_step x = x\<lparr>x_rb := ?rb\<lparr>rb_data := (rb_data ?rb)[i := b]\<rparr>, x_ops := ops\<rparr>"
      using i(3,4) len by (simp add: writer_step_def ops PutByte exec_op_def)
    ultimately show ?thesis by (simp add: ring_race_invI)
  next
    case (MoveEnd n)
    have n: "n = of_nat (seg_len g)" "stored ?B (rb_data ?rb) ?f g" "ops = [] \<or> seg_msgs g = []"
      and pr': "producing ?B (rb_data ?rb) (?f + n) ops gs"
      using pr by (auto simp: MoveEnd segs)
    have gs: "ops = [] \<Longrightarrow> gs = []" using pr' by simp
    have msgs: "seg_msgs g @ messages gs = [x_msg x]" using ok ops by (simp add: ring_race_ok_def segs)
    let ?x = "x\<lparr>x_rb := ?rb\<lparr>freePos := ?f + n\<rparr>, x_ops := ops,
        x_log := (if ops = [] then x_log x @ [x_msg x] else x_log x)\<rparr>"
    have "holds (x_pc x) (x_got x) sent (ss @ [g])" using ok holds_append by (simp add: ring_race_ok_def)
    moreover have "on_ring ?B (rb_data ?rb) (x_pos x) (ss @ [g])"
      using ok n by (simp add: ring_race_ok_def on_ring_append)
    moreover have "sent @ messages (ss @ [g]) = x_log ?x"
      using ok n gs msgs by (auto simp: ring_race_ok_def)
    moreover have "messages gs = (if ops = [] then [] else [x_msg x])"
      using gs msgs n(3) by auto
    moreover have "?f + n = x_pos x + of_nat (total (ss @ [g]))" using ok n(1) by (simp add: ring_race_ok_def add.assoc)
    ultimately have "ring_race_ok w r k sent lag (ss @ [g]) gs ?x"
      using ok len_all pr' by (simp add: ring_race_ok_def writer_ok_def reader_ok_def rb_ok_def)
    moreover have "writer_step x = ?x" by (simp add: writer_step_def ops MoveEnd exec_op_def)
    ultimately show ?thesis by (simp add: ring_race_invI)
  qed
qed

section \<open>The reader keeps the invariant\<close>

lemma stored_headed:
  assumes good: "good_size B" and st: "stored B m p g" and h: "headed g h"
  shows "take 5 (drop (index_of B p) m) = hdr_bytes h"
    and "seg_len g = 5 + unat (hdr_length h)"
    and "Valid h \<longleftrightarrow> seg_valid g"
    and "hdr_type h = MSG \<longleftrightarrow> (\<exists>d. g = Msg d)"
    and "sizeof_MsgHeader + ucast (hdr_length h) = of_nat (seg_len g)"
proof -
  have n: "n < unat B \<Longrightarrow> headed g h \<Longrightarrow> hdr_length h = of_nat n \<Longrightarrow> unat (hdr_length h) = n" for n
    using unat_of_nat_u32 [OF good, of n] by simp
  show "take 5 (drop (index_of B p) m) = hdr_bytes h" using st h by (cases g) auto
  show len: "seg_len g = 5 + unat (hdr_length h)"
    using st h unat_of_nat_u32 [OF good] by (cases g) auto
  have "hdr_length h = 0 \<longleftrightarrow> unat (hdr_length h) = 0" by (simp add: unat_eq_0)
  then show "Valid h \<longleftrightarrow> seg_valid g" using len h by (cases h; cases g) (auto simp: Valid_def)
  show "hdr_type h = MSG \<longleftrightarrow> (\<exists>d. g = Msg d)" using h by (cases g) auto
  show "sizeof_MsgHeader + ucast (hdr_length h) = of_nat (seg_len g)"
    unfolding len by (simp add: sizeof_MsgHeader_def)
qed

lemma blank_at_end:
  assumes "stored B m p g" "good_size B"
  shows "unat B - index_of B p < 5 \<longleftrightarrow> (\<forall>h. \<not> headed g h)"
  using assms index_of_less [of B p] by (cases g) auto

text \<open>A step that leaves the shared memory and the positions alone keeps the invariant with the program counter.\<close>

lemma ring_race_ok_pc:
  assumes "ring_race_ok w r k sent lag ss segs x" "holds pc got sent ss"
  shows "ring_race_inv w r k (x\<lparr>x_pc := pc, x_got := got\<rparr>)"
  using assms by (intro ring_race_invI [of _ _ _ sent lag ss segs]) (simp add: ring_race_ok_def)

lemma ring_race_ok_pc':
  assumes "ring_race_ok w r k sent lag ss segs x" "holds pc (x_got x) sent ss"
  shows "ring_race_inv w r k (x\<lparr>x_pc := pc\<rparr>)"
  using ring_race_ok_pc [OF assms] by simp

text \<open>Passing the segment at the reader's position.\<close>

lemma ring_race_ok_pass:
  assumes ok: "ring_race_ok w r k sent lag (g # gs) segs x" and n: "n = of_nat (seg_len g)"
    and got: "x_got x = sent @ seg_msgs g"
  shows "ring_race_ok w r k (sent @ seg_msgs g) (lag + seg_len g) gs segs (x\<lparr>x_pos := x_pos x + n, x_pc := Loop\<rparr>)"
  using ok got by (simp add: ring_race_ok_def n add.assoc)

lemma ring_race_ok_show:
  assumes ok: "ring_race_ok w r k sent lag ss segs x"
  shows "ring_race_ok w r k sent 0 ss segs (show_position k (x_pos x) x)"
proof -
  have k: "k < length (ri_slots (x_ri x))" using ring_race_okD(5) [OF ok] by (simp add: active_at_def)
  have "active_at (x_ri (show_position k (x_pos x) x)) k"
    using ring_race_okD(5) [OF ok] active_at_set_position [OF k] by (simp add: show_position_def)
  moreover have "ri_inv (x_ri (show_position k (x_pos x) x))"
    using ri_inv_set_position [OF ring_race_okD(4) [OF ok] k] by (simp add: show_position_def)
  ultimately show ?thesis using ok k by (simp add: ring_race_ok_def)
qed

lemma load_byte_hit:
  assumes "i < length (rb_data (x_rb x))" "rb_data (x_rb x) ! i = b"
  shows "load_byte i next x = x\<lparr>x_pc := next b\<rparr>"
  using assms by (simp add: load_byte_def)

lemma take_drop_nth: "take n (drop i m) = bs \<Longrightarrow> i + n \<le> length m \<Longrightarrow> j < n \<Longrightarrow> m ! (i + j) = bs ! j"
  by auto

lemma loop_inv:
  assumes ok: "ring_race_ok w r k sent lag ss segs x" and pc: "x_pc x = Loop"
  shows "ring_race_inv w r k (access_step r k x)"
proof -
  let ?B = "configBufSizeBytes (x_rb x)" and ?bi = "BufIndex (reader_indexMask r) (x_pos x)"
  note idx = reader_index [OF ring_race_okD(2) [OF ok], of "x_pos x"] and good = ring_race_ok_good [OF ok]
  have got: "x_got x = sent" using ring_race_okD(11) [OF ok] pc by simp
  show ?thesis
  proof (cases ss)
    case Nil
    then have "access_step r k x = x\<lparr>x_pc := Publish\<rparr>"
      using pc ring_race_ok_fresh(4) [OF ok] by (simp add: access_step_def Let_def)
    then show ?thesis using ring_race_ok_pc' [OF ok, of Publish] got by simp
  next
    case (Cons g gs)
    then have st: "stored ?B (rb_data (x_rb x)) (x_pos x) g" and ne: "x_pos x \<noteq> freePos (x_rb x)"
      using ring_race_okD(6) [OF ok] ring_race_ok_fresh(4) [OF ok] by auto
    show ?thesis
    proof (cases "unat ?B - index_of ?B (x_pos x) < 5")
      case True
      then obtain n where n: "g = Blank n" "n = unat ?B - index_of ?B (x_pos x)"
        using blank_at_end [OF st good] st by (cases g) auto
      have "seg_len g = unat (?B - ?bi)" using idx(2) n by simp
      then have "?B - ?bi = of_nat (seg_len g)" by simp
      then have "access_step r k x = x\<lparr>x_pos := x_pos x + of_nat (seg_len g), x_pc := Loop\<rparr>"
        using pc ne True idx(3) by (simp add: access_step_def Let_def)
      then show ?thesis
        using ring_race_invI [OF ring_race_ok_pass [OF ok [unfolded Cons] refl]] got n(1) by simp
    next
      case False
      then have "access_step r k x = x\<lparr>x_pc := Early\<rparr>"
        using pc ne idx(3) by (simp add: access_step_def Let_def)
      then show ?thesis
        using ring_race_ok_pc' [OF ok, of Early] got blank_at_end [OF st good] False Cons by simp
    qed
  qed
qed

lemma headed_inv:
  assumes ok: "ring_race_ok w r k sent lag (g # gs) segs x" and h: "headed g h"
    and pc: "x_pc x = LoadHeader acc \<or> x_pc x = Check h' \<or> x_pc x = LoadData h' acc \<or> x_pc x = Late h' acc \<or> x_pc x = Advance h'"
  shows "ring_race_inv w r k (access_step r k x)"
proof -
  let ?B = "configBufSizeBytes (x_rb x)" and ?bi = "BufIndex (reader_indexMask r) (x_pos x)" and ?m = "rb_data (x_rb x)"
  note idx = reader_index [OF ring_race_okD(2) [OF ok], of "x_pos x"] and good = ring_race_ok_good [OF ok]
    and len = ring_race_okD(10) [OF ok] and holds = ring_race_okD(11) [OF ok]
  have st: "stored ?B ?m (x_pos x) g" using ring_race_okD(6) [OF ok] by simp
  note hd = stored_headed [OF good st h] and inbuf = stored_in_buffer [OF st]
  have same: "headed g h' \<Longrightarrow> h' = h" using h by (cases g) auto
  from pc show ?thesis
  proof (elim disjE)
    assume pc: "x_pc x = LoadHeader acc"
    have acc: "length acc < 5" "acc = take (length acc) (hdr_bytes h)" and got: "x_got x = sent"
      using holds h by (cases g; auto simp: pc)+
    have i: "unat ?bi + length acc < length ?m" using inbuf acc(1) hd(2) len by (simp add: idx)
    have b: "?m ! (unat ?bi + length acc) = hdr_bytes h ! length acc"
      using hd(1,2) inbuf acc(1) len by (intro take_drop_nth [of 5]) (simp_all add: idx)
    have nxt: "acc @ [hdr_bytes h ! length acc] = take (Suc (length acc)) (hdr_bytes h)"
      using acc by (simp add: take_Suc_conv_app_nth)
    show ?thesis
    proof (cases "length acc = 4")
      case True
      then have "acc @ [hdr_bytes h ! 4] = hdr_bytes h" using nxt by simp
      then have "access_step r k x = x\<lparr>x_pc := Check h\<rparr>"
        using load_byte_hit [OF i b] True by (simp add: access_step_def Let_def pc hdr_of_bytes_hdr_bytes)
      then show ?thesis using ring_race_ok_pc' [OF ok, of "Check h"] got h by simp
    next
      case False
      then have "access_step r k x = x\<lparr>x_pc := LoadHeader (take (Suc (length acc)) (hdr_bytes h))\<rparr>"
        using load_byte_hit [OF i b] nxt by (simp add: access_step_def Let_def pc)
      moreover have "length (take (Suc (length acc)) (hdr_bytes h)) = Suc (length acc)" using acc(1) by simp
      ultimately show ?thesis
        using ring_race_ok_pc' [OF ok, of "LoadHeader (take (Suc (length acc)) (hdr_bytes h))"] got h False acc(1)
        by auto
    qed
  next
    assume pc: "x_pc x = Check h'"
    have got: "x_got x = sent" and h': "h' = h" using holds same by (auto simp: pc)
    have fits: "\<not> ?B < ?bi + sizeof_MsgHeader + ucast (hdr_length h)"
      using inbuf hd(2) by (intro header_fits [OF good]) (simp add: idx)
    have step: "access_step r k x = x\<lparr>x_pc := (if \<not> Valid h then Done EXPIRED_POSITION
        else if hdr_type h = MSG then LoadData h [] else Advance h)\<rparr>"
      using fits ring_race_ok_fresh(2) [OF ok] by (simp add: access_step_def Let_def pc h')
    consider (bad) "\<not> Valid h" | (msg) d where "Valid h" "g = Msg d" | (pad) "Valid h" "hdr_type h \<noteq> MSG"
      using hd(4) by blast
    then show ?thesis
    proof cases
      case bad
      then show ?thesis using step ring_race_ok_pc' [OF ok, of "Done EXPIRED_POSITION"] got h hd(3) by auto
    next
      case msg
      then have "holds (LoadData h []) (x_got x) sent (g # gs)" using hd(3) h got by simp
      then show ?thesis using step msg hd(4) ring_race_ok_pc' [OF ok] by simp
    next
      case pad
      then have "seg_msgs g = []" using hd(4) by (cases g) auto
      then show ?thesis using step pad ring_race_ok_pc' [OF ok, of "Advance h"] got h by simp
    qed
  next
    assume pc: "x_pc x = LoadData h' acc"
    obtain d where d: "g = Msg d" "length acc < length d" "acc = take (length acc) d" and got: "x_got x = sent" and h': "h' = h"
      using holds same by (auto simp: pc)
    have n: "unat (hdr_length h) = length d" using hd(2) d(1) by simp
    have data: "take (length d) (drop (index_of ?B (x_pos x) + 5) ?m) = d" using st d(1) by simp
    have i: "unat ?bi + 5 + length acc < length ?m" using inbuf d len by (simp add: idx)
    have b: "?m ! (unat ?bi + 5 + length acc) = d ! length acc"
      using data inbuf d len by (intro take_drop_nth [of "length d"]) (simp_all add: idx)
    have nxt: "acc @ [d ! length acc] = take (Suc (length acc)) d"
      using d by (simp add: take_Suc_conv_app_nth)
    show ?thesis
    proof (cases "Suc (length acc) = length d")
      case True
      then have "access_step r k x = x\<lparr>x_pc := Late h d\<rparr>"
        using load_byte_hit [OF i b] nxt n by (simp add: access_step_def Let_def pc h')
      then show ?thesis using ring_race_ok_pc' [OF ok, of "Late h d"] got h d by simp
    next
      case False
      then have "access_step r k x = x\<lparr>x_pc := LoadData h (take (Suc (length acc)) d)\<rparr>"
        using load_byte_hit [OF i b] nxt n by (simp add: access_step_def Let_def pc h')
      moreover have "length (take (Suc (length acc)) d) = Suc (length acc)" using d(2) by simp
      ultimately show ?thesis
        using ring_race_ok_pc' [OF ok, of "LoadData h (take (Suc (length acc)) d)"] got h False d(1,2) by simp
    qed
  next
    assume pc: "x_pc x = Late h' acc"
    have got: "x_got x = sent" and h': "h' = h" and d: "g = Msg acc" using holds same by (auto simp: pc)
    have "access_step r k x = x\<lparr>x_pc := Advance h, x_got := x_got x @ [acc]\<rparr>"
      using ring_race_ok_fresh(2) [OF ok] by (simp add: access_step_def Let_def pc h')
    then show ?thesis using ring_race_ok_pc [OF ok, of "Advance h" "x_got x @ [acc]"] got h d by simp
  next
    assume pc: "x_pc x = Advance h'"
    have got: "x_got x = sent @ seg_msgs g" and h': "h' = h" using holds same by (auto simp: pc)
    let ?x = "x\<lparr>x_pos := x_pos x + (sizeof_MsgHeader + ucast (hdr_length h)), x_pc := Loop\<rparr>"
    note pass = ring_race_ok_pass [OF ok hd(5) got]
    have "access_step r k x = show_position k (x_pos ?x) ?x \<or> access_step r k x = ?x"
      by (auto simp: access_step_def Let_def pc h')
    then show ?thesis using ring_race_invI [OF pass] ring_race_invI [OF ring_race_ok_show [OF pass]] by auto
  qed
qed

lemma reader_step_inv:
  assumes inv: "ring_race_inv w r k x"
  shows "ring_race_inv w r k (access_step r k x)"
proof -
  obtain sent lag ss segs where ok: "ring_race_ok w r k sent lag ss segs x" using inv by (auto simp: ring_race_inv_def)
  note holds = ring_race_okD(11) [OF ok] and fresh = ring_race_ok_fresh [OF ok]
  have head: "ring_race_inv w r k (access_step r k x)"
    if pc: "x_pc x = LoadHeader acc \<or> x_pc x = Check h' \<or> x_pc x = LoadData h' acc \<or> x_pc x = Late h' acc \<or> x_pc x = Advance h'"
    for acc h'
  proof -
    obtain g gs h where "ss = g # gs" "headed g h" using holds pc by (cases ss) auto
    then show ?thesis using headed_inv [of w r k sent lag g gs segs x h acc h'] ok pc by simp
  qed
  show ?thesis
  proof (cases "x_pc x")
    case Enter
    then have "access_step r k x = x\<lparr>x_pc := Loop\<rparr>" using fresh(3) by (simp add: access_step_def Let_def)
    then show ?thesis using ring_race_ok_pc' [OF ok, of Loop] holds Enter by simp
  next
    case Loop
    then show ?thesis by (rule loop_inv [OF ok])
  next
    case Early
    then have "access_step r k x = x\<lparr>x_pc := LoadHeader []\<rparr>" using fresh(2) by (simp add: access_step_def Let_def)
    then show ?thesis using ring_race_ok_pc' [OF ok, of "LoadHeader []"] holds Early by simp
  next
    case Publish
    have "ring_race_inv w r k (show_position k (x_pos x) x)" by (rule ring_race_invI [OF ring_race_ok_show [OF ok]])
    have "access_step r k x = show_position k (x_pos x) (x\<lparr>x_pc := Done SUCCESS\<rparr>)"
      using Publish by (simp add: access_step_def Let_def)
    moreover have "ring_race_ok w r k sent lag ss segs (x\<lparr>x_pc := Done SUCCESS\<rparr>)"
      using ok Publish by (simp add: ring_race_ok_def)
    ultimately show ?thesis using ring_race_invI [OF ring_race_ok_show, of w r k sent lag ss segs "x\<lparr>x_pc := Done SUCCESS\<rparr>"] by simp
  next
    case (Done res)
    then have "access_step r k x = x\<lparr>x_pc := Enter\<rparr>" by (simp add: access_step_def Let_def)
    then show ?thesis using ring_race_ok_pc' [OF ok, of Enter] holds Done by simp
  next
    case (Crashed e)
    then show ?thesis using holds by simp
  qed (use head in blast)+
qed

section \<open>Runs\<close>

lemma take_turn_inv: "ring_race_inv w r k x \<Longrightarrow> honours t \<Longrightarrow> ring_race_inv w r k (take_turn w r k t x)"
  by (cases t) (simp_all add: begin_write_inv writer_step_inv reader_step_inv)

lemma take_turns_inv: "ring_race_inv w r k x \<Longrightarrow> list_all honours ts \<Longrightarrow> ring_race_inv w r k (take_turns w r k ts x)"
  by (induction ts arbitrary: x) (simp_all add: take_turn_inv)

text \<open>A reader that has just been activated, and no write in flight.\<close>

lemma alone_inv:
  assumes "writer_ok w rb" "reader_ok r rb" "ri_inv ri" "active_at ri k" "info_position (ri_slots ri ! k) = freePos rb"
  shows "ring_race_inv w r k (alone rb ri (freePos rb))"
proof -
  have "good_size (configBufSizeBytes rb)" using assms(1) by (simp add: writer_ok_def rb_ok_def)
  then have "ring_race_ok w r k [] 0 [] [] (alone rb ri (freePos rb))"
    using assms good_size_bounds(4) by (simp add: ring_race_ok_def alone_def)
  then show ?thesis by (rule ring_race_invI)
qed

lemma holds_got:
  assumes "holds pc got sent ss"
  shows "\<exists>rest. got @ rest = sent @ messages ss"
  using assms by (cases pc; cases ss) auto

lemma ring_race_inv_prefix:
  assumes "ring_race_inv w r k x"
  shows "\<exists>rest. x_log x = x_got x @ rest"
  using assms holds_got by (auto simp: ring_race_inv_def ring_race_ok_def) metis

lemma ring_race_inv_pc:
  assumes "ring_race_inv w r k x"
  shows "case x_pc x of
      Crashed e \<Rightarrow> False
    | Done res \<Rightarrow> res \<noteq> INVALID_POSITION \<and> (res = EXPIRED_POSITION \<longrightarrow>
        (\<exists>h. load_header (unat (BufIndex (reader_indexMask r) (x_pos x))) (rb_data (x_rb x)) = Inr h \<and> hdr_length h = 0))
    | _ \<Rightarrow> True"
proof -
  obtain sent lag ss segs where ok: "ring_race_ok w r k sent lag ss segs x" using assms by (auto simp: ring_race_inv_def)
  note holds = ring_race_okD(11) [OF ok]
  show ?thesis
  proof (cases "x_pc x")
    case (Done res)
    have "\<exists>h. load_header (unat (BufIndex (reader_indexMask r) (x_pos x))) (rb_data (x_rb x)) = Inr h \<and> hdr_length h = 0"
      if res: "res = EXPIRED_POSITION"
    proof -
      obtain g gs h where ss: "ss = g # gs" and h: "headed g h" "\<not> seg_valid g"
        using holds res Done by (cases ss) auto
      have st: "stored (configBufSizeBytes (x_rb x)) (rb_data (x_rb x)) (x_pos x) g"
        using ring_race_okD(6) [OF ok] ss by simp
      note hd = stored_headed [OF ring_race_ok_good [OF ok] st h(1)]
      have "load_header (unat (BufIndex (reader_indexMask r) (x_pos x))) (rb_data (x_rb x)) = Inr h"
        using hd(1,2) stored_in_buffer [OF st]
        by (intro load_header_stored [OF ring_race_okD(3) [OF ok]]) (simp_all add: reader_index [OF ring_race_okD(2) [OF ok]])
      moreover have "hdr_length h = 0" using hd(3) h by (cases g) (auto simp: Valid_def)
      ultimately show ?thesis by blast
    qed
    then show ?thesis using Done holds by auto
  qed (use holds in auto)
qed

section \<open>Properties\<close>

text \<open>
  C5: Reading while a message is being written. With one writer that honours backpressure and
  one active reader, in every interleaving of their single memory accesses, at every moment
  the messages the reader has confirmed are the first messages of the log of the completed
  writes: none is torn, skipped, repeated or read before it is complete.
\<close>

theorem concurrent_reads_exact:
  assumes "writer_ok w rb" "reader_ok r rb" "ri_inv ri" "active_at ri k" "info_position (ri_slots ri ! k) = freePos rb"
    and "list_all honours ts"
  shows "\<exists>rest. x_log (take_turns w r k ts (alone rb ri (freePos rb)))
    = x_got (take_turns w r k ts (alone rb ri (freePos rb))) @ rest"
  by (rule ring_race_inv_prefix [OF take_turns_inv [OF alone_inv [OF assms(1-5)] assms(6)]])

text \<open>Two messages; the reader is scheduled between the accesses of the writer.\<close>

definition interleaved :: "turn list" where
  "interleaved = Begin 3 [1, 2, 3] # concat (replicate 9 [WriterTurn, ReaderTurn])
     @ replicate 4 ReaderTurn @ Begin 2 [4, 5] # concat (replicate 8 [WriterTurn, ReaderTurn, ReaderTurn])"

lemma ring_race_start:
  "writer_ok writer_32 (ring_32\<lparr>freePos := 7\<rparr>)" "reader_ok reader_32 (ring_32\<lparr>freePos := 7\<rparr>)"
  "ri_inv one_behind" "active_at one_behind 1" "info_position (ri_slots one_behind ! 1) = freePos (ring_32\<lparr>freePos := 7\<rparr>)"
  using one_behind_inv one_behind_active
  by (simp_all add: writer_32_ok rb_ok_def good_size_32 reader_ok_def reader_32_def) (simp add: one_behind_def)

lemma interleaved_run:
  "x_got (take_turns writer_32 reader_32 1 interleaved (alone (ring_32\<lparr>freePos := 7\<rparr>) one_behind 7)) = [[1, 2, 3]]"
  "x_log (take_turns writer_32 reader_32 1 interleaved (alone (ring_32\<lparr>freePos := 7\<rparr>) one_behind 7)) = [[1, 2, 3], [4, 5]]"
  by code_simp+

theorem concurrent_reads_exact_witness:
  "\<exists>rest. x_log (take_turns writer_32 reader_32 1 interleaved (alone (ring_32\<lparr>freePos := 7\<rparr>) one_behind 7))
    = [[1, 2, 3]] @ rest"
  using concurrent_reads_exact [OF ring_race_start, of interleaved] interleaved_run
  by (simp add: interleaved_def numeral_eq_Suc)

text \<open>
  C17: A reader of a backpressured ring never goes wrong. In every such interleaving the reader
  never leaves the buffer, never fails its assertion and never returns INVALID_POSITION; it
  returns EXPIRED_POSITION only in front of a header of length zero, which is what an empty
  message or a write five bytes before the end of the buffer puts there.
\<close>

theorem concurrent_reader_safe:
  assumes "writer_ok w rb" "reader_ok r rb" "ri_inv ri" "active_at ri k" "info_position (ri_slots ri ! k) = freePos rb"
    and "list_all honours ts"
  shows "let x = take_turns w r k ts (alone rb ri (freePos rb)) in case x_pc x of
      Crashed e \<Rightarrow> False
    | Done res \<Rightarrow> res \<noteq> INVALID_POSITION \<and> (res = EXPIRED_POSITION \<longrightarrow>
        (\<exists>h. load_header (unat (BufIndex (reader_indexMask r) (x_pos x))) (rb_data (x_rb x)) = Inr h \<and> hdr_length h = 0))
    | _ \<Rightarrow> True"
  unfolding Let_def by (rule ring_race_inv_pc [OF take_turns_inv [OF alone_inv [OF assms(1-5)] assms(6)]])

text \<open>An empty message: the reader stops in front of it.\<close>

definition empty_message :: "turn list" where
  "empty_message = Begin 0 [] # replicate 6 WriterTurn @ replicate 9 ReaderTurn"

lemma empty_message_pc:
  "x_pc (take_turns writer_32 reader_32 1 empty_message (alone (ring_32\<lparr>freePos := 7\<rparr>) one_behind 7)) = Done EXPIRED_POSITION"
  by code_simp

theorem concurrent_reader_safe_witness:
  "\<exists>h. load_header (unat (BufIndex 31 (x_pos (take_turns writer_32 reader_32 1 empty_message
      (alone (ring_32\<lparr>freePos := 7\<rparr>) one_behind 7)))))
    (rb_data (x_rb (take_turns writer_32 reader_32 1 empty_message (alone (ring_32\<lparr>freePos := 7\<rparr>) one_behind 7)))) = Inr h
    \<and> hdr_length h = 0"
proof -
  have "list_all honours empty_message" by (simp add: empty_message_def numeral_eq_Suc)
  from concurrent_reader_safe [OF ring_race_start this] empty_message_pc show ?thesis
    by (simp add: Let_def reader_32_def)
qed

text \<open>A write without the check, begun while the reader is copying.\<close>

definition overtaken :: "turn list" where
  "overtaken = Begin 3 [1, 1, 1] # replicate 9 WriterTurn @ Begin 12 (replicate 12 2) # replicate 18 WriterTurn
     @ replicate 10 ReaderTurn @ Force 10 (replicate 10 9) # replicate 15 WriterTurn @ replicate 3 ReaderTurn"

text \<open>
  The check after the copy is not reliable without backpressure. A run in which the writer
  overtakes the reader: the two completed writes are of other data, but the reader confirms a
  message that has its first byte of an old message and the others of a message whose write
  has not moved the end of the stream yet, which is all that the check looks at.
\<close>

lemma torn_read:
  "x_log (take_turns writer_32 reader_32 1 overtaken (alone (ring_32\<lparr>freePos := 7\<rparr>) one_behind 7))
      = [[1, 1, 1], replicate 12 2]
    \<and> x_got (take_turns writer_32 reader_32 1 overtaken (alone (ring_32\<lparr>freePos := 7\<rparr>) one_behind 7)) = [[1, 9, 9]]"
  by code_simp

end
