(* ===== verification/ActiveRangeRace.thy ===== *)
theory ActiveRangeRace
  imports RmpReaderInfo
begin

text \<open>
  rmp/readerInfo.hpp, Activate, Deactivate and UpdateActiveRange as they interleave when
  several processes run them on the same table: one atomic access per step. The range word is
  compared and exchanged by value; a ghost counter records how often it has been exchanged,
  so that one can say when an exchange succeeded on a value that was replaced and restored in
  between (ABA). Without ABA every quiescent table publishes a covering range; with it, a
  concrete run ends with an active slot outside the range.
\<close>

section \<open>The steps\<close>

text \<open>
  Where a process is in \<open>UpdateActiveRange\<close>: not in it, at the loop head, scanning with the
  old word (and the ghost count at which it was loaded), at the compare-exchange.
\<close>

datatype updater =
    Idle
  | Load
  | Scan u32 nat nat "u16 \<times> u16"
  | Cas u32 nat u32

record race_state =
  rc_n :: u16
  rc_flags :: "bool list"
  rc_range :: u32
  rc_version :: nat
  rc_procs :: "updater list"

datatype race_action =
    SetActive nat nat bool
  | Advance nat
  | SpuriousFailure nat

definition set_proc :: "nat \<Rightarrow> updater \<Rightarrow> race_state \<Rightarrow> race_state" where
  "set_proc p u s = s\<lparr>rc_procs := (rc_procs s)[p := u]\<rparr>"

text \<open>One step of the loop by process \<open>p\<close>.\<close>

definition update_step :: "nat \<Rightarrow> race_state \<Rightarrow> race_state option" where
  "update_step p s =
     (case rc_procs s ! p of
        Idle \<Rightarrow> None
      | Load \<Rightarrow> Some (set_proc p (Scan (rc_range s) (rc_version s) 0 (rc_n s, 0)) s)
      | Scan old v i acc \<Rightarrow>
          Some (if i < unat (rc_n s)
                then set_proc p (Scan old v (i + 1) (scan_slot i (rc_flags s ! i) acc)) s
                else set_proc p (Cas old v (pack_range acc)) s)
      | Cas old v packed \<Rightarrow>
          Some (if rc_range s = old
                then set_proc p Idle (s\<lparr>rc_range := packed, rc_version := rc_version s + 1\<rparr>)
                else set_proc p Load s))"

text \<open>
  A process that is not updating stores the flag of a slot, which is the first part of
  \<open>Activate\<close> and \<open>Deactivate\<close>; the weak compare-exchange may also fail for no reason.
\<close>

fun race_step :: "race_action \<Rightarrow> race_state \<Rightarrow> race_state option" where
  "race_step (SetActive p k b) s =
     (if p < length (rc_procs s) \<and> rc_procs s ! p = Idle \<and> k < length (rc_flags s)
      then Some (set_proc p Load (s\<lparr>rc_flags := (rc_flags s)[k := b]\<rparr>)) else None)"
| "race_step (Advance p) s = (if p < length (rc_procs s) then update_step p s else None)"
| "race_step (SpuriousFailure p) s =
     (if p < length (rc_procs s)
      then (case rc_procs s ! p of Cas old v packed \<Rightarrow> Some (set_proc p Load s) | _ \<Rightarrow> None)
      else None)"

fun race_run :: "race_action list \<Rightarrow> race_state \<Rightarrow> race_state option" where
  "race_run [] s = Some s"
| "race_run (a # as) s = (case race_step a s of None \<Rightarrow> None | Some s' \<Rightarrow> race_run as s')"

definition race_start :: "u16 \<Rightarrow> nat \<Rightarrow> race_state" where
  "race_start n procs = \<lparr> rc_n = n, rc_flags = replicate (unat n) False, rc_range = 0,
     rc_version = 0, rc_procs = replicate procs Idle \<rparr>"

definition quiescent :: "race_state \<Rightarrow> bool" where
  "quiescent s \<longleftrightarrow> list_all (\<lambda>u. u = Idle) (rc_procs s)"

definition in_range :: "u32 \<Rightarrow> nat \<Rightarrow> bool" where
  "in_range r k \<longleftrightarrow> unat (range_min r) \<le> k \<and> k < unat (range_max r)"

definition uncovered :: "race_state \<Rightarrow> nat \<Rightarrow> bool" where
  "uncovered s k \<longleftrightarrow> k < length (rc_flags s) \<and> rc_flags s ! k \<and> \<not> in_range (rc_range s) k"

section \<open>Runs without ABA\<close>

text \<open>No exchange of the run succeeds on a word that was exchanged since it was loaded.\<close>

fun aba_step :: "race_action \<Rightarrow> race_state \<Rightarrow> bool" where
  "aba_step (Advance p) s =
     (case rc_procs s ! p of
        Cas old v packed \<Rightarrow> rc_range s = old \<and> v \<noteq> rc_version s
      | _ \<Rightarrow> False)"
| "aba_step (SetActive p k b) s = False"
| "aba_step (SpuriousFailure p) s = False"

fun aba_free :: "race_action list \<Rightarrow> race_state \<Rightarrow> bool" where
  "aba_free [] s = True"
| "aba_free (a # as) s =
     (\<not> aba_step a s \<and> (case race_step a s of None \<Rightarrow> True | Some s' \<Rightarrow> aba_free as s'))"

text \<open>The part of the invariant about single words: no slot index leaves the table.\<close>

definition acc_ok :: "u16 \<Rightarrow> u16 \<times> u16 \<Rightarrow> bool" where
  "acc_ok n acc \<longleftrightarrow> fst acc \<le> n \<and> snd acc < n"

definition word_ok :: "u16 \<Rightarrow> u32 \<Rightarrow> bool" where
  "word_ok n r \<longleftrightarrow> range_min r \<le> n \<and> range_max r \<le> n"

fun updater_ok :: "u16 \<Rightarrow> updater \<Rightarrow> bool" where
  "updater_ok n Idle = True"
| "updater_ok n Load = True"
| "updater_ok n (Scan old v i acc) = (acc_ok n acc \<and> i \<le> unat n)"
| "updater_ok n (Cas old v packed) = word_ok n packed"

definition race_ok :: "race_state \<Rightarrow> bool" where
  "race_ok s \<longleftrightarrow> 0 < rc_n s \<and> length (rc_flags s) = unat (rc_n s) \<and> word_ok (rc_n s) (rc_range s) \<and>
     list_all (updater_ok (rc_n s)) (rc_procs s)"

lemma range_pack_ok:
  assumes "mx < n"
  shows "range_min (pack_range (mn, mx)) = mn" "unat (range_max (pack_range (mn, mx))) = unat mx + 1"
proof -
  have "unat mx < unat n" "unat n < 2 ^ 16"
    using assms unsigned_less [of n, where ?'a = nat] by (simp_all add: word_less_nat_alt)
  then have "unat mx + 1 < 2 ^ 16" by simp
  from range_pack [OF this]
  show "range_min (pack_range (mn, mx)) = mn" "unat (range_max (pack_range (mn, mx))) = unat mx + 1"
    by simp_all
qed

lemma word_ok_pack: "acc_ok n acc \<Longrightarrow> word_ok n (pack_range acc)"
  using range_pack_ok [of "snd acc" n "fst acc"]
  by (simp add: acc_ok_def word_ok_def word_less_nat_alt word_le_nat_alt)

lemma unat_slot_index: "i < unat (n :: u16) \<Longrightarrow> unat (of_nat i :: u16) = i"
  by (rule unat_of_nat_u16) (use unsigned_less [of n, where ?'a = nat] in simp)

lemma acc_ok_scan: "acc_ok n acc \<Longrightarrow> i < unat n \<Longrightarrow> acc_ok n (scan_slot i b acc)"
  by (cases acc) (auto simp: acc_ok_def scan_slot_def word_less_nat_alt word_le_nat_alt unat_slot_index)

lemma list_all_update: "list_all P xs \<Longrightarrow> P x \<Longrightarrow> list_all P (xs[i := x])"
  using set_update_subset_insert by (fastforce simp: list_all_iff)

lemma set_proc_frame [simp]:
  "rc_n (set_proc p u s) = rc_n s" "rc_flags (set_proc p u s) = rc_flags s"
  "rc_range (set_proc p u s) = rc_range s" "rc_version (set_proc p u s) = rc_version s"
  "rc_procs (set_proc p u s) = (rc_procs s)[p := u]"
  by (simp_all add: set_proc_def)

lemma race_ok_set_proc: "race_ok s \<Longrightarrow> updater_ok (rc_n s) u \<Longrightarrow> race_ok (set_proc p u s)"
  by (simp add: race_ok_def set_proc_def list_all_update)

lemma race_step_ok:
  assumes "race_step a s = Some s'" "race_ok s"
  shows "race_ok s' \<and> rc_n s' = rc_n s"
proof (cases a)
  case (SetActive p k b)
  then show ?thesis using assms race_ok_set_proc
    by (auto simp: race_ok_def set_proc_def list_all_update split: if_splits)
next
  case (SpuriousFailure p)
  then show ?thesis using assms
    by (auto simp: race_ok_set_proc set_proc_def split: if_splits updater.splits)
      (auto simp: race_ok_def list_all_update)
next
  case (Advance p)
  then have p: "p < length (rc_procs s)" and st: "update_step p s = Some s'"
    using assms(1) by (auto split: if_splits)
  have u: "updater_ok (rc_n s) (rc_procs s ! p)" using assms(2) p by (simp add: race_ok_def list_all_length)
  show ?thesis
  proof (cases "rc_procs s ! p")
    case Idle
    then show ?thesis using st by (simp add: update_step_def)
  next
    case Load
    then have "s' = set_proc p (Scan (rc_range s) (rc_version s) 0 (rc_n s, 0)) s"
      using st by (simp add: update_step_def)
    moreover have "acc_ok (rc_n s) (rc_n s, 0)" using assms(2) by (simp add: acc_ok_def race_ok_def)
    ultimately show ?thesis using race_ok_set_proc [OF assms(2)] by (simp add: set_proc_def)
  next
    case (Scan old v i acc)
    then show ?thesis
      using st u by (auto simp: update_step_def acc_ok_scan word_ok_pack split: if_splits
          intro!: race_ok_set_proc assms(2))
  next
    case (Cas old v packed)
    then show ?thesis
      using st u assms(2) by (auto simp: update_step_def set_proc_def race_ok_def list_all_update split: if_splits)
  qed
qed

lemma race_start_ok: "0 < n \<Longrightarrow> race_ok (race_start n procs)"
  by (simp add: race_ok_def race_start_def word_ok_def range_min_def range_max_def list_all_iff)

lemma race_run_ok:
  "race_run as s = Some s' \<Longrightarrow> race_ok s \<Longrightarrow> race_ok s' \<and> rc_n s' = rc_n s"
  by (induction as arbitrary: s) (auto split: option.splits dest: race_step_ok)

section \<open>Coverage without ABA\<close>

definition acc_covers :: "u16 \<times> u16 \<Rightarrow> nat \<Rightarrow> bool" where
  "acc_covers acc k \<longleftrightarrow> unat (fst acc) \<le> k \<and> k \<le> unat (snd acc)"

text \<open>
  \<open>misses u v k\<close>: the process \<open>u\<close> may still exchange successfully when the count is \<open>v\<close>, and
  the word it would publish does not cover slot \<open>k\<close> although the scan has passed it.
\<close>

fun misses :: "updater \<Rightarrow> nat \<Rightarrow> nat \<Rightarrow> bool" where
  "misses Idle v k = False"
| "misses Load v k = False"
| "misses (Scan old v' i acc) v k = (v' = v \<and> k < i \<and> \<not> acc_covers acc k)"
| "misses (Cas old v' packed) v k = (v' = v \<and> \<not> in_range packed k)"

text \<open>A process that is updating and will publish a word covering \<open>k\<close>, or try again.\<close>

definition responsible :: "updater \<Rightarrow> nat \<Rightarrow> nat \<Rightarrow> bool" where
  "responsible u v k \<longleftrightarrow> u \<noteq> Idle \<and> \<not> misses u v k"

definition slot_safe :: "race_state \<Rightarrow> nat \<Rightarrow> bool" where
  "slot_safe s k \<longleftrightarrow>
     in_range (rc_range s) k \<and> list_all (\<lambda>u. \<not> misses u (rc_version s) k) (rc_procs s)
     \<or> list_ex (\<lambda>u. responsible u (rc_version s) k) (rc_procs s)"

fun loaded_before :: "nat \<Rightarrow> updater \<Rightarrow> bool" where
  "loaded_before v Idle = True"
| "loaded_before v Load = True"
| "loaded_before v (Scan old v' i acc) = (v' \<le> v)"
| "loaded_before v (Cas old v' packed) = (v' \<le> v)"

definition race_inv :: "race_state \<Rightarrow> bool" where
  "race_inv s \<longleftrightarrow> race_ok s \<and> list_all (loaded_before (rc_version s)) (rc_procs s) \<and>
     (\<forall>k < length (rc_flags s). rc_flags s ! k \<longrightarrow> slot_safe s k)"

lemma acc_covers_scan: "acc_covers acc k \<Longrightarrow> i < unat (n::u16) \<Longrightarrow> acc_covers (scan_slot i b acc) k"
  by (cases acc) (auto simp: acc_covers_def scan_slot_def unat_slot_index)

lemma acc_covers_self: "i < unat (n::u16) \<Longrightarrow> acc_covers (scan_slot i True acc) i"
  by (cases acc) (auto simp: acc_covers_def scan_slot_def unat_slot_index)

lemma in_range_pack: "acc_ok n acc \<Longrightarrow> in_range (pack_range acc) k = acc_covers acc k"
  using range_pack_ok [of "snd acc" n "fst acc"]
  by (auto simp: acc_ok_def in_range_def acc_covers_def)

lemma list_ex_update: "i < length xs \<Longrightarrow> P x \<Longrightarrow> list_ex P (xs[i := x])"
  by (metis list_ex_iff set_update_memI)

text \<open>A process that moves without exchanging: to a state that covers \<open>k\<close>, or from one that misses it.\<close>

lemma slot_safe_fresh:
  assumes "p < length (rc_procs s)" "u \<noteq> Idle" "\<not> misses u (rc_version s) k"
  shows "slot_safe (set_proc p u s) k"
  using assms by (simp add: slot_safe_def responsible_def list_ex_update)

lemma slot_safe_missed:
  assumes "slot_safe s k" "p < length (rc_procs s)" "misses (rc_procs s ! p) (rc_version s) k"
  shows "slot_safe (set_proc p u s) k"
proof -
  have "list_ex (\<lambda>u. responsible u (rc_version s) k) (rc_procs s)"
    using assms by (auto simp: slot_safe_def list_all_length)
  then obtain q where q: "q < length (rc_procs s)" "responsible (rc_procs s ! q) (rc_version s) k"
    by (auto simp: list_ex_length)
  then have "q \<noteq> p" using assms(3) by (auto simp: responsible_def)
  with q have "list_ex (\<lambda>u. responsible u (rc_version s) k) ((rc_procs s)[p := u])"
    by (auto simp: list_ex_length intro!: exI [of _ q])
  then show ?thesis by (simp add: slot_safe_def)
qed

text \<open>A successful exchange that is not ABA.\<close>

lemma misses_later: "loaded_before v u \<Longrightarrow> \<not> misses u (v + 1) k"
  by (cases u) auto

lemma slot_safe_cas:
  assumes safe: "slot_safe s k" and p: "p < length (rc_procs s)" "rc_procs s ! p = Cas old (rc_version s) packed"
    and old: "list_all (loaded_before (rc_version s)) (rc_procs s)"
  shows "slot_safe (set_proc p Idle (s\<lparr>rc_range := packed, rc_version := rc_version s + 1\<rparr>)) k"
proof -
  have none: "\<not> misses u (rc_version s + 1) k" if "u \<in> set (rc_procs s)" for u
    using old that by (intro misses_later) (simp add: list_all_iff)
  then have all: "list_all (\<lambda>u. \<not> misses u (rc_version s + 1) k) ((rc_procs s)[p := Idle])"
    by (intro list_all_update) (simp_all add: list_all_iff)
  consider "in_range packed k" | "\<not> in_range packed k"
      "list_ex (\<lambda>u. responsible u (rc_version s) k) (rc_procs s)"
    using safe p unfolding slot_safe_def by (auto simp: list_all_length)
  then show ?thesis
  proof cases
    case 1
    then show ?thesis using all by (simp add: slot_safe_def)
  next
    case 2
    then obtain q where q: "q < length (rc_procs s)" "responsible (rc_procs s ! q) (rc_version s) k"
      by (auto simp: list_ex_length)
    then have "q \<noteq> p" using p(2) 2(1) by (auto simp: responsible_def)
    moreover have "responsible (rc_procs s ! q) (rc_version s + 1) k"
      using q none [OF nth_mem [OF q(1)]] by (auto simp: responsible_def)
    ultimately have "list_ex (\<lambda>u. responsible u (rc_version s + 1) k) ((rc_procs s)[p := Idle])"
      using q(1) by (auto simp: list_ex_length intro!: exI [of _ q])
    then show ?thesis by (simp add: slot_safe_def)
  qed
qed

lemma update_step_safe:
  assumes st: "update_step p s = Some s'" and p: "p < length (rc_procs s)" and ok: "race_ok s"
    and old: "list_all (loaded_before (rc_version s)) (rc_procs s)"
    and free: "\<not> aba_step (Advance p) s"
    and k: "k < length (rc_flags s)" "rc_flags s ! k" and safe: "slot_safe s k"
  shows "slot_safe s' k"
proof -
  have n: "length (rc_flags s) = unat (rc_n s)" using ok by (simp add: race_ok_def)
  have u: "updater_ok (rc_n s) (rc_procs s ! p)" using ok p by (simp add: race_ok_def list_all_length)
  show ?thesis
  proof (cases "rc_procs s ! p")
    case Idle
    then show ?thesis using st by (simp add: update_step_def)
  next
    case Load
    then show ?thesis using st p by (auto simp: update_step_def intro!: slot_safe_fresh)
  next
    case (Scan old v i acc)
    let ?u = "if i < unat (rc_n s) then Scan old v (i + 1) (scan_slot i (rc_flags s ! i) acc)
      else Cas old v (pack_range acc)"
    have s': "s' = set_proc p ?u s" using st Scan by (auto simp: update_step_def)
    have "misses (rc_procs s ! p) (rc_version s) k" if miss: "misses ?u (rc_version s) k"
    proof (cases "i < unat (rc_n s)")
      case True
      then have "k \<noteq> i" using miss k(2) acc_covers_self [OF True, of acc] by auto
      then show ?thesis using miss True acc_covers_scan [of acc k i "rc_n s"] Scan by auto
    next
      case False
      then have "i = unat (rc_n s)" "acc_ok (rc_n s) acc" using u Scan by simp_all
      then show ?thesis using miss False Scan k(1) n in_range_pack [of "rc_n s" acc k] by auto
    qed
    then have imp: "misses ?u (rc_version s) k \<Longrightarrow> misses (rc_procs s ! p) (rc_version s) k" .
    show ?thesis
    proof (cases "misses ?u (rc_version s) k")
      case True
      show ?thesis unfolding s' by (rule slot_safe_missed [OF safe p imp [OF True]])
    next
      case False
      then show ?thesis unfolding s' by (intro slot_safe_fresh [OF p]) simp_all
    qed
  next
    case (Cas old v packed)
    show ?thesis
    proof (cases "rc_range s = old")
      case True
      then have "v = rc_version s" using free Cas by simp
      then show ?thesis using st Cas True slot_safe_cas [OF safe p _ old] by (simp add: update_step_def)
    next
      case False
      then show ?thesis using st Cas p by (auto simp: update_step_def intro!: slot_safe_fresh)
    qed
  qed
qed

lemma loaded_before_mono: "loaded_before v u \<Longrightarrow> loaded_before (Suc v) u"
  by (cases u) auto

lemma update_step_loaded:
  assumes "update_step p s = Some s'" "p < length (rc_procs s)"
    and "list_all (loaded_before (rc_version s)) (rc_procs s)"
  shows "list_all (loaded_before (rc_version s')) (rc_procs s')"
proof -
  have "loaded_before (rc_version s) (rc_procs s ! p)" using assms(2,3) by (simp add: list_all_length)
  moreover have "list_all (loaded_before (Suc (rc_version s))) (rc_procs s)"
    using assms(3) loaded_before_mono by (auto simp: list_all_iff)
  ultimately show ?thesis
    using assms(1,3)
    by (cases "rc_procs s ! p")
      (auto simp: update_step_def list_all_update split: if_splits)
qed

lemma race_step_inv:
  assumes st: "race_step a s = Some s'" and inv: "race_inv s" and free: "\<not> aba_step a s"
  shows "race_inv s'"
proof -
  have ok: "race_ok s" and old: "list_all (loaded_before (rc_version s)) (rc_procs s)"
    using inv by (simp_all add: race_inv_def)
  have ok': "race_ok s'" using race_step_ok [OF st ok] by simp
  show ?thesis
  proof (cases a)
    case (SetActive p k b)
    then have p: "p < length (rc_procs s)" and s': "s' = set_proc p Load (s\<lparr>rc_flags := (rc_flags s)[k := b]\<rparr>)"
      using st by (auto split: if_splits)
    have "slot_safe s' j" for j unfolding s' using p by (intro slot_safe_fresh) simp_all
    then show ?thesis using ok' old by (simp add: race_inv_def s' list_all_update)
  next
    case (SpuriousFailure p)
    then have p: "p < length (rc_procs s)" and s': "s' = set_proc p Load s"
      using st by (auto split: if_splits updater.splits)
    have "slot_safe s' j" for j unfolding s' using p by (intro slot_safe_fresh) simp_all
    then show ?thesis using ok' old by (simp add: race_inv_def s' list_all_update)
  next
    case (Advance p)
    then have p: "p < length (rc_procs s)" and us: "update_step p s = Some s'"
      using st by (auto split: if_splits)
    have fl: "rc_flags s' = rc_flags s"
      using us by (auto simp: update_step_def split: updater.splits if_splits)
    have "slot_safe s' k" if "k < length (rc_flags s')" "rc_flags s' ! k" for k
      using that inv free Advance unfolding fl
      by (intro update_step_safe [OF us p ok old]) (auto simp: race_inv_def)
    then show ?thesis using ok' update_step_loaded [OF us p old] by (simp add: race_inv_def)
  qed
qed

lemma race_run_inv:
  "race_run as s = Some s' \<Longrightarrow> aba_free as s \<Longrightarrow> race_inv s \<Longrightarrow> race_inv s'"
  by (induction as arbitrary: s) (auto split: option.splits dest: race_step_inv)

lemma race_start_inv: "0 < n \<Longrightarrow> race_inv (race_start n procs)"
  using race_start_ok [of n procs] by (simp add: race_inv_def race_start_def list_all_iff)

lemma quiescent_covered:
  assumes "race_inv s" "quiescent s"
  shows "\<not> uncovered s k"
  using assms by (auto simp: race_inv_def uncovered_def quiescent_def slot_safe_def list_ex_iff list_all_iff responsible_def)

section \<open>A solo run is UpdateActiveRange\<close>

lemma solo_scan:
  assumes "p < length (rc_procs s)" "rc_procs s ! p = Scan old v i acc"
    and "i + length fl = unat (rc_n s)" "drop i (rc_flags s) = fl"
  shows "race_run (replicate (length fl) (Advance p)) s =
    Some (set_proc p (Scan old v (unat (rc_n s)) (scan_from i fl acc)) s)"
  using assms
proof (induction fl arbitrary: s i acc)
  case Nil
  then have "(rc_procs s)[p := Scan old v (unat (rc_n s)) acc] = rc_procs s"
    by (simp add: list_update_same_conv)
  then show ?case by (simp add: set_proc_def)
next
  case (Cons b fl)
  let ?s = "set_proc p (Scan old v (i + 1) (scan_slot i b acc)) s"
  have b: "rc_flags s ! i = b" "drop (i + 1) (rc_flags s) = fl" "i < unat (rc_n s)"
    using Cons.prems(3) nth_via_drop [OF Cons.prems(4)] arg_cong [OF Cons.prems(4), of tl]
    by (simp_all add: drop_Suc tl_drop)
  have "race_step (Advance p) s = Some ?s"
    using Cons.prems(1,2) b by (simp add: update_step_def)
  moreover have "race_run (replicate (length fl) (Advance p)) ?s =
      Some (set_proc p (Scan old v (unat (rc_n ?s)) (scan_from (i + 1) fl (scan_slot i b acc))) ?s)"
    using Cons.prems b by (intro Cons.IH) simp_all
  ultimately show ?case by (simp add: set_proc_def)
qed

text \<open>The table as the interleaved model sees it, with process \<open>p\<close> about to update.\<close>

definition race_of :: "'m ReaderInfo \<Rightarrow> nat \<Rightarrow> race_state" where
  "race_of ri p = \<lparr> rc_n = configMaxReaders ri, rc_flags = active_flags ri, rc_range = readersMinMax ri,
     rc_version = 0, rc_procs = replicate p Idle @ [Load] \<rparr>"

lemma race_of_frame [simp]:
  "rc_n (race_of ri p) = configMaxReaders ri" "rc_flags (race_of ri p) = active_flags ri"
  "rc_range (race_of ri p) = readersMinMax ri" "rc_version (race_of ri p) = 0"
  "length (rc_procs (race_of ri p)) = Suc p" "rc_procs (race_of ri p) ! p = Load"
  by (simp_all add: race_of_def nth_append)

lemma race_of_rest: "list_all (\<lambda>u. u = Idle) ((rc_procs (race_of ri p))[p := Idle])"
  by (simp add: race_of_def list_all_iff list_update_append)

lemma race_run_append:
  "race_run (as @ bs) s = (case race_run as s of None \<Rightarrow> None | Some s' \<Rightarrow> race_run bs s')"
  by (induction as arbitrary: s) (auto split: option.splits)

section \<open>Properties\<close>

text \<open>
  A process that runs UpdateActiveRange without interference performs, in one load, one
  step per slot, the end of the scan and one exchange, exactly the sequential update: the
  published word is that of the sequential definition.
\<close>

lemma solo_update_refines:
  assumes "slots_ok ri"
  shows "\<exists>s. race_run (replicate (unat (configMaxReaders ri) + 3) (Advance p)) (race_of ri p) = Some s
    \<and> quiescent s \<and> rc_range s = readersMinMax (UpdateActiveRange ri) \<and> rc_flags s = active_flags (UpdateActiveRange ri)"
proof -
  let ?n = "configMaxReaders ri" and ?old = "readersMinMax ri"
  let ?acc = "scan_from 0 (active_flags ri) (?n, 0)"
  let ?s1 = "set_proc p (Scan ?old 0 0 (?n, 0)) (race_of ri p)"
  let ?s2 = "set_proc p (Scan ?old 0 (unat ?n) ?acc) ?s1"
  let ?s3 = "set_proc p (Cas ?old 0 (pack_range ?acc)) ?s2"
  let ?s4 = "set_proc p Idle (?s3\<lparr>rc_range := pack_range ?acc, rc_version := 1\<rparr>)"
  have fl: "length (active_flags ri) = unat ?n" by (rule length_active_flags [OF assms])
  have 1: "race_step (Advance p) (race_of ri p) = Some ?s1" by (simp add: update_step_def)
  have 2: "race_run (replicate (unat ?n) (Advance p)) ?s1 = Some ?s2"
    using solo_scan [of p ?s1 ?old 0 0 "(?n, 0)" "active_flags ri"] fl by simp
  have 3: "race_step (Advance p) ?s2 = Some ?s3" by (simp add: update_step_def)
  have 4: "race_step (Advance p) ?s3 = Some ?s4" by (simp add: update_step_def)
  have "replicate (unat ?n + 3) (Advance p) = Advance p # replicate (unat ?n) (Advance p) @ [Advance p, Advance p]"
    using replicate_add [of "Suc (unat ?n)" 2 "Advance p"] by (simp add: numeral_eq_Suc)
  then have "race_run (replicate (unat ?n + 3) (Advance p)) (race_of ri p) = Some ?s4"
    by (simp only: race_run.simps race_run_append 1 2 3 4 option.simps)
  moreover have "active_flags (UpdateActiveRange ri) = active_flags ri" by (simp add: active_flags_def)
  ultimately show ?thesis
    using race_of_rest [of ri p] by (simp add: quiescent_def UpdateActiveRange_def active_flags_def)
qed

lemma solo_update_refines_witness:
  "\<exists>s. race_run (replicate 4 (Advance 0)) (race_of (\<lparr> expiredReaders = 0, ri_initialized = True,
       configMaxReaders = 1, readersMinMax = 0, ri_slots = [(new_info Free)\<lparr>info_isActive := 1\<rparr>] \<rparr>) 0) = Some s
    \<and> quiescent s \<and> rc_range s = 1"
  using solo_update_refines [of "\<lparr> expiredReaders = 0, ri_initialized = True,
       configMaxReaders = 1, readersMinMax = 0, ri_slots = [(new_info Free)\<lparr>info_isActive := 1\<rparr>] \<rparr>" 0]
  by (auto simp: slots_ok_def UpdateActiveRange_def active_flags_def slot_active_def scan_slot_def pack_range_def)

text \<open>
  Whatever the interleaving of stores, scans, exchanges and spurious failures, the
  published range stays within the table, so that a writer never indexes a slot outside it.
\<close>

lemma race_range_bounded:
  assumes "0 < n" "race_run as (race_start n procs) = Some s"
  shows "range_min (rc_range s) \<le> n \<and> range_max (rc_range s) \<le> n"
  using race_run_ok [OF assms(2) race_start_ok [OF assms(1)]]
  by (auto simp: race_ok_def word_ok_def race_start_def)

lemma race_range_bounded_witness:
  "\<exists>s. race_run [SetActive 0 1 True, Advance 0, Advance 0, SetActive 1 0 True, Advance 0, Advance 0, Advance 0]
      (race_start 2 2) = Some s \<and> range_min (rc_range s) \<le> 2 \<and> range_max (rc_range s) \<le> 2"
proof -
  have "race_run [SetActive 0 1 True, Advance 0, Advance 0, SetActive 1 0 True, Advance 0, Advance 0, Advance 0]
      (race_start 2 2) \<noteq> None" by code_simp
  then show ?thesis using race_range_bounded [of 2 _ 2] by fastforce
qed

text \<open>Two processes activate their slots; the first exchange of one fails and it scans again.\<close>

definition overlap_run :: "race_action list" where
  "overlap_run = [SetActive 0 0 True, Advance 0, Advance 0, Advance 0, SetActive 1 1 True, Advance 1,
     Advance 1, Advance 1, Advance 1, Advance 1] @ replicate 2 (Advance 0) @ replicate 5 (Advance 0)"

text \<open>
  C23: Without ABA the published range is right. In every interleaving in which no
  compare-exchange succeeds on a word that was replaced and restored since it was loaded,
  once all updates have finished every active slot lies in the published range.
\<close>

theorem race_covers_without_aba:
  assumes "0 < n" "race_run as (race_start n procs) = Some s" "aba_free as (race_start n procs)" "quiescent s"
  shows "\<not> uncovered s k"
  using quiescent_covered [OF race_run_inv [OF assms(2,3) race_start_inv [OF assms(1)]] assms(4)] .

theorem race_covers_without_aba_witness:
  "\<exists>s. race_run overlap_run (race_start 2 2) = Some s \<and> \<not> uncovered s 0 \<and> \<not> uncovered s 1"
proof -
  have "(case race_run overlap_run (race_start 2 2) of None \<Rightarrow> False | Some s \<Rightarrow> quiescent s)" by code_simp
  then obtain s where s: "race_run overlap_run (race_start 2 2) = Some s" "quiescent s"
    by (auto split: option.splits)
  have "aba_free overlap_run (race_start 2 2)" by code_simp
  from race_covers_without_aba [OF _ s(1) this s(2)] s(1) show ?thesis by auto
qed

text \<open>An update run alone from its load to its exchange, and the interleaving with an ABA.\<close>

definition update_alone :: "nat \<Rightarrow> race_action list" where
  "update_alone p = replicate 8 (Advance p)"

definition aba_run :: "race_action list" where
  "aba_run =
     [SetActive 0 0 True] @ update_alone 0 @ [SetActive 1 1 True] @ update_alone 1 @
     [SetActive 2 2 True] @
     [SetActive 3 3 False] @ replicate 7 (Advance 3) @
     update_alone 2 @
     [SetActive 1 1 False] @ update_alone 1 @
     [SetActive 4 4 False] @ replicate 3 (Advance 4) @
     [SetActive 2 2 False] @ update_alone 2 @
     replicate 4 (Advance 4) @
     [SetActive 1 1 True] @ update_alone 1 @
     [Advance 3, Advance 4]"

text \<open>
  With ABA it is not. There is a run of five processes, each of which only activates
  and deactivates its own slot, after which no update is pending and yet the active slot 1
  is outside the published range, so that writers give it no backpressure from then on.
\<close>

lemma race_aba_loses_slot:
  "\<exists>s. race_run aba_run (race_start 5 5) = Some s \<and> quiescent s \<and> uncovered s 1"
proof -
  have "(case race_run aba_run (race_start 5 5) of None \<Rightarrow> False | Some s \<Rightarrow> quiescent s \<and> uncovered s 1)"
    by code_simp
  then show ?thesis by (auto split: option.splits)
qed

end
