(* ===== verification/TopicMsg.thy ===== *)
theory TopicMsg
  imports Prelude "HOL-Library.Sublist"
begin

text \<open>
  tp/detail/topicMsgBinarySerializer.hpp and topicMsgBinaryDeserializer.hpp: the binary form
  of a topic message (eight bytes of reader generation, one byte of flags, the channel name
  with its terminator, the data) and the filter by topic. Channel names are byte lists, as
  they are std::string.
\<close>

type_synonym reader_gen = u64

section \<open>Serialization\<close>

definition SizeOf :: "bytes \<Rightarrow> u32 \<Rightarrow> u32" where
  "SizeOf channelName dataLen =
     ucast ((8 + 1 + (of_nat (length channelName) + 1) + ucast dataLen) :: u64)"

text \<open>
  \<open>strncpy\<close> of the C library on a string of which the \<open>n\<close> bytes with the terminator are
  given: it stops at the first NUL and pads with NULs.
\<close>

definition strncpy_bytes :: "bytes \<Rightarrow> nat \<Rightarrow> bytes" where
  "strncpy_bytes src n =
     (let s = takeWhile (\<lambda>c. c \<noteq> 0) (take n src) in s @ replicate (n - length s) 0)"

definition Serialize :: "bytes \<Rightarrow> reader_gen \<Rightarrow> bool \<Rightarrow> bytes \<Rightarrow> bytes \<Rightarrow> u32 \<Rightarrow> bytes result" where
  "Serialize dst readerGen postToDescendants channelName data dataLen =
     (let chLen = length channelName + 1 in
      case write_at 0 (le_bytes 8 readerGen) dst of
        Inl e \<Rightarrow> Inl e
      | Inr m1 \<Rightarrow>
         (case write_at 8 [if postToDescendants then 1 else 0] m1 of
            Inl e \<Rightarrow> Inl e
          | Inr m2 \<Rightarrow>
             (case write_at 9 (strncpy_bytes (channelName @ [0]) chLen) m2 of
                Inl e \<Rightarrow> Inl e
              | Inr m3 \<Rightarrow>
                 (case read_at 0 (unat dataLen) data of
                    Inl e \<Rightarrow> Inl e
                  | Inr d \<Rightarrow> write_at (9 + chLen) d m3))))"

section \<open>Topic matching\<close>

text \<open>The loop that counts the common bytes, from \<open>clen\<close> on.\<close>

function common_length :: "bytes \<Rightarrow> bytes \<Rightarrow> nat \<Rightarrow> nat \<Rightarrow> nat" where
  "common_length readerChannel writerChannel mlen clen =
     (if clen < mlen \<and> readerChannel ! clen = writerChannel ! clen
      then common_length readerChannel writerChannel mlen (clen + 1) else clen)"
  by auto

termination by (relation "measure (\<lambda>(r, w, mlen, clen). mlen - clen)") auto

declare common_length.simps [simp del]

definition TopicMatches :: "bytes \<Rightarrow> bool \<Rightarrow> bytes \<Rightarrow> nat \<Rightarrow> bool \<Rightarrow> bool" where
  "TopicMatches readerChannel handleDescendents writerChannel writerChannelLength postToDescendents =
     (let mlen = min (length readerChannel) writerChannelLength;
          clen = common_length readerChannel writerChannel mlen 0
      in if clen = length readerChannel \<and> clen = writerChannelLength then True
         else if postToDescendents \<and> clen = writerChannelLength then True
         else if handleDescendents \<and> clen = length readerChannel then True
         else False)"

section \<open>Deserialization\<close>

text \<open>\<open>strlen\<close> from position \<open>i\<close> of the message; without a terminator it runs off the end.\<close>

definition strlen_at :: "nat \<Rightarrow> bytes \<Rightarrow> nat result" where
  "strlen_at i m =
     (let n = length (takeWhile (\<lambda>c. c \<noteq> 0) (drop i m))
      in if i + n < length m then Inr n else Inl OutOfBounds)"

text \<open>
  The answer is \<open>None\<close> for false; for true it is the new values of the two reference
  parameters, the data within the message and its size.
\<close>

definition DeserializeAndFilter ::
    "bytes \<Rightarrow> u32 \<Rightarrow> reader_gen \<Rightarrow> bytes \<Rightarrow> bool \<Rightarrow> (bytes \<times> u32) option result" where
  "DeserializeAndFilter data dataSize readerGen channelName handleDescendants =
     (if dataSize < SizeOf [] 0 then Inl Assertion
      else (case read_at 0 8 data of
        Inl e \<Rightarrow> Inl e
      | Inr g \<Rightarrow>
          if le_word g < readerGen then Inr None
          else (case read_at 8 1 data of
            Inl e \<Rightarrow> Inl e
          | Inr pd \<Rightarrow>
              (case strlen_at 9 data of
                 Inl e \<Rightarrow> Inl e
               | Inr n \<Rightarrow>
                   if TopicMatches channelName handleDescendants (drop 9 data) n (hd pd \<noteq> 0)
                   then Inr (Some (drop (9 + n + 1) data, dataSize - of_nat (9 + n + 1)))
                   else Inr None))))"

section \<open>Matching is the prefix relation\<close>

lemma common_length_step:
  assumes "clen \<le> mlen"
  shows "clen \<le> common_length r w mlen clen \<and> common_length r w mlen clen \<le> mlen
    \<and> (\<forall>k. clen \<le> k \<longrightarrow> k < common_length r w mlen clen \<longrightarrow> r ! k = w ! k)
    \<and> (common_length r w mlen clen < mlen \<longrightarrow>
         r ! common_length r w mlen clen \<noteq> w ! common_length r w mlen clen)"
  using assms
proof (induction r w mlen clen rule: common_length.induct)
  case (1 r w mlen clen)
  show ?case
  proof (cases "clen < mlen \<and> r ! clen = w ! clen")
    case True
    then have eq: "common_length r w mlen clen = common_length r w mlen (clen + 1)"
      by (subst common_length.simps) simp
    have IH: "clen + 1 \<le> common_length r w mlen (clen + 1)" "common_length r w mlen (clen + 1) \<le> mlen"
        "\<And>k. clen + 1 \<le> k \<Longrightarrow> k < common_length r w mlen (clen + 1) \<Longrightarrow> r ! k = w ! k"
        "common_length r w mlen (clen + 1) < mlen \<Longrightarrow>
           r ! common_length r w mlen (clen + 1) \<noteq> w ! common_length r w mlen (clen + 1)"
      using 1(1) [OF True] True by auto
    have "r ! k = w ! k" if "clen \<le> k" "k < common_length r w mlen (clen + 1)" for k
      using that True IH(3) by (cases "k = clen") auto
    then show ?thesis unfolding eq using IH(1,2,4) by auto
  next
    case False
    then have "common_length r w mlen clen = clen" by (subst common_length.simps) (rule if_not_P)
    then show ?thesis using False 1(2) by auto
  qed
qed

lemma common_length_0:
  shows "common_length r w mlen 0 \<le> mlen"
    and "k < common_length r w mlen 0 \<Longrightarrow> r ! k = w ! k"
    and "common_length r w mlen 0 < mlen \<Longrightarrow>
      r ! common_length r w mlen 0 \<noteq> w ! common_length r w mlen 0"
  using common_length_step [of 0 mlen r w] by auto

lemma common_length_full:
  assumes "mlen \<le> length r" "mlen \<le> length w"
  shows "common_length r w mlen 0 = mlen \<longleftrightarrow> take mlen r = take mlen w"
proof
  assume "common_length r w mlen 0 = mlen"
  then show "take mlen r = take mlen w"
    using common_length_0(2) [of _ r w mlen] assms by (intro nth_equalityI) auto
next
  assume eq: "take mlen r = take mlen w"
  show "common_length r w mlen 0 = mlen"
  proof (rule ccontr)
    assume "common_length r w mlen 0 \<noteq> mlen"
    then have less: "common_length r w mlen 0 < mlen" using common_length_0(1) le_neq_implies_less by blast
    from arg_cong [OF eq, of "\<lambda>xs. xs ! common_length r w mlen 0"]
    show False using common_length_0(3) [OF less] less by simp
  qed
qed

lemma prefix_take_iff: "prefix xs ys \<longleftrightarrow> take (length xs) ys = xs"
  by (metis append_eq_conv_conj prefix_def take_is_prefix)

lemma takeWhile_string:
  "0 \<notin> set name \<Longrightarrow> takeWhile (\<lambda>c. c \<noteq> 0) (name @ 0 # rest) = (name :: bytes)"
  by (induction name) auto

text \<open>The matching relation between a reader's and a writer's channel.\<close>

definition topic_rel :: "bytes \<Rightarrow> bool \<Rightarrow> bytes \<Rightarrow> bool \<Rightarrow> bool" where
  "topic_rel r handleDescendents w postToDescendents \<longleftrightarrow>
     r = w \<or> postToDescendents \<and> prefix w r \<or> handleDescendents \<and> prefix r w"

lemma common_length_is_writer:
  fixes r :: bytes
  assumes w: "length w \<le> length wbuf" "take (length w) wbuf = w"
  defines "c \<equiv> common_length r wbuf (min (length r) (length w)) 0"
  shows "c = length w \<longleftrightarrow> prefix w r" and "c = length r \<longleftrightarrow> prefix r w"
proof -
  have c: "c \<le> length r" "c \<le> length w"
    using common_length_0(1) [of r wbuf "min (length r) (length w)"] unfolding c_def by simp_all
  have tk: "take n wbuf = take n w" if "n \<le> length w" for n
    using arg_cong [OF w(2), of "take n"] that by (simp add: min_absorb1)
  show "c = length w \<longleftrightarrow> prefix w r"
  proof (cases "length w \<le> length r")
    case True
    then show ?thesis
      unfolding c_def min_absorb2 [OF True] prefix_take_iff
      by (simp only: common_length_full [OF True w(1)] w(2))
  next
    case False
    then show ?thesis using c(1) prefix_length_le [of w r] by linarith
  qed
  show "c = length r \<longleftrightarrow> prefix r w"
  proof (cases "length r \<le> length w")
    case True
    have "length r \<le> length wbuf" using True w(1) by simp
    from common_length_full [OF order_refl this] show ?thesis
      unfolding c_def min_absorb1 [OF True] prefix_take_iff tk [OF True] by (simp add: eq_commute)
  next
    case False
    then show ?thesis using c(2) prefix_length_le [of r w] by linarith
  qed
qed

lemma TopicMatches_rel:
  assumes "length w \<le> length wbuf" "take (length w) wbuf = w"
  shows "TopicMatches r handleDesc wbuf (length w) postDesc = topic_rel r handleDesc w postDesc"
proof -
  have "prefix r w \<and> prefix w r \<longleftrightarrow> r = w" by (auto intro: prefix_order.antisym)
  then show ?thesis
    unfolding TopicMatches_def Let_def topic_rel_def common_length_is_writer [OF assms] by auto
qed

section \<open>The round trip\<close>

lemma strncpy_bytes_name:
  assumes "0 \<notin> set name"
  shows "strncpy_bytes (name @ [0]) (length name + 1) = name @ [0]"
  using takeWhile_string [OF assms, of "[]"] by (simp add: strncpy_bytes_def Let_def)

text \<open>The bytes of a serialized message.\<close>

definition topic_image :: "reader_gen \<Rightarrow> bool \<Rightarrow> bytes \<Rightarrow> bytes \<Rightarrow> bytes" where
  "topic_image g postDesc name d = le_bytes 8 g @ [if postDesc then 1 else 0] @ name @ 0 # d"

lemma length_topic_image [simp]: "length (topic_image g postDesc name d) = 10 + length name + length d"
  by (simp add: topic_image_def)

lemma patch_next:
  assumes "i + length xs + length ys \<le> length m" "k = i + length xs"
  shows "patch k ys (patch i xs m) = patch i (xs @ ys) m"
  using patch_append [OF assms(1)] assms(2) by simp

lemma Serialize_image:
  assumes name: "0 \<notin> set name" and d: "length d = unat n"
    and dst: "length dst = 10 + length name + length d"
  shows "Serialize dst g postDesc name d n = Inr (topic_image g postDesc name d)"
proof -
  define b :: u8 where "b = (if postDesc then 1 else 0)"
  let ?pd = "[b]"
  let ?m2 = "patch 0 (le_bytes 8 g @ ?pd) dst"
  let ?m3 = "patch 0 (le_bytes 8 g @ ?pd @ name @ [0]) dst"
  have "write_at 0 (le_bytes 8 g) dst = Inr (patch 0 (le_bytes 8 g) dst)"
    using dst by (simp add: write_at_patch)
  moreover have "write_at 8 ?pd (patch 0 (le_bytes 8 g) dst) = Inr ?m2"
    using dst by (simp add: write_at_patch patch_next)
  moreover have "write_at 9 (strncpy_bytes (name @ [0]) (length name + 1)) ?m2 = Inr ?m3"
    using dst by (simp add: strncpy_bytes_name [OF name, simplified] write_at_patch patch_next)
  moreover have "write_at (10 + length name) d ?m3 = Inr (topic_image g postDesc name d)"
    using dst by (simp add: write_at_patch patch_next topic_image_def flip: b_def) (simp add: patch_def)
  moreover have "read_at 0 (unat n) d = Inr d" using d by (simp add: read_at_def)
  ultimately show ?thesis by (simp add: Serialize_def Let_def flip: b_def)
qed

lemma unat_SizeOf:
  assumes "length name < 2 ^ 63"
  shows "unat (SizeOf name n) = (10 + length name + unat n) mod 2 ^ 32"
proof -
  have n: "unat n < 2 ^ 32" using unsigned_less [of n, where ?'a = nat] by simp
  have "(8 + 1 + (of_nat (length name) + 1) + ucast n :: u64) = of_nat (10 + length name + unat n)"
    by (simp add: word_unat_eq_iff)
  then have "unat (SizeOf name n) = (10 + length name + unat n) mod 2 ^ 64 mod 2 ^ 32"
    by (simp only: SizeOf_def unsigned_ucast_eq take_bit_eq_mod unat_of_nat) simp
  then show ?thesis using n assms by simp
qed

lemma SizeOf_small:
  "10 + length name + unat n < 2 ^ 32 \<Longrightarrow> unat (SizeOf name n) = 10 + length name + unat n"
  by (simp add: unat_SizeOf)

lemma Deserialize_image:
  assumes name: "0 \<notin> set name" and sz: "unat sz = 10 + length name + length d"
  shows "DeserializeAndFilter (topic_image g postDesc name d) sz rgen ch handleDesc =
    Inr (if g < rgen then None
         else if topic_rel ch handleDesc name postDesc then Some (d, of_nat (length d)) else None)"
proof -
  define b :: u8 where "b = (if postDesc then 1 else 0)"
  let ?m = "topic_image g postDesc name d"
  have m: "?m = (le_bytes 8 g @ [b]) @ name @ 0 # d" by (simp add: topic_image_def b_def)
  have "\<not> sz < SizeOf [] 0" using sz by (simp add: word_less_nat_alt SizeOf_small)
  moreover have "read_at 0 8 ?m = Inr (le_bytes 8 g)" by (simp add: read_at_def m)
  moreover have "read_at 8 1 ?m = Inr [b]" by (simp add: read_at_def m)
  moreover have dr: "drop 9 ?m = name @ 0 # d" by (simp add: m)
  then have "strlen_at 9 ?m = Inr (length name)"
    by (simp add: strlen_at_def takeWhile_string [OF name])
  moreover have "TopicMatches ch handleDesc (drop 9 ?m) (length name) (b \<noteq> 0)
      = topic_rel ch handleDesc name postDesc"
    unfolding dr by (subst TopicMatches_rel) (auto simp: b_def)
  moreover have "drop (9 + length name + 1) ?m = d" by (simp add: m)
  moreover have "sz - of_nat (9 + length name + 1) = of_nat (length d)"
  proof -
    have "sz = of_nat (10 + length name + length d)" by (simp flip: sz)
    then show ?thesis by simp
  qed
  ultimately show ?thesis by (simp add: DeserializeAndFilter_def le_word_le_bytes)
qed

text \<open>Every failure of \<open>Serialize\<close> is an access out of bounds, and success means it fits.\<close>

lemma write_at_Inr: "write_at i xs m = Inr m' \<Longrightarrow> i + length xs \<le> length m \<and> length m' = length m"
  by (auto simp: write_at_def split: if_splits)

lemma length_strncpy_bytes [simp]: "length (strncpy_bytes src n) = n"
proof -
  have "length (takeWhile (\<lambda>c. c \<noteq> 0) (take n src)) \<le> n"
    by (rule order_trans [OF length_takeWhile_le]) simp
  then show ?thesis by (simp add: strncpy_bytes_def Let_def)
qed

lemma Serialize_cases:
  "Serialize dst g postDesc name d n = Inl OutOfBounds \<or>
   (\<exists>m. Serialize dst g postDesc name d n = Inr m) \<and> 10 + length name + unat n \<le> length dst"
  by (auto simp: Serialize_def Let_def write_at_def read_at_def split: if_splits)

section \<open>Properties\<close>

text \<open>
  C33: Topic matching. The byte loop decides, for a writer's channel name that ends in NUL,
  whether the names are equal, or the writer posts to descendants and its name is a prefix
  of the reader's, or the reader handles descendants and its name is a prefix of the
  writer's.
\<close>

theorem TopicMatches_correct:
  "TopicMatches readerChannel handleDescendents (writerChannel @ 0 # rest) (length writerChannel) postToDescendents
    \<longleftrightarrow> readerChannel = writerChannel
      \<or> (postToDescendents \<and> prefix writerChannel readerChannel)
      \<or> (handleDescendents \<and> prefix readerChannel writerChannel)"
  using TopicMatches_rel [of writerChannel "writerChannel @ 0 # rest" readerChannel handleDescendents postToDescendents]
  by (simp add: topic_rel_def)

text \<open>
  C34: Round trip of a topic message. A message serialized into a buffer of the size that
  SizeOf computes is deserialized to the same data and size exactly if its generation is
  not below the reader's and the topics match, and is ignored otherwise.
\<close>

theorem Serialize_Deserialize:
  assumes "0 \<notin> set name" "length d = unat n" "10 + length name + unat n < 2 ^ 32"
    and "length dst = unat (SizeOf name n)"
  shows "\<exists>m. Serialize dst g postDesc name d n = Inr m \<and> length m = length dst \<and>
    DeserializeAndFilter m (SizeOf name n) rgen ch handleDesc =
      Inr (if rgen \<le> g \<and> TopicMatches ch handleDesc (name @ [0]) (length name) postDesc then Some (d, n) else None)"
proof -
  have n: "of_nat (length d) = n" by (simp add: assms(2))
  show ?thesis
    using assms Serialize_image [of name d n dst g postDesc]
      Deserialize_image [of name "SizeOf name n" d g postDesc rgen ch handleDesc]
      TopicMatches_rel [of name "name @ [0]" ch handleDesc postDesc]
    by (auto simp: SizeOf_small not_less n)
qed

theorem Serialize_Deserialize_witness:
  "\<exists>m. Serialize (replicate 14 7) 3 False [47, 97] [9, 8] 2 = Inr m \<and> length m = 14 \<and>
    DeserializeAndFilter m (SizeOf [47, 97] 2) 3 [47] True = Inr (Some ([9, 8], 2))"
proof -
  have m: "TopicMatches [47] True ([47, 97] @ [0]) (length [47, 97 :: u8]) False" by code_simp
  have "length (replicate 14 7 :: bytes) = unat (SizeOf [47, 97] 2)" by (simp add: SizeOf_small)
  from Serialize_Deserialize [OF _ _ _ this, of "[9, 8]" 3 False 3 "[47]" True] m
  show ?thesis by simp
qed

text \<open>
  Size overflow. SizeOf is computed modulo 2^32: when name and data together pass that
  bound, the buffer that CreateMessage allocates is too small and Serialize writes past its
  end, whatever the contents.
\<close>

lemma Serialize_overflow:
  assumes "length name < 2 ^ 63" "2 ^ 32 \<le> 10 + length name + unat n"
    and "length dst = unat (SizeOf name n)"
  shows "Serialize dst g postDesc name d n = Inl OutOfBounds"
proof -
  have "unat (SizeOf name n) < 2 ^ 32" using unsigned_less [of "SizeOf name n", where ?'a = nat] by simp
  then show ?thesis using Serialize_cases [of dst g postDesc name d n] assms by auto
qed

lemma Serialize_overflow_witness:
  "length (replicate 9 0 :: bytes) = unat (SizeOf [] (- 1)) \<and>
   Serialize (replicate 9 0) 5 True [] [1, 2] (- 1) = Inl OutOfBounds"
proof -
  have "unat (- 1 :: u32) = 2 ^ 32 - 1" by (simp add: unsigned_minus_1_eq_mask mask_eq_exp_minus_1)
  moreover from this have "length (replicate 9 0 :: bytes) = unat (SizeOf [] (- 1))"
    by (simp add: unat_SizeOf)
  ultimately show ?thesis
    using Serialize_overflow [of "[]" "- 1" "replicate 9 0" 5 True "[1, 2]"] by simp
qed

end
