(* ===== verification/TpReaderInfo.thy ===== *)
theory TpReaderInfo
  imports RmpReaderInfo TopicMsg
begin

text \<open>
  tp/readerInfo.hpp and tp/channelReader.hpp: the shared structure of the topic protocol,
  which adds a generation of readers to the table of the reliable message protocol, and the
  reader of one channel. The handler of a channel reader is the client's: a function on its
  own state that is given the data and its size.
\<close>

record 'm TpReaderInfo =
  readerGen :: reader_gen
  tp_initialized :: bool
  rmpReaderInfo :: "'m ReaderInfo"

text \<open>The three sizes are fixed by the ABI; \<open>sizeof_rmp\<close> is \<open>sizeof(rmpReaderInfo)\<close>.\<close>

definition TpReaderInfo_Size :: "u64 \<Rightarrow> u64 \<Rightarrow> u64 \<Rightarrow> u16 \<Rightarrow> u32" where
  "TpReaderInfo_Size sizeof_self sizeof_rmp sizeof_info maxReaders =
     ucast (sizeof_self + ucast (ReaderInfo_Size sizeof_rmp sizeof_info maxReaders) - sizeof_rmp)"

definition mk_TpReaderInfo :: "'m pthread_api \<Rightarrow> u16 \<Rightarrow> 'm TpReaderInfo result" where
  "mk_TpReaderInfo pt maxReaders =
     map_sum id (\<lambda>ri. \<lparr> readerGen = 0, tp_initialized = True, rmpReaderInfo = ri \<rparr>)
       (mk_ReaderInfo pt maxReaders)"

text \<open>A channel reader is known by its address \<open>cr_id\<close>.\<close>

record 'e ChannelReader =
  cr_id :: nat
  cr_name :: bytes
  cr_handler :: "bytes \<Rightarrow> u32 \<Rightarrow> 'e \<Rightarrow> 'e"
  cr_handleDescendents :: bool
  cr_readerGen :: reader_gen

definition mk_ChannelReader ::
    "nat \<Rightarrow> bytes \<Rightarrow> (bytes \<Rightarrow> u32 \<Rightarrow> 'e \<Rightarrow> 'e) \<Rightarrow> bool \<Rightarrow> reader_gen \<Rightarrow> 'e ChannelReader" where
  "mk_ChannelReader addr name handler handleDescendents gen =
     \<lparr> cr_id = addr, cr_name = name, cr_handler = handler,
       cr_handleDescendents = handleDescendents, cr_readerGen = gen \<rparr>"

text \<open>The size that is allocated for the whole structure is enough for the table it contains.\<close>

lemma ReaderInfo_Size_small:
  assumes "unat sizeof_self + unat n * unat sizeof_info < 2 ^ 32"
  shows "unat (ReaderInfo_Size sizeof_self sizeof_info n) = unat sizeof_self + unat n * unat sizeof_info"
proof -
  have "unat (ucast n * sizeof_info :: u64) = unat n * unat sizeof_info"
    using assms by (simp add: unat_word_ariths)
  then have "unat (sizeof_self + ucast n * sizeof_info) = unat sizeof_self + unat n * unat sizeof_info"
    using assms by (simp add: unat_add_small)
  then show ?thesis using assms by (simp add: ReaderInfo_Size_def unsigned_ucast_eq take_bit_eq_mod)
qed

lemma TpReaderInfo_Size_small:
  assumes "unat sizeof_self + unat n * unat sizeof_info < 2 ^ 32" "unat sizeof_rmp \<le> unat sizeof_self"
  shows "unat (TpReaderInfo_Size sizeof_self sizeof_rmp sizeof_info n) = unat sizeof_self + unat n * unat sizeof_info"
proof -
  let ?r = "ReaderInfo_Size sizeof_rmp sizeof_info n"
  have r: "unat ?r = unat sizeof_rmp + unat n * unat sizeof_info"
    using assms by (intro ReaderInfo_Size_small) simp
  then have "unat (sizeof_self + ucast ?r) = unat sizeof_self + (unat sizeof_rmp + unat n * unat sizeof_info)"
    using assms by (simp add: unat_add_small)
  then have "unat (sizeof_self + ucast ?r - sizeof_rmp) = unat sizeof_self + unat n * unat sizeof_info"
    by (simp add: unat_diff_small)
  then show ?thesis using assms(1) by (simp add: TpReaderInfo_Size_def unsigned_ucast_eq take_bit_eq_mod)
qed

end
