(* ===== verification/MpscQueue.thy ===== *)
theory MpscQueue
  imports Prelude
begin

text \<open>
  traits/concurrent/mpscMessageQueue.hpp: the queue between the threads that post and the one
  thread that writes. Both operations run under the mutex of the queue, so they are atomic
  steps of the state machine below, in which any number of threads enqueue and every drainer
  that Enqueue asked for drains until it gets an empty batch. The locale \<open>drain_queue\<close> is the
  contract the asynchronous writer relies on.
\<close>

section \<open>The contract\<close>

text \<open>
  \<open>contents\<close> is what is queued, \<open>idle\<close> whether the next enqueuer has to start a drainer.
\<close>

locale drain_queue =
  fixes enq :: "'a \<Rightarrow> 'q \<Rightarrow> bool \<times> 'q"
    and drain :: "'q \<Rightarrow> 'a list \<times> 'q"
    and contents :: "'q \<Rightarrow> 'a list"
    and idle :: "'q \<Rightarrow> bool"
  assumes enq_start: "fst (enq x q) = idle q"
    and enq_contents: "contents (snd (enq x q)) = contents q @ [x]"
    and enq_idle: "\<not> idle (snd (enq x q))"
    and drain_all: "fst (drain q) = contents q"
    and drain_contents: "contents (snd (drain q)) = []"
    and drain_idle: "idle (snd (drain q)) \<longleftrightarrow> contents q = []"
begin

text \<open>
  The threads around the queue: how many drainers run, and as ghosts what was ever enqueued
  and what was ever handed to a drainer.
\<close>

inductive life_step :: "'q \<times> nat \<times> 'a list \<times> 'a list \<Rightarrow> 'q \<times> nat \<times> 'a list \<times> 'a list \<Rightarrow> bool" where
  enqueue_step: "enq x q = (start, q') \<Longrightarrow>
    life_step (q, d, ins, outs) (q', if start then d + 1 else d, ins @ [x], outs)"
| drain_step: "0 < d \<Longrightarrow> drain q = (xs, q') \<Longrightarrow>
    life_step (q, d, ins, outs) (q', if xs = [] then d - 1 else d, ins, outs @ xs)"

definition life_inv :: "'q \<times> nat \<times> 'a list \<times> 'a list \<Rightarrow> bool" where
  "life_inv s \<longleftrightarrow> (case s of (q, d, ins, outs) \<Rightarrow>
     d = (if idle q then 0 else 1) \<and> ins = outs @ contents q \<and> (idle q \<longrightarrow> contents q = []))"

lemma life_step_inv:
  assumes "life_step s s'" "life_inv s"
  shows "life_inv s'"
  using assms
proof cases
  case (enqueue_step x q start q' d ins outs)
  have "start = idle q" "contents q' = contents q @ [x]" "\<not> idle q'"
    using enq_start [of x q] enq_contents [of x q] enq_idle [of x q] enqueue_step(3) by simp_all
  then show ?thesis using assms(2) enqueue_step by (auto simp: life_inv_def split: if_splits)
next
  case (drain_step d q xs q' ins outs)
  have "xs = contents q" "contents q' = []" "idle q' \<longleftrightarrow> contents q = []"
    using drain_all [of q] drain_contents [of q] drain_idle [of q] drain_step(4) by simp_all
  then show ?thesis using assms(2) drain_step by (auto simp: life_inv_def split: if_splits)
qed

lemma life_steps_inv: "life_step\<^sup>*\<^sup>* s s' \<Longrightarrow> life_inv s \<Longrightarrow> life_inv s'"
  by (induction rule: rtranclp_induct) (auto intro: life_step_inv)

text \<open>A drainer that nobody disturbs needs two rounds.\<close>

lemma drain_twice: "fst (drain (snd (drain q))) = [] \<and> idle (snd (drain (snd (drain q))))"
  by (simp add: drain_all drain_contents drain_idle)

end

section \<open>The class\<close>

record 'a MPSCMessageQueue =
  mq_queue :: "'a list"
  mq_startDrainer :: bool

definition new_MPSCMessageQueue :: "'a MPSCMessageQueue" where
  "new_MPSCMessageQueue = \<lparr> mq_queue = [], mq_startDrainer = True \<rparr>"

definition Enqueue :: "'a \<Rightarrow> 'a MPSCMessageQueue \<Rightarrow> bool \<times> 'a MPSCMessageQueue" where
  "Enqueue msg mq =
     (let result = mq_startDrainer mq
      in (result, mq\<lparr>mq_startDrainer := False, mq_queue := mq_queue mq @ [msg]\<rparr>))"

definition Drain :: "'a MPSCMessageQueue \<Rightarrow> 'a list \<times> 'a MPSCMessageQueue" where
  "Drain mq =
     (let result = mq_queue mq
      in (result, mq\<lparr>mq_queue := [], mq_startDrainer := (result = [])\<rparr>))"

interpretation mpsc: drain_queue Enqueue Drain mq_queue mq_startDrainer
  by unfold_locales (simp_all add: Enqueue_def Drain_def Let_def)

section \<open>Any number of threads\<close>

datatype 'a mpsc_action = Produce 'a | DrainOnce

record 'a mpsc_world =
  mw_queue :: "'a MPSCMessageQueue"
  mw_drainers :: nat
  mw_enqueued :: "'a list"
  mw_drained :: "'a list"

definition new_mpsc_world :: "'a mpsc_world" where
  "new_mpsc_world = \<lparr> mw_queue = new_MPSCMessageQueue, mw_drainers = 0, mw_enqueued = [], mw_drained = [] \<rparr>"

text \<open>A drainer runs only if an Enqueue asked for it, and exits on an empty batch.\<close>

fun mpsc_step :: "'a mpsc_action \<Rightarrow> 'a mpsc_world \<Rightarrow> 'a mpsc_world option" where
  "mpsc_step (Produce x) w =
     (case Enqueue x (mw_queue w) of (start, q) \<Rightarrow>
        Some (w\<lparr>mw_queue := q, mw_enqueued := mw_enqueued w @ [x],
                mw_drainers := (if start then mw_drainers w + 1 else mw_drainers w)\<rparr>))"
| "mpsc_step DrainOnce w =
     (if mw_drainers w = 0 then None
      else (case Drain (mw_queue w) of (xs, q) \<Rightarrow>
        Some (w\<lparr>mw_queue := q, mw_drained := mw_drained w @ xs,
                mw_drainers := (if xs = [] then mw_drainers w - 1 else mw_drainers w)\<rparr>)))"

fun mpsc_run :: "'a mpsc_action list \<Rightarrow> 'a mpsc_world \<Rightarrow> 'a mpsc_world option" where
  "mpsc_run [] w = Some w"
| "mpsc_run (a # as) w = (case mpsc_step a w of None \<Rightarrow> None | Some w' \<Rightarrow> mpsc_run as w')"

definition mpsc_view ::
    "'a mpsc_world \<Rightarrow> 'a MPSCMessageQueue \<times> nat \<times> 'a list \<times> 'a list" where
  "mpsc_view w = (mw_queue w, mw_drainers w, mw_enqueued w, mw_drained w)"

lemma mpsc_step_life: "mpsc_step a w = Some w' \<Longrightarrow> mpsc.life_step (mpsc_view w) (mpsc_view w')"
proof (cases a)
  case (Produce x)
  assume "mpsc_step a w = Some w'"
  then show ?thesis
    using mpsc.enqueue_step [of x "mw_queue w" _ _ "mw_drainers w" "mw_enqueued w" "mw_drained w"] Produce
    by (force simp: mpsc_view_def split: prod.splits)
next
  case DrainOnce
  assume "mpsc_step a w = Some w'"
  then show ?thesis
    using mpsc.drain_step [of "mw_drainers w" "mw_queue w" _ _ "mw_enqueued w" "mw_drained w"] DrainOnce
    by (force simp: mpsc_view_def split: prod.splits if_splits)
qed

lemma mpsc_run_life: "mpsc_run as w = Some w' \<Longrightarrow> mpsc.life_step\<^sup>*\<^sup>* (mpsc_view w) (mpsc_view w')"
  by (induction as arbitrary: w)
    (auto split: option.splits intro: converse_rtranclp_into_rtranclp dest: mpsc_step_life)

section \<open>Properties\<close>

text \<open>
  C26: Life cycle of the drainer. Whatever the threads do, at most one drainer runs, it runs
  exactly while the queue is not idle, so a queued message always has a drainer, and the
  messages drained and queued together are exactly those enqueued, in order: none is lost,
  duplicated or reordered.
\<close>

theorem mpsc_lifecycle:
  assumes "mpsc_run as new_mpsc_world = Some w"
  shows "mw_drainers w = (if mq_startDrainer (mw_queue w) then 0 else 1)
    \<and> mw_enqueued w = mw_drained w @ mq_queue (mw_queue w)
    \<and> (mq_queue (mw_queue w) \<noteq> [] \<longrightarrow> mw_drainers w = 1)"
  using mpsc.life_steps_inv [OF mpsc_run_life [OF assms]]
  by (auto simp: mpsc_view_def new_mpsc_world_def new_MPSCMessageQueue_def mpsc.life_inv_def split: if_splits)

theorem mpsc_lifecycle_witness:
  "\<exists>w. mpsc_run [Produce (1::nat), Produce 2, DrainOnce, Produce 3] new_mpsc_world = Some w
    \<and> mw_drainers w = 1 \<and> mw_enqueued w = mw_drained w @ mq_queue (mw_queue w)"
proof -
  obtain w where w: "mpsc_run [Produce (1::nat), Produce 2, DrainOnce, Produce 3] new_mpsc_world = Some w"
      "mq_queue (mw_queue w) \<noteq> []"
    by (simp add: Enqueue_def Drain_def Let_def new_mpsc_world_def new_MPSCMessageQueue_def)
  from mpsc_lifecycle [OF w(1)] w show ?thesis by auto
qed

end
