(* ===== verification/AsyncWriter.thy ===== *)
theory AsyncWriter
  imports RmpWriter TpReaderInfo MpscQueue
begin

text \<open>
  tp/asyncWriter.hpp: topic messages are created and posted by any thread and written to the
  ring buffer by ProcWriter, which runs as work of its own. The queue, the work queue, the
  backpressure handler and the notification are functions the client passes in; they are
  fields of the writer object here. The queue is used through the contract \<open>drain_queue\<close>.
\<close>

section \<open>The writer object and its operations\<close>

record ('m, 'q, 'e) AsyncWriter =
  aw_rbWriter :: Writer
  aw_enqueueMsgFn :: "bytes \<Rightarrow> 'q \<Rightarrow> bool \<times> 'q"
  aw_drainMsgFn :: "'q \<Rightarrow> bytes list \<times> 'q"
  aw_backpressureFn :: "('m, 'e) bp_handler"
  aw_notifyAllReaders :: "'m ReaderInfo \<times> 'e \<Rightarrow> 'm ReaderInfo \<times> 'e"

text \<open>What the operations change: the queue, the shared structures, the client's state.\<close>

record ('m, 'q, 'e) writer_world =
  ww_queue :: 'q
  ww_rb :: "'m ByteRingBuffer"
  ww_ri :: "'m ReaderInfo"
  ww_env :: 'e

definition mk_AsyncWriter ::
    "'m ByteRingBuffer \<Rightarrow> (bytes \<Rightarrow> 'q \<Rightarrow> bool \<times> 'q) \<Rightarrow> ('q \<Rightarrow> bytes list \<times> 'q)
     \<Rightarrow> ('m, 'e) bp_handler \<Rightarrow> ('m ReaderInfo \<times> 'e \<Rightarrow> 'm ReaderInfo \<times> 'e)
     \<Rightarrow> ('m, 'q, 'e) AsyncWriter result" where
  "mk_AsyncWriter rb enqueueMsgFn drainMsgFn backPressureFn notifyAllReadersFn =
     map_sum id (\<lambda>w. \<lparr> aw_rbWriter = w, aw_enqueueMsgFn = enqueueMsgFn, aw_drainMsgFn = drainMsgFn,
       aw_backpressureFn = backPressureFn, aw_notifyAllReaders = notifyAllReadersFn \<rparr>) (mk_Writer rb)"

definition CreateMessage ::
    "'m ByteRingBuffer \<Rightarrow> reader_gen \<Rightarrow> bytes \<Rightarrow> bytes \<Rightarrow> u64 \<Rightarrow> bool \<Rightarrow> bytes result" where
  "CreateMessage rb gen channelName msg msgLen postToDescendants =
     (if msgLen = 0 then Inl Assertion
      else let topicMsgLen = ucast (SizeOf channelName (ucast msgLen)) :: u64 in
        if GetMaxMessageSize rb < topicMsgLen
        then Inl (Thrown ''Message size exceeds ringbuffer size'')
        else Serialize (replicate (unat topicMsgLen) 0) gen postToDescendants channelName msg (ucast msgLen))"

text \<open>The answer of \<open>Post\<close> is whether ProcWriter was handed to the work queue.\<close>

definition Post ::
    "('m, 'q, 'e) AsyncWriter \<Rightarrow> bytes \<Rightarrow> ('m, 'q, 'e) writer_world \<Rightarrow> (bool \<times> ('m, 'q, 'e) writer_world) result" where
  "Post aw rbMsg w =
     (if \<not> (of_nat (length rbMsg) :: u64) < GetMaxMessageSize (ww_rb w) then Inl Assertion
      else case aw_enqueueMsgFn aw rbMsg (ww_queue w) of (start, q) \<Rightarrow> Inr (start, w\<lparr>ww_queue := q\<rparr>))"

text \<open>
  The handler that ProcWriter gives to WriteEx. Its increments of \<open>stats.notificationCount\<close>
  are counted beside the client's state and put back into the ring buffer after the write,
  which does not look at the counter.
\<close>

definition bpWrapper :: "('m, 'q, 'e) AsyncWriter \<Rightarrow> ('m, 'e \<times> u64) bp_handler" where
  "bpWrapper aw bpPos free s =
     (case s of (ri, env, count) \<Rightarrow>
       (case aw_notifyAllReaders aw (ri, env) of (ri1, env1) \<Rightarrow>
         (case aw_backpressureFn aw bpPos free (ri1, env1) of (continueRunning, ri2, env2) \<Rightarrow>
           (continueRunning, ri2, env2, count + 1))))"

fun write_batch ::
    "'m pthread_api \<Rightarrow> tid \<Rightarrow> ('m, 'q, 'e) AsyncWriter \<Rightarrow> bytes list \<Rightarrow> ('m, 'q, 'e) writer_world
     \<Rightarrow> ('m, 'q, 'e) writer_world result option" where
  "write_batch pt t aw [] w = Some (Inr w)"
| "write_batch pt t aw (msg # msgs) w =
     (case WriteEx pt t (bpWrapper aw) (aw_rbWriter aw) msg (of_nat (length msg))
             (ww_rb w, ww_ri w, ww_env w, notificationCount (ww_rb w)) of
        None \<Rightarrow> None
      | Some (Inl e) \<Rightarrow> Some (Inl e)
      | Some (Inr (rb, ri, env, count)) \<Rightarrow>
          write_batch pt t aw msgs
            (w\<lparr>ww_rb := rb\<lparr>notificationCount := count\<rparr>, ww_ri := ri, ww_env := env\<rparr>))"

definition notify_end :: "('m, 'q, 'e) AsyncWriter \<Rightarrow> ('m, 'q, 'e) writer_world \<Rightarrow> ('m, 'q, 'e) writer_world" where
  "notify_end aw w =
     (case aw_notifyAllReaders aw (ww_ri w, ww_env w) of (ri, env) \<Rightarrow>
        w\<lparr>ww_rb := (ww_rb w)\<lparr>notificationCount := notificationCount (ww_rb w) + 1\<rparr>,
          ww_ri := ri, ww_env := env\<rparr>)"

partial_function (option) ProcWriter ::
    "'m pthread_api \<Rightarrow> tid \<Rightarrow> ('m, 'q, 'e) AsyncWriter \<Rightarrow> ('m, 'q, 'e) writer_world
     \<Rightarrow> ('m, 'q, 'e) writer_world result option" where
  "ProcWriter pt t aw w =
     (case aw_drainMsgFn aw (ww_queue w) of (queueCopy, q) \<Rightarrow>
        (let w1 = w\<lparr>ww_queue := q\<rparr> in
         if queueCopy = [] then Some (Inr (notify_end aw w1))
         else (case write_batch pt t aw queueCopy w1 of
                 None \<Rightarrow> None
               | Some (Inl e) \<Rightarrow> Some (Inl e)
               | Some (Inr w2) \<Rightarrow> ProcWriter pt t aw w2)))"

declare ProcWriter.simps [code]

section \<open>What a batch puts on the stream\<close>

fun batch_segments :: "u64 \<Rightarrow> position \<Rightarrow> bytes list \<Rightarrow> segment list" where
  "batch_segments B f [] = []"
| "batch_segments B f (d # ds) =
     write_segments B f d @ batch_segments B (f + of_nat (total (write_segments B f d))) ds"

lemma messages_batch_segments [simp]: "messages (batch_segments B f ds) = ds"
  by (induction ds arbitrary: f) simp_all

lemma batch_segments_append:
  "batch_segments B f (ds @ es) =
     batch_segments B f ds @ batch_segments B (f + of_nat (total (batch_segments B f ds))) es"
  by (induction ds arbitrary: f) (simp_all add: add.assoc)

text \<open>
  The ring after the batch: geometry as before, the stream extended by the messages in order.
\<close>

definition batch_stored :: "'m ByteRingBuffer \<Rightarrow> bytes list \<Rightarrow> 'm ByteRingBuffer \<Rightarrow> bool" where
  "batch_stored rb ds rb' \<longleftrightarrow>
     configBufSizeBytes rb' = configBufSizeBytes rb \<and> rb_initialized rb' = rb_initialized rb \<and>
     freePos rb' = freePos rb + of_nat (total (batch_segments (configBufSizeBytes rb) (freePos rb) ds)) \<and>
     extends (configBufSizeBytes rb) (rb_data rb) (freePos rb)
       (batch_segments (configBufSizeBytes rb) (freePos rb) ds) (rb_data rb')"

lemma batch_stored_Nil: "batch_stored rb [] rb"
  by (simp add: batch_stored_def extends_Nil)

lemma batch_stored_append:
  assumes "batch_stored rb ds rb1" "batch_stored rb1 es rb2"
  shows "batch_stored rb (ds @ es) rb2"
  using assms extends_trans [of "configBufSizeBytes rb" "rb_data rb" "freePos rb" _ "rb_data rb1" _ "rb_data rb2"]
  by (auto simp: batch_stored_def batch_segments_append add.assoc)

lemma batch_stored_notified [simp]:
  "batch_stored (rb\<lparr>notificationCount := c\<rparr>) ds rb' = batch_stored rb ds rb'"
  "batch_stored rb ds (rb'\<lparr>notificationCount := c\<rparr>) = batch_stored rb ds rb'"
  by (simp_all add: batch_stored_def)

lemma written_free_batch: "written_free view rb d rb' \<Longrightarrow> batch_stored rb [d] rb'"
proof -
  assume "written_free view rb d rb'"
  then obtain c m where st: "stored_write (rb\<lparr>writerMtx := m, backPressureCount := c\<rparr>) d (rb'\<lparr>writerMtx := m\<rparr>)"
    by (auto simp: written_free_def)
  have "configBufSizeBytes rb' = configBufSizeBytes rb" "rb_initialized rb' = rb_initialized rb"
    using stored_write_frame(1,3) [OF st] by simp_all
  moreover obtain m' where "rb'\<lparr>writerMtx := m\<rparr> = rb\<lparr>writerMtx := m, backPressureCount := c, rb_data := m',
      freePos := freePos rb + of_nat (total (write_segments (configBufSizeBytes rb) (freePos rb) d))\<rparr>"
      and "extends (configBufSizeBytes rb) (rb_data rb) (freePos rb)
        (write_segments (configBufSizeBytes rb) (freePos rb) d) m'"
    using st by (auto simp: stored_write_def)
  then have "freePos rb' = freePos rb + of_nat (total (write_segments (configBufSizeBytes rb) (freePos rb) d))"
      "extends (configBufSizeBytes rb) (rb_data rb) (freePos rb)
        (write_segments (configBufSizeBytes rb) (freePos rb) d) (rb_data rb')"
    by (auto dest: arg_cong [where f = freePos] arg_cong [where f = rb_data])
  ultimately show ?thesis by (simp add: batch_stored_def)
qed

section \<open>A batch of messages of one length that does not reach the end of the buffer\<close>

lemma batch_segments_equal:
  assumes "good_size B" "index_of B f + length ms * (5 + n) \<le> unat B" "\<And>m. m \<in> set ms \<Longrightarrow> length m = n"
  shows "batch_segments B f ms = map Msg ms"
  using assms(2,3)
proof (induction ms arbitrary: f)
  case Nil
  then show ?case by simp
next
  case (Cons m ms)
  have m: "length m = n" using Cons.prems(2) by simp
  have "filler B f (length m) = []" using Cons.prems(1) m by (simp add: filler_def Let_def)
  then have w: "write_segments B f m = [Msg m]" by (simp add: write_segments_def)
  show ?case
  proof (cases "ms = []")
    case True
    then show ?thesis using w by simp
  next
    case False
    have "unat (of_nat (5 + n) :: u64) = 5 + n"
      using Cons.prems(1) good_size_bounds(2) [OF assms(1)] by (intro unat_of_nat_small) simp
    moreover have "index_of B f + (5 + n) < unat B"
      using Cons.prems(1) False by (cases ms) auto
    ultimately have "index_of B (f + of_nat (5 + n)) = index_of B f + (5 + n)"
      using index_of_add [OF assms(1), of f "of_nat (5 + n)"] by simp
    then show ?thesis using w m Cons.IH [of "f + of_nat (5 + n)"] Cons.prems by (simp add: algebra_simps)
  qed
qed

lemma total_map_Msg: "(\<And>m. m \<in> set ms \<Longrightarrow> length m = n) \<Longrightarrow> total (map Msg ms) = length ms * (5 + n)"
  by (induction ms) simp_all

section \<open>ProcWriter returns\<close>

text \<open>The writer of a world, and a state in which it can take the writer mutex.\<close>

definition world_ok :: "('m \<Rightarrow> mutex_view) \<Rightarrow> ('m, 'q, 'e) AsyncWriter \<Rightarrow> ('m, 'q, 'e) writer_world \<Rightarrow> bool" where
  "world_ok view aw w \<longleftrightarrow>
     writer_ok (aw_rbWriter aw) (ww_rb w) \<and> ri_inv (ww_ri w) \<and>
     settled (view (writerMtx (ww_rb w))) \<and> holder_of (view (writerMtx (ww_rb w))) = None"

definition message_fits :: "u64 \<Rightarrow> bytes \<Rightarrow> bool" where
  "message_fits B msg \<longleftrightarrow> length msg + 5 \<le> unat B"

text \<open>What the client's callbacks promise: they keep the reader table, and they give up.\<close>

definition notify_keeps :: "('m ReaderInfo \<times> 'e \<Rightarrow> 'm ReaderInfo \<times> 'e) \<Rightarrow> bool" where
  "notify_keeps f \<longleftrightarrow> (\<forall>ri env. ri_inv ri \<longrightarrow> ri_inv (fst (f (ri, env))))"

definition gives_up :: "('m, 'q, 'e) AsyncWriter \<Rightarrow> ('m ReaderInfo \<times> 'e \<Rightarrow> nat) \<Rightarrow> bool" where
  "gives_up aw \<mu> \<longleftrightarrow> (\<forall>p f ri env ri' env'.
     aw_backpressureFn aw p f (aw_notifyAllReaders aw (ri, env)) = (True, ri', env') \<longrightarrow> \<mu> (ri', env') < \<mu> (ri, env))"

lemma bpWrapper_keeps:
  fixes aw :: "('m, 'q, 'e) AsyncWriter"
  assumes "notify_keeps (aw_notifyAllReaders aw)" "handler_keeps (aw_backpressureFn aw)"
  shows "handler_keeps (bpWrapper aw)"
  unfolding handler_keeps_def
proof (intro allI impI)
  fix p f and ri :: "'m ReaderInfo" and ec :: "'e \<times> u64"
  assume ri: "ri_inv ri"
  obtain env c where ec: "ec = (env, c)" by fastforce
  obtain ri1 env1 where n: "aw_notifyAllReaders aw (ri, env) = (ri1, env1)" by fastforce
  then have "ri_inv ri1" using assms(1) ri unfolding notify_keeps_def by (metis fst_conv)
  moreover obtain b ri2 env2 where "aw_backpressureFn aw p f (ri1, env1) = (b, ri2, env2)" by (metis prod_cases3)
  ultimately show "ri_inv (fst (snd (bpWrapper aw p f (ri, ec))))"
    using n handler_keepsD [OF assms(2)] by (simp add: bpWrapper_def ec)
qed

lemma bpWrapper_decreases:
  assumes "gives_up aw \<mu>" "bpWrapper aw p f (ri, ec) = (True, ri', ec')"
  shows "\<mu> (ri', fst ec') < \<mu> (ri, fst ec)"
  using assms unfolding gives_up_def
  by (cases ec) (auto simp: bpWrapper_def split: prod.splits)

context robust_pthread
begin

lemma write_one:
  fixes aw :: "('m, 'q, 'e) AsyncWriter"
  assumes cb: "notify_keeps (aw_notifyAllReaders aw)" "handler_keeps (aw_backpressureFn aw)" "gives_up aw \<mu>"
    and w: "world_ok view aw w" and fits: "message_fits (configBufSizeBytes (ww_rb w)) msg"
  shows "\<exists>rb ri env c. WriteEx pt t (bpWrapper aw) (aw_rbWriter aw) msg (of_nat (length msg))
        (ww_rb w, ww_ri w, ww_env w, notificationCount (ww_rb w)) = Some (Inr (rb, ri, env, c))
    \<and> batch_stored (ww_rb w) [msg] rb
    \<and> world_ok view aw (w\<lparr>ww_rb := rb\<lparr>notificationCount := c\<rparr>, ww_ri := ri, ww_env := env\<rparr>)"
proof -
  have wr: "writer_ok (aw_rbWriter aw) (ww_rb w)" and ri: "ri_inv (ww_ri w)"
    and mtx: "settled (view (writerMtx (ww_rb w)))" "holder_of (view (writerMtx (ww_rb w))) = None"
    using w by (auto simp: world_ok_def)
  then have ok: "rb_ok (ww_rb w)" by (simp add: writer_ok_def)
  have len: "unat (of_nat (length msg) :: u32) = length msg"
    using fits good_size_bounds(2) [OF rb_ok_good_size [OF ok]]
    by (intro unat_of_nat_small) (simp add: message_fits_def)
  have max: "ucast (of_nat (length msg) :: u32) \<le> GetMaxMessageSize (ww_rb w)"
    using fits unat_GetMaxMessageSize [OF ok] by (simp add: word_le_nat_alt len message_fits_def)
  have "\<exists>rb' ri' ec'. WriteEx pt t (bpWrapper aw) (aw_rbWriter aw) msg (of_nat (length msg))
        (ww_rb w, ww_ri w, ww_env w, notificationCount (ww_rb w)) = Some (Inr (rb', ri', ec'))
      \<and> written_free view (ww_rb w) (take (unat (of_nat (length msg) :: u32)) msg) rb' \<and> ri_inv ri'"
    by (rule WriteEx_returns [where \<mu> = "\<lambda>(ri, ec). \<mu> (ri, fst ec)"])
      (use bpWrapper_keeps [OF cb(1,2)] bpWrapper_decreases [OF cb(3)] wr max len ri mtx in auto)
  then obtain rb ri' env c where ex: "WriteEx pt t (bpWrapper aw) (aw_rbWriter aw) msg (of_nat (length msg))
        (ww_rb w, ww_ri w, ww_env w, notificationCount (ww_rb w)) = Some (Inr (rb, ri', env, c))"
      and wf: "written_free view (ww_rb w) msg rb" and ri': "ri_inv ri'"
    by (auto simp: len)
  from wf obtain n m where st: "stored_write ((ww_rb w)\<lparr>writerMtx := m, backPressureCount := n\<rparr>) msg (rb\<lparr>writerMtx := m\<rparr>)"
      and free: "view (writerMtx rb) = Free"
    by (auto simp: written_free_def)
  have "writer_ok (aw_rbWriter aw) (rb\<lparr>notificationCount := c\<rparr>)"
    using stored_write_frame(8) [OF st, of "aw_rbWriter aw"] wr by (simp add: writer_ok_def rb_ok_def)
  then have "world_ok view aw (w\<lparr>ww_rb := rb\<lparr>notificationCount := c\<rparr>, ww_ri := ri', ww_env := env\<rparr>)"
    using ri' free by (simp add: world_ok_def)
  with ex written_free_batch [OF wf] show ?thesis by blast
qed

lemma write_batch_returns:
  fixes aw :: "('m, 'q, 'e) AsyncWriter"
  assumes cb: "notify_keeps (aw_notifyAllReaders aw)" "handler_keeps (aw_backpressureFn aw)" "gives_up aw \<mu>"
    and "world_ok view aw w" "\<And>msg. msg \<in> set msgs \<Longrightarrow> message_fits (configBufSizeBytes (ww_rb w)) msg"
  shows "\<exists>w'. write_batch pt t aw msgs w = Some (Inr w') \<and> world_ok view aw w'
    \<and> batch_stored (ww_rb w) msgs (ww_rb w') \<and> ww_queue w' = ww_queue w"
  using assms(4,5)
proof (induction msgs arbitrary: w)
  case Nil
  then show ?case by (simp add: batch_stored_Nil)
next
  case (Cons msg msgs)
  obtain rb ri env c where ex: "WriteEx pt t (bpWrapper aw) (aw_rbWriter aw) msg (of_nat (length msg))
        (ww_rb w, ww_ri w, ww_env w, notificationCount (ww_rb w)) = Some (Inr (rb, ri, env, c))"
      and st: "batch_stored (ww_rb w) [msg] rb"
      and ok: "world_ok view aw (w\<lparr>ww_rb := rb\<lparr>notificationCount := c\<rparr>, ww_ri := ri, ww_env := env\<rparr>)"
      (is "world_ok view aw ?w")
    using write_one [OF cb Cons.prems(1)] Cons.prems(2) by (metis list.set_intros(1))
  have B: "configBufSizeBytes (ww_rb ?w) = configBufSizeBytes (ww_rb w)" using st by (simp add: batch_stored_def)
  have "\<exists>w'. write_batch pt t aw msgs ?w = Some (Inr w') \<and> world_ok view aw w'
      \<and> batch_stored (ww_rb ?w) msgs (ww_rb w') \<and> ww_queue w' = ww_queue ?w"
    using Cons.prems(2) by (intro Cons.IH [OF ok]) (simp add: B [simplified])
  then obtain w' where w': "write_batch pt t aw msgs ?w = Some (Inr w')" "world_ok view aw w'"
      "batch_stored rb msgs (ww_rb w')" "ww_queue w' = ww_queue w"
    by auto
  then show ?case using ex batch_stored_append [OF st w'(3)] by auto
qed

end

text \<open>ProcWriter over any queue that keeps the contract and any robust mutex.\<close>

locale async_writer = robust_pthread pt view + drain_queue enq drain contents idle
  for pt :: "'m pthread_api" and view :: "'m \<Rightarrow> mutex_view"
    and enq :: "bytes \<Rightarrow> 'q \<Rightarrow> bool \<times> 'q" and drain :: "'q \<Rightarrow> bytes list \<times> 'q"
    and contents :: "'q \<Rightarrow> bytes list" and idle :: "'q \<Rightarrow> bool"
begin

lemma ProcWriter_empty:
  assumes "aw_drainMsgFn aw = drain" "contents (ww_queue w) = []"
  shows "ProcWriter pt t aw w = Some (Inr (notify_end aw (w\<lparr>ww_queue := snd (drain (ww_queue w))\<rparr>)))"
  using assms drain_all [of "ww_queue w"]
  by (subst ProcWriter.simps) (cases "drain (ww_queue w)", simp)

lemma notify_end_ok:
  assumes "notify_keeps (aw_notifyAllReaders aw)" "world_ok view aw w"
  shows "world_ok view aw (notify_end aw w)" "ww_queue (notify_end aw w) = ww_queue w"
    "batch_stored (ww_rb w) [] (ww_rb (notify_end aw w))"
proof -
  obtain ri env where n: "aw_notifyAllReaders aw (ww_ri w, ww_env w) = (ri, env)" by fastforce
  then have "ri_inv ri" using assms unfolding notify_keeps_def world_ok_def by (metis fst_conv)
  then show "world_ok view aw (notify_end aw w)" "ww_queue (notify_end aw w) = ww_queue w"
    "batch_stored (ww_rb w) [] (ww_rb (notify_end aw w))"
    using assms(2) n
    by (simp_all add: world_ok_def notify_end_def writer_ok_def rb_ok_def batch_stored_def extends_Nil)
qed

lemma world_ok_queue [simp]: "world_ok view aw (w\<lparr>ww_queue := q\<rparr>) = world_ok view aw w"
  by (simp add: world_ok_def)

lemma ProcWriter_returns:
  assumes q: "aw_drainMsgFn aw = drain"
    and cb: "notify_keeps (aw_notifyAllReaders aw)" "handler_keeps (aw_backpressureFn aw)" "gives_up aw \<mu>"
    and w: "world_ok view aw w"
    and fits: "\<And>msg. msg \<in> set (contents (ww_queue w)) \<Longrightarrow> message_fits (configBufSizeBytes (ww_rb w)) msg"
  shows "\<exists>w'. ProcWriter pt t aw w = Some (Inr w') \<and> world_ok view aw w'
    \<and> batch_stored (ww_rb w) (contents (ww_queue w)) (ww_rb w') \<and> contents (ww_queue w') = [] \<and> idle (ww_queue w')"
proof (cases "contents (ww_queue w) = []")
  case True
  then show ?thesis
    using ProcWriter_empty [OF q True, of t] notify_end_ok [OF cb(1), of "w\<lparr>ww_queue := snd (drain (ww_queue w))\<rparr>"] w
      drain_contents [of "ww_queue w"] drain_idle [of "ww_queue w"]
    by auto
next
  case False
  let ?w1 = "w\<lparr>ww_queue := snd (drain (ww_queue w))\<rparr>"
  obtain w2 where wb: "write_batch pt t aw (contents (ww_queue w)) ?w1 = Some (Inr w2)" and w2: "world_ok view aw w2"
      and st: "batch_stored (ww_rb w) (contents (ww_queue w)) (ww_rb w2)"
      and q2: "ww_queue w2 = snd (drain (ww_queue w))"
    using write_batch_returns [OF cb, of ?w1 "contents (ww_queue w)"] w fits by auto
  have step: "ProcWriter pt t aw w = ProcWriter pt t aw w2"
    using False wb drain_all [of "ww_queue w"] q by (subst ProcWriter.simps) (cases "drain (ww_queue w)", simp)
  have c2: "contents (ww_queue w2) = []" by (simp add: q2 drain_contents)
  let ?w3 = "w2\<lparr>ww_queue := snd (drain (ww_queue w2))\<rparr>"
  have w3: "world_ok view aw ?w3" using w2 by simp
  have "batch_stored (ww_rb w) (contents (ww_queue w)) (ww_rb (notify_end aw ?w3))"
    using batch_stored_append [OF st, of "[]" "ww_rb (notify_end aw ?w3)"] notify_end_ok(3) [OF cb(1) w3] by simp
  then show ?thesis
    using ProcWriter_empty [OF q c2, of t] notify_end_ok(1,2) [OF cb(1) w3] c2
      drain_contents [of "ww_queue w2"] drain_idle [of "ww_queue w2"]
    by (auto simp: step)
qed

end

interpretation posix_writer: async_writer posix_pthread id Enqueue Drain mq_queue mq_startDrainer
  by unfold_locales

text \<open>Posting several messages; the count is how often ProcWriter was handed to the work queue.\<close>

fun post_all ::
    "('m, 'q, 'e) AsyncWriter \<Rightarrow> bytes list \<Rightarrow> ('m, 'q, 'e) writer_world \<Rightarrow> (nat \<times> ('m, 'q, 'e) writer_world) result" where
  "post_all aw [] w = Inr (0, w)"
| "post_all aw (msg # msgs) w =
     (case Post aw msg w of
        Inl e \<Rightarrow> Inl e
      | Inr (start, w1) \<Rightarrow> map_sum id (\<lambda>(n, w2). ((if start then 1 else 0) + n, w2)) (post_all aw msgs w1))"

lemma Post_fits:
  assumes "rb_ok (ww_rb w)" "length msg + 5 < unat (configBufSizeBytes (ww_rb w))" "aw_enqueueMsgFn aw = Enqueue"
  shows "Post aw msg w = Inr (mq_startDrainer (ww_queue w),
    w\<lparr>ww_queue := \<lparr> mq_queue = mq_queue (ww_queue w) @ [msg], mq_startDrainer = False \<rparr>\<rparr>)"
proof -
  have "length msg < 2 ^ 64"
    using assms(2) good_size_bounds(2) [OF rb_ok_good_size [OF assms(1)]] by simp
  then have "(of_nat (length msg) :: u64) < GetMaxMessageSize (ww_rb w)"
    using assms(2) unat_GetMaxMessageSize [OF assms(1)] by (simp add: word_less_nat_alt unat_of_nat_small)
  then show ?thesis
    using assms(3) by (cases "ww_queue w") (simp add: Post_def Enqueue_def)
qed

lemma post_all_fits:
  assumes "rb_ok (ww_rb w)" "\<And>msg. msg \<in> set msgs \<Longrightarrow> length msg + 5 < unat (configBufSizeBytes (ww_rb w))"
    and "aw_enqueueMsgFn aw = Enqueue"
  shows "post_all aw msgs w = Inr (if msgs \<noteq> [] \<and> mq_startDrainer (ww_queue w) then 1 else 0,
    w\<lparr>ww_queue := \<lparr> mq_queue = mq_queue (ww_queue w) @ msgs,
        mq_startDrainer = (mq_startDrainer (ww_queue w) \<and> msgs = []) \<rparr>\<rparr>)"
  using assms(1,2)
proof (induction msgs arbitrary: w)
  case Nil
  then show ?case by (cases "ww_queue w") simp
next
  case (Cons msg msgs)
  have "Post aw msg w = Inr (mq_startDrainer (ww_queue w),
      w\<lparr>ww_queue := \<lparr> mq_queue = mq_queue (ww_queue w) @ [msg], mq_startDrainer = False \<rparr>\<rparr>)" (is "_ = Inr (_, ?w)")
    using Cons.prems assms(3) by (intro Post_fits) simp_all
  moreover have "post_all aw msgs ?w = Inr (if msgs \<noteq> [] \<and> mq_startDrainer (ww_queue ?w) then 1 else 0,
      ?w\<lparr>ww_queue := \<lparr> mq_queue = mq_queue (ww_queue ?w) @ msgs,
        mq_startDrainer = (mq_startDrainer (ww_queue ?w) \<and> msgs = []) \<rparr>\<rparr>)"
    using Cons.prems by (intro Cons.IH) simp_all
  ultimately show ?case by simp
qed

section \<open>Properties\<close>

lemma CreateMessage_image:
  assumes rb: "rb_ok rb" and name: "0 \<notin> set name" and msg: "unat msgLen = length msg" "msg \<noteq> []"
    and small: "10 + length name + length msg < 2 ^ 32"
  shows "CreateMessage rb gen name msg msgLen postDesc =
    (if unat (configBufSizeBytes rb) < 15 + length name + length msg
     then Inl (Thrown ''Message size exceeds ringbuffer size'')
     else Inr (topic_image gen postDesc name msg))"
proof -
  have nz: "msgLen \<noteq> 0" using msg by auto
  have len: "unat (ucast msgLen :: u32) = length msg"
    using msg(1) small by (simp add: unsigned_ucast_eq take_bit_eq_mod)
  have sz: "unat (ucast (SizeOf name (ucast msgLen)) :: u64) = 10 + length name + length msg"
    using small len by (simp add: SizeOf_small)
  have big: "GetMaxMessageSize rb < ucast (SizeOf name (ucast msgLen)) \<longleftrightarrow>
      unat (configBufSizeBytes rb) < 15 + length name + length msg"
    using good_size_bounds(1) [OF rb_ok_good_size [OF rb]]
    by (auto simp: word_less_nat_alt sz unat_GetMaxMessageSize [OF rb])
  have "Serialize (replicate (10 + length name + length msg) 0) gen postDesc name msg (ucast msgLen)
      = Inr (topic_image gen postDesc name msg)"
    by (rule Serialize_image [OF name]) (simp_all add: len)
  then show ?thesis using nz by (simp only: CreateMessage_def Let_def big sz if_False)
qed

text \<open>
  Creating a message. For a channel name without NUL and non-empty data whose sizes do
  not overflow 32 bits, CreateMessage throws if the whole message does not fit in the ring
  buffer beside its header, and otherwise returns its exact binary image.
\<close>

lemma CreateMessage_correct:
  assumes "rb_ok rb" "0 \<notin> set name" "unat msgLen = length msg" "msg \<noteq> []"
    and "10 + length name + length msg < 2 ^ 32"
  shows "CreateMessage rb gen name msg msgLen postDesc =
    (if unat (configBufSizeBytes rb) - 5 < 10 + length name + length msg
     then Inl (Thrown ''Message size exceeds ringbuffer size'')
     else Inr (le_bytes 8 gen @ [if postDesc then 1 else 0] @ name @ [0] @ msg))"
  using CreateMessage_image [OF assms] good_size_bounds(1) [OF rb_ok_good_size [OF assms(1)]]
  by (auto simp: topic_image_def)

lemma CreateMessage_correct_witness:
  "CreateMessage ring_32 0 [97] [1, 2] 2 True = Inr (le_bytes 8 (0 :: u64) @ [1] @ [97] @ [0] @ [1, 2]) \<and>
   CreateMessage ring_32 0 [97] (replicate 20 1) 20 True = Inl (Thrown ''Message size exceeds ringbuffer size'')"
  using CreateMessage_correct [OF ring_32_ok, of "[97]" 2 "[1, 2]" 0 True]
    CreateMessage_correct [OF ring_32_ok, of "[97]" 20 "replicate 20 1" 0 True]
  by (simp add: ring_32_def)

text \<open>
  Silent truncation. A data size of 2^32 or more is reduced modulo 2^32 before the size
  check, so a message far larger than the ring buffer is accepted and cut to its low 32 bits
  instead of being refused.
\<close>

lemma CreateMessage_truncates:
  assumes "ucast (ucast msgLen :: u32) \<noteq> (0 :: u64)"
  shows "CreateMessage rb gen name msg msgLen postDesc =
    CreateMessage rb gen name msg (ucast (ucast msgLen :: u32)) postDesc"
proof -
  have "(ucast (ucast (ucast msgLen :: u32) :: u64) :: u32) = ucast msgLen"
    by (rule bit_word_eqI) (simp add: bit_simps)
  moreover have "msgLen \<noteq> 0" using assms by auto
  ultimately show ?thesis using assms by (simp add: CreateMessage_def Let_def)
qed

lemma CreateMessage_truncates_witness:
  "CreateMessage ring_32 4 [97] [7, 8, 9] 0x100000002 True = CreateMessage ring_32 4 [97] [7, 8, 9] 2 True"
proof -
  have "(ucast (ucast (0x100000002 :: u64) :: u32) :: u64) = 2" by (simp add: word_unat_eq_iff)
  then show ?thesis using CreateMessage_truncates [of "0x100000002" ring_32 4 "[97]" "[7, 8, 9]" True] by simp
qed

lemma posted_messages:
  fixes aw :: "('m, bytes MPSCMessageQueue, 'e) AsyncWriter"
  assumes "robust_pthread pt view"
    and "notify_keeps notify" "handler_keeps bp" "gives_up aw \<mu>"
    and "mk_AsyncWriter (ww_rb w) Enqueue Drain bp notify = Inr aw"
    and "rb_ok (ww_rb w)" "ri_inv (ww_ri w)" "ww_queue w = new_MPSCMessageQueue"
    and "settled (view (writerMtx (ww_rb w)))" "holder_of (view (writerMtx (ww_rb w))) = None"
    and "msgs \<noteq> []" "\<And>msg. msg \<in> set msgs \<Longrightarrow> length msg + 5 < unat (configBufSizeBytes (ww_rb w))"
  shows "\<exists>w1 w2. post_all aw msgs w = Inr (1, w1) \<and> ProcWriter pt t aw w1 = Some (Inr w2)
    \<and> batch_stored (ww_rb w) msgs (ww_rb w2)
    \<and> mq_queue (ww_queue w2) = [] \<and> mq_startDrainer (ww_queue w2)"
proof -
  have aw: "aw_enqueueMsgFn aw = Enqueue" "aw_drainMsgFn aw = Drain" "aw_backpressureFn aw = bp"
      "aw_notifyAllReaders aw = notify" and "writer_ok (aw_rbWriter aw) (ww_rb w)"
    using assms(5,6) mk_Writer_ok(1,2) [of "ww_rb w"]
    by (auto simp: mk_AsyncWriter_def mk_Writer_def split: sum.splits if_splits)
  let ?w1 = "w\<lparr>ww_queue := \<lparr> mq_queue = msgs, mq_startDrainer = False \<rparr>\<rparr>"
  have "async_writer pt view Enqueue Drain mq_queue mq_startDrainer"
    by (intro async_writer.intro assms(1) mpsc.drain_queue_axioms)
  then have "\<exists>w'. ProcWriter pt t aw ?w1 = Some (Inr w') \<and> world_ok view aw w'
      \<and> batch_stored (ww_rb ?w1) (mq_queue (ww_queue ?w1)) (ww_rb w')
      \<and> mq_queue (ww_queue w') = [] \<and> mq_startDrainer (ww_queue w')"
  proof (rule async_writer.ProcWriter_returns)
    show "world_ok view aw ?w1" using assms(7,9,10) \<open>writer_ok _ _\<close> by (simp add: world_ok_def)
  qed (use assms aw in \<open>auto simp: message_fits_def less_imp_le\<close>)
  moreover have "post_all aw msgs w = Inr (1, ?w1)"
    using post_all_fits [OF assms(6,12) aw(1)] assms(8,11) by (simp add: new_MPSCMessageQueue_def)
  ultimately show ?thesis by auto
qed

text \<open>
  C14: Every message posted is written. On a fresh queue, posting messages smaller than the
  maximal size hands ProcWriter to the work queue exactly once; ProcWriter then returns, has
  extended the stream by exactly these messages in the order of posting, and leaves the
  queue empty and ready to start the next drainer. This holds for every notification and
  backpressure handler that keeps the reader table and eventually gives up, also if an
  earlier owner of the writer mutex has died.
\<close>

theorem posted_messages_written:
  fixes aw :: "('m, bytes MPSCMessageQueue, 'e) AsyncWriter"
  assumes "robust_pthread pt view"
    and "notify_keeps notify" "handler_keeps bp" "gives_up aw \<mu>"
    and "mk_AsyncWriter (ww_rb w) Enqueue Drain bp notify = Inr aw"
    and "rb_ok (ww_rb w)" "ri_inv (ww_ri w)" "ww_queue w = new_MPSCMessageQueue"
    and "settled (view (writerMtx (ww_rb w)))" "holder_of (view (writerMtx (ww_rb w))) = None"
    and "msgs \<noteq> []" "\<And>msg. msg \<in> set msgs \<Longrightarrow> length msg + 5 < unat (configBufSizeBytes (ww_rb w))"
  shows "\<exists>w1 w2. post_all aw msgs w = Inr (1, w1) \<and> ProcWriter pt t aw w1 = Some (Inr w2)
    \<and> batch_stored (ww_rb w) msgs (ww_rb w2)
    \<and> mq_queue (ww_queue w2) = [] \<and> mq_startDrainer (ww_queue w2)"
  by (rule posted_messages [OF assms(1-3) _ assms(5-11)]) (use assms(4,12) in simp_all)

text \<open>A writer whose handler gives up at once and whose notification does nothing.\<close>

definition plain_writer :: "(mutex_view, bytes MPSCMessageQueue, unit) AsyncWriter" where
  "plain_writer = \<lparr> aw_rbWriter = \<lparr> writer_indexMask = 31 \<rparr>, aw_enqueueMsgFn = Enqueue, aw_drainMsgFn = Drain,
     aw_backpressureFn = (\<lambda>p f s. (False, s)), aw_notifyAllReaders = id \<rparr>"

definition plain_world :: "(mutex_view, bytes MPSCMessageQueue, unit) writer_world" where
  "plain_world = \<lparr> ww_queue = new_MPSCMessageQueue, ww_rb = ring_32\<lparr>writerMtx := OwnerDied 7\<rparr>,
     ww_ri = table_2, ww_env = () \<rparr>"

lemma plain_callbacks:
  "notify_keeps (id :: 'm ReaderInfo \<times> 'e \<Rightarrow> _)" "handler_keeps (\<lambda>p f s. (False, s))"
  "gives_up plain_writer \<mu>"
  by (simp_all add: notify_keeps_def handler_keeps_def gives_up_def plain_writer_def)

lemma plain_setup:
  "mk_AsyncWriter (ww_rb plain_world) Enqueue Drain (\<lambda>p f s. (False, s)) id = Inr plain_writer"
  "rb_ok (ww_rb plain_world)" "ri_inv (ww_ri plain_world)" "ww_queue plain_world = new_MPSCMessageQueue"
  "settled (id (writerMtx (ww_rb plain_world)))" "holder_of (id (writerMtx (ww_rb plain_world))) = None"
  "unat (configBufSizeBytes (ww_rb plain_world)) = 32"
  using table_2_inv ring_32_ok
  by (simp_all add: mk_AsyncWriter_def mk_Writer_def IndexMask_def IsZeroOrPowerOfTwo_def plain_world_def
      plain_writer_def rb_ok_def)

theorem posted_messages_written_witness:
  "\<exists>w1 w2. post_all plain_writer [[1, 2], replicate 26 3] plain_world = Inr (1, w1)
    \<and> ProcWriter posix_pthread 4 plain_writer w1 = Some (Inr w2)
    \<and> batch_stored (ww_rb plain_world) [[1, 2], replicate 26 3] (ww_rb w2)
    \<and> mq_queue (ww_queue w2) = [] \<and> mq_startDrainer (ww_queue w2)"
  by (rule posted_messages_written [OF posix.robust_pthread_axioms plain_callbacks(1,2)
        plain_callbacks(3) [of "\<lambda>x. 0"] plain_setup(1-6)])
    (auto simp: plain_setup(7))

text \<open>
  A message of exactly the maximal size is created but cannot be posted: CreateMessage
  accepts a total size equal to GetMaxMessageSize, the assertion of Post requires it to be
  smaller.
\<close>

lemma maximal_message_not_postable:
  assumes "rb_ok (ww_rb w)" "0 \<notin> set name" "msg \<noteq> []"
    and "15 + length name + length msg = unat (configBufSizeBytes (ww_rb w))"
  shows "\<exists>m. CreateMessage (ww_rb w) gen name msg (of_nat (length msg)) postDesc = Inr m
    \<and> Post aw m w = Inl Assertion"
proof -
  have small: "10 + length name + length msg < 2 ^ 32"
    using assms(4) good_size_bounds(2) [OF rb_ok_good_size [OF assms(1)]] by simp
  then have len: "unat (of_nat (length msg) :: u64) = length msg" by (intro unat_of_nat_small) simp
  have "CreateMessage (ww_rb w) gen name msg (of_nat (length msg)) postDesc = Inr (topic_image gen postDesc name msg)"
    using CreateMessage_image [OF assms(1,2) len assms(3) small] assms(4) by simp
  moreover have "unat (of_nat (10 + length name + length msg) :: u64) = 10 + length name + length msg"
    using small by (intro unat_of_nat_small) simp
  then have "\<not> (of_nat (10 + length name + length msg) :: u64) < GetMaxMessageSize (ww_rb w)"
    using assms(4) unat_GetMaxMessageSize [OF assms(1)] by (simp only: word_less_nat_alt)
  ultimately show ?thesis by (simp add: Post_def)
qed

lemma maximal_message_not_postable_witness:
  "\<exists>m. CreateMessage (ww_rb plain_world) 0 [97] (replicate 16 1) (of_nat (length (replicate 16 (1::u8)))) False = Inr m
    \<and> Post plain_writer m plain_world = Inl Assertion"
  by (rule maximal_message_not_postable [OF plain_setup(2)]) (simp_all add: plain_setup(7))

end
