(* ===== verification/PostingProcesses.thy ===== *)
theory PostingProcesses
  imports AsyncWriter
begin

text \<open>
  Several processes that post at the same time. Each has an asynchronous writer with its own queue;
  the ring buffer and the reader table are shared. A step is one Post of some thread, one turn of
  a ProcWriter that was handed out - a drain, the WriteEx of one message, or the notification at
  its end -, or anything that readers do to the table. WriteEx is one step because it holds the
  writer mutex from its beginning to its end. Nothing here serializes the ProcWriters of a process
  but the flag of the queue.
\<close>

section \<open>The processes and their steps\<close>

datatype writer_pc = AtDrain | AtWrite "bytes list" | AtNotify

record ('q, 'e) poster =
  po_queue :: 'q
  po_env :: 'e
  po_writers :: "writer_pc list"
  po_posted :: "bytes list"

text \<open>\<open>ps_log\<close> records, for the statements only, what was written and by which process.\<close>

record ('m, 'q, 'e) posting_system =
  ps_rb :: "'m ByteRingBuffer"
  ps_ri :: "'m ReaderInfo"
  ps_procs :: "('q, 'e) poster list"
  ps_log :: "(nat \<times> bytes) list"

datatype 'm posting_action = PostMsg nat bytes | ProcTurn nat nat tid | ReadersMove "'m ReaderInfo"

definition world_of :: "('m, 'q, 'e) posting_system \<Rightarrow> ('q, 'e) poster \<Rightarrow> ('m, 'q, 'e) writer_world" where
  "world_of s po = \<lparr> ww_queue = po_queue po, ww_rb = ps_rb s, ww_ri = ps_ri s, ww_env = po_env po \<rparr>"

text \<open>One turn of ProcWriter: where it goes on, if it does, and what it has written.\<close>

fun proc_turn ::
    "'m pthread_api \<Rightarrow> tid \<Rightarrow> ('m, 'q, 'e) AsyncWriter \<Rightarrow> writer_pc \<Rightarrow> ('m, 'q, 'e) writer_world
     \<Rightarrow> (writer_pc list \<times> bytes list \<times> ('m, 'q, 'e) writer_world) result option" where
  "proc_turn pt t aw AtDrain w =
     (case aw_drainMsgFn aw (ww_queue w) of (queueCopy, q) \<Rightarrow>
        Some (Inr ([if queueCopy = [] then AtNotify else AtWrite queueCopy], [], w\<lparr>ww_queue := q\<rparr>)))"
| "proc_turn pt t aw (AtWrite []) w = Some (Inr ([AtDrain], [], w))"
| "proc_turn pt t aw (AtWrite (msg # msgs)) w =
     (case WriteEx pt t (bpWrapper aw) (aw_rbWriter aw) msg (of_nat (length msg))
             (ww_rb w, ww_ri w, ww_env w, notificationCount (ww_rb w)) of
        None \<Rightarrow> None
      | Some (Inl e) \<Rightarrow> Some (Inl e)
      | Some (Inr (rb, ri, env, count)) \<Rightarrow> Some (Inr ([AtWrite msgs], [msg],
          w\<lparr>ww_rb := rb\<lparr>notificationCount := count\<rparr>, ww_ri := ri, ww_env := env\<rparr>)))"
| "proc_turn pt t aw AtNotify w = Some (Inr ([], [], notify_end aw w))"

text \<open>A ProcWriter that nothing interrupts, within \<open>n\<close> turns.\<close>

fun proc_turns ::
    "nat \<Rightarrow> 'm pthread_api \<Rightarrow> tid \<Rightarrow> ('m, 'q, 'e) AsyncWriter \<Rightarrow> writer_pc \<Rightarrow> ('m, 'q, 'e) writer_world
     \<Rightarrow> ('m, 'q, 'e) writer_world result option" where
  "proc_turns 0 pt t aw pc w = None"
| "proc_turns (Suc n) pt t aw pc w =
     (case proc_turn pt t aw pc w of
        None \<Rightarrow> None
      | Some (Inl e) \<Rightarrow> Some (Inl e)
      | Some (Inr ([], ms, w')) \<Rightarrow> Some (Inr w')
      | Some (Inr (pc' # _, ms, w')) \<Rightarrow> proc_turns n pt t aw pc' w')"

definition proc_rest ::
    "'m pthread_api \<Rightarrow> tid \<Rightarrow> ('m, 'q, 'e) AsyncWriter \<Rightarrow> writer_pc \<Rightarrow> ('m, 'q, 'e) writer_world
     \<Rightarrow> ('m, 'q, 'e) writer_world result option" where
  "proc_rest pt t aw pc w =
     (case pc of AtDrain \<Rightarrow> ProcWriter pt t aw w
      | AtWrite msgs \<Rightarrow> (case write_batch pt t aw msgs w of Some (Inr w') \<Rightarrow> ProcWriter pt t aw w' | r \<Rightarrow> r)
      | AtNotify \<Rightarrow> Some (Inr (notify_end aw w)))"

lemma proc_turns_sound: "proc_turns n pt t aw pc w = Some r \<Longrightarrow> proc_rest pt t aw pc w = Some r"
proof (induction n arbitrary: pc w)
  case (Suc n)
  show ?case
  proof (cases pc)
    case AtDrain
    then show ?thesis
      using Suc.prems Suc.IH
      by (subst (asm) proc_turns.simps)
        (force simp: proc_rest_def ProcWriter.simps [of pt t aw w] Let_def split: prod.splits if_splits)
  next
    case (AtWrite msgs)
    show ?thesis
    proof (cases msgs)
      case Nil
      then show ?thesis using Suc AtWrite by (force simp: proc_rest_def)
    next
      case (Cons msg msgs')
      then show ?thesis using Suc AtWrite
        by (auto simp: proc_rest_def split: option.splits sum.splits prod.splits dest!: Suc.IH)
    qed
  next
    case AtNotify
    then show ?thesis using Suc.prems by (simp add: proc_rest_def)
  qed
qed simp

lemma proc_turns_step:
  assumes "proc_turn pt t aw pc w = Some (Inr ([pc'], ms, w'))" "\<exists>n. proc_turns n pt t aw pc' w' = Some r"
  shows "\<exists>n. proc_turns n pt t aw pc w = Some r"
proof -
  from assms(2) obtain n where "proc_turns n pt t aw pc' w' = Some r" ..
  then have "proc_turns (Suc n) pt t aw pc w = Some r" using assms(1) by simp
  then show ?thesis ..
qed

lemma proc_turns_batch:
  assumes "write_batch pt t aw msgs w = Some r"
    and "\<And>w'. r = Inr w' \<Longrightarrow> \<exists>n. proc_turns n pt t aw AtDrain w' = Some r'" "\<And>e. r = Inl e \<Longrightarrow> r' = Inl e"
  shows "\<exists>n. proc_turns n pt t aw (AtWrite msgs) w = Some r'"
  using assms
proof (induction msgs arbitrary: w)
  case Nil
  then show ?case using proc_turns_step [of pt t aw "AtWrite []" w AtDrain "[]" w r'] by simp
next
  case (Cons msg msgs)
  let ?x = "WriteEx pt t (bpWrapper aw) (aw_rbWriter aw) msg (of_nat (length msg))
        (ww_rb w, ww_ri w, ww_env w, notificationCount (ww_rb w))"
  consider e where "?x = Some (Inl e)" | rb ri env c where "?x = Some (Inr (rb, ri, env, c))"
    using Cons.prems(1) by (auto split: option.splits sum.splits)
  then show ?case
  proof cases
    case 1
    then have "proc_turns (Suc 0) pt t aw (AtWrite (msg # msgs)) w = Some r'" using Cons.prems by auto
    then show ?thesis ..
  next
    case 2
    let ?w = "w\<lparr>ww_rb := rb\<lparr>notificationCount := c\<rparr>, ww_ri := ri, ww_env := env\<rparr>"
    have "write_batch pt t aw msgs ?w = Some r" using Cons.prems(1) 2 by simp
    then have "\<exists>n. proc_turns n pt t aw (AtWrite msgs) ?w = Some r'" using Cons.IH Cons.prems(2,3) by blast
    then show ?thesis by (rule proc_turns_step [rotated]) (simp add: 2)
  qed
qed

text \<open>The turns are the code: uninterrupted they do what ProcWriter does.\<close>

lemma ProcWriter_by_turns: "ProcWriter pt t aw w = Some r \<longleftrightarrow> (\<exists>n. proc_turns n pt t aw AtDrain w = Some r)"
proof
  assume a: "ProcWriter pt t aw w = Some r"
  show "\<exists>n. proc_turns n pt t aw AtDrain w = Some r"
  proof (rule ProcWriter.raw_induct [OF _ a, where P = "\<lambda>pt t aw w r. \<exists>n. proc_turns n pt t aw AtDrain w = Some r"])
    fix run pt t aw w r
    assume ih: "\<And>pt t aw w r. run pt t aw w = Some r \<Longrightarrow> \<exists>n. proc_turns n pt t aw AtDrain w = Some r"
      and eq: "(case aw_drainMsgFn aw (ww_queue w) of (queueCopy, q) \<Rightarrow>
        (let w1 = w\<lparr>ww_queue := q\<rparr> in
         if queueCopy = [] then Some (Inr (notify_end aw w1))
         else (case write_batch pt t aw queueCopy w1 of
                 None \<Rightarrow> None
               | Some (Inl e) \<Rightarrow> Some (Inl e)
               | Some (Inr w2) \<Rightarrow> run pt t aw w2))) = Some r"
    obtain xs q where d: "aw_drainMsgFn aw (ww_queue w) = (xs, q)" by fastforce
    show "\<exists>n. proc_turns n pt t aw AtDrain w = Some r"
    proof (cases "xs = []")
      case True
      then have "proc_turns (Suc (Suc 0)) pt t aw AtDrain w = Some r" using eq d by (simp add: Let_def)
      then show ?thesis ..
    next
      case False
      then obtain r1 where b: "write_batch pt t aw xs (w\<lparr>ww_queue := q\<rparr>) = Some r1"
        using eq d by (auto simp: Let_def split: option.splits)
      have "\<exists>n. proc_turns n pt t aw (AtWrite xs) (w\<lparr>ww_queue := q\<rparr>) = Some r"
        by (rule proc_turns_batch [OF b]) (use eq d False b ih in \<open>simp_all add: Let_def\<close>)
      then show ?thesis by (rule proc_turns_step [rotated]) (simp add: d False)
    qed
  qed
qed (auto dest: proc_turns_sound simp: proc_rest_def)

text \<open>An action of a process or a ProcWriter that does not exist changes nothing.\<close>

fun posting_step ::
    "'m pthread_api \<Rightarrow> ('m, 'q, 'e) AsyncWriter list \<Rightarrow> 'm posting_action \<Rightarrow> ('m, 'q, 'e) posting_system
     \<Rightarrow> ('m, 'q, 'e) posting_system result option" where
  "posting_step pt aws (PostMsg p msg) s =
     (if length (ps_procs s) \<le> p then Some (Inr s)
      else (case Post (aws ! p) msg (world_of s (ps_procs s ! p)) of
              Inl e \<Rightarrow> Some (Inl e)
            | Inr (start, w) \<Rightarrow>
                (let po = ps_procs s ! p
                 in Some (Inr (s\<lparr>ps_procs := (ps_procs s)[p := po\<lparr>po_queue := ww_queue w,
                      po_writers := po_writers po @ (if start then [AtDrain] else []),
                      po_posted := po_posted po @ [msg]\<rparr>]\<rparr>)))))"
| "posting_step pt aws (ProcTurn p i t) s =
     (if length (ps_procs s) \<le> p \<or> length (po_writers (ps_procs s ! p)) \<le> i then Some (Inr s)
      else (let po = ps_procs s ! p; pcs = po_writers po in
            case proc_turn pt t (aws ! p) (pcs ! i) (world_of s po) of
              None \<Rightarrow> None
            | Some (Inl e) \<Rightarrow> Some (Inl e)
            | Some (Inr (goesOn, ms, w)) \<Rightarrow>
                Some (Inr (s\<lparr>ps_rb := ww_rb w, ps_ri := ww_ri w, ps_log := ps_log s @ map (Pair p) ms,
                  ps_procs := (ps_procs s)[p := po\<lparr>po_queue := ww_queue w, po_env := ww_env w,
                    po_writers := take i pcs @ goesOn @ drop (Suc i) pcs\<rparr>]\<rparr>))))"
| "posting_step pt aws (ReadersMove ri) s = Some (Inr (s\<lparr>ps_ri := ri\<rparr>))"

fun posting_run ::
    "'m pthread_api \<Rightarrow> ('m, 'q, 'e) AsyncWriter list \<Rightarrow> 'm posting_action list \<Rightarrow> ('m, 'q, 'e) posting_system
     \<Rightarrow> ('m, 'q, 'e) posting_system result option" where
  "posting_run pt aws [] s = Some (Inr s)"
| "posting_run pt aws (a # as) s =
     (case posting_step pt aws a s of
        Some (Inr s') \<Rightarrow> posting_run pt aws as s'
      | r \<Rightarrow> r)"

definition posting_start ::
    "'m ByteRingBuffer \<Rightarrow> 'm ReaderInfo \<Rightarrow> 'e list \<Rightarrow> ('m, bytes MPSCMessageQueue, 'e) posting_system" where
  "posting_start rb ri envs = \<lparr> ps_rb = rb, ps_ri = ri,
     ps_procs = map (\<lambda>e. \<lparr> po_queue = new_MPSCMessageQueue, po_env = e, po_writers = [], po_posted = [] \<rparr>) envs,
     ps_log = [] \<rparr>"

lemma posting_run_append:
  "posting_run pt aws (as @ bs) s =
     (case posting_run pt aws as s of Some (Inr s') \<Rightarrow> posting_run pt aws bs s' | r \<Rightarrow> r)"
  by (induction as arbitrary: s) (simp_all split: option.splits sum.splits)

section \<open>Nothing is lost and nothing fails\<close>

fun in_hand :: "writer_pc \<Rightarrow> bytes list" where
  "in_hand (AtWrite msgs) = msgs"
| "in_hand AtDrain = []"
| "in_hand AtNotify = []"

definition all_in_hand :: "writer_pc list \<Rightarrow> bytes list" where
  "all_in_hand pcs = concat (map in_hand pcs)"

definition draining :: "writer_pc list \<Rightarrow> nat" where
  "draining pcs = length (filter (\<lambda>pc. pc \<noteq> AtNotify) pcs)"

lemma draining_simps [simp]:
  "draining [] = 0" "draining (pc # pcs) = (if pc = AtNotify then 0 else 1) + draining pcs"
  "draining (pcs @ qcs) = draining pcs + draining qcs"
  by (simp_all add: draining_def)

lemma all_in_hand_simps [simp]:
  "all_in_hand [] = []" "all_in_hand (pc # pcs) = in_hand pc @ all_in_hand pcs"
  "all_in_hand (pcs @ qcs) = all_in_hand pcs @ all_in_hand qcs"
  by (simp_all add: all_in_hand_def)

lemma nothing_in_hand: "draining pcs = 0 \<Longrightarrow> all_in_hand pcs = []"
  by (induction pcs) (auto split: if_splits)

definition written_by :: "nat \<Rightarrow> (nat \<times> bytes) list \<Rightarrow> bytes list" where
  "written_by p log = map snd (filter (\<lambda>x. fst x = p) log)"

lemma written_by_append: "written_by p (log @ map (Pair q) ms) = written_by p log @ (if p = q then ms else [])"
  by (simp add: written_by_def filter_map o_def)

text \<open>What the environment of the processes promises.\<close>

definition action_ok :: "u64 \<Rightarrow> 'm posting_action \<Rightarrow> bool" where
  "action_ok B a \<longleftrightarrow> (case a of PostMsg p msg \<Rightarrow> length msg + 5 < unat B | ReadersMove ri \<Rightarrow> ri_inv ri | _ \<Rightarrow> True)"

definition process_inv ::
    "('q \<Rightarrow> bytes list) \<Rightarrow> ('q \<Rightarrow> bool) \<Rightarrow> u64 \<Rightarrow> (nat \<times> bytes) list \<Rightarrow> nat \<Rightarrow> ('q, 'e) poster \<Rightarrow> bool" where
  "process_inv contents idle B log p po \<longleftrightarrow>
     draining (po_writers po) = (if idle (po_queue po) then 0 else 1)
     \<and> (idle (po_queue po) \<longrightarrow> contents (po_queue po) = [])
     \<and> po_posted po = written_by p log @ all_in_hand (po_writers po) @ contents (po_queue po)
     \<and> (\<forall>msg \<in> set (po_posted po). message_fits B msg)"

definition writers_ok ::
    "(bytes \<Rightarrow> 'q \<Rightarrow> bool \<times> 'q) \<Rightarrow> ('q \<Rightarrow> bytes list \<times> 'q) \<Rightarrow> ('m, 'q, 'e) AsyncWriter list \<Rightarrow> bool" where
  "writers_ok enq drain aws \<longleftrightarrow> (\<forall>aw \<in> set aws. aw_enqueueMsgFn aw = enq \<and> aw_drainMsgFn aw = drain
     \<and> notify_keeps (aw_notifyAllReaders aw) \<and> handler_keeps (aw_backpressureFn aw) \<and> (\<exists>\<mu>. gives_up aw \<mu>))"

definition shared_inv ::
    "('m \<Rightarrow> mutex_view) \<Rightarrow> ('m, 'q, 'e) AsyncWriter list \<Rightarrow> 'm ByteRingBuffer \<Rightarrow> ('m, 'q, 'e) posting_system \<Rightarrow> bool" where
  "shared_inv view aws rb0 s \<longleftrightarrow>
     (\<forall>aw \<in> set aws. writer_ok (aw_rbWriter aw) (ps_rb s)) \<and> ri_inv (ps_ri s) \<and>
     settled (view (writerMtx (ps_rb s))) \<and> holder_of (view (writerMtx (ps_rb s))) = None \<and>
     batch_stored rb0 (map snd (ps_log s)) (ps_rb s) \<and> length (ps_procs s) = length aws \<and>
     (\<forall>x \<in> set (ps_log s). fst x < length aws)"

definition posts_of :: "nat \<Rightarrow> 'm posting_action list \<Rightarrow> bytes list" where
  "posts_of p as = concat (map (\<lambda>a. case a of PostMsg q msg \<Rightarrow> if q = p then [msg] else [] | _ \<Rightarrow> []) as)"

definition system_inv ::
    "('q \<Rightarrow> bytes list) \<Rightarrow> ('q \<Rightarrow> bool) \<Rightarrow> ('m \<Rightarrow> mutex_view) \<Rightarrow> ('m, 'q, 'e) AsyncWriter list \<Rightarrow> 'm ByteRingBuffer
     \<Rightarrow> 'm posting_action list \<Rightarrow> ('m, 'q, 'e) posting_system \<Rightarrow> bool" where
  "system_inv contents idle view aws rb0 as s \<longleftrightarrow> shared_inv view aws rb0 s \<and>
     (\<forall>p < length aws. process_inv contents idle (configBufSizeBytes rb0) (ps_log s) p (ps_procs s ! p)
        \<and> po_posted (ps_procs s ! p) = posts_of p as)"

fun pc_weight :: "writer_pc list \<Rightarrow> nat" where
  "pc_weight [] = 0"
| "pc_weight (AtDrain # pcs) = 2 + pc_weight pcs"
| "pc_weight (AtWrite msgs # pcs) = 3 + length msgs + pc_weight pcs"
| "pc_weight (AtNotify # pcs) = 1 + pc_weight pcs"

lemma pc_weight_append [simp]: "pc_weight (pcs @ qcs) = pc_weight pcs + pc_weight qcs"
  by (induction pcs rule: pc_weight.induct) simp_all

definition process_weight :: "('q \<Rightarrow> bytes list) \<Rightarrow> ('q, 'e) poster \<Rightarrow> nat" where
  "process_weight contents po = 3 * length (contents (po_queue po)) + pc_weight (po_writers po)"

text \<open>How many turns the ProcWriters that were handed out can still take.\<close>

definition turns_left :: "('q \<Rightarrow> bytes list) \<Rightarrow> ('m, 'q, 'e) posting_system \<Rightarrow> nat" where
  "turns_left contents s = sum_list (map (process_weight contents) (ps_procs s))"

lemma sum_list_map_update_less:
  fixes f :: "'a \<Rightarrow> nat"
  assumes "i < length xs" "f x < f (xs ! i)"
  shows "sum_list (map f (xs[i := x])) < sum_list (map f xs)"
  using assms by (induction xs arbitrary: i) (auto split: nat.splits simp: less_Suc_eq_0_disj)

fun is_turn :: "'m posting_action \<Rightarrow> bool" where
  "is_turn (ProcTurn p i t) = True"
| "is_turn a = False"

lemma shared_inv_world:
  "shared_inv view aws rb0 s \<Longrightarrow> aw \<in> set aws \<Longrightarrow> world_ok view aw (world_of s po)"
  by (simp add: shared_inv_def world_ok_def world_of_def)

lemma writer_ok_cong:
  "writer_ok w rb \<Longrightarrow> configBufSizeBytes rb' = configBufSizeBytes rb \<Longrightarrow> rb_ok rb' \<Longrightarrow> writer_ok w rb'"
  by (simp add: writer_ok_def)

context async_writer
begin

lemma proc_turn_total:
  assumes aw: "aw \<in> set aws" "writers_ok enq drain aws" "shared_inv view aws rb0 s"
    and po: "process_inv contents idle (configBufSizeBytes rb0) (ps_log s) p po" "po_writers po = us @ pc # vs"
  shows "\<exists>goesOn ms w. proc_turn pt t aw pc (world_of s po) = Some (Inr (goesOn, ms, w)) \<and> world_ok view aw w
    \<and> batch_stored (ps_rb s) ms (ww_rb w)
    \<and> process_inv contents idle (configBufSizeBytes rb0) (ps_log s @ map (Pair p) ms) p
        (po\<lparr>po_queue := ww_queue w, po_env := ww_env w, po_writers := us @ goesOn @ vs\<rparr>)"
proof -
  note ok = shared_inv_world [OF aw(3,1), of po]
  have fns: "aw_drainMsgFn aw = drain" "notify_keeps (aw_notifyAllReaders aw)" "handler_keeps (aw_backpressureFn aw)"
    using aw(1,2) by (auto simp: writers_ok_def)
  obtain \<mu> where \<mu>: "gives_up aw \<mu>" using aw(1,2) by (auto simp: writers_ok_def)
  have others: "all_in_hand us = [] \<and> all_in_hand vs = [] \<and> \<not> idle (po_queue po) \<and> draining us = 0 \<and> draining vs = 0"
    if "pc \<noteq> AtNotify"
    using po that nothing_in_hand [of us] nothing_in_hand [of vs] by (auto simp: process_inv_def split: if_splits)
  show ?thesis
  proof (cases pc)
    case AtDrain
    obtain xs q where d: "drain (po_queue po) = (xs, q)" by fastforce
    have "xs = contents (po_queue po)" "contents q = []" "idle q \<longleftrightarrow> xs = []"
      using drain_all [of "po_queue po"] drain_contents [of "po_queue po"] drain_idle [of "po_queue po"] d by simp_all
    then show ?thesis
      using others ok po AtDrain fns(1) d by (auto simp: world_of_def process_inv_def batch_stored_Nil world_ok_def)
  next
    case AtNotify
    have "batch_stored (ps_rb s) [] (ww_rb (notify_end aw (world_of s po)))"
      using notify_end_ok(3) [OF fns(2) ok] by (simp add: world_of_def)
    moreover have "ww_queue (notify_end aw (world_of s po)) = po_queue po"
      using notify_end_ok(2) [OF fns(2) ok] by (simp add: world_of_def)
    ultimately show ?thesis
      using notify_end_ok(1) [OF fns(2) ok] po AtNotify by (auto simp: process_inv_def)
  next
    case (AtWrite msgs)
    show ?thesis
    proof (cases msgs)
      case Nil
      then show ?thesis
        using others ok po AtWrite by (auto simp: world_of_def process_inv_def batch_stored_Nil)
    next
      case (Cons msg msgs')
      have "message_fits (configBufSizeBytes (ww_rb (world_of s po))) msg"
        using po AtWrite Cons aw(3) by (auto simp: process_inv_def world_of_def shared_inv_def batch_stored_def)
      from write_one [OF fns(2,3) \<mu> ok this, of t] obtain rb ri env c where
        "WriteEx pt t (bpWrapper aw) (aw_rbWriter aw) msg (of_nat (length msg))
          (ps_rb s, ps_ri s, po_env po, notificationCount (ps_rb s)) = Some (Inr (rb, ri, env, c))"
        "batch_stored (ps_rb s) [msg] rb"
        "world_ok view aw ((world_of s po)\<lparr>ww_rb := rb\<lparr>notificationCount := c\<rparr>, ww_ri := ri, ww_env := env\<rparr>)"
        by (auto simp: world_of_def)
      then show ?thesis
        using others po AtWrite Cons by (simp add: world_of_def process_inv_def written_by_append)
    qed
  qed
qed

lemma step_total:
  assumes "system_inv contents idle view aws rb0 as s" "writers_ok enq drain aws" "action_ok (configBufSizeBytes rb0) a"
    and "good_size (configBufSizeBytes rb0)"
  shows "\<exists>s'. posting_step pt aws a s = Some (Inr s') \<and> system_inv contents idle view aws rb0 (as @ [a]) s'"
proof -
  have sh: "shared_inv view aws rb0 s" and len: "length (ps_procs s) = length aws"
    using assms(1) by (auto simp: system_inv_def shared_inv_def)
  have po: "process_inv contents idle (configBufSizeBytes rb0) (ps_log s) p (ps_procs s ! p)"
      "po_posted (ps_procs s ! p) = posts_of p as" if "p < length aws" for p
    using assms(1) that by (auto simp: system_inv_def)
  show ?thesis
  proof (cases a)
    case (ReadersMove ri)
    then show ?thesis using assms(1,3) by (auto simp: system_inv_def shared_inv_def action_ok_def posts_of_def)
  next
    case (PostMsg p msg)
    show ?thesis
    proof (cases "p < length aws")
      case False
      then show ?thesis using assms(1) PostMsg len by (auto simp: system_inv_def posts_of_def)
    next
      case True
      let ?po = "ps_procs s ! p"
      have aw: "aw_enqueueMsgFn (aws ! p) = enq" using assms(2) True by (simp add: writers_ok_def)
      have rb: "rb_ok (ps_rb s)" "configBufSizeBytes (ps_rb s) = configBufSizeBytes rb0"
        using sh True by (auto simp: shared_inv_def writer_ok_def batch_stored_def dest: nth_mem)
      have fits: "length msg + 5 < unat (configBufSizeBytes rb0)" using assms(3) PostMsg by (simp add: action_ok_def)
      then have "length msg < 2 ^ 64" using good_size_bounds(2) [OF assms(4)] by simp
      then have "(of_nat (length msg) :: u64) < GetMaxMessageSize (ps_rb s)"
        using fits unat_GetMaxMessageSize [OF rb(1)] by (simp add: word_less_nat_alt unat_of_nat_small rb(2))
      then have post: "Post (aws ! p) msg (world_of s ?po) =
          Inr (idle (po_queue ?po), (world_of s ?po)\<lparr>ww_queue := snd (enq msg (po_queue ?po))\<rparr>)"
        using aw enq_start [of msg "po_queue ?po"]
        by (cases "enq msg (po_queue ?po)") (simp add: Post_def world_of_def)
      let ?po' = "?po\<lparr>po_queue := snd (enq msg (po_queue ?po)),
        po_writers := po_writers ?po @ (if idle (po_queue ?po) then [AtDrain] else []), po_posted := po_posted ?po @ [msg]\<rparr>"
      have "process_inv contents idle (configBufSizeBytes rb0) (ps_log s) p ?po'"
        using po(1) [OF True] enq_contents [of msg "po_queue ?po"] enq_idle [of msg "po_queue ?po"] fits
        by (auto simp: process_inv_def message_fits_def split: if_splits)
      moreover have "po_posted ?po' = posts_of p (as @ [a])" using po(2) [OF True] PostMsg by (simp add: posts_of_def)
      moreover have "posts_of q (as @ [a]) = posts_of q as" if "q \<noteq> p" for q using PostMsg that by (simp add: posts_of_def)
      ultimately have "process_inv contents idle (configBufSizeBytes rb0) (ps_log s) q ((ps_procs s)[p := ?po'] ! q)
          \<and> po_posted ((ps_procs s)[p := ?po'] ! q) = posts_of q (as @ [a])" if "q < length aws" for q
        using po [OF that] that len by (cases "q = p") simp_all
      then have "system_inv contents idle view aws rb0 (as @ [a]) (s\<lparr>ps_procs := (ps_procs s)[p := ?po']\<rparr>)"
        using sh by (simp add: system_inv_def shared_inv_def)
      then show ?thesis using PostMsg post True len by (simp add: Let_def world_of_def)
    qed
  next
    case (ProcTurn p i t)
    show ?thesis
    proof (cases "p < length aws \<and> i < length (po_writers (ps_procs s ! p))")
      case False
      then show ?thesis using assms(1) ProcTurn len by (auto simp: system_inv_def posts_of_def)
    next
      case True
      let ?po = "ps_procs s ! p"
      let ?us = "take i (po_writers ?po)" and ?vs = "drop (Suc i) (po_writers ?po)"
      have split: "po_writers ?po = ?us @ po_writers ?po ! i # ?vs" using True by (simp add: id_take_nth_drop [symmetric])
      have in_aws: "aws ! p \<in> set aws" using True by simp
      obtain goesOn ms w where turn: "proc_turn pt t (aws ! p) (po_writers ?po ! i) (world_of s ?po) = Some (Inr (goesOn, ms, w))"
          and w: "world_ok view (aws ! p) w" "batch_stored (ps_rb s) ms (ww_rb w)"
          and inv: "process_inv contents idle (configBufSizeBytes rb0) (ps_log s @ map (Pair p) ms) p
            (?po\<lparr>po_queue := ww_queue w, po_env := ww_env w, po_writers := ?us @ goesOn @ ?vs\<rparr>)"
        using proc_turn_total [OF in_aws assms(2) sh po(1) split] True by blast
      let ?po' = "?po\<lparr>po_queue := ww_queue w, po_env := ww_env w, po_writers := ?us @ goesOn @ ?vs\<rparr>"
      let ?s' = "s\<lparr>ps_rb := ww_rb w, ps_ri := ww_ri w, ps_log := ps_log s @ map (Pair p) ms, ps_procs := (ps_procs s)[p := ?po']\<rparr>"
      have "writer_ok (aw_rbWriter aw) (ww_rb w)" if "aw \<in> set aws" for aw
      proof (rule writer_ok_cong)
        show "writer_ok (aw_rbWriter aw) (ps_rb s)" using sh that by (simp add: shared_inv_def)
        show "configBufSizeBytes (ww_rb w) = configBufSizeBytes (ps_rb s)" using w(2) by (simp add: batch_stored_def)
        show "rb_ok (ww_rb w)" using w(1) by (simp add: world_ok_def writer_ok_def)
      qed
      moreover have "batch_stored rb0 (map snd (ps_log s @ map (Pair p) ms)) (ww_rb w)"
        using batch_stored_append [OF _ w(2)] sh by (simp add: shared_inv_def o_def)
      ultimately have "shared_inv view aws rb0 ?s'" using w(1) sh True by (auto simp: shared_inv_def world_ok_def)
      moreover have "process_inv contents idle (configBufSizeBytes rb0) (ps_log s @ map (Pair p) ms) q (ps_procs ?s' ! q)"
          if "q < length aws" for q
        using inv po(1) [OF that] that len by (cases "q = p") (auto simp: process_inv_def written_by_append)
      moreover have "po_posted (ps_procs ?s' ! q) = posts_of q (as @ [a])" if "q < length aws" for q
        using po(2) [OF that] that len ProcTurn by (cases "q = p") (auto simp: posts_of_def)
      ultimately have "system_inv contents idle view aws rb0 (as @ [a]) ?s'" by (simp add: system_inv_def)
      then show ?thesis using ProcTurn turn True len by (simp add: Let_def)
    qed
  qed
qed

lemma run_total:
  assumes "writers_ok enq drain aws" "good_size (configBufSizeBytes rb0)"
    and "system_inv contents idle view aws rb0 as s" "\<And>a. a \<in> set bs \<Longrightarrow> action_ok (configBufSizeBytes rb0) a"
  shows "\<exists>s'. posting_run pt aws bs s = Some (Inr s') \<and> system_inv contents idle view aws rb0 (as @ bs) s'"
  using assms(3,4)
proof (induction bs arbitrary: as s)
  case (Cons a bs)
  have "action_ok (configBufSizeBytes rb0) a" using Cons.prems(2) by simp
  from step_total [OF Cons.prems(1) assms(1) this assms(2)] obtain s1 where
    "posting_step pt aws a s = Some (Inr s1)" "system_inv contents idle view aws rb0 (as @ [a]) s1"
    by blast
  then show ?case using Cons.IH [of "as @ [a]" s1] Cons.prems(2) by simp
qed simp

text \<open>Every turn of a ProcWriter brings it nearer to its end.\<close>

lemma proc_turn_weight:
  assumes "aw_drainMsgFn aw = drain" "proc_turn pt t aw pc w = Some (Inr (goesOn, ms, w'))"
  shows "pc_weight goesOn + 3 * length (contents (ww_queue w')) < pc_weight [pc] + 3 * length (contents (ww_queue w))"
proof (cases pc)
  case AtDrain
  obtain xs q where d: "drain (ww_queue w) = (xs, q)" by fastforce
  then have "xs = contents (ww_queue w)" "contents q = []"
    using drain_all [of "ww_queue w"] drain_contents [of "ww_queue w"] by simp_all
  then show ?thesis using assms AtDrain d by (cases "contents (ww_queue w)") auto
next
  case (AtWrite msgs)
  then show ?thesis
    using assms by (cases msgs) (auto split: option.splits sum.splits)
next
  case AtNotify
  then show ?thesis using assms by (auto simp: notify_end_def split: prod.splits)
qed

lemma turn_weight:
  assumes "writers_ok enq drain aws" "length (ps_procs s) = length aws" "p < length aws"
    and "i < length (po_writers (ps_procs s ! p))" "posting_step pt aws (ProcTurn p i t) s = Some (Inr s')"
  shows "turns_left contents s' < turns_left contents s"
proof -
  let ?po = "ps_procs s ! p"
  let ?us = "take i (po_writers ?po)" and ?vs = "drop (Suc i) (po_writers ?po)"
  obtain goesOn ms w where turn: "proc_turn pt t (aws ! p) (po_writers ?po ! i) (world_of s ?po) = Some (Inr (goesOn, ms, w))"
      and s': "ps_procs s' = (ps_procs s)[p := ?po\<lparr>po_queue := ww_queue w, po_env := ww_env w, po_writers := ?us @ goesOn @ ?vs\<rparr>]"
    using assms(2-5) by (auto simp: Let_def split: option.splits sum.splits)
  have "aw_drainMsgFn (aws ! p) = drain" using assms(1,3) by (simp add: writers_ok_def)
  from proc_turn_weight [OF this turn]
  have less: "pc_weight goesOn + 3 * length (contents (ww_queue w)) <
      pc_weight [po_writers ?po ! i] + 3 * length (contents (po_queue ?po))" by (simp add: world_of_def)
  have split: "po_writers ?po = ?us @ [po_writers ?po ! i] @ ?vs" using assms(4) by (simp add: id_take_nth_drop [symmetric])
  have "pc_weight (po_writers ?po) = pc_weight ?us + pc_weight [po_writers ?po ! i] + pc_weight ?vs"
    by (subst split) (simp only: pc_weight_append add.assoc)
  then have "process_weight contents (?po\<lparr>po_queue := ww_queue w, po_env := ww_env w, po_writers := ?us @ goesOn @ ?vs\<rparr>)
      < process_weight contents ?po"
    using less by (simp add: process_weight_def)
  then show ?thesis
    using assms(2,3) s' by (simp add: turns_left_def sum_list_map_update_less)
qed

text \<open>So the ProcWriters finish if they are given turns.\<close>

lemma run_finishes:
  assumes "writers_ok enq drain aws" "good_size (configBufSizeBytes rb0)"
    and "system_inv contents idle view aws rb0 as s"
  shows "\<exists>ts s'. (\<forall>a \<in> set ts. is_turn a) \<and> length ts \<le> turns_left contents s
    \<and> posting_run pt aws ts s = Some (Inr s') \<and> (\<forall>po \<in> set (ps_procs s'). po_writers po = [])"
  using assms(3)
proof (induction "turns_left contents s" arbitrary: as s rule: less_induct)
  case less
  have len: "length (ps_procs s) = length aws" using less.prems by (simp add: system_inv_def shared_inv_def)
  show ?case
  proof (cases "\<forall>po \<in> set (ps_procs s). po_writers po = []")
    case True
    then show ?thesis by (intro exI [of _ "[]"] exI [of _ s]) simp
  next
    case False
    then obtain p where p: "p < length aws" "po_writers (ps_procs s ! p) \<noteq> []" by (auto simp: in_set_conv_nth len)
    let ?a = "ProcTurn p 0 0"
    have "action_ok (configBufSizeBytes rb0) ?a" by (simp add: action_ok_def)
    from step_total [OF less.prems assms(1) this assms(2)] obtain s1 where
      s1: "posting_step pt aws ?a s = Some (Inr s1)" "system_inv contents idle view aws rb0 (as @ [?a]) s1"
      by blast
    have lt: "turns_left contents s1 < turns_left contents s"
      using turn_weight [OF assms(1) len p(1) _ s1(1)] p(2) by simp
    from less.hyps [OF lt s1(2)] obtain ts s' where
      "\<forall>a \<in> set ts. is_turn a" "length ts \<le> turns_left contents s1"
      "posting_run pt aws ts s1 = Some (Inr s')" "\<forall>po \<in> set (ps_procs s'). po_writers po = []"
      by blast
    then show ?thesis using s1(1) lt by (intro exI [of _ "?a # ts"] exI [of _ s']) simp
  qed
qed

end

lemma posts_of_append: "posts_of p (as @ bs) = posts_of p as @ posts_of p bs"
  by (simp add: posts_of_def)

lemma posts_of_turns: "\<forall>a \<in> set ts. is_turn a \<Longrightarrow> posts_of p ts = []"
proof (induction ts)
  case (Cons a ts)
  then show ?case by (cases a) (simp_all add: posts_of_def)
qed (simp add: posts_of_def)

lemma action_ok_turns: "is_turn a \<Longrightarrow> action_ok B a"
  by (cases a) (simp_all add: action_ok_def)

text \<open>What a reachable state promises, read off the invariant.\<close>

lemma process_inv_drained:
  "process_inv contents idle B log p po \<Longrightarrow> po_writers po = [] \<Longrightarrow> written_by p log = po_posted po"
  by (auto simp: process_inv_def split: if_splits)

lemma posting_start_inv:
  fixes aws :: "('m, bytes MPSCMessageQueue, 'e) AsyncWriter list"
  assumes "\<forall>aw \<in> set aws. writer_ok (aw_rbWriter aw) rb" "ri_inv ri" "length envs = length aws"
    and "settled (view (writerMtx rb))" "holder_of (view (writerMtx rb)) = None"
  shows "system_inv mq_queue mq_startDrainer view aws rb [] (posting_start rb ri envs)"
  using assms
  by (simp add: system_inv_def shared_inv_def posting_start_def batch_stored_Nil process_inv_def
      posts_of_def written_by_def new_MPSCMessageQueue_def)

text \<open>
  After the empty batch the queue starts the next ProcWriter although the first has still to notify.
\<close>

lemma second_ProcWriter:
  fixes aws :: "('m, bytes MPSCMessageQueue, 'e) AsyncWriter list"
  assumes "aws = [aw]" "aw_enqueueMsgFn aw = Enqueue" "aw_drainMsgFn aw = Drain"
    and "ps_procs s = [po]" "mq_queue (po_queue po) = []" "po_writers po = [AtDrain]"
    and "rb_ok (ps_rb s)" "length msg + 5 < unat (configBufSizeBytes (ps_rb s))"
  shows "\<exists>s'. posting_run pt aws [ProcTurn 0 0 t, PostMsg 0 msg] s = Some (Inr s')
    \<and> po_writers (ps_procs s' ! 0) = [AtNotify, AtDrain]"
  using assms Post_fits [of "world_of s po\<lparr>ww_queue := new_MPSCMessageQueue\<rparr>" msg aw]
  by (cases "po_queue po") (simp add: Drain_def world_of_def new_MPSCMessageQueue_def Let_def)

lemma processes_finish:
  fixes aws :: "('m, bytes MPSCMessageQueue, 'e) AsyncWriter list"
  assumes "robust_pthread pt view" "writers_ok Enqueue Drain aws"
    and "rb_ok rb" "\<forall>aw \<in> set aws. writer_ok (aw_rbWriter aw) rb" "ri_inv ri" "length envs = length aws"
    and "settled (view (writerMtx rb))" "holder_of (view (writerMtx rb)) = None"
    and "\<forall>a \<in> set as. action_ok (configBufSizeBytes rb) a"
  shows "\<exists>s ts s'. posting_run pt aws as (posting_start rb ri envs) = Some (Inr s)
    \<and> system_inv mq_queue mq_startDrainer view aws rb as s
    \<and> (\<forall>a \<in> set ts. is_turn a) \<and> length ts \<le> turns_left mq_queue s \<and> posting_run pt aws ts s = Some (Inr s')
    \<and> shared_inv view aws rb s' \<and> (\<forall>p < length aws. written_by p (ps_log s') = posts_of p as)"
proof -
  have good: "good_size (configBufSizeBytes rb)" by (rule rb_ok_good_size [OF assms(3)])
  have loc: "async_writer pt view Enqueue Drain mq_queue mq_startDrainer"
    by (intro async_writer.intro assms(1) mpsc.drain_queue_axioms)
  obtain s where s: "posting_run pt aws as (posting_start rb ri envs) = Some (Inr s)"
      "system_inv mq_queue mq_startDrainer view aws rb as s"
    using async_writer.run_total [OF loc assms(2) good posting_start_inv [where view = view, OF assms(4-8)]] assms(9) by auto
  obtain ts s' where ts: "\<forall>a \<in> set ts. is_turn a" "length ts \<le> turns_left mq_queue s"
      "posting_run pt aws ts s = Some (Inr s')" "\<forall>po \<in> set (ps_procs s'). po_writers po = []"
    using async_writer.run_finishes [OF loc assms(2) good s(2)] by blast
  then have s': "system_inv mq_queue mq_startDrainer view aws rb (as @ ts) s'"
    using async_writer.run_total [OF loc assms(2) good s(2), of ts] action_ok_turns by auto
  have "written_by p (ps_log s') = posts_of p as" if "p < length aws" for p
    using s' that ts(1,4) process_inv_drained [of mq_queue mq_startDrainer "configBufSizeBytes rb" "ps_log s'" p "ps_procs s' ! p"]
    by (simp add: system_inv_def shared_inv_def posts_of_append posts_of_turns)
  moreover have "shared_inv view aws rb s'" using s' by (simp add: system_inv_def)
  ultimately show ?thesis using s ts by blast
qed

section \<open>Properties\<close>

text \<open>
  C13: Nothing posted by any process is lost or reordered. Whatever the processes post, in whatever
  order their posts, the turns of their ProcWriters - up to each single write - and the moves of
  the readers come, no step fails; the stream is extended by exactly the messages written so far;
  in each process these are, in the order of posting, its posts up to those that its one draining
  ProcWriter has in hand and those still queued. If the ProcWriters are given turns they all come
  to their end, and then every message of every process is in the stream.
\<close>

theorem posting_processes:
  fixes aws :: "('m, bytes MPSCMessageQueue, 'e) AsyncWriter list"
  assumes "robust_pthread pt view" "writers_ok Enqueue Drain aws"
    and "rb_ok rb" "\<forall>aw \<in> set aws. writer_ok (aw_rbWriter aw) rb" "ri_inv ri" "length envs = length aws"
    and "settled (view (writerMtx rb))" "holder_of (view (writerMtx rb)) = None"
    and "\<forall>a \<in> set as. action_ok (configBufSizeBytes rb) a"
  shows "\<exists>s. posting_run pt aws as (posting_start rb ri envs) = Some (Inr s)
    \<and> batch_stored rb (map snd (ps_log s)) (ps_rb s)
    \<and> (\<forall>p < length aws. draining (po_writers (ps_procs s ! p)) \<le> 1 \<and>
         posts_of p as = written_by p (ps_log s) @ all_in_hand (po_writers (ps_procs s ! p)) @ mq_queue (po_queue (ps_procs s ! p)))
    \<and> (\<exists>ts s'. (\<forall>a \<in> set ts. is_turn a) \<and> length ts \<le> turns_left mq_queue s \<and> posting_run pt aws ts s = Some (Inr s')
         \<and> batch_stored rb (map snd (ps_log s')) (ps_rb s') \<and> (\<forall>p < length aws. written_by p (ps_log s') = posts_of p as))"
proof -
  obtain s ts s' where s: "posting_run pt aws as (posting_start rb ri envs) = Some (Inr s)"
      "system_inv mq_queue mq_startDrainer view aws rb as s"
    and ts: "\<forall>a \<in> set ts. is_turn a" "length ts \<le> turns_left mq_queue s" "posting_run pt aws ts s = Some (Inr s')"
    and s': "shared_inv view aws rb s'" "\<forall>p < length aws. written_by p (ps_log s') = posts_of p as"
    using processes_finish [OF assms] by blast
  have "draining (po_writers (ps_procs s ! p)) \<le> 1 \<and>
      posts_of p as = written_by p (ps_log s) @ all_in_hand (po_writers (ps_procs s ! p)) @ mq_queue (po_queue (ps_procs s ! p))"
      if "p < length aws" for p
    using s(2) that by (auto simp: system_inv_def process_inv_def)
  moreover have "batch_stored rb (map snd (ps_log s)) (ps_rb s)" "batch_stored rb (map snd (ps_log s')) (ps_rb s')"
    using s(2) s'(1) by (simp_all add: system_inv_def shared_inv_def)
  ultimately show ?thesis using s(1) ts s'(2) by blast
qed

text \<open>Two processes on the ring whose last writer died holding the mutex.\<close>

definition sample_posting :: "mutex_view posting_action list" where
  "sample_posting = [PostMsg 0 [1, 2], ProcTurn 0 0 4, PostMsg 1 [9], ProcTurn 1 0 5, PostMsg 0 [3],
     ProcTurn 1 0 5, ReadersMove table_2, ProcTurn 0 0 4]"

theorem posting_processes_witness:
  "\<exists>s. posting_run posix_pthread [plain_writer, plain_writer] sample_posting
        (posting_start (ww_rb plain_world) table_2 [(), ()]) = Some (Inr s)
    \<and> batch_stored (ww_rb plain_world) (map snd (ps_log s)) (ps_rb s)
    \<and> (\<exists>ts s'. posting_run posix_pthread [plain_writer, plain_writer] ts s = Some (Inr s')
         \<and> written_by 0 (ps_log s') = [[1, 2], [3]] \<and> written_by 1 (ps_log s') = [[9]])"
proof -
  have w: "writers_ok Enqueue Drain [plain_writer, plain_writer]"
    using plain_callbacks by (auto simp: writers_ok_def plain_writer_def)
  have k: "\<forall>aw \<in> set [plain_writer, plain_writer]. writer_ok (aw_rbWriter aw) (ww_rb plain_world)"
    using plain_setup(2) by (simp add: writer_ok_def plain_writer_def plain_world_def ring_32_def)
  have a: "\<forall>a \<in> set sample_posting. action_ok (configBufSizeBytes (ww_rb plain_world)) a"
    using table_2_inv plain_setup(7) by (simp add: sample_posting_def action_ok_def)
  have len: "length [(), ()] = length [plain_writer, plain_writer]" by simp
  show ?thesis
    using posting_processes [OF posix.robust_pthread_axioms w plain_setup(2) k table_2_inv len plain_setup(5,6) a]
    by (fastforce simp: sample_posting_def posts_of_def All_less_Suc)
qed

end
