(* ===== verification/TpReader.thy ===== *)
theory TpReader
  imports ReaderWithBackpressure TpReaderInfo
begin

text \<open>
  tp/reader.hpp: the topic reader of a process. Channel readers are added and removed on one
  serial work queue, the stream is read on another; both queues are the client's and appear
  as lists of the work items given to them, executed in order. The shared structures and the
  client's state are threaded through every operation.
\<close>

datatype ChannelReaderEventType =
    FIRST_CHANNEL_READER_CREATED
  | LAST_CHANNEL_READER_CLOSED
  | ALL_CHANNEL_READERS_EXPIRED

section \<open>The reader and its work items\<close>

text \<open>What the lambdas handed to the serial queue do; the items of the other queue are the copied lists.\<close>

datatype 'e serial_item =
    AddItem "'e ChannelReader"
  | RemoveItem nat
  | RunItem

record 'e TpReader =
  tr_rmpReaderBP :: ReaderWithBackpressure
  tr_channelReaders :: "'e ChannelReader list"
  tr_channelReaderEventCb :: "ChannelReaderEventType \<Rightarrow> 'e \<Rightarrow> 'e"

text \<open>
  \<open>rw_reading\<close> is a ReadRmp that has passed its check for activity and not yet read.
\<close>

record ('m, 'e) reader_world =
  rw_reader :: "'e TpReader"
  rw_rb :: "'m ByteRingBuffer"
  rw_ri :: "'m TpReaderInfo"
  rw_env :: 'e
  rw_serial :: "'e serial_item list"
  rw_rmp :: "'e ChannelReader list list"
  rw_reading :: "'e ChannelReader list option"

text \<open>
  The constructor. If the structure is not initialised the exception destroys the reader with
  backpressure again, which frees the slot it had allocated.
\<close>

definition mk_TpReader ::
    "'m pthread_api \<Rightarrow> tid \<Rightarrow> position \<Rightarrow> 'm ByteRingBuffer \<Rightarrow> 'm TpReaderInfo
     \<Rightarrow> (ChannelReaderEventType \<Rightarrow> 'e \<Rightarrow> 'e) \<Rightarrow> ('e TpReader \<times> 'm TpReaderInfo) result" where
  "mk_TpReader pt t pos0 rb tpri eventCb =
     (case mk_ReaderWithBackpressure pt t pos0 rb (rmpReaderInfo tpri) of
        Inl e \<Rightarrow> Inl e
      | Inr (rwb, ri) \<Rightarrow>
          if \<not> tp_initialized tpri then Inl (Thrown ''TP reader info not initialized'')
          else Inr (\<lparr> tr_rmpReaderBP = rwb, tr_channelReaders = [], tr_channelReaderEventCb = eventCb \<rparr>,
                    tpri\<lparr>rmpReaderInfo := ri\<rparr>))"

definition raise_event :: "ChannelReaderEventType \<Rightarrow> ('m, 'e) reader_world \<Rightarrow> ('m, 'e) reader_world" where
  "raise_event ev w = w\<lparr>rw_env := tr_channelReaderEventCb (rw_reader w) ev (rw_env w)\<rparr>"

section \<open>The calls of the client\<close>

text \<open>\<open>addr\<close> is the address of the new object.\<close>

definition CreateChannelReader ::
    "nat \<Rightarrow> bytes \<Rightarrow> (bytes \<Rightarrow> u32 \<Rightarrow> 'e \<Rightarrow> 'e) \<Rightarrow> bool \<Rightarrow> ('m, 'e) reader_world
     \<Rightarrow> 'e ChannelReader \<times> ('m, 'e) reader_world" where
  "CreateChannelReader addr name handler handleDescendents w =
     (let cr = mk_ChannelReader addr name handler handleDescendents (readerGen (rw_ri w))
      in (cr, w\<lparr>rw_serial := rw_serial w @ [AddItem cr]\<rparr>))"

definition CloseChannelReader :: "nat \<Rightarrow> ('m, 'e) reader_world \<Rightarrow> ('m, 'e) reader_world" where
  "CloseChannelReader addr w = w\<lparr>rw_serial := rw_serial w @ [RemoveItem addr]\<rparr>"

definition Run :: "('m, 'e) reader_world \<Rightarrow> ('m, 'e) reader_world" where
  "Run w = w\<lparr>rw_serial := rw_serial w @ [RunItem]\<rparr>"

section \<open>On the serial queue\<close>

definition AddChannelReader :: "'e ChannelReader \<Rightarrow> ('m, 'e) reader_world \<Rightarrow> ('m, 'e) reader_world result" where
  "AddChannelReader cr w =
     (let r = (rw_reader w)\<lparr>tr_channelReaders := tr_channelReaders (rw_reader w) @ [cr]\<rparr>;
          w1 = w\<lparr>rw_reader := r\<rparr>
      in if length (tr_channelReaders r) = 1
         then (case rwb_Activate (tr_rmpReaderBP r) (rw_rb w1) (rmpReaderInfo (rw_ri w1)) of
                 Inl e \<Rightarrow> Inl e
               | Inr (rwb, ri) \<Rightarrow> Inr (raise_event FIRST_CHANNEL_READER_CREATED
                   (w1\<lparr>rw_reader := r\<lparr>tr_rmpReaderBP := rwb\<rparr>, rw_ri := (rw_ri w1)\<lparr>rmpReaderInfo := ri\<rparr>\<rparr>)))
         else Inr w1)"

text \<open>The loop of \<open>RemoveChannelReader\<close>: the list without the first element at the address, if any.\<close>

fun erase_first :: "nat \<Rightarrow> 'e ChannelReader list \<Rightarrow> 'e ChannelReader list option" where
  "erase_first addr [] = None"
| "erase_first addr (cr # crs) =
     (if cr_id cr = addr then Some crs else map_option (Cons cr) (erase_first addr crs))"

definition RemoveChannelReader :: "nat \<Rightarrow> ('m, 'e) reader_world \<Rightarrow> ('m, 'e) reader_world result" where
  "RemoveChannelReader addr w =
     (case erase_first addr (tr_channelReaders (rw_reader w)) of
        None \<Rightarrow> Inr w
      | Some crs \<Rightarrow>
          let w1 = w\<lparr>rw_reader := (rw_reader w)\<lparr>tr_channelReaders := crs\<rparr>\<rparr> in
          if crs = []
          then (case rwb_Deactivate (tr_rmpReaderBP (rw_reader w1)) (rmpReaderInfo (rw_ri w1)) of
                  Inl e \<Rightarrow> Inl e
                | Inr ri \<Rightarrow> Inr (raise_event LAST_CHANNEL_READER_CLOSED
                    (w1\<lparr>rw_ri := (rw_ri w1)\<lparr>rmpReaderInfo := ri\<rparr>\<rparr>)))
          else Inr w1)"

definition GetChannelReaders :: "('m, 'e) reader_world \<Rightarrow> 'e ChannelReader list" where
  "GetChannelReaders w = tr_channelReaders (rw_reader w)"

fun exec_serial :: "'e serial_item \<Rightarrow> ('m, 'e) reader_world \<Rightarrow> ('m, 'e) reader_world result" where
  "exec_serial (AddItem cr) w = AddChannelReader cr w"
| "exec_serial (RemoveItem addr) w = RemoveChannelReader addr w"
| "exec_serial RunItem w =
     (let crs = GetChannelReaders w in
      Inr (if crs \<noteq> [] then w\<lparr>rw_rmp := rw_rmp w @ [crs]\<rparr> else w))"

section \<open>On the read queue\<close>

text \<open>
  The read callback: every channel reader of the copied list filters its own copy of the
  message. A failure inside the callback ends the program, so the rest of the read does not
  count; it is carried as the client's state.
\<close>

fun dispatch :: "'e ChannelReader list \<Rightarrow> bytes \<Rightarrow> 'e \<Rightarrow> 'e result" where
  "dispatch [] d env = Inr env"
| "dispatch (cr # crs) d env =
     (case DeserializeAndFilter d (of_nat (length d)) (cr_readerGen cr) (cr_name cr) (cr_handleDescendents cr) of
        Inl e \<Rightarrow> Inl e
      | Inr None \<Rightarrow> dispatch crs d env
      | Inr (Some (dataCopy, dataSizeCopy)) \<Rightarrow> dispatch crs d (cr_handler cr dataCopy dataSizeCopy env))"

definition dispatch_cb :: "'e ChannelReader list \<Rightarrow> bytes \<Rightarrow> 'e result \<Rightarrow> 'e result" where
  "dispatch_cb crs d acc = (case acc of Inl e \<Rightarrow> Inl e | Inr env \<Rightarrow> dispatch crs d env)"

definition HandleExpiredProcReader :: "position \<Rightarrow> ('m, 'e) reader_world \<Rightarrow> ('m, 'e) reader_world" where
  "HandleExpiredProcReader pos w = raise_event ALL_CHANNEL_READERS_EXPIRED w"

text \<open>The first part of \<open>ReadRmp\<close>: does it go on to read?\<close>

definition ReadRmp_check :: "'e ChannelReader list \<Rightarrow> ('m, 'e) reader_world \<Rightarrow> bool result" where
  "ReadRmp_check crs w =
     (if crs = [] then Inl Assertion
      else rwb_IsActive (tr_rmpReaderBP (rw_reader w)) (rmpReaderInfo (rw_ri w)))"

definition ReadRmp_read ::
    "'e ChannelReader list \<Rightarrow> ('m, 'e) reader_world \<Rightarrow> ('m, 'e) reader_world result option" where
  "ReadRmp_read crs w =
     (case rwb_ReadEx (CopyConfirm (dispatch_cb crs)) (rw_rb w)
             (tr_rmpReaderBP (rw_reader w), rmpReaderInfo (rw_ri w), \<lparr> cch_data = [], cch_env = Inr (rw_env w) \<rparr>) of
        None \<Rightarrow> None
      | Some (Inl e) \<Rightarrow> Some (Inl e)
      | Some (Inr (res, rwb, ri, h)) \<Rightarrow>
          (case cch_env h of
             Inl e \<Rightarrow> Some (Inl e)
           | Inr env \<Rightarrow>
               (let w1 = w\<lparr>rw_reader := (rw_reader w)\<lparr>tr_rmpReaderBP := rwb\<rparr>,
                           rw_ri := (rw_ri w)\<lparr>rmpReaderInfo := ri\<rparr>, rw_env := env\<rparr>
                in Some (Inr (if res = EXPIRED_POSITION then HandleExpiredProcReader (rwb_Pos rwb) w1 else w1)))))"

definition ReadRmp ::
    "'e ChannelReader list \<Rightarrow> ('m, 'e) reader_world \<Rightarrow> ('m, 'e) reader_world result option" where
  "ReadRmp crs w =
     (case ReadRmp_check crs w of
        Inl e \<Rightarrow> Some (Inl e)
      | Inr active \<Rightarrow> if \<not> active then Some (Inr w) else ReadRmp_read crs w)"

text \<open>The items of the read queue, one after the other.\<close>

fun read_all :: "'e ChannelReader list list \<Rightarrow> ('m, 'e) reader_world \<Rightarrow> ('m, 'e) reader_world result option" where
  "read_all [] w = Some (Inr w)"
| "read_all (crs # rest) w =
     (case ReadRmp crs w of
        None \<Rightarrow> None
      | Some (Inl e) \<Rightarrow> Some (Inl e)
      | Some (Inr w') \<Rightarrow> read_all rest w')"

section \<open>The two queues interleaved\<close>

datatype reader_action = SerialNext | RmpCheckNext | RmpReadNext

text \<open>A step: \<open>None\<close> if it is not enabled or does not return.\<close>

fun reader_step :: "reader_action \<Rightarrow> ('m, 'e) reader_world \<Rightarrow> ('m, 'e) reader_world result option" where
  "reader_step SerialNext w =
     (case rw_serial w of
        [] \<Rightarrow> None
      | item # rest \<Rightarrow> Some (exec_serial item (w\<lparr>rw_serial := rest\<rparr>)))"
| "reader_step RmpCheckNext w =
     (case (rw_reading w, rw_rmp w) of
        (None, crs # rest) \<Rightarrow> Some (map_sum id
            (\<lambda>active. w\<lparr>rw_rmp := rest, rw_reading := (if active then Some crs else None)\<rparr>)
            (ReadRmp_check crs w))
      | _ \<Rightarrow> None)"
| "reader_step RmpReadNext w =
     (case rw_reading w of
        None \<Rightarrow> None
      | Some crs \<Rightarrow> ReadRmp_read crs (w\<lparr>rw_reading := None\<rparr>))"

fun reader_run :: "reader_action list \<Rightarrow> ('m, 'e) reader_world \<Rightarrow> ('m, 'e) reader_world result option" where
  "reader_run [] w = Some (Inr w)"
| "reader_run (a # as) w =
     (case reader_step a w of
        None \<Rightarrow> None
      | Some (Inl e) \<Rightarrow> Some (Inl e)
      | Some (Inr w') \<Rightarrow> reader_run as w')"

section \<open>The slot is active exactly while there are channel readers\<close>

abbreviation rw_rmp_ri :: "('m, 'e) reader_world \<Rightarrow> 'm ReaderInfo" where
  "rw_rmp_ri w \<equiv> rmpReaderInfo (rw_ri w)"

definition reader_inv :: "nat \<Rightarrow> ('m, 'e) reader_world \<Rightarrow> bool" where
  "reader_inv k w \<longleftrightarrow>
     rwb_procReaderId (tr_rmpReaderBP (rw_reader w)) = int k \<and> k < length (ri_slots (rw_rmp_ri w)) \<and>
     ri_inv (rw_rmp_ri w) \<and> reader_ok (rwb_reader (tr_rmpReaderBP (rw_reader w))) (rw_rb w) \<and>
     (active_at (rw_rmp_ri w) k \<longleftrightarrow> tr_channelReaders (rw_reader w) \<noteq> [])"

text \<open>
  The abstract reader: the list of channel readers, and the events an item raises.
\<close>

fun roster_step ::
    "'e serial_item \<Rightarrow> 'e ChannelReader list \<Rightarrow> 'e ChannelReader list \<times> ChannelReaderEventType list" where
  "roster_step (AddItem cr) crs = (crs @ [cr], if crs = [] then [FIRST_CHANNEL_READER_CREATED] else [])"
| "roster_step (RemoveItem addr) crs =
     (case erase_first addr crs of
        None \<Rightarrow> (crs, [])
      | Some crs' \<Rightarrow> (crs', if crs' = [] then [LAST_CHANNEL_READER_CLOSED] else []))"
| "roster_step RunItem crs = (crs, [])"

fun roster :: "'e serial_item list \<Rightarrow> 'e ChannelReader list \<Rightarrow> 'e ChannelReader list \<times> ChannelReaderEventType list" where
  "roster [] crs = (crs, [])"
| "roster (item # items) crs =
     (case roster_step item crs of (crs1, evs1) \<Rightarrow>
       (case roster items crs1 of (crs2, evs2) \<Rightarrow> (crs2, evs1 @ evs2)))"

text \<open>What an item does to the reader, seen through the abstraction.\<close>

definition roster_sim :: "'e serial_item list \<Rightarrow> ('m, 'e) reader_world \<Rightarrow> ('m, 'e) reader_world \<Rightarrow> bool" where
  "roster_sim items w w' \<longleftrightarrow>
     (case roster items (tr_channelReaders (rw_reader w)) of (crs, evs) \<Rightarrow>
        tr_channelReaders (rw_reader w') = crs \<and>
        rw_env w' = fold (tr_channelReaderEventCb (rw_reader w)) evs (rw_env w) \<and>
        tr_channelReaderEventCb (rw_reader w') = tr_channelReaderEventCb (rw_reader w))"

lemma roster_sim_step:
  assumes "roster_sim [item] w w1" "roster_sim items w1 w2"
  shows "roster_sim (item # items) w w2"
  using assms by (auto simp: roster_sim_def split: prod.splits)

lemma raise_event_frame [simp]:
  "rw_reader (raise_event ev w) = rw_reader w" "rw_rb (raise_event ev w) = rw_rb w"
  "rw_ri (raise_event ev w) = rw_ri w" "rw_serial (raise_event ev w) = rw_serial w"
  "rw_rmp (raise_event ev w) = rw_rmp w" "rw_reading (raise_event ev w) = rw_reading w"
  "rw_env (raise_event ev w) = tr_channelReaderEventCb (rw_reader w) ev (rw_env w)"
  by (simp_all add: raise_event_def)

lemma active_at_updated:
  "k < length xs \<Longrightarrow> ri_slots ri = xs[k := x] \<Longrightarrow> active_at ri k = slot_active x"
  by (simp add: active_at_def)

lemma AddChannelReader_inv:
  assumes "reader_inv k w"
  shows "\<exists>w'. AddChannelReader cr w = Inr w' \<and> reader_inv k w' \<and> roster_sim [AddItem cr] w w'"
proof (cases "tr_channelReaders (rw_reader w) = []")
  case True
  let ?rwb = "tr_rmpReaderBP (rw_reader w)"
  have ok: "slots_ok (rw_rmp_ri w)" "rwb_procReaderId ?rwb = int k" "k < length (ri_slots (rw_rmp_ri w))"
    using assms by (auto simp: reader_inv_def ri_inv_def)
  obtain ri where ri: "rwb_Activate ?rwb (rw_rb w) (rw_rmp_ri w) = Inr (?rwb\<lparr>rwb_readerPos := freePos (rw_rb w)\<rparr>, ri)"
      "ri_inv ri" "ri_slots ri = (ri_slots (rw_rmp_ri w))[k :=
        (ri_slots (rw_rmp_ri w) ! k)\<lparr>info_position := freePos (rw_rb w), info_isActive := 1\<rparr>]"
    using rwb_Activate_spec [OF ok, of "rw_rb w"] by blast
  have "active_at ri k" using active_at_updated [OF ok(3) ri(3)] by (simp add: slot_active_def)
  then show ?thesis
    using True ri assms ok(2,3) by (simp add: AddChannelReader_def Let_def reader_inv_def roster_sim_def)
next
  case False
  then show ?thesis using assms by (simp add: AddChannelReader_def Let_def reader_inv_def roster_sim_def)
qed

text \<open>The first channel reader moves the reader to the end of the stream and touches no queue.\<close>

lemma AddChannelReader_first:
  assumes "AddChannelReader cr w = Inr w'" "tr_channelReaders (rw_reader w) = []"
  shows "rw_rb w' = rw_rb w \<and> rw_serial w' = rw_serial w \<and> rw_rmp w' = rw_rmp w
    \<and> rwb_Pos (tr_rmpReaderBP (rw_reader w')) = freePos (rw_rb w)"
  using assms
  by (auto simp: AddChannelReader_def Let_def rwb_Activate_def rwb_Pos_def split: sum.splits elim!: map_sum_Inr)

lemma AddChannelReader_slot:
  assumes "AddChannelReader cr w = Inr w'" "tr_channelReaders (rw_reader w) = []" "reader_inv k w"
  shows "ri_slots (rw_rmp_ri w') = (ri_slots (rw_rmp_ri w))[k :=
    (ri_slots (rw_rmp_ri w) ! k)\<lparr>info_position := freePos (rw_rb w), info_isActive := 1\<rparr>]"
proof -
  let ?rwb = "tr_rmpReaderBP (rw_reader w)"
  have ok: "slots_ok (rw_rmp_ri w)" "rwb_procReaderId ?rwb = int k" "k < length (ri_slots (rw_rmp_ri w))"
    using assms(3) by (auto simp: reader_inv_def ri_inv_def)
  show ?thesis
    using rwb_Activate_spec [OF ok, of "rw_rb w"] assms(1,2) by (auto simp: AddChannelReader_def Let_def)
qed

lemma RemoveChannelReader_inv:
  assumes "reader_inv k w"
  shows "\<exists>w'. RemoveChannelReader addr w = Inr w' \<and> reader_inv k w'
    \<and> roster_sim [RemoveItem addr] w w'"
proof (cases "erase_first addr (tr_channelReaders (rw_reader w))")
  case None
  then show ?thesis using assms by (simp add: RemoveChannelReader_def roster_sim_def)
next
  case (Some crs)
  have ne: "tr_channelReaders (rw_reader w) \<noteq> []" using Some by auto
  let ?rwb = "tr_rmpReaderBP (rw_reader w)"
  have ok: "slots_ok (rw_rmp_ri w)" "rwb_procReaderId ?rwb = int k" "k < length (ri_slots (rw_rmp_ri w))"
    using assms by (auto simp: reader_inv_def ri_inv_def)
  show ?thesis
  proof (cases "crs = []")
    case True
    obtain ri where ri: "rwb_Deactivate ?rwb (rw_rmp_ri w) = Inr ri" "ri_inv ri"
        "ri_slots ri = (ri_slots (rw_rmp_ri w))[k := (ri_slots (rw_rmp_ri w) ! k)\<lparr>info_isActive := 0\<rparr>]"
      using Deactivate_spec [OF ok(1), of "int k"] ok(2,3) by (auto simp: rwb_Deactivate_def)
    have "\<not> active_at ri k" using active_at_updated [OF ok(3) ri(3)] by (simp add: slot_active_def)
    then show ?thesis
      using Some True ri assms ok(2,3) by (simp add: RemoveChannelReader_def Let_def reader_inv_def roster_sim_def)
  next
    case False
    then show ?thesis using Some assms ne by (simp add: RemoveChannelReader_def Let_def reader_inv_def roster_sim_def)
  qed
qed

lemma exec_serial_inv:
  assumes "reader_inv k w"
  shows "\<exists>w'. exec_serial item w = Inr w' \<and> reader_inv k w' \<and> roster_sim [item] w w'"
proof (cases item)
  case (AddItem cr)
  then show ?thesis using AddChannelReader_inv [OF assms, of cr] by auto
next
  case (RemoveItem addr)
  then show ?thesis using RemoveChannelReader_inv [OF assms, of addr] by auto
next
  case RunItem
  then show ?thesis using assms by (simp add: reader_inv_def Let_def roster_sim_def)
qed

section \<open>What a read hands to the channel readers\<close>

text \<open>A topic message, and what the channel readers make of it.\<close>

record topic_msg =
  tm_gen :: reader_gen
  tm_desc :: bool
  tm_channel :: bytes
  tm_data :: bytes

definition tm_ok :: "topic_msg \<Rightarrow> bool" where
  "tm_ok tm \<longleftrightarrow> 0 \<notin> set (tm_channel tm) \<and> 10 + length (tm_channel tm) + length (tm_data tm) < 2 ^ 32"

definition tm_image :: "topic_msg \<Rightarrow> bytes" where
  "tm_image tm = topic_image (tm_gen tm) (tm_desc tm) (tm_channel tm) (tm_data tm)"

definition accepts :: "'e ChannelReader \<Rightarrow> topic_msg \<Rightarrow> bool" where
  "accepts cr tm \<longleftrightarrow> cr_readerGen cr \<le> tm_gen tm \<and>
     (cr_name cr = tm_channel tm \<or> (tm_desc tm \<and> prefix (tm_channel tm) (cr_name cr))
      \<or> (cr_handleDescendents cr \<and> prefix (cr_name cr) (tm_channel tm)))"

text \<open>The handlers of the accepting channel readers run in the order of the list, per message.\<close>

definition offer :: "topic_msg \<Rightarrow> 'e ChannelReader \<Rightarrow> 'e \<Rightarrow> 'e" where
  "offer tm cr env =
     (if accepts cr tm then cr_handler cr (tm_data tm) (of_nat (length (tm_data tm))) env else env)"

definition offer_all :: "'e ChannelReader list \<Rightarrow> topic_msg list \<Rightarrow> 'e \<Rightarrow> 'e" where
  "offer_all crs tms = fold (\<lambda>tm. fold (offer tm) crs) tms"

lemma dispatch_image:
  assumes "tm_ok tm"
  shows "dispatch crs (tm_image tm) env = Inr (fold (offer tm) crs env)"
proof (induction crs arbitrary: env)
  case Nil
  then show ?case by simp
next
  case (Cons cr crs)
  have sz: "unat (of_nat (length (tm_image tm)) :: u32) = 10 + length (tm_channel tm) + length (tm_data tm)"
    using assms by (simp only: tm_image_def length_topic_image) (intro unat_of_nat_small, simp add: tm_ok_def)
  have "DeserializeAndFilter (tm_image tm) (of_nat (length (tm_image tm))) (cr_readerGen cr) (cr_name cr)
      (cr_handleDescendents cr) =
    Inr (if accepts cr tm then Some (tm_data tm, of_nat (length (tm_data tm))) else None)"
    using Deserialize_image [of "tm_channel tm" "of_nat (length (tm_image tm))" "tm_data tm" "tm_gen tm" "tm_desc tm"
        "cr_readerGen cr" "cr_name cr" "cr_handleDescendents cr"] sz assms
    by (auto simp: tm_image_def tm_ok_def accepts_def topic_rel_def not_less not_le)
  then show ?case using Cons.IH by (simp add: offer_def)
qed

lemma deliver_dispatch:
  assumes "\<And>tm. tm \<in> set tms \<Longrightarrow> tm_ok tm" "cch_env h = Inr env"
  shows "cch_env (deliver (CopyConfirm (dispatch_cb crs)) (map tm_image tms) h) = Inr (offer_all crs tms env)"
  using assms
proof (induction tms arbitrary: h env)
  case Nil
  then show ?case by (simp add: offer_all_def)
next
  case (Cons tm tms)
  let ?h = "h\<lparr>cch_data := tm_image tm, cch_env := Inr (fold (offer tm) crs env)\<rparr>"
  have "deliver (CopyConfirm (dispatch_cb crs)) (map tm_image (tm # tms)) h =
      deliver (CopyConfirm (dispatch_cb crs)) (map tm_image tms) ?h"
    using Cons.prems dispatch_image [of tm crs env]
    by (simp add: CopyConfirm_def cch_Copy_def cch_Confirm_def dispatch_cb_def)
  then show ?case using Cons.IH [of ?h "fold (offer tm) crs env"] Cons.prems(1) by (simp add: offer_all_def)
qed

section \<open>Reading through the slot\<close>

lemma ReadRmp_check_active:
  assumes "reader_inv k w" "crs \<noteq> []"
  shows "ReadRmp_check crs w = Inr (tr_channelReaders (rw_reader w) \<noteq> [])"
proof -
  have "Get (rw_rmp_ri w) (int k) = Inr (ri_slots (rw_rmp_ri w) ! k)"
    using assms(1) by (intro Get_nat) (auto simp: reader_inv_def ri_inv_def slots_ok_def)
  then show ?thesis
    using assms by (auto simp: ReadRmp_check_def rwb_IsActive_def reader_inv_def active_at_def)
qed

text \<open>The world after a read to the end of the stream.\<close>

definition caught_up :: "nat \<Rightarrow> 'e \<Rightarrow> ('m, 'e) reader_world \<Rightarrow> ('m, 'e) reader_world" where
  "caught_up k env w =
     (let r = rw_reader w; ri = rw_rmp_ri w; f = freePos (rw_rb w) in
      w\<lparr>rw_reader := r\<lparr>tr_rmpReaderBP := (tr_rmpReaderBP r)\<lparr>rwb_readerPos := f\<rparr>\<rparr>,
        rw_ri := (rw_ri w)\<lparr>rmpReaderInfo := ri\<lparr>ri_slots := (ri_slots ri)[k := set_position f (ri_slots ri ! k)]\<rparr>\<rparr>,
        rw_env := env\<rparr>)"

lemma caught_up_inv:
  assumes "reader_inv k w"
  shows "reader_inv k (caught_up k env w)"
proof -
  let ?ri = "rw_rmp_ri (caught_up k env w)"
  have k: "k < length (ri_slots (rw_rmp_ri w))" "ri_inv (rw_rmp_ri w)" using assms by (simp_all add: reader_inv_def)
  then have "ri_inv ?ri" "active_at ?ri k = active_at (rw_rmp_ri w) k"
    using ri_inv_set_position [OF k(2,1)] active_at_set_position [OF k(1), of ?ri "freePos (rw_rb w)" k]
    by (simp_all add: caught_up_def Let_def)
  then show ?thesis using assms by (simp add: reader_inv_def caught_up_def Let_def)
qed

lemma ReadRmp_stream:
  assumes inv: "reader_inv k w" and crs: "crs \<noteq> []" "tr_channelReaders (rw_reader w) \<noteq> []"
    and pd: "pending (rw_rb w) (rwb_Pos (tr_rmpReaderBP (rw_reader w))) ss" "messages ss = map tm_image tms"
    and tms: "\<And>tm. tm \<in> set tms \<Longrightarrow> tm_ok tm"
  shows "ReadRmp crs w = Some (Inr (caught_up k (offer_all crs tms (rw_env w)) w))"
proof -
  let ?rwb = "tr_rmpReaderBP (rw_reader w)" and ?f = "freePos (rw_rb w)" and ?ri = "rw_rmp_ri w"
  let ?h = "\<lparr> cch_data = [], cch_env = Inr (rw_env w) \<rparr>"
  have k: "rwb_procReaderId ?rwb = int k" "active_at ?ri k" "ri_inv ?ri" "reader_ok (rwb_reader ?rwb) (rw_rb w)"
    using inv crs(2) by (auto simp: reader_inv_def)
  have rd: "rwb_ReadEx (CopyConfirm (dispatch_cb crs)) (rw_rb w) (?rwb, ?ri, ?h) =
      Some (Inr (SUCCESS, ?rwb\<lparr>rwb_readerPos := ?f\<rparr>, ?ri\<lparr>ri_slots := (ri_slots ?ri)[k := set_position ?f (ri_slots ?ri ! k)]\<rparr>,
        deliver (CopyConfirm (dispatch_cb crs)) (messages ss) ?h))"
    using pd(1) by (intro rwb_ReadEx_stream k) (auto simp: pending_def rwb_Pos_def list_all_iff)
  have env: "cch_env (deliver (CopyConfirm (dispatch_cb crs)) (messages ss) ?h) = Inr (offer_all crs tms (rw_env w))"
    using deliver_dispatch [OF tms, of tms ?h] pd(2) by simp
  show ?thesis
    using rd env crs ReadRmp_check_active [OF inv crs(1)]
    by (simp add: ReadRmp_def ReadRmp_read_def Let_def caught_up_def)
qed

lemma ReadRmp_pending:
  assumes "reader_inv k w" and "crs \<noteq> []" "tr_channelReaders (rw_reader w) \<noteq> []"
    and "pending (rw_rb w) (rwb_Pos (tr_rmpReaderBP (rw_reader w))) ss" "messages ss = map tm_image tms"
    and "\<And>tm. tm \<in> set tms \<Longrightarrow> tm_ok tm"
  shows "\<exists>w'. ReadRmp crs w = Some (Inr w') \<and> rw_env w' = offer_all crs tms (rw_env w) \<and> reader_inv k w'
    \<and> rwb_Pos (tr_rmpReaderBP (rw_reader w')) = freePos (rw_rb w) \<and> rw_rb w' = rw_rb w
    \<and> tr_channelReaders (rw_reader w') = tr_channelReaders (rw_reader w)"
  using ReadRmp_stream [OF assms] caught_up_inv [OF assms(1), of "offer_all crs tms (rw_env w)"]
  by (simp add: caught_up_def Let_def rwb_Pos_def)

text \<open>A reader that was lapped by a writer that did not wait for it.\<close>

lemma ReadRmp_lapped:
  assumes inv: "reader_inv k w" and crs: "crs \<noteq> []" "tr_channelReaders (rw_reader w) \<noteq> []"
    and d: "unat (configBufSizeBytes (rw_rb w)) + 4 \<le> dist (rwb_Pos (tr_rmpReaderBP (rw_reader w))) (freePos (rw_rb w))"
      "dist (rwb_Pos (tr_rmpReaderBP (rw_reader w))) (freePos (rw_rb w)) < 2 ^ 63"
  shows "\<exists>w'. ReadRmp crs w = Some (Inr w')
    \<and> rw_env w' = tr_channelReaderEventCb (rw_reader w) ALL_CHANNEL_READERS_EXPIRED (rw_env w)
    \<and> expiredReaders (rw_rmp_ri w') = expiredReaders (rw_rmp_ri w) + 1"
proof -
  let ?rwb = "tr_rmpReaderBP (rw_reader w)" and ?ri = "rw_rmp_ri w"
  let ?h = "\<lparr> cch_data = [], cch_env = Inr (rw_env w) \<rparr>"
  let ?s = "\<lparr> rs_pos = rwb_readerPos ?rwb, rs_bpos = info_position (ri_slots ?ri ! k), rs_handler = ?h \<rparr>"
  have k: "rwb_procReaderId ?rwb = int k" "active_at ?ri k" "ri_inv ?ri" "reader_ok (rwb_reader ?rwb) (rw_rb w)"
      "k < length (ri_slots ?ri)"
    using inv crs(2) by (auto simp: reader_inv_def)
  have get: "Get ?ri (int k) = Inr (ri_slots ?ri ! k)"
    using k by (intro Get_nat) (auto simp: ri_inv_def slots_ok_def)
  obtain p where "ReadEx (rwb_reader ?rwb) (CopyConfirm (dispatch_cb crs)) (rw_rb w) ?s =
      Some (Inr (EXPIRED_POSITION, ?s\<lparr>rs_pos := p\<rparr>))"
    using ReadEx_expired [OF k(4), of ?s] d by (auto simp: rwb_Pos_def)
  then show ?thesis
    using get k crs ReadRmp_check_active [OF inv crs(1)]
    by (simp add: ReadRmp_def ReadRmp_read_def rwb_ReadEx_def rwb_finish_def update_slot_def active_at_def Let_def
        HandleExpiredProcReader_def raise_event_def)
qed

section \<open>A reader just made\<close>

definition new_reader_world ::
    "'e TpReader \<Rightarrow> 'm ByteRingBuffer \<Rightarrow> 'm TpReaderInfo \<Rightarrow> 'e \<Rightarrow> ('m, 'e) reader_world" where
  "new_reader_world r rb tpri env = \<lparr> rw_reader = r, rw_rb = rb, rw_ri = tpri, rw_env = env,
     rw_serial = [], rw_rmp = [], rw_reading = None \<rparr>"

fun exec_all :: "'e serial_item list \<Rightarrow> ('m, 'e) reader_world \<Rightarrow> ('m, 'e) reader_world result" where
  "exec_all [] w = Inr w"
| "exec_all (item # items) w = (case exec_serial item w of Inl e \<Rightarrow> Inl e | Inr w' \<Rightarrow> exec_all items w')"

lemma exec_all_inv:
  "reader_inv k w \<Longrightarrow> \<exists>w'. exec_all items w = Inr w' \<and> reader_inv k w' \<and> roster_sim items w w'"
proof (induction items arbitrary: w)
  case Nil
  then show ?case by (simp add: roster_sim_def)
next
  case (Cons item items)
  obtain w1 where w1: "exec_serial item w = Inr w1" "reader_inv k w1" "roster_sim [item] w w1"
    using exec_serial_inv [OF Cons.prems] by blast
  then show ?case using Cons.IH [OF w1(2)] roster_sim_step [OF w1(3)] by auto
qed

context robust_pthread
begin

lemma mk_TpReader_inv:
  assumes mk: "mk_TpReader pt t pos0 rb tpri cb = Inr (r, tpri')"
    and rb: "rb_ok rb" and ri: "ri_inv (rmpReaderInfo tpri)" "locks_settled view (rmpReaderInfo tpri)"
  shows "\<exists>k. reader_inv k (new_reader_world r rb tpri' env) \<and> slot_holder view (rmpReaderInfo tpri) k = None
    \<and> slot_acquired view t k (rmpReaderInfo tpri) (rmpReaderInfo tpri')"
proof -
  obtain rwb ri' where rwb: "mk_ReaderWithBackpressure pt t pos0 rb (rmpReaderInfo tpri) = Inr (rwb, ri')"
      and r: "r = \<lparr> tr_rmpReaderBP = rwb, tr_channelReaders = [], tr_channelReaderEventCb = cb \<rparr>"
        "tpri' = tpri\<lparr>rmpReaderInfo := ri'\<rparr>"
    using mk by (auto simp: mk_TpReader_def split: sum.splits prod.splits if_splits)
  obtain reader rid where rd: "mk_Reader rb = Inr reader" and al: "Alloc pt t (rmpReaderInfo tpri) = Inr (rid, ri')"
      and rid: "rid \<noteq> INVALID_READER_ID"
      and rwb': "rwb = \<lparr> rwb_reader = reader, rwb_procReaderId = rid, rwb_readerPos = pos0 \<rparr>"
    using mk_rwb_Inr [OF rwb] by blast
  obtain k where k: "rid = int k" "slot_acquired view t k (rmpReaderInfo tpri) ri'"
    using Alloc_spec [OF ri(2), of t] ri(1) al rid by (auto simp: ri_inv_def)
  then have "k < length (ri_slots ri')" "\<not> active_at ri' k" "ri_inv ri'"
      "slot_holder view (rmpReaderInfo tpri) k = None"
    by (auto simp: slot_acquired_def active_at_def taken_slot_def slot_active_def)
  then show ?thesis
    using mk_Reader_Inr [OF rd rb] k(2)
    by (intro exI [of _ k]) (simp add: reader_inv_def new_reader_world_def r rwb' k(1))
qed

end

section \<open>Properties\<close>

text \<open>A client that records what it sees, and a reader of the witnesses.\<close>

datatype seen = Event ChannelReaderEventType | Got nat bytes

definition record_event :: "ChannelReaderEventType \<Rightarrow> seen list \<Rightarrow> seen list" where
  "record_event ev env = env @ [Event ev]"

definition recorder :: "nat \<Rightarrow> bytes \<Rightarrow> bool \<Rightarrow> seen list ChannelReader" where
  "recorder addr name desc = mk_ChannelReader addr name (\<lambda>d n env. env @ [Got addr d]) desc 0"

definition tp_table :: "mutex_view TpReaderInfo" where
  "tp_table = \<lparr> readerGen = 0, tp_initialized = True, rmpReaderInfo = table_2 \<rparr>"

definition made_reader :: "seen list TpReader" where
  "made_reader = \<lparr> tr_rmpReaderBP = \<lparr> rwb_reader = \<lparr> reader_indexMask = 31 \<rparr>, rwb_procReaderId = 0,
     rwb_readerPos = 5 \<rparr>, tr_channelReaders = [], tr_channelReaderEventCb = record_event \<rparr>"

definition made_table :: "mutex_view TpReaderInfo" where
  "made_table = tp_table\<lparr>rmpReaderInfo := table_2\<lparr>readersMinMax := 0x20001,
     ri_slots := [new_info (Held 1), new_info Free]\<rparr>\<rparr>"

lemma made: "mk_TpReader posix_pthread 1 5 ring_32 tp_table record_event = Inr (made_reader, made_table)"
proof -
  have "mk_ReaderWithBackpressure posix_pthread 1 5 ring_32 table_2 =
    Inr (tr_rmpReaderBP made_reader, rmpReaderInfo made_table)" by code_simp
  then show ?thesis by (simp add: mk_TpReader_def tp_table_def made_reader_def made_table_def)
qed

lemma tp_table_ok: "ri_inv (rmpReaderInfo tp_table)" "locks_settled id (rmpReaderInfo tp_table)"
  using table_2_inv table_2_settled by (simp_all add: tp_table_def)

text \<open>
  C15: The serial queue implements its abstract description. For a freshly made reader and any
  sequence of added, removed and run items, every item succeeds; the channel readers are
  those of the abstract list, the client has seen exactly the abstract events (created when
  the list becomes non-empty, closed when it becomes empty), and the slot of the reader is
  active, and so holds back writers, exactly while the list is not empty.
\<close>

theorem serial_queue_refines:
  assumes "robust_pthread pt view" "mk_TpReader pt t pos0 rb tpri cb = Inr (r, tpri')"
    and "rb_ok rb" "ri_inv (rmpReaderInfo tpri)" "locks_settled view (rmpReaderInfo tpri)"
  shows "\<exists>w'. exec_all items (new_reader_world r rb tpri' env) = Inr w'
    \<and> tr_channelReaders (rw_reader w') = fst (roster items [])
    \<and> rw_env w' = fold cb (snd (roster items [])) env
    \<and> (active_at (rmpReaderInfo (rw_ri w')) (nat (rwb_procReaderId (tr_rmpReaderBP r)))
        \<longleftrightarrow> fst (roster items []) \<noteq> [])"
proof -
  let ?w = "new_reader_world r rb tpri' env"
  obtain k where k: "reader_inv k ?w" using robust_pthread.mk_TpReader_inv [OF assms] by blast
  have r: "tr_channelReaders r = []" "tr_channelReaderEventCb r = cb"
    using assms(2) by (auto simp: mk_TpReader_def split: sum.splits prod.splits if_splits)
  obtain w' where w': "exec_all items ?w = Inr w'" "reader_inv k w'" "roster_sim items ?w w'"
    using exec_all_inv [OF k, of items] by blast
  moreover have "nat (rwb_procReaderId (tr_rmpReaderBP r)) = k"
    using k by (simp add: reader_inv_def new_reader_world_def)
  ultimately show ?thesis
    using r by (auto simp: roster_sim_def reader_inv_def new_reader_world_def split: prod.splits)
qed

theorem serial_queue_refines_witness:
  "\<exists>w'. exec_all [AddItem (recorder 1 [97] False), AddItem (recorder 2 [98] True), RemoveItem 1, RemoveItem 3,
      RemoveItem 2, AddItem (recorder 4 [] False)] (new_reader_world made_reader ring_32 made_table []) = Inr w'
    \<and> tr_channelReaders (rw_reader w') = [recorder 4 [] False]
    \<and> rw_env w' = [Event FIRST_CHANNEL_READER_CREATED, Event LAST_CHANNEL_READER_CLOSED,
        Event FIRST_CHANNEL_READER_CREATED]
    \<and> active_at (rmpReaderInfo (rw_ri w')) 0"
  using serial_queue_refines [OF posix.robust_pthread_axioms made ring_32_ok tp_table_ok,
      of "[AddItem (recorder 1 [97] False), AddItem (recorder 2 [98] True), RemoveItem 1, RemoveItem 3,
      RemoveItem 2, AddItem (recorder 4 [] False)]" "[]"]
  by (simp add: recorder_def mk_ChannelReader_def made_reader_def record_event_def)

text \<open>
  C16: Delivery to channels. When the reader is active and everything between its position and
  the end of the stream is a sequence of topic messages, a run of ReadRmp calls, message by
  message and in the order of the copied list, the handler of exactly those channel readers
  whose generation is not above the message's and whose topic matches, with the data and its
  size, and then has caught up with the stream.
\<close>

theorem ReadRmp_delivers:
  assumes "reader_inv k w" "crs \<noteq> []" "tr_channelReaders (rw_reader w) \<noteq> []"
    and "pending (rw_rb w) (rwb_Pos (tr_rmpReaderBP (rw_reader w))) ss" "messages ss = map tm_image tms"
    and "\<And>tm. tm \<in> set tms \<Longrightarrow> tm_ok tm"
  shows "\<exists>w'. ReadRmp crs w = Some (Inr w') \<and> rwb_Pos (tr_rmpReaderBP (rw_reader w')) = freePos (rw_rb w)
    \<and> rw_env w' = fold (\<lambda>tm. fold (\<lambda>cr env.
        if accepts cr tm then cr_handler cr (tm_data tm) (of_nat (length (tm_data tm))) env else env) crs) tms (rw_env w)"
  using ReadRmp_pending [OF assms] by (auto simp: offer_all_def offer_def [abs_def])

text \<open>A world in which one message on channel ab waits for two channel readers.\<close>

definition one_message :: topic_msg where
  "one_message = \<lparr> tm_gen = 0, tm_desc = True, tm_channel = [97], tm_data = [7] \<rparr>"

definition waiting_world :: "(mutex_view, seen list) reader_world" where
  "waiting_world = \<lparr>
     rw_reader = made_reader\<lparr>tr_rmpReaderBP := (tr_rmpReaderBP made_reader)\<lparr>rwb_readerPos := 0\<rparr>,
       tr_channelReaders := [recorder 1 [97, 98] False, recorder 2 [98] True]\<rparr>,
     rw_rb = ring_32\<lparr>freePos := 17, rb_data := hdr_bytes \<lparr> hdr_type = MSG, hdr_length = 12 \<rparr>
       @ tm_image one_message @ replicate 15 0\<rparr>,
     rw_ri = made_table\<lparr>rmpReaderInfo := table_2\<lparr>readersMinMax := 1,
       ri_slots := [(new_info (Held 1))\<lparr>info_isActive := 1\<rparr>, new_info Free]\<rparr>\<rparr>,
     rw_env = [], rw_serial = [], rw_rmp = [], rw_reading = None \<rparr>"

lemma waiting_world_inv: "reader_inv 0 waiting_world"
  by (auto simp: reader_inv_def waiting_world_def made_reader_def made_table_def ri_inv_def slots_ok_def
      range_covers_def active_at_def slot_active_def new_info_def GetActiveRange_def range_min_def range_max_def
      reader_ok_def rb_ok_def good_size_32 tm_image_def one_message_def less_Suc_eq)

lemma waiting_world_pending: "pending (rw_rb waiting_world) 0 [Msg (tm_image one_message)]"
  by (simp add: pending_def waiting_world_def one_message_def tm_image_def index_of_def topic_image_def)

theorem ReadRmp_delivers_witness:
  "\<exists>w'. ReadRmp [recorder 1 [97, 98] False, recorder 2 [98] True] waiting_world = Some (Inr w')
    \<and> rw_env w' = [Got 1 [7]]"
proof -
  have "tm_ok one_message" by (simp add: tm_ok_def one_message_def)
  then show ?thesis
    using ReadRmp_delivers [OF waiting_world_inv, of "[recorder 1 [97, 98] False, recorder 2 [98] True]"
        "[Msg (tm_image one_message)]" "[one_message]"] waiting_world_pending
    by (auto simp: waiting_world_def rwb_Pos_def made_reader_def accepts_def recorder_def mk_ChannelReader_def one_message_def)
qed

text \<open>
  C35: Expiry is reported. If writers have overwritten the position of an active reader (a
  whole buffer and the four bytes a blank run may take, or more), ReadRmp hands nothing to
  the channel readers, counts the expired reader in shared memory and raises
  ALL_CHANNEL_READERS_EXPIRED once.
\<close>

theorem ReadRmp_reports_expiry:
  assumes "reader_inv k w" "crs \<noteq> []" "tr_channelReaders (rw_reader w) \<noteq> []"
    and "unat (configBufSizeBytes (rw_rb w)) + 4
        \<le> unat (freePos (rw_rb w) - rwb_Pos (tr_rmpReaderBP (rw_reader w)))"
      "unat (freePos (rw_rb w) - rwb_Pos (tr_rmpReaderBP (rw_reader w))) < 2 ^ 63"
  shows "\<exists>w'. ReadRmp crs w = Some (Inr w')
    \<and> rw_env w' = tr_channelReaderEventCb (rw_reader w) ALL_CHANNEL_READERS_EXPIRED (rw_env w)
    \<and> expiredReaders (rmpReaderInfo (rw_ri w')) = expiredReaders (rmpReaderInfo (rw_ri w)) + 1"
  using ReadRmp_lapped [OF assms(1-3)] assms(4,5) unfolding dist_def by simp

theorem ReadRmp_reports_expiry_witness:
  "\<exists>w'. ReadRmp [recorder 1 [97, 98] False] (waiting_world\<lparr>rw_rb := (rw_rb waiting_world)\<lparr>freePos := 100\<rparr>\<rparr>)
      = Some (Inr w') \<and> rw_env w' = [Event ALL_CHANNEL_READERS_EXPIRED]"
proof -
  let ?w = "waiting_world\<lparr>rw_rb := (rw_rb waiting_world)\<lparr>freePos := 100\<rparr>\<rparr>"
  have "reader_inv 0 ?w" using waiting_world_inv by (simp add: reader_inv_def reader_ok_def rb_ok_def)
  from ReadRmp_reports_expiry [OF this, of "[recorder 1 [97, 98] False]"]
  show ?thesis by (auto simp: waiting_world_def rwb_Pos_def made_reader_def record_event_def)
qed

text \<open>
  Closing during a read. The two queues run concurrently: if the last channel reader is
  removed after ReadRmp has checked that the reader is active and before it reads, the read
  fails its assertion and the process dies. Every freshly made reader can get there with the
  three calls CreateChannelReader, Run and CloseChannelReader.
\<close>

lemma close_during_read_asserts:
  assumes "robust_pthread pt view" "mk_TpReader pt t pos0 rb tpri cb = Inr (r, tpri')"
    and "rb_ok rb" "ri_inv (rmpReaderInfo tpri)" "locks_settled view (rmpReaderInfo tpri)"
  shows "reader_run [SerialNext, SerialNext, RmpCheckNext, SerialNext, RmpReadNext]
      (CloseChannelReader addr (Run (snd (CreateChannelReader addr name handler desc
        (new_reader_world r rb tpri' env))))) = Some (Inl Assertion)"
proof -
  define cr where "cr = mk_ChannelReader addr name handler desc (readerGen tpri')"
  define w0 where "w0 = (new_reader_world r rb tpri' env)\<lparr>rw_serial := [RunItem, RemoveItem addr]\<rparr>"
  have start: "CloseChannelReader addr (Run (snd (CreateChannelReader addr name handler desc
      (new_reader_world r rb tpri' env)))) = w0\<lparr>rw_serial := [AddItem cr, RunItem, RemoveItem addr]\<rparr>"
    by (simp add: CloseChannelReader_def Run_def CreateChannelReader_def Let_def new_reader_world_def w0_def cr_def)
  obtain k where "reader_inv k (new_reader_world r rb tpri' env)"
    using robust_pthread.mk_TpReader_inv [OF assms] by blast
  then have inv0: "reader_inv k w0" by (simp add: reader_inv_def w0_def)
  have r: "tr_channelReaders r = []"
    using assms(2) by (auto simp: mk_TpReader_def split: sum.splits prod.splits if_splits)
  obtain w1 where w1: "AddChannelReader cr w0 = Inr w1" "reader_inv k w1" "tr_channelReaders (rw_reader w1) = [cr]"
    using AddChannelReader_inv [OF inv0, of cr] r by (auto simp: roster_sim_def w0_def new_reader_world_def)
  have q1: "rw_serial w1 = [RunItem, RemoveItem addr]" "rw_rmp w1 = []" "rw_reading w1 = None"
    using w1(1) by (auto simp: AddChannelReader_def Let_def w0_def new_reader_world_def split: if_splits sum.splits)
  define w2 where "w2 = w1\<lparr>rw_serial := [], rw_rmp := [], rw_reading := Some [cr]\<rparr>"
  have chk: "ReadRmp_check [cr] (w1\<lparr>rw_serial := [RemoveItem addr], rw_rmp := [[cr]]\<rparr>) = Inr True"
    using ReadRmp_check_active [of k "w1\<lparr>rw_serial := [RemoveItem addr], rw_rmp := [[cr]]\<rparr>" "[cr]"] w1(2,3)
    by (simp add: reader_inv_def)
  have inv2: "reader_inv k w2" using w1(2) by (simp add: reader_inv_def w2_def)
  obtain w3 where w3: "RemoveChannelReader addr w2 = Inr w3" "reader_inv k w3" "tr_channelReaders (rw_reader w3) = []"
    using RemoveChannelReader_inv [OF inv2, of addr] w1(3)
    by (auto simp: roster_sim_def w2_def cr_def mk_ChannelReader_def)
  have q3: "rw_reading w3 = Some [cr]"
    using w3(1) by (auto simp: RemoveChannelReader_def Let_def w2_def split: option.splits if_splits sum.splits)
  have "Get (rw_rmp_ri w3) (int k) = Inr (ri_slots (rw_rmp_ri w3) ! k)" "\<not> slot_active (ri_slots (rw_rmp_ri w3) ! k)"
    using w3(2,3) by (auto simp: reader_inv_def ri_inv_def slots_ok_def active_at_def intro!: Get_nat)
  then have read: "ReadRmp_read [cr] (w3\<lparr>rw_reading := None\<rparr>) = Some (Inl Assertion)"
    using w3(2) by (simp add: ReadRmp_read_def rwb_ReadEx_def reader_inv_def)
  have w2': "w1\<lparr>rw_rmp := [], rw_reading := Some [cr], rw_serial := []\<rparr> = w2" by (simp add: w2_def)
  have add: "exec_serial (AddItem cr) (w0\<lparr>rw_serial := [RunItem, RemoveItem addr]\<rparr>) = Inr w1"
    using w1(1) by (simp add: w0_def)
  show ?thesis
    unfolding start using add q1 w1(3) chk w3(1) q3 read
    by (simp add: GetChannelReaders_def Let_def w2')
qed

lemma close_during_read_asserts_witness:
  "reader_run [SerialNext, SerialNext, RmpCheckNext, SerialNext, RmpReadNext]
      (CloseChannelReader 1 (Run (snd (CreateChannelReader 1 [97] (\<lambda>d n env. env) False
        (new_reader_world made_reader ring_32 made_table []))))) = Some (Inl Assertion)"
  by (rule close_during_read_asserts [OF posix.robust_pthread_axioms made ring_32_ok tp_table_ok])

end
