(* ===== verification/PublishSubscribe.thy ===== *)
theory PublishSubscribe
  imports AsyncWriter TpReader
begin

text \<open>
  The asynchronous writer of one process and the topic reader of another on one ring buffer:
  what ProcWriter writes is what the next ReadRmp of a reader that had caught up reads.
\<close>

section \<open>The writer's batch as the reader's pending stream\<close>

lemma CreateMessage_tm:
  assumes "rb_ok rb" "tm_ok tm"
    and "CreateMessage rb (tm_gen tm) (tm_channel tm) (tm_data tm) (of_nat (length (tm_data tm))) (tm_desc tm) = Inr m"
  shows "m = tm_image tm"
proof -
  have small: "10 + length (tm_channel tm) + length (tm_data tm) < 2 ^ 32" and name: "0 \<notin> set (tm_channel tm)"
    using assms(2) by (simp_all add: tm_ok_def)
  then have len: "unat (of_nat (length (tm_data tm)) :: u64) = length (tm_data tm)"
    by (intro unat_of_nat_small) simp
  have "tm_data tm \<noteq> []" using assms(3) by (auto simp: CreateMessage_def)
  from CreateMessage_image [OF assms(1) name len this small] assms(3)
  show ?thesis by (simp add: tm_image_def split: if_splits)
qed

lemma batch_message_fits:
  "msg \<in> set msgs \<Longrightarrow> length msg + 5 \<le> total (batch_segments B f msgs)"
proof (induction msgs arbitrary: f)
  case (Cons d ds)
  have "length msg \<le> total (batch_segments B g ds)" if "msg \<in> set ds" for g
    using Cons.IH [OF that] by (rule add_leD1)
  then show ?case using Cons.prems by (auto simp: write_segments_def intro: trans_le_add2)
qed simp

lemma batch_stored_reader_ok:
  assumes "batch_stored rb msgs rb'"
  shows "reader_ok r rb' = reader_ok r rb"
  using assms by (auto simp: batch_stored_def extends_def reader_ok_def rb_ok_def)

lemma batch_stored_pending:
  assumes "batch_stored rb msgs rb'"
    and "total (batch_segments (configBufSizeBytes rb) (freePos rb) msgs) < unat (configBufSizeBytes rb)"
    and "list_all seg_valid (batch_segments (configBufSizeBytes rb) (freePos rb) msgs)"
  shows "pending rb' (freePos rb) (batch_segments (configBufSizeBytes rb) (freePos rb) msgs)"
proof -
  let ?new = "batch_segments (configBufSizeBytes rb) (freePos rb) msgs"
  have "extends (configBufSizeBytes rb) (rb_data rb) (freePos rb) ?new (rb_data rb')"
    using assms(1) by (simp add: batch_stored_def)
  then have "on_ring (configBufSizeBytes rb) (rb_data rb) (freePos rb) [] \<longrightarrow>
      freePos rb = freePos rb + of_nat (total []) \<longrightarrow> total [] + total ?new \<le> unat (configBufSizeBytes rb)
      \<longrightarrow> on_ring (configBufSizeBytes rb) (rb_data rb') (freePos rb) ([] @ ?new)"
    unfolding extends_def by blast
  then show ?thesis using assms by (simp add: pending_def batch_stored_def)
qed

lemma publish_and_read:
  fixes aw :: "('m, bytes MPSCMessageQueue, 'e) AsyncWriter" and rd :: "('m, 'f) reader_world"
  assumes "robust_pthread pt view"
    and "notify_keeps notify" "handler_keeps bp" "gives_up aw \<mu>"
    and "mk_AsyncWriter (ww_rb w) Enqueue Drain bp notify = Inr aw"
    and "rb_ok (ww_rb w)" "ri_inv (ww_ri w)" "ww_queue w = new_MPSCMessageQueue"
    and "settled (view (writerMtx (ww_rb w)))" "holder_of (view (writerMtx (ww_rb w))) = None"
    and "tms \<noteq> []" "\<And>tm. tm \<in> set tms \<Longrightarrow> tm_ok tm \<and>
      CreateMessage (ww_rb w) (tm_gen tm) (tm_channel tm) (tm_data tm) (of_nat (length (tm_data tm))) (tm_desc tm)
        = Inr (m tm)"
    and "total (batch_segments (configBufSizeBytes (ww_rb w)) (freePos (ww_rb w)) (map m tms))
        < unat (configBufSizeBytes (ww_rb w))"
    and "list_all seg_valid (batch_segments (configBufSizeBytes (ww_rb w)) (freePos (ww_rb w)) (map m tms))"
    and "reader_inv k rd" "rw_rb rd = ww_rb w" "tr_channelReaders (rw_reader rd) \<noteq> []" "crs \<noteq> []"
    and "rwb_Pos (tr_rmpReaderBP (rw_reader rd)) = freePos (ww_rb w)"
  shows "\<exists>w1 w2 rd'. post_all aw (map m tms) w = Inr (1, w1) \<and> ProcWriter pt t aw w1 = Some (Inr w2)
    \<and> ReadRmp crs (rd\<lparr>rw_rb := ww_rb w2\<rparr>) = Some (Inr rd')
    \<and> rw_env rd' = fold (\<lambda>tm. fold (\<lambda>cr env.
        if accepts cr tm then cr_handler cr (tm_data tm) (of_nat (length (tm_data tm))) env else env) crs)
        tms (rw_env rd)"
proof -
  have m: "m tm = tm_image tm" if "tm \<in> set tms" for tm
    using assms(12) [OF that] CreateMessage_tm [OF assms(6)] by auto
  have fits: "length msg + 5 < unat (configBufSizeBytes (ww_rb w))" if "msg \<in> set (map m tms)" for msg
    using batch_message_fits [OF that] assms(13) by (rule le_less_trans)
  obtain w1 w2 where w: "post_all aw (map m tms) w = Inr (1, w1)" "ProcWriter pt t aw w1 = Some (Inr w2)"
      "batch_stored (ww_rb w) (map m tms) (ww_rb w2)"
    using posted_messages [OF assms(1-10) _ fits] assms(11) by blast
  let ?batch = "batch_segments (configBufSizeBytes (ww_rb w)) (freePos (ww_rb w)) (map m tms)"
  let ?rd = "rd\<lparr>rw_rb := ww_rb w2\<rparr>"
  have "\<exists>rd'. ReadRmp crs ?rd = Some (Inr rd') \<and> rw_env rd' = offer_all crs tms (rw_env ?rd) \<and> reader_inv k rd'
    \<and> rwb_Pos (tr_rmpReaderBP (rw_reader rd')) = freePos (rw_rb ?rd) \<and> rw_rb rd' = rw_rb ?rd
    \<and> tr_channelReaders (rw_reader rd') = tr_channelReaders (rw_reader ?rd)"
  proof (rule ReadRmp_pending)
    show "reader_inv k ?rd"
      using assms(15,16) batch_stored_reader_ok [OF w(3)] by (auto simp: reader_inv_def)
    show "pending (rw_rb ?rd) (rwb_Pos (tr_rmpReaderBP (rw_reader ?rd))) ?batch"
      using batch_stored_pending [OF w(3) assms(13,14)] assms(19) by simp
    show "messages ?batch = map tm_image tms" using m by simp
  qed (use assms(12,17,18) in auto)
  then show ?thesis using w(1,2) by (auto simp: offer_all_def offer_def [abs_def])
qed

end
