(* ===== verification/ManyPublishers.thy ===== *)
theory ManyPublishers
  imports PostingProcesses PublishSubscribe
begin

text \<open>
  The processes of PostingProcesses and a topic reader: what all of them post reaches the channel
  readers in one order that is the order of posting of every process.
\<close>

section \<open>A batch that ends before the end of the buffer\<close>

definition room_of :: "bytes list \<Rightarrow> nat" where
  "room_of ms = (\<Sum>m\<leftarrow>ms. 5 + length m)"

lemma room_simps [simp]: "room_of [] = 0" "room_of (m # ms) = 5 + length m + room_of ms"
  by (simp_all add: room_of_def)

lemma batch_segments_room:
  assumes "good_size B" "index_of B f + room_of ms < unat B"
  shows "batch_segments B f ms = map Msg ms"
  using assms(2)
proof (induction ms arbitrary: f)
  case (Cons m ms)
  have w: "write_segments B f m = [Msg m]" using Cons.prems by (simp add: write_segments_def filler_def Let_def)
  have u: "unat (of_nat (5 + length m) :: u64) = 5 + length m"
    using Cons.prems good_size_bounds(2) [OF assms(1)] by (intro unat_of_nat_small) simp
  have "index_of B (f + of_nat (5 + length m)) = index_of B f + (5 + length m)"
    using index_of_add [OF assms(1), of f "of_nat (5 + length m)"] Cons.prems u by simp
  then have "index_of B (f + of_nat (5 + length m)) + room_of ms < unat B" using Cons.prems by simp
  from Cons.IH [OF this] show ?case by (simp add: w)
qed simp

lemma total_map_room: "total (map Msg ms) = room_of ms"
  by (induction ms) simp_all

text \<open>The log takes the room of what its processes have written.\<close>

lemma room_log:
  assumes "\<forall>x \<in> set log. fst x < n"
  shows "room_of (map snd log) = (\<Sum>p<n. room_of (written_by p log))"
  using assms
proof (induction log)
  case Nil
  then show ?case by (simp add: written_by_def)
next
  case (Cons x log)
  have "(\<Sum>p<n. room_of (written_by p (x # log))) = (\<Sum>p<n. (if p = fst x then 5 + length (snd x) else 0) + room_of (written_by p log))"
    by (intro sum.cong) (auto simp: written_by_def)
  also have "\<dots> = 5 + length (snd x) + room_of (map snd log)"
    using Cons by (simp add: sum.distrib)
  finally show ?case by simp
qed

lemma in_log: "x \<in> set log \<Longrightarrow> snd x \<in> set (written_by (fst x) log)"
  by (auto simp: written_by_def)

section \<open>Properties\<close>

text \<open>
  C2: Many publishers. Any number of processes create topic messages and post them, in any
  interleaving of posts, turns of their ProcWriters and moves of the readers. Once the ProcWriters
  had their turns, the next ReadRmp of a reader that had caught up before calls exactly the matching
  handlers for all messages of all processes, in one order that keeps the order of posting of each
  process. Required is that the messages together end before the end of the buffer.
\<close>

theorem publishers_subscriber:
  fixes aws :: "('m, bytes MPSCMessageQueue, 'e) AsyncWriter list" and rd :: "('m, 'f) reader_world"
  assumes "robust_pthread pt view" "writers_ok Enqueue Drain aws"
    and "rb_ok rb" "\<forall>aw \<in> set aws. writer_ok (aw_rbWriter aw) rb" "ri_inv ri" "length envs = length aws"
    and "settled (view (writerMtx rb))" "holder_of (view (writerMtx rb)) = None"
    and "\<forall>a \<in> set as. action_ok (configBufSizeBytes rb) a"
    and "\<forall>p < length aws. \<forall>msg \<in> set (posts_of p as). \<exists>tm. tm_ok tm \<and>
      CreateMessage rb (tm_gen tm) (tm_channel tm) (tm_data tm) (of_nat (length (tm_data tm))) (tm_desc tm) = Inr msg"
    and "index_of (configBufSizeBytes rb) (freePos rb) + (\<Sum>p < length aws. room_of (posts_of p as)) < unat (configBufSizeBytes rb)"
    and "reader_inv k rd" "rw_rb rd = rb" "tr_channelReaders (rw_reader rd) \<noteq> []" "crs \<noteq> []"
    and "rwb_Pos (tr_rmpReaderBP (rw_reader rd)) = freePos rb"
  shows "\<exists>ts s log rd'. (\<forall>a \<in> set ts. is_turn a) \<and> posting_run pt aws (as @ ts) (posting_start rb ri envs) = Some (Inr s)
    \<and> (\<forall>p < length aws. map (tm_image \<circ> snd) (filter (\<lambda>x. fst x = p) log) = posts_of p as)
    \<and> (\<forall>x \<in> set log. fst x < length aws)
    \<and> ReadRmp crs (rd\<lparr>rw_rb := ps_rb s\<rparr>) = Some (Inr rd')
    \<and> rw_env rd' = fold (\<lambda>(p, tm). fold (\<lambda>cr env.
        if accepts cr tm then cr_handler cr (tm_data tm) (of_nat (length (tm_data tm))) env else env) crs)
        log (rw_env rd)"
proof -
  obtain s1 ts s where run: "posting_run pt aws as (posting_start rb ri envs) = Some (Inr s1)" "\<forall>a \<in> set ts. is_turn a"
      "posting_run pt aws ts s1 = Some (Inr s)"
    and s: "shared_inv view aws rb s" "\<forall>p < length aws. written_by p (ps_log s) = posts_of p as"
    using processes_finish [OF assms(1-9)] by blast
  have range: "\<forall>x \<in> set (ps_log s). fst x < length aws" and st: "batch_stored rb (map snd (ps_log s)) (ps_rb s)"
    using s(1) by (simp_all add: shared_inv_def)
  have "\<exists>tm. tm_ok tm \<and> snd x = tm_image tm" if "x \<in> set (ps_log s)" for x
  proof -
    have "snd x \<in> set (posts_of (fst x) as)" using in_log [OF that] s(2) range that by auto
    then show ?thesis using assms(10) range that CreateMessage_tm [OF assms(3)] by metis
  qed
  then obtain f where f: "\<And>x. x \<in> set (ps_log s) \<Longrightarrow> tm_ok (f x) \<and> snd x = tm_image (f x)" by metis
  let ?log = "map (\<lambda>x. (fst x, f x)) (ps_log s)" and ?batch = "map Msg (map snd (ps_log s))"
  let ?rd = "rd\<lparr>rw_rb := ps_rb s\<rparr>"
  note good = rb_ok_good_size [OF assms(3)]
  have room: "room_of (map snd (ps_log s)) = (\<Sum>p < length aws. room_of (posts_of p as))"
    unfolding room_log [OF range] using s(2) by (intro sum.cong) auto
  then have batch: "batch_segments (configBufSizeBytes rb) (freePos rb) (map snd (ps_log s)) = ?batch"
    using assms(11) by (intro batch_segments_room [OF good]) simp
  have valid: "list_all seg_valid ?batch"
    using f by (auto simp: list_all_iff tm_image_def topic_image_def)
  have images: "map snd (ps_log s) = map tm_image (map snd ?log)" using f by simp
  have "\<exists>rd'. ReadRmp crs ?rd = Some (Inr rd') \<and> rw_env rd' = offer_all crs (map snd ?log) (rw_env ?rd) \<and> reader_inv k rd'
    \<and> rwb_Pos (tr_rmpReaderBP (rw_reader rd')) = freePos (rw_rb ?rd) \<and> rw_rb rd' = rw_rb ?rd
    \<and> tr_channelReaders (rw_reader rd') = tr_channelReaders (rw_reader ?rd)"
  proof (rule ReadRmp_pending)
    show "reader_inv k ?rd"
      using assms(12,13) batch_stored_reader_ok [OF st] by (auto simp: reader_inv_def)
    have "total ?batch < unat (configBufSizeBytes rb)" using assms(11) room by (simp only: total_map_room)
    then show "pending (rw_rb ?rd) (rwb_Pos (tr_rmpReaderBP (rw_reader ?rd))) ?batch"
      using batch_stored_pending [OF st] batch valid assms(16) by simp
    show "messages ?batch = map tm_image (map snd ?log)"
      using messages_batch_segments [of "configBufSizeBytes rb" "freePos rb" "map snd (ps_log s)"] batch images by metis
  qed (use assms(14,15) f in auto)
  then obtain rd' where rd': "ReadRmp crs ?rd = Some (Inr rd')" "rw_env rd' = offer_all crs (map snd ?log) (rw_env rd)" by auto
  have "posting_run pt aws (as @ ts) (posting_start rb ri envs) = Some (Inr s)"
    using run(1,3) by (simp add: posting_run_append)
  moreover have "map (tm_image \<circ> snd) (filter (\<lambda>x. fst x = p) ?log) = posts_of p as" if "p < length aws" for p
  proof -
    have "map (tm_image \<circ> snd) (filter (\<lambda>x. fst x = p) ?log) = written_by p (ps_log s)"
      using f by (auto simp: written_by_def filter_map o_def)
    then show ?thesis using s(2) that by simp
  qed
  moreover have "rw_env rd' = fold (\<lambda>(p, tm). fold (\<lambda>cr env.
        if accepts cr tm then cr_handler cr (tm_data tm) (of_nat (length (tm_data tm))) env else env) crs)
        ?log (rw_env rd)"
    using rd'(2) by (simp add: offer_all_def offer_def [abs_def] fold_map o_def case_prod_beta)
  moreover have "\<forall>x \<in> set ?log. fst x < length aws" using range by simp
  ultimately show ?thesis using run(2) rd'(1) by blast
qed

text \<open>Two processes, a ring of 64 bytes, and the waiting reader of TpReader on it.\<close>

definition ring_64 :: "mutex_view ByteRingBuffer" where
  "ring_64 = ring_32\<lparr>configBufSizeBytes := 64, rb_data := replicate 64 0\<rparr>"

definition writer_64 :: "(mutex_view, bytes MPSCMessageQueue, unit) AsyncWriter" where
  "writer_64 = plain_writer\<lparr>aw_rbWriter := \<lparr> writer_indexMask = 63 \<rparr>\<rparr>"

definition reader_64 :: "(mutex_view, seen list) reader_world" where
  "reader_64 = waiting_world\<lparr>rw_rb := ring_64, rw_reader := (rw_reader waiting_world)\<lparr>tr_rmpReaderBP :=
     (tr_rmpReaderBP (rw_reader waiting_world))\<lparr>rwb_reader := \<lparr> reader_indexMask = 63 \<rparr>\<rparr>\<rparr>\<rparr>"

definition two_publishers :: "mutex_view posting_action list" where
  "two_publishers = [PostMsg 0 (tm_image one_message), ProcTurn 0 0 4, PostMsg 1 (tm_image (one_message\<lparr>tm_data := [8]\<rparr>))]"

lemma ring_64_ok: "rb_ok ring_64"
  by (auto simp: ring_64_def rb_ok_def good_size_def IsZeroOrPowerOfTwo_def)

lemma reader_64_inv: "reader_inv 0 reader_64"
  using waiting_world_inv ring_64_ok
  by (simp add: reader_inv_def reader_64_def reader_ok_def waiting_world_def) (simp add: ring_64_def)

lemma writer_64_ok: "writers_ok Enqueue Drain [writer_64, writer_64]"
    "\<forall>aw \<in> set [writer_64, writer_64]. writer_ok (aw_rbWriter aw) ring_64"
proof -
  have "gives_up writer_64 (\<lambda>x. 0)" by (simp add: gives_up_def writer_64_def plain_writer_def)
  then show "writers_ok Enqueue Drain [writer_64, writer_64]"
    using plain_callbacks(1,2) by (auto simp: writers_ok_def writer_64_def plain_writer_def)
qed (simp add: writer_ok_def ring_64_ok writer_64_def, simp add: ring_64_def)

theorem publishers_subscriber_witness:
  "\<exists>ts s log rd'. posting_run posix_pthread [writer_64, writer_64] (two_publishers @ ts) (posting_start ring_64 table_2 [(), ()]) = Some (Inr s)
    \<and> map (tm_image \<circ> snd) (filter (\<lambda>x. fst x = (0::nat)) log) = [tm_image one_message]
    \<and> map (tm_image \<circ> snd) (filter (\<lambda>x. fst x = (1::nat)) log) = [tm_image (one_message\<lparr>tm_data := [8]\<rparr>)]
    \<and> ReadRmp [recorder 1 [97, 98] False] (reader_64\<lparr>rw_rb := ps_rb s\<rparr>) = Some (Inr rd')"
proof -
  have posts: "posts_of 0 two_publishers = [tm_image one_message]" "posts_of 1 two_publishers = [tm_image (one_message\<lparr>tm_data := [8]\<rparr>)]"
    by (simp_all add: two_publishers_def posts_of_def)
  have cm: "CreateMessage ring_64 0 [97] [x] 1 True = Inr (topic_image 0 True [97] [x])" for x
    using CreateMessage_image [OF ring_64_ok, of "[97]" 1 "[x]" 0 True] by (simp add: ring_64_def)
  have one: "\<exists>tm. tm_ok tm \<and>
      CreateMessage ring_64 (tm_gen tm) (tm_channel tm) (tm_data tm) (of_nat (length (tm_data tm))) (tm_desc tm)
        = Inr (tm_image (one_message\<lparr>tm_data := [x]\<rparr>))" for x
    using cm [of x] by (intro exI [of _ "one_message\<lparr>tm_data := [x]\<rparr>"]) (simp add: tm_image_def one_message_def tm_ok_def)
  have same: "one_message\<lparr>tm_data := [7]\<rparr> = one_message" by (simp add: one_message_def)
  have tms: "\<forall>p < length [writer_64, writer_64]. \<forall>msg \<in> set (posts_of p two_publishers). \<exists>tm. tm_ok tm \<and>
      CreateMessage ring_64 (tm_gen tm) (tm_channel tm) (tm_data tm) (of_nat (length (tm_data tm))) (tm_desc tm) = Inr msg"
    using posts one [of 8] one [of 7] same by (simp add: All_less_Suc numeral_2_eq_2)
  have ok: "\<forall>a \<in> set two_publishers. action_ok (configBufSizeBytes ring_64) a"
    by (simp add: two_publishers_def action_ok_def tm_image_def one_message_def ring_64_def)
  have "length [writer_64, writer_64] = Suc (Suc 0)" by simp
  then have sum: "(\<Sum>p < length [writer_64, writer_64]. room_of (posts_of p two_publishers)) = 34"
    using posts by (simp only: sum.lessThan_Suc) (simp add: tm_image_def one_message_def)
  have room: "index_of (configBufSizeBytes ring_64) (freePos ring_64) + (\<Sum>p < length [writer_64, writer_64]. room_of (posts_of p two_publishers))
      < unat (configBufSizeBytes ring_64)"
    unfolding sum by (simp add: ring_64_def index_of_def)
  have rest: "settled (id (writerMtx ring_64))" "holder_of (id (writerMtx ring_64)) = None" "rw_rb reader_64 = ring_64"
      "tr_channelReaders (rw_reader reader_64) \<noteq> []" "rwb_Pos (tr_rmpReaderBP (rw_reader reader_64)) = freePos ring_64"
    by (simp_all add: ring_64_def reader_64_def waiting_world_def rwb_Pos_def)
  have len: "length [(), ()] = length [writer_64, writer_64]" by simp
  have "[recorder 1 [97, 98] False] \<noteq> []" by simp
  from publishers_subscriber [OF posix.robust_pthread_axioms writer_64_ok(1) ring_64_ok writer_64_ok(2) table_2_inv len
      rest(1,2) ok tms room reader_64_inv rest(3,4) this rest(5)] obtain ts s log rd' where
    run: "posting_run posix_pthread [writer_64, writer_64] (two_publishers @ ts) (posting_start ring_64 table_2 [(), ()]) = Some (Inr s)"
    and order: "\<forall>p < length [writer_64, writer_64]. map (tm_image \<circ> snd) (filter (\<lambda>x. fst x = p) log) = posts_of p two_publishers"
    and rd: "ReadRmp [recorder 1 [97, 98] False] (reader_64\<lparr>rw_rb := ps_rb s\<rparr>) = Some (Inr rd')"
    by blast
  have "map (tm_image \<circ> snd) (filter (\<lambda>x. fst x = p) log) = posts_of p two_publishers" if "p < 2" for p
    using order that by simp
  from this [of 0] this [of 1] show ?thesis
    unfolding posts using run rd by (intro exI [of _ ts] exI [of _ s] exI [of _ log] exI [of _ rd'] conjI) simp_all
qed

end
