(* ===== verification/StdStrings.thy ===== *)
theory StdStrings
  imports Prelude
begin

text \<open>
  The two conversions of the C++ standard library between integers and strings that the sources
  use: \<open>std::to_string\<close> and \<open>std::stoi\<close>.
\<close>

section \<open>Printing an integer\<close>

fun decimal :: "nat \<Rightarrow> string" where
  "decimal n = (if n < 10 then [char_of (48 + n)] else decimal (n div 10) @ [char_of (48 + n mod 10)])"

declare decimal.simps [simp del]

definition std_to_string :: "int \<Rightarrow> string" where
  "std_to_string i = (if i < 0 then CHR ''-'' # decimal (nat (- i)) else decimal (nat i))"

section \<open>Parsing an integer\<close>

definition is_space :: "char \<Rightarrow> bool" where
  "is_space c \<longleftrightarrow> of_char c = (32 :: nat) \<or> (9 \<le> (of_char c :: nat) \<and> (of_char c :: nat) \<le> 13)"

definition is_digit :: "char \<Rightarrow> bool" where
  "is_digit c \<longleftrightarrow> 48 \<le> (of_char c :: nat) \<and> (of_char c :: nat) \<le> 57"

definition digits_value :: "string \<Rightarrow> int" where
  "digits_value ds = foldl (\<lambda>n c. 10 * n + (of_char c - 48)) 0 ds"

definition split_sign :: "string \<Rightarrow> bool \<times> string" where
  "split_sign s =
     (case s of [] \<Rightarrow> (False, [])
      | c # cs \<Rightarrow> if c = CHR ''-'' then (True, cs) else if c = CHR ''+'' then (False, cs) else (False, s))"

definition int_range :: "int \<Rightarrow> bool" where
  "int_range v \<longleftrightarrow> - (2 ^ 31) \<le> v \<and> v < 2 ^ 31"

definition std_stoi :: "string \<Rightarrow> int result" where
  "std_stoi s =
     (case split_sign (dropWhile is_space s) of (negative, rest) \<Rightarrow>
       (let ds = takeWhile is_digit rest; v = (if negative then - digits_value ds else digits_value ds)
        in if ds = [] \<or> \<not> int_range v then Inl (Thrown ''stoi'') else Inr v))"

section \<open>Reading back what was printed\<close>

lemma of_char_digit: "d < 10 \<Longrightarrow> of_char (char_of (48 + d :: nat)) = 48 + d"
  by simp

lemma decimal_digits: "list_all is_digit (decimal n) \<and> decimal n \<noteq> []"
proof (induction n rule: decimal.induct)
  case (1 n)
  have d: "d < 10 \<Longrightarrow> is_digit (char_of (48 + d))" for d :: nat
    by (simp add: is_digit_def)
  show ?case
  proof (cases "n < 10")
    case True
    then show ?thesis using d decimal.simps [of n] by simp
  next
    case False
    then show ?thesis using 1 d [of "n mod 10"] decimal.simps [of n] by simp
  qed
qed

lemma digits_value_decimal: "digits_value (decimal n) = int n"
proof (induction n rule: decimal.induct)
  case (1 n)
  have oc: "d < 10 \<Longrightarrow> (of_char (char_of (48 + d)) :: int) = 48 + int d" for d :: nat
    by (metis of_char_digit of_nat_add of_nat_numeral of_nat_of_char)
  show ?case
  proof (cases "n < 10")
    case True
    then show ?thesis using oc by (subst decimal.simps) (simp add: digits_value_def)
  next
    case False
    have "digits_value (decimal n) = 10 * int (n div 10) + int (n mod 10)"
      using 1 False oc [of "n mod 10"] by (subst decimal.simps) (simp add: digits_value_def)
    then show ?thesis by (metis mult_div_mod_eq of_nat_add of_nat_mult of_nat_numeral)
  qed
qed

lemma takeWhile_decimal: "takeWhile is_digit (decimal n) = decimal n"
  using decimal_digits [of n] by (simp add: list_all_iff)

lemma split_sign_printed:
  "split_sign (dropWhile is_space (std_to_string i)) = (i < 0, decimal (nat \<bar>i\<bar>))"
proof -
  obtain c cs where s: "decimal (nat i) = c # cs" "is_digit c"
    using decimal_digits [of "nat i"] by (cases "decimal (nat i)") auto
  have "\<not> is_space c" "c \<noteq> CHR ''-''" "c \<noteq> CHR ''+''" "\<not> is_space (CHR ''-'')"
    using s(2) by (auto simp: is_space_def is_digit_def)
  then show ?thesis using s by (auto simp: std_to_string_def split_sign_def)
qed

text \<open>
  Every value of type int that is printed is read back, and a value outside that type is refused.
\<close>

lemma stoi_to_string:
  "std_stoi (std_to_string i) = (if int_range i then Inr i else Inl (Thrown ''stoi''))"
  using decimal_digits [of "nat \<bar>i\<bar>"] digits_value_decimal [of "nat \<bar>i\<bar>"]
  by (auto simp: std_stoi_def split_sign_printed takeWhile_decimal Let_def)

end
