(* ===== verification/BurstConfig.thy ===== *)
theory BurstConfig
  imports StdStrings
begin

text \<open>
  system_tests/burst/config.hpp: the options of the burst agent, read from the environment. The
  environment of the process is a parameter; the agent does not change it, so the static
  variables that keep the first reading of an option are not state.
\<close>

type_synonym env_vars = "string \<Rightarrow> string option"

section \<open>The options\<close>

definition GetOptString :: "env_vars \<Rightarrow> string \<Rightarrow> string \<Rightarrow> string" where
  "GetOptString getenv optName defaultValue = (case getenv optName of Some e \<Rightarrow> e | None \<Rightarrow> defaultValue)"

definition GetOptInt :: "env_vars \<Rightarrow> string \<Rightarrow> int \<Rightarrow> int result" where
  "GetOptInt getenv optName defaultValue = (case getenv optName of Some e \<Rightarrow> std_stoi e | None \<Rightarrow> Inr defaultValue)"

text \<open>The conversion of an \<open>int\<close> to \<open>size_t\<close>.\<close>

definition GetOptSize :: "env_vars \<Rightarrow> string \<Rightarrow> int \<Rightarrow> u64 result" where
  "GetOptSize getenv optName defaultValue = map_sum id of_int (GetOptInt getenv optName defaultValue)"

text \<open>The product is computed in \<open>int\<close>; leaving its range is undefined behaviour.\<close>

definition GetOptRingBufSizeBytes :: "env_vars \<Rightarrow> u64 result" where
  "GetOptRingBufSizeBytes getenv =
     (case GetOptInt getenv ''TORONI_AGENT_RINGBUF_SIZE_KB'' (4 * 1024) of
        Inl e \<Rightarrow> Inl e
      | Inr kb \<Rightarrow> if int_range (kb * 1024) then Inr (of_int (kb * 1024)) else Inl OutOfBounds)"

definition GetOptMaxReaders :: "env_vars \<Rightarrow> u64 result" where
  "GetOptMaxReaders getenv = GetOptSize getenv ''TORONI_AGENT_READERS_MAX'' 1"

definition GetOptReaders :: "env_vars \<Rightarrow> u64 result" where
  "GetOptReaders getenv = GetOptSize getenv ''TORONI_AGENT_READERS'' 1"

definition GetOptWriters :: "env_vars \<Rightarrow> u64 result" where
  "GetOptWriters getenv = GetOptSize getenv ''TORONI_AGENT_WRITERS'' 1"

definition GetOptMessagesPerWriter :: "env_vars \<Rightarrow> u64 result" where
  "GetOptMessagesPerWriter getenv = GetOptSize getenv ''TORONI_AGENT_MESSAGES_PER_WRITER'' 1"

definition GetOptMessagesSizeBytes :: "env_vars \<Rightarrow> u64 result" where
  "GetOptMessagesSizeBytes getenv = GetOptSize getenv ''TORONI_AGENT_MESSAGE_SIZE_BYTES'' 8"

definition GetOptBackpressureSleepMs :: "env_vars \<Rightarrow> u64 result" where
  "GetOptBackpressureSleepMs getenv = GetOptSize getenv ''TORONI_AGENT_BACKPRESSURE_SLEEP_MS'' 5"

definition GetOptExtResult :: "env_vars \<Rightarrow> u64 result" where
  "GetOptExtResult getenv = GetOptSize getenv ''TORONI_AGENT_EXTRESULT'' 0"

definition GetOptIterations :: "env_vars \<Rightarrow> u64 result" where
  "GetOptIterations getenv = GetOptSize getenv ''TORONI_AGENT_ITERATIONS'' 1"

datatype TestFlavor = UNKNOWN | FIRST_LAST_DURATION | LATENCY | ROBUST_WRITER | ROBUST_READER

definition GetOptTestFlavor :: "env_vars \<Rightarrow> TestFlavor result" where
  "GetOptTestFlavor getenv =
     (let v = GetOptString getenv ''TORONI_AGENT_TEST_FLAVOR'' ''FIRST_LAST_DURATION''
      in if v = ''FIRST_LAST_DURATION'' then Inr FIRST_LAST_DURATION
         else if v = ''LATENCY'' then Inr LATENCY
         else if v = ''ROBUST_WRITER'' then Inr ROBUST_WRITER
         else if v = ''ROBUST_READER'' then Inr ROBUST_READER
         else Inl Assertion)"

end
