(* ===== verification/SharedMemory.thy ===== *)
theory SharedMemory
  imports Prelude
begin

text \<open>
  traits/posix/sharedMemory.hpp: creating and opening a named shared memory object. The system
  calls are a parameter, a record of functions on an unspecified state \<open>'s\<close> of the operating
  system; what POSIX documents of them is the locale \<open>posix_shm\<close>, over a view of that state.
  Every operation returns the state also when it throws, since what it leaves behind is part
  of its meaning. The second part runs CreateOrOpen of several processes call by call.
\<close>

definition O_RDONLY :: u32 where "O_RDONLY = 0"
definition O_RDWR :: u32 where "O_RDWR = 2"
definition O_CREAT :: u32 where "O_CREAT = 64"
definition O_EXCL :: u32 where "O_EXCL = 128"
definition PROT_READ :: u32 where "PROT_READ = 1"
definition PROT_WRITE :: u32 where "PROT_WRITE = 2"
definition EEXIST :: int where "EEXIST = 17"

text \<open>
  \<open>sys_shm_open\<close> returns the descriptor, or -1, with errno; \<open>sys_mmap\<close> returns \<open>None\<close> for
  MAP_FAILED. The mappings are always shared ones at offset 0.
\<close>

record 's shm_api =
  sys_shm_open :: "string \<Rightarrow> u32 \<Rightarrow> u32 \<Rightarrow> 's \<Rightarrow> int \<times> int \<times> 's"
  sys_ftruncate :: "int \<Rightarrow> u64 \<Rightarrow> 's \<Rightarrow> int \<times> 's"
  sys_mmap :: "u64 \<Rightarrow> u32 \<Rightarrow> int \<Rightarrow> 's \<Rightarrow> u64 option \<times> 's"
  sys_munmap :: "u64 \<Rightarrow> u64 \<Rightarrow> 's \<Rightarrow> int \<times> 's"
  sys_close :: "int \<Rightarrow> 's \<Rightarrow> 's"
  sys_shm_unlink :: "string \<Rightarrow> 's \<Rightarrow> int \<times> 's"

section \<open>The class\<close>

record SharedMemory =
  shm_name :: string
  shm_ptr :: u64
  shm_length :: u64
  shm_isCreator :: bool

definition mk_SharedMemory :: "string \<Rightarrow> u64 \<Rightarrow> u64 \<Rightarrow> bool \<Rightarrow> SharedMemory" where
  "mk_SharedMemory name ptr len isCreator =
     \<lparr> shm_name = name, shm_ptr = ptr, shm_length = len, shm_isCreator = isCreator \<rparr>"

text \<open>The destructor of \<open>closefd\<close>, which runs on every way out of the two functions.\<close>

definition closefd :: "'s shm_api \<Rightarrow> int \<Rightarrow> 's \<Rightarrow> 's" where
  "closefd api fd s = (if fd \<noteq> -1 then sys_close api fd s else s)"

text \<open>The common end of both: map the object.\<close>

definition map_fd :: "'s shm_api \<Rightarrow> string \<Rightarrow> u64 \<Rightarrow> u32 \<Rightarrow> bool \<Rightarrow> int \<Rightarrow> 's \<Rightarrow> SharedMemory result \<times> 's" where
  "map_fd api name len prot isCreator fd s =
     (case sys_mmap api len prot fd s of
        (None, s1) \<Rightarrow> (Inl (Thrown ''mmap''), closefd api fd s1)
      | (Some ptr, s1) \<Rightarrow> (Inr (mk_SharedMemory name ptr len isCreator), closefd api fd s1))"

definition Open_flags :: "'s shm_api \<Rightarrow> string \<Rightarrow> u64 \<Rightarrow> u32 \<Rightarrow> u32 \<Rightarrow> 's \<Rightarrow> SharedMemory result \<times> 's" where
  "Open_flags api name len oflag prot s =
     (case sys_shm_open api name oflag 0 s of (fd, errno, s1) \<Rightarrow>
        if fd = -1 then (Inl (Thrown ''shm_open''), closefd api fd s1)
        else map_fd api name len prot False fd s1)"

definition CreateOrOpen_flags ::
    "'s shm_api \<Rightarrow> string \<Rightarrow> u64 \<Rightarrow> u32 \<Rightarrow> u32 \<Rightarrow> u32 \<Rightarrow> 's \<Rightarrow> SharedMemory result \<times> 's" where
  "CreateOrOpen_flags api name len mode oflag prot s =
     (case sys_shm_open api name (O_CREAT OR O_EXCL OR oflag) mode s of (fd, errno, s1) \<Rightarrow>
        if fd = -1
        then (if errno = EEXIST
              then (case Open_flags api name len oflag prot s1 of (r, s2) \<Rightarrow> (r, closefd api fd s2))
              else (Inl (Thrown ''shm_open''), closefd api fd s1))
        else (case sys_ftruncate api fd len s1 of (tr, s2) \<Rightarrow>
                if tr = -1
                then (case sys_shm_unlink api name s2 of (_, s3) \<Rightarrow> (Inl (Thrown ''ftruncate''), closefd api fd s3))
                else map_fd api name len prot True fd s2))"

definition CreateOrOpenReadOnly :: "'s shm_api \<Rightarrow> string \<Rightarrow> u64 \<Rightarrow> u32 \<Rightarrow> 's \<Rightarrow> SharedMemory result \<times> 's" where
  "CreateOrOpenReadOnly api name len mode = CreateOrOpen_flags api name len mode O_RDONLY PROT_READ"

definition CreateOrOpen :: "'s shm_api \<Rightarrow> string \<Rightarrow> u64 \<Rightarrow> u32 \<Rightarrow> 's \<Rightarrow> SharedMemory result \<times> 's" where
  "CreateOrOpen api name len mode = CreateOrOpen_flags api name len mode O_RDWR PROT_WRITE"

definition OpenReadOnly :: "'s shm_api \<Rightarrow> string \<Rightarrow> u64 \<Rightarrow> 's \<Rightarrow> SharedMemory result \<times> 's" where
  "OpenReadOnly api name len = Open_flags api name len O_RDONLY PROT_READ"

definition Open :: "'s shm_api \<Rightarrow> string \<Rightarrow> u64 \<Rightarrow> 's \<Rightarrow> SharedMemory result \<times> 's" where
  "Open api name len = Open_flags api name len O_RDWR PROT_WRITE"

definition Unmap :: "'s shm_api \<Rightarrow> SharedMemory \<Rightarrow> 's \<Rightarrow> unit result \<times> 's" where
  "Unmap api shm s =
     (case sys_munmap api (shm_ptr shm) (shm_length shm) s of (r, s1) \<Rightarrow>
        (if r \<noteq> 0 then Inl (Thrown ''munmap'') else Inr (), s1))"

definition Unlink :: "'s shm_api \<Rightarrow> SharedMemory \<Rightarrow> 's \<Rightarrow> unit result \<times> 's" where
  "Unlink api shm s =
     (case sys_shm_unlink api (shm_name shm) s of (r, s1) \<Rightarrow>
        (if r = -1 then Inl (Thrown ''shm_unlink'') else Inr (), s1))"

section \<open>The documented behaviour of the system calls\<close>

text \<open>
  What a process can see: which object a name is bound to, the size of each object, and which
  object each of its descriptors refers to and whether it is open for writing.
\<close>

record shm_view =
  sv_names :: "string \<Rightarrow> nat option"
  sv_sizes :: "nat \<Rightarrow> nat option"
  sv_fds :: "int \<Rightarrow> (nat \<times> bool) option"

definition opened :: "nat \<Rightarrow> bool \<Rightarrow> int \<Rightarrow> shm_view \<Rightarrow> shm_view" where
  "opened obj writable fd v = v\<lparr>sv_fds := (sv_fds v)(fd \<mapsto> (obj, writable))\<rparr>"

definition created :: "string \<Rightarrow> nat \<Rightarrow> shm_view \<Rightarrow> shm_view" where
  "created name obj v = v\<lparr>sv_names := (sv_names v)(name \<mapsto> obj), sv_sizes := (sv_sizes v)(obj \<mapsto> 0)\<rparr>"

definition access_mode :: "u32 \<Rightarrow> bool" where
  "access_mode oflag \<longleftrightarrow> oflag = O_RDONLY \<or> oflag = O_RDWR"

locale posix_shm =
  fixes api :: "'s shm_api" and view :: "'s \<Rightarrow> shm_view"
  assumes open_excl_bound: "access_mode f \<Longrightarrow> sv_names (view s) name = Some obj \<Longrightarrow>
      \<exists>errno s'. sys_shm_open api name (O_CREAT OR O_EXCL OR f) mode s = (-1, errno, s') \<and> view s' = view s"
    and open_excl_new: "access_mode f \<Longrightarrow> sv_names (view s) name = None \<Longrightarrow>
      sys_shm_open api name (O_CREAT OR O_EXCL OR f) mode s = (fd, errno, s') \<Longrightarrow>
      fd = -1 \<and> errno \<noteq> EEXIST \<and> view s' = view s \<or>
      0 \<le> fd \<and> sv_fds (view s) fd = None \<and>
        (\<exists>obj. sv_sizes (view s) obj = None \<and> view s' = opened obj (f = O_RDWR) fd (created name obj (view s)))"
    and open_plain: "access_mode f \<Longrightarrow> sys_shm_open api name f mode s = (fd, errno, s') \<Longrightarrow>
      fd = -1 \<and> view s' = view s \<or>
      0 \<le> fd \<and> sv_fds (view s) fd = None \<and>
        (\<exists>obj. sv_names (view s) name = Some obj \<and> view s' = opened obj (f = O_RDWR) fd (view s))"
    and ftruncate_sets: "sv_fds (view s) fd = Some (obj, writable) \<Longrightarrow> sys_ftruncate api fd len s = (r, s') \<Longrightarrow>
      r = -1 \<and> view s' = view s \<or>
      r = 0 \<and> writable \<and> view s' = (view s)\<lparr>sv_sizes := (sv_sizes (view s))(obj \<mapsto> unat len)\<rparr>"
    and ftruncate_names: "sys_ftruncate api fd len s = (r, s') \<Longrightarrow> sv_names (view s') = sv_names (view s)"
    and mmap_keeps: "sys_mmap api len prot fd s = (p, s') \<Longrightarrow> view s' = view s"
    and mmap_zero: "fst (sys_mmap api 0 prot fd s) = None"
    and munmap_keeps: "sys_munmap api ptr len s = (r, s') \<Longrightarrow> view s' = view s"
    and close_closes: "view (sys_close api fd s) = (view s)\<lparr>sv_fds := (sv_fds (view s))(fd := None)\<rparr>"
    and unlink_unbinds: "sys_shm_unlink api name s = (r, s') \<Longrightarrow>
      r = -1 \<and> view s' = view s \<or>
      r = 0 \<and> sv_names (view s) name \<noteq> None \<and> view s' = (view s)\<lparr>sv_names := (sv_names (view s))(name := None)\<rparr>"
begin

lemma closefd_view: "fd \<noteq> -1 \<Longrightarrow> view (closefd api fd s) = (view s)\<lparr>sv_fds := (sv_fds (view s))(fd := None)\<rparr>"
  by (simp add: closefd_def close_closes)

lemma map_fd_outcome:
  assumes "map_fd api name len prot isCreator fd s = (r, s')" "fd \<noteq> -1"
  shows "view s' = (view s)\<lparr>sv_fds := (sv_fds (view s))(fd := None)\<rparr>
    \<and> (r = Inl (Thrown ''mmap'') \<or> len \<noteq> 0 \<and> (\<exists>p. r = Inr (mk_SharedMemory name p len isCreator)))"
proof -
  obtain p s1 where p: "sys_mmap api len prot fd s = (p, s1)" by fastforce
  have "len = 0 \<Longrightarrow> p = None" using mmap_zero [of prot fd s] p by simp
  then show ?thesis using assms p mmap_keeps [OF p]
    by (auto simp: map_fd_def closefd_view split: option.splits)
qed

lemma closed_again: "sv_fds v fd = None \<Longrightarrow> (opened obj w fd v)\<lparr>sv_fds := (sv_fds (opened obj w fd v))(fd := None)\<rparr> = v"
  by (simp add: opened_def fun_upd_idem)

lemma Open_outcome:
  assumes "Open_flags api name len oflag prot s = (r, s')" "access_mode oflag"
  shows "view s' = view s
    \<and> (r = Inl (Thrown ''shm_open'') \<or> r = Inl (Thrown ''mmap'')
      \<or> sv_names (view s) name \<noteq> None \<and> (\<exists>p. r = Inr (mk_SharedMemory name p len False)))"
proof -
  obtain fd errno s1 where op: "sys_shm_open api name oflag 0 s = (fd, errno, s1)" by (metis prod_cases3)
  from open_plain [OF assms(2) op] show ?thesis
  proof (elim disjE conjE exE)
    assume "fd = -1" "view s1 = view s"
    then show ?thesis using assms(1) op by (auto simp: Open_flags_def closefd_def)
  next
    fix obj
    assume o: "0 \<le> fd" "sv_fds (view s) fd = None" "sv_names (view s) name = Some obj"
      "view s1 = opened obj (oflag = O_RDWR) fd (view s)"
    then have "map_fd api name len prot False fd s1 = (r, s')" "fd \<noteq> -1"
      using assms(1) op by (auto simp: Open_flags_def)
    from map_fd_outcome [OF this] o closed_again [OF o(2)] show ?thesis by auto
  qed
qed

end

context posix_shm begin

lemma Open_bound:
  assumes "CreateOrOpen_flags api name len mode oflag prot s = (r, s')" "access_mode oflag" "sv_names (view s) name = Some obj"
  shows "view s' = view s
    \<and> (r = Inl (Thrown ''shm_open'') \<or> r = Inl (Thrown ''mmap'') \<or> (\<exists>p. r = Inr (mk_SharedMemory name p len False)))"
proof -
  from open_excl_bound [OF assms(2,3)] obtain errno s1
    where op: "sys_shm_open api name (O_CREAT OR O_EXCL OR oflag) mode s = (-1, errno, s1)" "view s1 = view s" by blast
  obtain r2 s2 where o: "Open_flags api name len oflag prot s1 = (r2, s2)" by fastforce
  from Open_outcome [OF o assms(2)] show ?thesis
    using assms(1) op o by (auto simp: CreateOrOpen_flags_def closefd_def split: if_splits)
qed

lemma CreateOrOpen_new:
  assumes "CreateOrOpen_flags api name len mode oflag prot s = (r, s')" "access_mode oflag" "sv_names (view s) name = None"
  shows "r = Inl (Thrown ''shm_open'') \<and> view s' = view s
    \<or> (\<exists>obj v. sv_sizes (view s) obj = None \<and> sv_fds v = sv_fds (view s) \<and> view s' = v
        \<and> (r = Inl (Thrown ''ftruncate'') \<and> sv_names v name \<in> {None, Some obj}
          \<or> oflag = O_RDWR \<and> sv_names v = (sv_names (view s))(name \<mapsto> obj) \<and> sv_sizes v obj = Some (unat len)
            \<and> (r = Inl (Thrown ''mmap'') \<or> len \<noteq> 0 \<and> (\<exists>p. r = Inr (mk_SharedMemory name p len True)))))"
proof -
  obtain fd errno s1 where op: "sys_shm_open api name (O_CREAT OR O_EXCL OR oflag) mode s = (fd, errno, s1)"
    by (metis prod_cases3)
  from open_excl_new [OF assms(2,3) op] show ?thesis
  proof (elim disjE conjE exE)
    assume "fd = -1" "errno \<noteq> EEXIST" "view s1 = view s"
    then show ?thesis using assms(1) op by (auto simp: CreateOrOpen_flags_def closefd_def)
  next
    fix obj
    assume o: "0 \<le> fd" "sv_fds (view s) fd = None" "sv_sizes (view s) obj = None"
      "view s1 = opened obj (oflag = O_RDWR) fd (created name obj (view s))"
    obtain tr s2 where tr: "sys_ftruncate api fd len s1 = (tr, s2)" by fastforce
    have fd: "sv_fds (view s1) fd = Some (obj, oflag = O_RDWR)" using o(4) by (simp add: opened_def)
    obtain ur s3 where un: "sys_shm_unlink api name s2 = (ur, s3)" by fastforce
    from ftruncate_sets [OF fd tr] show ?thesis
    proof (elim disjE conjE)
      assume tr1: "tr = -1" "view s2 = view s1"
      then have "r = Inl (Thrown ''ftruncate'')" "s' = closefd api fd s3"
        using assms(1) op tr un o(1) by (auto simp: CreateOrOpen_flags_def)
      moreover have "sv_fds (view s') = sv_fds (view s)" "sv_names (view s') name \<in> {None, Some obj}"
        using unlink_unbinds [OF un] calculation(2) o tr1(2)
        by (auto simp: closefd_view opened_def created_def fun_upd_idem)
      ultimately show ?thesis using o(3) by blast
    next
      assume tr0: "tr = 0" "oflag = O_RDWR"
        "view s2 = (view s1)\<lparr>sv_sizes := (sv_sizes (view s1))(obj \<mapsto> unat len)\<rparr>"
      then have "map_fd api name len prot True fd s2 = (r, s')" "fd \<noteq> -1"
        using assms(1) op tr o(1) by (auto simp: CreateOrOpen_flags_def)
      from map_fd_outcome [OF this] tr0 o show ?thesis
        by (intro disjI2 exI [of _ obj] exI [of _ "view s'"]) (auto simp: opened_def created_def fun_upd_idem)
    qed
  qed
qed

end

text \<open>
  Creating or opening. On every system that behaves as POSIX documents, a call leaves no
  descriptor open, whether it returns or throws. If the name is bound it changes nothing, and
  the shared memory it returns is not marked as created; if it is not bound, a shared memory
  it returns is marked as created and the name is bound to a new object of the requested size.
  When the mapping of a new object fails it throws, but the name stays bound: nobody will
  initialize that object, since every later caller opens it as an existing one.
\<close>

lemma CreateOrOpen_outcome:
  assumes "posix_shm api view" "CreateOrOpen api name len mode s = (r, s')"
  shows "sv_fds (view s') = sv_fds (view s)
    \<and> (sv_names (view s) name \<noteq> None \<longrightarrow> view s' = view s)
    \<and> (\<forall>shm. r = Inr shm \<longrightarrow> shm_name shm = name \<and> shm_length shm = len
        \<and> (shm_isCreator shm \<longleftrightarrow> sv_names (view s) name = None)
        \<and> (shm_isCreator shm \<longrightarrow> (\<exists>obj. sv_sizes (view s) obj = None
            \<and> sv_names (view s') name = Some obj \<and> sv_sizes (view s') obj = Some (unat len))))
    \<and> (r = Inl (Thrown ''mmap'') \<longrightarrow> sv_names (view s') name \<noteq> None)"
proof (cases "sv_names (view s) name")
  case None
  from posix_shm.CreateOrOpen_new [OF assms(1) assms(2) [unfolded CreateOrOpen_def] _ None] show ?thesis
    using None by (auto simp: access_mode_def mk_SharedMemory_def)
next
  case (Some obj)
  from posix_shm.Open_bound [OF assms(1) assms(2) [unfolded CreateOrOpen_def] _ Some] show ?thesis
    using Some by (auto simp: access_mode_def mk_SharedMemory_def)
qed

text \<open>
  The read-only variant never creates. If the name is not bound, CreateOrOpenReadOnly
  always throws: it truncates the new object through a descriptor that is not open for
  writing.
\<close>

lemma CreateOrOpenReadOnly_never_creates:
  assumes "posix_shm api view" "sv_names (view s) name = None"
  shows "fst (CreateOrOpenReadOnly api name len mode s) \<in> {Inl (Thrown ''shm_open''), Inl (Thrown ''ftruncate'')}"
proof -
  obtain r s' where r: "CreateOrOpen_flags api name len mode O_RDONLY PROT_READ s = (r, s')" by fastforce
  have "access_mode O_RDONLY" "O_RDONLY \<noteq> O_RDWR" by (simp_all add: access_mode_def O_RDONLY_def O_RDWR_def)
  with posix_shm.CreateOrOpen_new [OF assms(1) r _ assms(2)] show ?thesis
    using r by (auto simp: CreateOrOpenReadOnly_def)
qed

section \<open>A POSIX system\<close>

text \<open>
  A system on which the calls succeed whenever POSIX allows them to: bindings, the sizes of the
  objects ever created, and the descriptors ever opened.
\<close>

record posix_files =
  pf_names :: "(string \<times> nat) list"
  pf_sizes :: "nat list"
  pf_fds :: "(nat \<times> bool) option list"

definition files_view :: "posix_files \<Rightarrow> shm_view" where
  "files_view s = \<lparr> sv_names = map_of (pf_names s),
     sv_sizes = (\<lambda>obj. if obj < length (pf_sizes s) then Some (pf_sizes s ! obj) else None),
     sv_fds = (\<lambda>fd. if 0 \<le> fd \<and> nat fd < length (pf_fds s) then pf_fds s ! nat fd else None) \<rparr>"

definition ENOENT :: int where "ENOENT = 2"

definition files_open :: "string \<Rightarrow> u32 \<Rightarrow> u32 \<Rightarrow> posix_files \<Rightarrow> int \<times> int \<times> posix_files" where
  "files_open name oflag mode s =
     (let writable = (oflag AND 3 = O_RDWR); fd = int (length (pf_fds s)) in
      case map_of (pf_names s) name of
        Some obj \<Rightarrow>
          if oflag AND O_EXCL \<noteq> 0 then (-1, EEXIST, s)
          else (fd, 0, s\<lparr>pf_fds := pf_fds s @ [Some (obj, writable)]\<rparr>)
      | None \<Rightarrow>
          if oflag AND O_CREAT \<noteq> 0
          then (fd, 0, s\<lparr>pf_names := (name, length (pf_sizes s)) # pf_names s, pf_sizes := pf_sizes s @ [0],
                  pf_fds := pf_fds s @ [Some (length (pf_sizes s), writable)]\<rparr>)
          else (-1, ENOENT, s))"

definition files_ftruncate :: "int \<Rightarrow> u64 \<Rightarrow> posix_files \<Rightarrow> int \<times> posix_files" where
  "files_ftruncate fd len s =
     (case sv_fds (files_view s) fd of
        Some (obj, True) \<Rightarrow>
          if obj < length (pf_sizes s) then (0, s\<lparr>pf_sizes := (pf_sizes s)[obj := unat len]\<rparr>) else (-1, s)
      | _ \<Rightarrow> (-1, s))"

definition files_api :: "posix_files shm_api" where
  "files_api = \<lparr> sys_shm_open = files_open, sys_ftruncate = files_ftruncate,
     sys_mmap = (\<lambda>len prot fd s. (if len = 0 then None else Some 4096, s)),
     sys_munmap = (\<lambda>ptr len s. (0, s)),
     sys_close = (\<lambda>fd s. if 0 \<le> fd then s\<lparr>pf_fds := (pf_fds s)[nat fd := None]\<rparr> else s),
     sys_shm_unlink = (\<lambda>name s. if map_of (pf_names s) name = None then (-1, s)
       else (0, s\<lparr>pf_names := filter (\<lambda>(n, obj). n \<noteq> name) (pf_names s)\<rparr>)) \<rparr>"

lemma map_of_filter_name: "map_of (filter (\<lambda>(n, obj). n \<noteq> name) xs) = (map_of xs)(name := None)"
  by (induction xs) auto

lemma open_flag_bits:
  assumes "access_mode f"
  shows "(O_CREAT OR O_EXCL OR f) AND 3 = f" "(O_CREAT OR O_EXCL OR f) AND O_EXCL \<noteq> 0"
    "(O_CREAT OR O_EXCL OR f) AND O_CREAT \<noteq> 0" "f AND 3 = f" "f AND O_EXCL = 0" "f AND O_CREAT = 0"
  using assms by (auto simp: access_mode_def O_RDONLY_def O_RDWR_def O_CREAT_def O_EXCL_def)

lemma O_CREAT_nonzero: "O_CREAT \<noteq> 0"
  by (simp add: O_CREAT_def)

lemma files_view_open:
  "files_view (s\<lparr>pf_fds := pf_fds s @ [Some (obj, w)]\<rparr>) = opened obj w (int (length (pf_fds s))) (files_view s)"
  by (auto simp: files_view_def opened_def nth_append fun_eq_iff less_Suc_eq nat_less_iff)

lemma files_view_new:
  "files_view (s\<lparr>pf_names := (name, length (pf_sizes s)) # pf_names s, pf_sizes := pf_sizes s @ [0],
      pf_fds := pf_fds s @ [Some (length (pf_sizes s), w)]\<rparr>)
    = opened (length (pf_sizes s)) w (int (length (pf_fds s))) (created name (length (pf_sizes s)) (files_view s))"
  by (auto simp: files_view_def opened_def created_def nth_append fun_eq_iff less_Suc_eq nat_less_iff)

lemma files_fresh: "sv_fds (files_view s) (int (length (pf_fds s))) = None" "sv_sizes (files_view s) (length (pf_sizes s)) = None"
  by (simp_all add: files_view_def)

interpretation files: posix_shm files_api files_view
proof
  fix f name obj mode and s :: posix_files
  assume "access_mode f" "sv_names (files_view s) name = Some obj"
  then show "\<exists>errno s'. sys_shm_open files_api name (O_CREAT OR O_EXCL OR f) mode s = (-1, errno, s') \<and> files_view s' = files_view s"
    using open_flag_bits [of f] by (simp add: files_api_def files_open_def Let_def files_view_def)
next
  fix f name mode fd errno and s s' :: posix_files
  assume a: "access_mode f" "sv_names (files_view s) name = None"
    "sys_shm_open files_api name (O_CREAT OR O_EXCL OR f) mode s = (fd, errno, s')"
  have m: "map_of (pf_names s) name = None" using a(2) by (simp add: files_view_def)
  have fl: "((O_CREAT OR O_EXCL OR f) AND O_CREAT = 0) = False" using open_flag_bits(3) [OF a(1)] by simp
  show "fd = -1 \<and> errno \<noteq> EEXIST \<and> files_view s' = files_view s \<or>
      0 \<le> fd \<and> sv_fds (files_view s) fd = None \<and>
        (\<exists>obj. sv_sizes (files_view s) obj = None \<and>
          files_view s' = opened obj (f = O_RDWR) fd (created name obj (files_view s)))"
    using a(3) m files_view_new [where s = s and name = name] files_fresh [of s]
    by (auto simp: files_api_def files_open_def Let_def fl O_CREAT_nonzero open_flag_bits(1) [OF a(1)])
next
  fix f name mode fd errno and s s' :: posix_files
  assume a: "access_mode f" "sys_shm_open files_api name f mode s = (fd, errno, s')"
  show "fd = -1 \<and> files_view s' = files_view s \<or>
      0 \<le> fd \<and> sv_fds (files_view s) fd = None \<and>
        (\<exists>obj. sv_names (files_view s) name = Some obj \<and> files_view s' = opened obj (f = O_RDWR) fd (files_view s))"
  proof (cases "map_of (pf_names s) name")
    case None
    then show ?thesis using a(2) open_flag_bits [OF a(1)] by (simp add: files_api_def files_open_def Let_def)
  next
    case (Some obj)
    have "sv_names (files_view s) name = Some obj" using Some by (simp add: files_view_def)
    then show ?thesis using a(2) Some open_flag_bits [OF a(1)] files_view_open [where s = s and obj = obj] files_fresh [of s]
      by (auto simp: files_api_def files_open_def Let_def)
  qed
next
  fix fd obj writable len r and s s' :: posix_files
  assume "sv_fds (files_view s) fd = Some (obj, writable)" "sys_ftruncate files_api fd len s = (r, s')"
  then show "r = -1 \<and> files_view s' = files_view s \<or>
      r = 0 \<and> writable \<and> files_view s' = (files_view s)\<lparr>sv_sizes := (sv_sizes (files_view s))(obj \<mapsto> unat len)\<rparr>"
    by (cases writable) (auto simp: files_api_def files_ftruncate_def files_view_def fun_eq_iff split: if_splits)
next
  fix fd len r and s s' :: posix_files
  assume "sys_ftruncate files_api fd len s = (r, s')"
  then show "sv_names (files_view s') = sv_names (files_view s)"
    by (auto simp: files_api_def files_ftruncate_def files_view_def split: option.splits bool.splits if_splits)
next
  fix fd and s :: posix_files
  show "files_view (sys_close files_api fd s) = (files_view s)\<lparr>sv_fds := (sv_fds (files_view s))(fd := None)\<rparr>"
    by (auto simp: files_api_def files_view_def fun_eq_iff nth_list_update)
next
  fix name r and s s' :: posix_files
  assume "sys_shm_unlink files_api name s = (r, s')"
  then show "r = -1 \<and> files_view s' = files_view s \<or>
      r = 0 \<and> sv_names (files_view s) name \<noteq> None \<and>
        files_view s' = (files_view s)\<lparr>sv_names := (sv_names (files_view s))(name := None)\<rparr>"
    by (auto simp: files_api_def files_view_def map_of_filter_name split: if_splits)
qed (auto simp: files_api_def)

definition no_files :: posix_files where
  "no_files = \<lparr> pf_names = [], pf_sizes = [], pf_fds = [] \<rparr>"

lemma CreateOrOpen_outcome_witness:
  "\<exists>r s'. CreateOrOpen files_api ''rb'' 16 384 no_files = (r, s')
    \<and> (\<exists>shm. r = Inr shm \<and> shm_isCreator shm \<and> shm_length shm = 16) \<and> sv_fds (files_view s') = sv_fds (files_view no_files)"
proof -
  obtain r s' where r: "CreateOrOpen files_api ''rb'' 16 384 no_files = (r, s')" by fastforce
  have "map_sum id shm_isCreator (fst (CreateOrOpen files_api ''rb'' 16 384 no_files)) = Inr True" by code_simp
  then obtain shm where "r = Inr shm" "shm_isCreator shm" using r by (cases r) auto
  with CreateOrOpen_outcome [OF files.posix_shm_axioms r] r show ?thesis by simp
qed

lemma CreateOrOpenReadOnly_never_creates_witness:
  "fst (CreateOrOpenReadOnly files_api ''rb'' 16 384 no_files) \<in> {Inl (Thrown ''shm_open''), Inl (Thrown ''ftruncate'')}"
  by (rule CreateOrOpenReadOnly_never_creates [OF files.posix_shm_axioms]) (simp add: files_view_def no_files_def)

section \<open>Several processes\<close>

text \<open>
  CreateOrOpen of one process, one system call at a time. The states are: before the exclusive
  open, before the truncation, before the unlink after a failed truncation, before the second
  open, before the mapping, before the close with the outcome decided, and finished.
\<close>

datatype create_pc = AtCreate | AtTruncate int | AtUnlink int | AtOpen | AtMap int bool
  | AtClose int "SharedMemory result" | Finished "SharedMemory result"

definition create_step ::
    "'s shm_api \<Rightarrow> string \<Rightarrow> u64 \<Rightarrow> u32 \<Rightarrow> u32 \<Rightarrow> u32 \<Rightarrow> create_pc \<Rightarrow> 's \<Rightarrow> create_pc \<times> 's" where
  "create_step api name len mode oflag prot pc s =
     (case pc of
        AtCreate \<Rightarrow>
          (case sys_shm_open api name (O_CREAT OR O_EXCL OR oflag) mode s of (fd, errno, s1) \<Rightarrow>
             (if fd = -1 then (if errno = EEXIST then AtOpen else Finished (Inl (Thrown ''shm_open'')))
              else AtTruncate fd, s1))
      | AtTruncate fd \<Rightarrow>
          (case sys_ftruncate api fd len s of (tr, s1) \<Rightarrow> (if tr = -1 then AtUnlink fd else AtMap fd True, s1))
      | AtUnlink fd \<Rightarrow>
          (case sys_shm_unlink api name s of (_, s1) \<Rightarrow> (AtClose fd (Inl (Thrown ''ftruncate'')), s1))
      | AtOpen \<Rightarrow>
          (case sys_shm_open api name oflag 0 s of (fd, errno, s1) \<Rightarrow>
             (if fd = -1 then Finished (Inl (Thrown ''shm_open'')) else AtMap fd False, s1))
      | AtMap fd isCreator \<Rightarrow>
          (case sys_mmap api len prot fd s of (p, s1) \<Rightarrow>
             (AtClose fd (case p of None \<Rightarrow> Inl (Thrown ''mmap'')
                                  | Some ptr \<Rightarrow> Inr (mk_SharedMemory name ptr len isCreator)), s1))
      | AtClose fd r \<Rightarrow> (Finished r, sys_close api fd s)
      | Finished r \<Rightarrow> (Finished r, s))"

text \<open>The processes run in any order: a run is the list of the processes that take a step.\<close>

fun create_run ::
    "'s shm_api \<Rightarrow> string \<Rightarrow> u64 \<Rightarrow> u32 \<Rightarrow> u32 \<Rightarrow> u32 \<Rightarrow> nat list \<Rightarrow> create_pc list \<times> 's \<Rightarrow> create_pc list \<times> 's" where
  "create_run api name len mode oflag prot [] w = w"
| "create_run api name len mode oflag prot (p # ps) w =
     (case w of (pcs, s) \<Rightarrow>
        if p < length pcs
        then (case create_step api name len mode oflag prot (pcs ! p) s of (pc, s') \<Rightarrow>
                create_run api name len mode oflag prot ps (pcs[p := pc], s'))
        else create_run api name len mode oflag prot ps w)"

text \<open>A process that runs alone makes the calls of CreateOrOpen, in its order.\<close>

fun solo :: "nat \<Rightarrow> 's shm_api \<Rightarrow> string \<Rightarrow> u64 \<Rightarrow> u32 \<Rightarrow> u32 \<Rightarrow> u32 \<Rightarrow> create_pc \<times> 's \<Rightarrow> create_pc \<times> 's" where
  "solo 0 api name len mode oflag prot x = x"
| "solo (Suc n) api name len mode oflag prot (pc, s) =
     solo n api name len mode oflag prot (create_step api name len mode oflag prot pc s)"

lemma create_run_solo:
  "create_run api name len mode oflag prot (replicate n 0) ([pc], s) =
     (case solo n api name len mode oflag prot (pc, s) of (pc', s') \<Rightarrow> ([pc'], s'))"
  by (induction n arbitrary: pc s) (simp_all split: prod.splits)

lemma solo_close:
  "fd \<noteq> -1 \<Longrightarrow> solo 2 api name len mode oflag prot (AtMap fd isCreator, s) =
     (case map_fd api name len prot isCreator fd s of (r, s') \<Rightarrow> (Finished r, s'))"
  by (simp add: eval_nat_numeral create_step_def map_fd_def closefd_def split: prod.splits option.splits)

lemma solo_Finished: "solo n api name len mode oflag prot (Finished r, s) = (Finished r, s)"
  by (induction n) (simp_all add: create_step_def)

lemma solo_add: "solo (n + m) api name len mode oflag prot x = solo m api name len mode oflag prot (solo n api name len mode oflag prot x)"
proof (induction n arbitrary: x)
  case (Suc n)
  then show ?case by (cases x) (simp add: Suc)
qed simp

lemma solo_open:
  "solo 3 api name len mode oflag prot (AtOpen, s) =
     (case Open_flags api name len oflag prot s of (r, s') \<Rightarrow> (Finished r, s'))"
proof -
  obtain fd errno s1 where op: "sys_shm_open api name oflag 0 s = (fd, errno, s1)" by (metis prod_cases3)
  have "solo 3 api name len mode oflag prot (AtOpen, s) =
      solo 2 api name len mode oflag prot (create_step api name len mode oflag prot AtOpen s)"
    by (simp add: numeral_3_eq_3 numeral_2_eq_2)
  then show ?thesis using op
    by (simp add: solo_close create_step_def Open_flags_def solo_Finished closefd_def split: prod.splits)
qed

lemma solo_truncate:
  assumes "fd \<noteq> -1"
  shows "solo 3 api name len mode oflag prot (AtTruncate fd, s) =
    (case sys_ftruncate api fd len s of (tr, s2) \<Rightarrow>
       if tr = -1
       then (case sys_shm_unlink api name s2 of (_, s3) \<Rightarrow> (Finished (Inl (Thrown ''ftruncate'')), closefd api fd s3))
       else (case map_fd api name len prot True fd s2 of (r, s') \<Rightarrow> (Finished r, s')))"
proof -
  obtain tr s2 where tr: "sys_ftruncate api fd len s = (tr, s2)" by fastforce
  obtain ur s3 where un: "sys_shm_unlink api name s2 = (ur, s3)" by fastforce
  have "solo 3 api name len mode oflag prot (AtTruncate fd, s) =
      solo 2 api name len mode oflag prot (create_step api name len mode oflag prot (AtTruncate fd) s)"
    by (simp add: numeral_3_eq_3 numeral_2_eq_2)
  moreover have "solo 2 api name len mode oflag prot (AtUnlink fd, s2) = (Finished (Inl (Thrown ''ftruncate'')), closefd api fd s3)"
    using assms un by (simp add: numeral_2_eq_2 create_step_def closefd_def)
  ultimately show ?thesis using tr un assms
    by (simp add: solo_close create_step_def split: prod.splits)
qed

lemma solo_CreateOrOpen:
  "solo 4 api name len mode oflag prot (AtCreate, s) =
     (case CreateOrOpen_flags api name len mode oflag prot s of (r, s') \<Rightarrow> (Finished r, s'))"
proof -
  obtain fd errno s1 where op: "sys_shm_open api name (O_CREAT OR O_EXCL OR oflag) mode s = (fd, errno, s1)"
    by (metis prod_cases3)
  have "solo 4 api name len mode oflag prot (AtCreate, s) =
      solo 3 api name len mode oflag prot (create_step api name len mode oflag prot AtCreate s)"
    by (simp add: eval_nat_numeral)
  then show ?thesis using op solo_open [of api name len mode oflag prot s1] solo_truncate [of fd api name len mode oflag prot s1]
    by (simp add: create_step_def CreateOrOpen_flags_def solo_Finished closefd_def split: prod.splits)
qed

text \<open>The process that has created the object and not given it up.\<close>

fun owner :: "create_pc \<Rightarrow> bool" where
  "owner (AtTruncate fd) = True"
| "owner (AtUnlink fd) = True"
| "owner (AtMap fd isCreator) = isCreator"
| "owner (AtClose fd (Inr shm)) = shm_isCreator shm"
| "owner (Finished (Inr shm)) = shm_isCreator shm"
| "owner _ = False"

definition owners :: "create_pc list \<Rightarrow> nat set" where
  "owners pcs = {i. i < length pcs \<and> owner (pcs ! i)}"

definition owners_ok :: "bool \<Rightarrow> create_pc list \<Rightarrow> bool" where
  "owners_ok bound pcs \<longleftrightarrow> owners pcs = {} \<or> bound \<and> (\<exists>i. owners pcs = {i})"

lemma owners_update:
  assumes "p < length pcs"
  shows "owners (pcs[p := pc]) = (if owner pc then insert p (owners pcs) else owners pcs - {p})"
  using assms by (auto simp: owners_def nth_list_update)

lemma owners_ok_update:
  assumes "owners_ok bound pcs" "p < length pcs"
    and "owner pc \<Longrightarrow> owner (pcs ! p) \<and> bound' = bound \<or> \<not> bound \<and> bound'"
    and "\<not> owner pc \<Longrightarrow> bound' = bound \<or> bound' \<or> owner (pcs ! p)"
  shows "owners_ok bound' (pcs[p := pc])"
proof -
  have p: "p \<in> owners pcs \<longleftrightarrow> owner (pcs ! p)" using assms(2) by (simp add: owners_def)
  show ?thesis
  proof (cases "owners pcs = {}")
    case True
    then show ?thesis using assms(3) p by (auto simp: owners_ok_def owners_update [OF assms(2)])
  next
    case False
    then obtain i where i: "bound" "owners pcs = {i}" using assms(1) by (auto simp: owners_ok_def)
    then show ?thesis using assms(3,4) p by (auto simp: owners_ok_def owners_update [OF assms(2)])
  qed
qed

context posix_shm begin

abbreviation bound :: "string \<Rightarrow> 's \<Rightarrow> bool" where
  "bound name s \<equiv> sv_names (view s) name \<noteq> None"

lemma create_step_owner:
  assumes "create_step api name len mode oflag prot pc s = (pc', s')" "access_mode oflag"
  shows "(owner pc' \<longrightarrow> owner pc \<and> bound name s' = bound name s \<or> \<not> bound name s \<and> bound name s')
    \<and> (\<not> owner pc' \<longrightarrow> bound name s' = bound name s \<or> bound name s' \<or> owner pc)"
proof (cases pc)
  case AtCreate
  obtain fd errno s1 where op: "sys_shm_open api name (O_CREAT OR O_EXCL OR oflag) mode s = (fd, errno, s1)"
    by (metis prod_cases3)
  then have pc': "s' = s1" "pc' = (if fd = -1 then (if errno = EEXIST then AtOpen else Finished (Inl (Thrown ''shm_open'')))
      else AtTruncate fd)"
    using assms(1) AtCreate by (auto simp: create_step_def)
  show ?thesis
  proof (cases "sv_names (view s) name")
    case None
    from open_excl_new [OF assms(2) None op] have "fd = -1 \<and> view s1 = view s \<or> fd \<noteq> -1 \<and> bound name s1"
      by (auto simp: opened_def created_def)
    then show ?thesis using pc' None by (elim disjE) simp_all
  next
    case (Some obj)
    from open_excl_bound [OF assms(2) Some, of mode] op have "fd = -1" "view s1 = view s" by auto
    then show ?thesis using pc' by simp
  qed
next
  case (AtTruncate fd)
  obtain tr s1 where tr: "sys_ftruncate api fd len s = (tr, s1)" by fastforce
  then show ?thesis using assms(1) AtTruncate ftruncate_names [OF tr] by (simp add: create_step_def)
next
  case (AtUnlink fd)
  then show ?thesis using assms(1) by (auto simp: create_step_def split: prod.splits)
next
  case AtOpen
  obtain fd errno s1 where op: "sys_shm_open api name oflag 0 s = (fd, errno, s1)" by (metis prod_cases3)
  have "bound name s1 = bound name s" using open_plain [OF assms(2) op] by (auto simp: opened_def)
  then show ?thesis using assms(1) AtOpen op by (cases "fd = -1") (auto simp: create_step_def)
next
  case (AtMap fd isCreator)
  obtain p s1 where p: "sys_mmap api len prot fd s = (p, s1)" by fastforce
  then show ?thesis using assms(1) AtMap mmap_keeps [OF p]
    by (cases p) (auto simp: create_step_def mk_SharedMemory_def)
next
  case (AtClose fd r)
  then show ?thesis using assms(1) close_closes by (cases r) (auto simp: create_step_def)
next
  case (Finished r)
  then show ?thesis using assms(1) by (auto simp: create_step_def)
qed

lemma create_run_owners:
  assumes "access_mode oflag" "create_run api name len mode oflag prot ps (pcs, s) = (pcs', s')"
    and "owners_ok (bound name s) pcs"
  shows "owners_ok (bound name s') pcs'"
  using assms(2,3)
proof (induction ps arbitrary: pcs s)
  case (Cons p ps)
  show ?case
  proof (cases "p < length pcs")
    case True
    obtain pc s1 where st: "create_step api name len mode oflag prot (pcs ! p) s = (pc, s1)" by fastforce
    have "owners_ok (bound name s1) (pcs[p := pc])"
      using create_step_owner [OF st assms(1)] by (intro owners_ok_update [OF Cons.prems(2) True]) auto
    then show ?thesis using Cons.IH [of "pcs[p := pc]" s1] Cons.prems(1) True st by simp
  next
    case False
    then show ?thesis using Cons by simp
  qed
qed simp

end

text \<open>
  C32: One creator. However the calls of several processes that create or open the same name
  interleave, and whichever of them fail, at most one process is told that it is the creator,
  so the shared structures are initialized at most once.
\<close>

theorem CreateOrOpen_one_creator:
  assumes "posix_shm api view" "access_mode oflag"
    and "create_run api name len mode oflag prot ps (replicate n AtCreate, s) = (pcs, s')"
    and "i < length pcs" "pcs ! i = Finished (Inr shm)" "shm_isCreator shm"
    and "j < length pcs" "pcs ! j = Finished (Inr shm')" "shm_isCreator shm'"
  shows "i = j"
proof -
  have "owners_ok (sv_names (view s) name \<noteq> None) (replicate n AtCreate)"
    by (simp add: owners_ok_def owners_def)
  from posix_shm.create_run_owners [OF assms(1,2,3) this] have "owners pcs = {} \<or> (\<exists>k. owners pcs = {k})"
    by (auto simp: owners_ok_def)
  moreover have "i \<in> owners pcs" "j \<in> owners pcs" using assms(4-9) by (simp_all add: owners_def)
  ultimately show ?thesis by auto
qed

theorem CreateOrOpen_one_creator_witness:
  "\<exists>pcs s' shm shm'. create_run files_api ''rb'' 16 384 O_RDWR PROT_WRITE [1, 0, 0, 1, 0, 1, 1, 0] ([AtCreate, AtCreate], no_files)
      = (pcs, s')
    \<and> pcs ! 0 = Finished (Inr shm) \<and> pcs ! 1 = Finished (Inr shm')
    \<and> \<not> (shm_isCreator shm \<and> shm_isCreator shm')"
proof -
  obtain pcs s' where run: "create_run files_api ''rb'' 16 384 O_RDWR PROT_WRITE [1, 0, 0, 1, 0, 1, 1, 0]
      ([AtCreate, AtCreate], no_files) = (pcs, s')" by fastforce
  have "(case create_run files_api ''rb'' 16 384 O_RDWR PROT_WRITE [1, 0, 0, 1, 0, 1, 1, 0] ([AtCreate, AtCreate], no_files) of
      (pcs, s') \<Rightarrow> (case pcs of [Finished (Inr a), Finished (Inr b)] \<Rightarrow> True | _ \<Rightarrow> False))"
    by code_simp
  then obtain a b where ab: "pcs = [Finished (Inr a), Finished (Inr b)]"
    unfolding run by (auto split: list.splits create_pc.splits sum.splits)
  have acc: "access_mode O_RDWR" by (simp add: access_mode_def)
  have two: "replicate 2 AtCreate = [AtCreate, AtCreate]" by (simp add: numeral_2_eq_2)
  have nth: "0 < length pcs" "pcs ! 0 = Finished (Inr a)" "1 < length pcs" "pcs ! 1 = Finished (Inr b)"
    using ab by simp_all
  note one = CreateOrOpen_one_creator [where n = 2, unfolded two, OF files.posix_shm_axioms acc run nth(1,2) _ nth(3,4)]
  have "\<not> (shm_isCreator a \<and> shm_isCreator b)" using one by auto
  with run nth show ?thesis by blast
qed

text \<open>
  An opener can map nothing. Between the creation of the object and its truncation another
  process can open and map it: its call returns, with the full length and not as the creator,
  while the object still has size zero, so its first access is outside the object.
\<close>

lemma opener_maps_empty_object:
  "\<exists>pcs s' shm fd obj. create_run files_api ''rb'' 16 384 O_RDWR PROT_WRITE [0, 1, 1, 1, 1] ([AtCreate, AtCreate], no_files)
      = (pcs, s')
    \<and> pcs = [AtTruncate fd, Finished (Inr shm)] \<and> \<not> shm_isCreator shm \<and> shm_length shm = 16
    \<and> sv_names (files_view s') ''rb'' = Some obj \<and> sv_sizes (files_view s') obj = Some 0"
proof -
  have "(case create_run files_api ''rb'' 16 384 O_RDWR PROT_WRITE [0, 1, 1, 1, 1] ([AtCreate, AtCreate], no_files) of
      (pcs, s') \<Rightarrow> (case pcs of [AtTruncate fd, Finished (Inr shm)] \<Rightarrow>
        \<not> shm_isCreator shm \<and> shm_length shm = 16 \<and> pf_names s' = [(''rb'', 0)] \<and> pf_sizes s' = [0] | _ \<Rightarrow> False))"
    by code_simp
  then show ?thesis by (auto simp: files_view_def split: prod.splits list.splits create_pc.splits sum.splits)
qed

end
