(* ===== verification/BurstAgent.thy ===== *)
theory BurstAgent
  imports BurstConfig PublishSubscribe SharedMemory
begin

text \<open>
  system_tests/burst/agent.cpp: the agent of the system tests, the one program of the repository
  that puts the whole library to work. Each command runs in a process of its own on the objects
  in shared memory. What the code cannot see is a parameter: the readings of the clock, what a
  sent notification does to the network, and what other processes do while this one sleeps or
  waits. The template parameter of RunWriter and RunReader becomes the functions of the policy
  that they call.
\<close>

section \<open>The clock and the statistics\<close>

text \<open>\<open>clock n\<close> is the reading number \<open>n\<close> of the monotonic clock, in seconds and nanoseconds.\<close>

type_synonym clock = "nat \<Rightarrow> u64 \<times> u64"

definition NowNanoSec :: "clock \<Rightarrow> nat \<Rightarrow> u64" where
  "NowNanoSec clock n = (case clock n of (tv_sec, tv_nsec) \<Rightarrow> 1000 * 1000 * 1000 * tv_sec + tv_nsec)"

datatype EXIT_CODE = EC_SUCCESS | EC_UNKNOWN_ARG | EC_READER_EXPIRED

record AgentStats =
  latencyNsSum :: u64
  firstLastDurationNsSum :: u64
  writerDurationNsSum :: u64
  notificationNsSum :: u64
  msgCount :: u64
  readersReady :: u64
  writersReady :: u64
  readerRuns :: u64

definition zero_stats :: AgentStats where
  "zero_stats = \<lparr> latencyNsSum = 0, firstLastDurationNsSum = 0, writerDurationNsSum = 0, notificationNsSum = 0,
     msgCount = 0, readersReady = 0, writersReady = 0, readerRuns = 0 \<rparr>"

text \<open>The objects in shared memory.\<close>

record 'm agent_shared =
  as_rb :: "'m ByteRingBuffer"
  as_ri :: "'m TpReaderInfo"
  as_stats :: AgentStats

text \<open>\<open>mem\<close> is what the mapped ring buffer holds behind its header.\<close>

definition RunInit :: "'m pthread_api \<Rightarrow> env_vars \<Rightarrow> bytes \<Rightarrow> 'm agent_shared result" where
  "RunInit pt getenv mem =
     (case GetOptRingBufSizeBytes getenv of
        Inl e \<Rightarrow> Inl e
      | Inr optSize \<Rightarrow>
          (case mk_ByteRingBuffer pt mem optSize of
             Inl e \<Rightarrow> Inl e
           | Inr rb \<Rightarrow>
               (case GetOptMaxReaders getenv of
                  Inl e \<Rightarrow> Inl e
                | Inr maxReaders \<Rightarrow>
                    map_sum id (\<lambda>ri. \<lparr> as_rb = rb, as_ri = ri, as_stats = zero_stats \<rparr>)
                      (mk_TpReaderInfo pt (ucast maxReaders)))))"

definition RunResetIter :: "AgentStats \<Rightarrow> AgentStats" where
  "RunResetIter stats = stats\<lparr>writersReady := 0, readersReady := 0\<rparr>"

definition RunCmpReceivedMessages :: "u64 \<Rightarrow> AgentStats \<Rightarrow> int" where
  "RunCmpReceivedMessages arg2 stats = (if msgCount stats = arg2 then 0 else 1)"

text \<open>The number of expired readers as the exit status, which is an \<open>int\<close>.\<close>

definition RunExpired :: "'m agent_shared \<Rightarrow> 32 word" where
  "RunExpired sh = ucast (expiredReaders (rmpReaderInfo (as_ri sh)))"

section \<open>The test policies\<close>

record BaseTest =
  bt_msgAllWriterCount :: u64
  bt_msgPerWriterCount :: u64
  bt_bpSleepMs :: u64
  bt_postedCount :: u64
  bt_rcvedCount :: u64

record ThroughputTest = BaseTest +
  tt_firstNs :: u64
  tt_topicMsg :: bytes

record LatencyTest = BaseTest +
  lt_latencySumNs :: u64

definition BaseTest_counts :: "env_vars \<Rightarrow> (u64 \<times> u64 \<times> u64) result" where
  "BaseTest_counts getenv =
     (case (GetOptMessagesPerWriter getenv, GetOptWriters getenv, GetOptBackpressureSleepMs getenv) of
        (Inl e, _, _) \<Rightarrow> Inl e
      | (_, Inl e, _) \<Rightarrow> Inl e
      | (_, _, Inl e) \<Rightarrow> Inl e
      | (Inr perWriter, Inr writers, Inr sleepMs) \<Rightarrow> Inr (perWriter * writers, perWriter, sleepMs))"

definition mk_ThroughputTest :: "env_vars \<Rightarrow> ThroughputTest result" where
  "mk_ThroughputTest getenv =
     map_sum id (\<lambda>(allWriters, perWriter, sleepMs).
       \<lparr> bt_msgAllWriterCount = allWriters, bt_msgPerWriterCount = perWriter, bt_bpSleepMs = sleepMs,
         bt_postedCount = 0, bt_rcvedCount = 0, tt_firstNs = 0, tt_topicMsg = [] \<rparr>) (BaseTest_counts getenv)"

definition mk_LatencyTest :: "env_vars \<Rightarrow> LatencyTest result" where
  "mk_LatencyTest getenv =
     map_sum id (\<lambda>(allWriters, perWriter, sleepMs).
       \<lparr> bt_msgAllWriterCount = allWriters, bt_msgPerWriterCount = perWriter, bt_bpSleepMs = sleepMs,
         bt_postedCount = 0, bt_rcvedCount = 0, lt_latencySumNs = 0 \<rparr>) (BaseTest_counts getenv)"

definition PostMore :: "'z BaseTest_scheme \<Rightarrow> bool" where
  "PostMore t \<longleftrightarrow> bt_postedCount t < bt_msgPerWriterCount t"

definition ReadMore :: "'z BaseTest_scheme \<Rightarrow> bool" where
  "ReadMore t \<longleftrightarrow> bt_rcvedCount t < bt_msgAllWriterCount t"

section \<open>The writer process\<close>

text \<open>The client's state of the asynchronous writer: the clock, the measured time, and the network.\<close>

record 'n writer_env =
  we_ticks :: nat
  we_notificationNs :: u64
  we_net :: 'n

text \<open>\<open>wp_wrk\<close>: has \<open>wrk\<close> been assigned? It can only be ProcWriter.\<close>

record ('m, 'n, 'p) writer_process =
  wp_world :: "('m, bytes MPSCMessageQueue, 'n writer_env) writer_world"
  wp_wrk :: bool
  wp_policy :: 'p

definition channel_name :: bytes where
  "channel_name = [99, 104, 97, 110, 110, 101, 108]"

definition notifyCb :: "clock \<Rightarrow> ('n \<Rightarrow> 'n) \<Rightarrow> 'm ReaderInfo \<times> 'n writer_env \<Rightarrow> 'm ReaderInfo \<times> 'n writer_env" where
  "notifyCb clock send s =
     (case s of (ri, env) \<Rightarrow>
       (let startNs = NowNanoSec clock (we_ticks env); endNs = NowNanoSec clock (Suc (we_ticks env))
        in (ri, env\<lparr>we_ticks := we_ticks env + 2, we_net := send (we_net env),
                    we_notificationNs := we_notificationNs env + (endNs - startNs)\<rparr>)))"

text \<open>The handler sleeps, during which others move, and then answers that the write is to be forced.\<close>

definition agent_backpressure :: "('m ReaderInfo \<Rightarrow> 'm ReaderInfo) \<Rightarrow> ('m, 'n writer_env) bp_handler" where
  "agent_backpressure sleep bpPos free s = (case s of (ri, env) \<Rightarrow> (False, sleep ri, env))"

definition post_message ::
    "('m, bytes MPSCMessageQueue, 'n writer_env) AsyncWriter \<Rightarrow> bytes \<Rightarrow> ('m, 'n, 'p) writer_process
     \<Rightarrow> ('m, 'n, 'p) writer_process result" where
  "post_message aw msg proc =
     map_sum id (\<lambda>(start, w). proc\<lparr>wp_world := w, wp_wrk := wp_wrk proc \<or> start\<rparr>) (Post aw msg (wp_world proc))"

definition posted_one :: "('m, 'n, 'z BaseTest_scheme) writer_process \<Rightarrow> ('m, 'n, 'z BaseTest_scheme) writer_process" where
  "posted_one proc = proc\<lparr>wp_policy := (wp_policy proc)\<lparr>bt_postedCount := bt_postedCount (wp_policy proc) + 1\<rparr>\<rparr>"

definition ThroughputTest_InitWriter ::
    "env_vars \<Rightarrow> reader_gen \<Rightarrow> 'm ByteRingBuffer \<Rightarrow> ThroughputTest \<Rightarrow> ThroughputTest result" where
  "ThroughputTest_InitWriter getenv gen rb t =
     (case GetOptMessagesSizeBytes getenv of
        Inl e \<Rightarrow> Inl e
      | Inr optSize \<Rightarrow> map_sum id (\<lambda>m. t\<lparr>tt_topicMsg := m\<rparr>)
          (CreateMessage rb gen channel_name (replicate (unat optSize) 0) optSize False))"

definition ThroughputTest_Post ::
    "('m, bytes MPSCMessageQueue, 'n writer_env) AsyncWriter \<Rightarrow> ('m, 'n, ThroughputTest) writer_process
     \<Rightarrow> ('m, 'n, ThroughputTest) writer_process result" where
  "ThroughputTest_Post aw proc = map_sum id posted_one (post_message aw (tt_topicMsg (wp_policy proc)) proc)"

definition LatencyTest_InitWriter :: "LatencyTest \<Rightarrow> LatencyTest result" where
  "LatencyTest_InitWriter t = Inr t"

definition LatencyTest_Post ::
    "clock \<Rightarrow> reader_gen \<Rightarrow> ('m, bytes MPSCMessageQueue, 'n writer_env) AsyncWriter \<Rightarrow> ('m, 'n, LatencyTest) writer_process
     \<Rightarrow> ('m, 'n, LatencyTest) writer_process result" where
  "LatencyTest_Post clock gen aw proc =
     (let w = wp_world proc; env = ww_env w; now = NowNanoSec clock (we_ticks env);
          proc1 = proc\<lparr>wp_world := w\<lparr>ww_env := env\<lparr>we_ticks := Suc (we_ticks env)\<rparr>\<rparr>\<rparr>
      in case CreateMessage (ww_rb w) gen channel_name (le_bytes 8 now) 8 False of
           Inl e \<Rightarrow> Inl e
         | Inr topicMsg \<Rightarrow> map_sum id posted_one (post_message aw topicMsg proc1))"

partial_function (option) posting ::
    "(('m, 'n, 'z BaseTest_scheme) writer_process \<Rightarrow> ('m, 'n, 'z BaseTest_scheme) writer_process result)
     \<Rightarrow> ('m, 'n, 'z BaseTest_scheme) writer_process \<Rightarrow> ('m, 'n, 'z BaseTest_scheme) writer_process result option" where
  "posting post proc =
     (if \<not> PostMore (wp_policy proc) then Some (Inr proc)
      else case post proc of Inl e \<Rightarrow> Some (Inl e) | Inr proc' \<Rightarrow> posting post proc')"

declare posting.simps [code]

text \<open>
  The end of RunWriter: \<open>wrk\<close> is called, which throws if it is empty, and the times are added to
  the statistics.
\<close>

definition run_wrk ::
    "'m pthread_api \<Rightarrow> tid \<Rightarrow> clock \<Rightarrow> ('m, bytes MPSCMessageQueue, 'n writer_env) AsyncWriter
     \<Rightarrow> ('m, 'n, 'p) writer_process \<Rightarrow> AgentStats \<Rightarrow> (('m, 'n, 'p) writer_process \<times> AgentStats) result option" where
  "run_wrk pt t clock aw proc stats =
     (let w = wp_world proc; startNs = NowNanoSec clock (we_ticks (ww_env w))
      in if \<not> wp_wrk proc then Some (Inl (Thrown ''bad_function_call''))
         else (case ProcWriter pt t aw (w\<lparr>ww_env := (ww_env w)\<lparr>we_ticks := Suc (we_ticks (ww_env w))\<rparr>\<rparr>) of
             None \<Rightarrow> None
           | Some (Inl e) \<Rightarrow> Some (Inl e)
           | Some (Inr w') \<Rightarrow>
               (let elapsed = NowNanoSec clock (we_ticks (ww_env w')) - startNs
                in Some (Inr (proc\<lparr>wp_world := w'\<lparr>ww_env := (ww_env w')\<lparr>we_ticks := Suc (we_ticks (ww_env w'))\<rparr>\<rparr>\<rparr>,
                     stats\<lparr>writerDurationNsSum := writerDurationNsSum stats + elapsed,
                           notificationNsSum := notificationNsSum stats + we_notificationNs (ww_env w')\<rparr>)))))"

definition RunWriter ::
    "'m pthread_api \<Rightarrow> tid \<Rightarrow> clock \<Rightarrow> ('n \<Rightarrow> 'n) \<Rightarrow> ('m ReaderInfo \<Rightarrow> 'm ReaderInfo)
     \<Rightarrow> ('z BaseTest_scheme \<Rightarrow> 'z BaseTest_scheme result)
     \<Rightarrow> (('m, bytes MPSCMessageQueue, 'n writer_env) AsyncWriter \<Rightarrow> ('m, 'n, 'z BaseTest_scheme) writer_process
         \<Rightarrow> ('m, 'n, 'z BaseTest_scheme) writer_process result)
     \<Rightarrow> 'z BaseTest_scheme \<Rightarrow> 'n \<Rightarrow> 'm agent_shared
     \<Rightarrow> ('z BaseTest_scheme \<times> 'n \<times> 'm agent_shared) result option" where
  "RunWriter pt t clock send sleep InitWriter PostFn testPolicy net sh =
     (case mk_AsyncWriter (as_rb sh) Enqueue Drain (agent_backpressure sleep) (notifyCb clock send) of
        Inl e \<Rightarrow> Some (Inl e)
      | Inr writer \<Rightarrow>
          (case InitWriter testPolicy of
             Inl e \<Rightarrow> Some (Inl e)
           | Inr testPolicy1 \<Rightarrow>
               (let w = \<lparr> ww_queue = new_MPSCMessageQueue, ww_rb = as_rb sh, ww_ri = rmpReaderInfo (as_ri sh),
                          ww_env = \<lparr> we_ticks = 0, we_notificationNs = 0, we_net = net \<rparr> \<rparr>
                in case posting (PostFn writer) \<lparr> wp_world = w, wp_wrk = False, wp_policy = testPolicy1 \<rparr> of
                     None \<Rightarrow> None
                   | Some (Inl e) \<Rightarrow> Some (Inl e)
                   | Some (Inr proc) \<Rightarrow>
                       (case run_wrk pt t clock writer proc (as_stats sh) of
                          None \<Rightarrow> None
                        | Some (Inl e) \<Rightarrow> Some (Inl e)
                        | Some (Inr (proc', stats)) \<Rightarrow>
                            Some (Inr (wp_policy proc', we_net (ww_env (wp_world proc')),
                              \<lparr> as_rb = ww_rb (wp_world proc'),
                                as_ri = (as_ri sh)\<lparr>rmpReaderInfo := ww_ri (wp_world proc')\<rparr>, as_stats = stats \<rparr>))))))"

section \<open>The reader process\<close>

text \<open>
  The client's state of the topic reader: the clock, the statistics in shared memory, the
  policy, and whether the event callback has called \<open>exit\<close>.
\<close>

record 'p reader_env =
  re_ticks :: nat
  re_stats :: AgentStats
  re_policy :: 'p
  re_exited :: bool

definition now_and_tick :: "clock \<Rightarrow> 'p reader_env \<Rightarrow> u64 \<times> 'p reader_env" where
  "now_and_tick clock env = (NowNanoSec clock (re_ticks env), env\<lparr>re_ticks := Suc (re_ticks env)\<rparr>)"

definition received_one :: "'z BaseTest_scheme \<Rightarrow> 'z BaseTest_scheme" where
  "received_one t = t\<lparr>bt_rcvedCount := bt_rcvedCount t + 1\<rparr>"

definition ThroughputTest_OnChannelRead ::
    "clock \<Rightarrow> bytes \<Rightarrow> u32 \<Rightarrow> ThroughputTest reader_env \<Rightarrow> ThroughputTest reader_env" where
  "ThroughputTest_OnChannelRead clock data len env =
     (let t = received_one (re_policy env); env0 = env\<lparr>re_policy := t\<rparr>
      in if bt_rcvedCount t = 1
         then (case now_and_tick clock env0 of (now, env1) \<Rightarrow> env1\<lparr>re_policy := t\<lparr>tt_firstNs := now\<rparr>\<rparr>)
         else if bt_rcvedCount t = bt_msgAllWriterCount t
         then (case now_and_tick clock env0 of (now, env1) \<Rightarrow>
                 env1\<lparr>re_stats := (re_stats env1)\<lparr>
                   firstLastDurationNsSum := firstLastDurationNsSum (re_stats env1) + (now - tt_firstNs t),
                   msgCount := msgCount (re_stats env1) + bt_rcvedCount t\<rparr>\<rparr>)
         else env0)"

text \<open>The time stamp is read from the first eight bytes of the data.\<close>

definition LatencyTest_OnChannelRead ::
    "clock \<Rightarrow> bytes \<Rightarrow> u32 \<Rightarrow> LatencyTest reader_env \<Rightarrow> LatencyTest reader_env" where
  "LatencyTest_OnChannelRead clock data len env =
     (let t = received_one (re_policy env)
      in case now_and_tick clock (env\<lparr>re_policy := t\<rparr>) of (now, env1) \<Rightarrow>
           env1\<lparr>re_policy := t\<lparr>lt_latencySumNs := lt_latencySumNs t + (now - le_word (take 8 data))\<rparr>\<rparr>)"

text \<open>The destructor of the latency test runs at the end of the process.\<close>

definition LatencyTest_destroy :: "LatencyTest \<Rightarrow> AgentStats \<Rightarrow> AgentStats" where
  "LatencyTest_destroy t stats =
     stats\<lparr>latencyNsSum := latencyNsSum stats + lt_latencySumNs t, msgCount := msgCount stats + bt_rcvedCount t\<rparr>"

definition agent_event :: "ChannelReaderEventType \<Rightarrow> 'p reader_env \<Rightarrow> 'p reader_env" where
  "agent_event e env = (if e = ALL_CHANNEL_READERS_EXPIRED then env\<lparr>re_exited := True\<rparr> else env)"

text \<open>
  The two queues of the agent run what they are given at once: the items of the serial queue,
  then the reads that these ask for.
\<close>

definition run_at_once :: "('m, 'e) reader_world \<Rightarrow> ('m, 'e) reader_world result option" where
  "run_at_once w =
     (case exec_all (rw_serial w) (w\<lparr>rw_serial := []\<rparr>) of
        Inl e \<Rightarrow> Some (Inl e)
      | Inr w1 \<Rightarrow> read_all (rw_rmp w1) (w1\<lparr>rw_rmp := []\<rparr>))"

text \<open>
  Up to the loop. \<open>pos0\<close> and \<open>addr\<close> are the initial value of the position and the address of
  the channel reader.
\<close>

definition RunReader_start ::
    "'m pthread_api \<Rightarrow> tid \<Rightarrow> position \<Rightarrow> nat \<Rightarrow> (bytes \<Rightarrow> u32 \<Rightarrow> 'p reader_env \<Rightarrow> 'p reader_env) \<Rightarrow> 'p
     \<Rightarrow> 'm agent_shared \<Rightarrow> ('m, 'p reader_env) reader_world result option" where
  "RunReader_start pt t pos0 addr OnChannelRead testPolicy sh =
     (case mk_TpReader pt t pos0 (as_rb sh) (as_ri sh) agent_event of
        Inl e \<Rightarrow> Some (Inl e)
      | Inr (reader, ri) \<Rightarrow>
          (let w = new_reader_world reader (as_rb sh) ri
                 \<lparr> re_ticks = 0, re_stats = as_stats sh, re_policy = testPolicy, re_exited = False \<rparr>
           in case run_at_once (snd (CreateChannelReader addr channel_name OnChannelRead False w)) of
                None \<Rightarrow> None
              | Some (Inl e) \<Rightarrow> Some (Inl e)
              | Some (Inr w1) \<Rightarrow>
                  (let env = rw_env w1
                   in Some (Inr (w1\<lparr>rw_env := env\<lparr>re_stats := (re_stats env)\<lparr>readersReady := readersReady (re_stats env) + 1\<rparr>\<rparr>\<rparr>)))))"

text \<open>
  \<open>wait\<close> is what has changed when \<open>un.Wait()\<close> returns, \<open>None\<close> if it never does. The result is
  the exit status that the process already has, if the event callback ended it, else \<open>None\<close>.
\<close>

partial_function (option) RunReader_loop ::
    "(('m, 'z BaseTest_scheme reader_env) reader_world \<Rightarrow> ('m, 'z BaseTest_scheme reader_env) reader_world option)
     \<Rightarrow> ('m, 'z BaseTest_scheme reader_env) reader_world \<Rightarrow> u64
     \<Rightarrow> (EXIT_CODE option \<times> ('m, 'z BaseTest_scheme reader_env) reader_world) result option" where
  "RunReader_loop wait w runCount =
     (if \<not> ReadMore (re_policy (rw_env w))
      then (let env = rw_env w
            in Some (Inr (None, w\<lparr>rw_env := env\<lparr>re_stats := (re_stats env)\<lparr>readerRuns := readerRuns (re_stats env) + runCount\<rparr>\<rparr>\<rparr>)))
      else case wait w of
             None \<Rightarrow> None
           | Some w1 \<Rightarrow>
               (case run_at_once (Run w1) of
                  None \<Rightarrow> None
                | Some (Inl e) \<Rightarrow> Some (Inl e)
                | Some (Inr w2) \<Rightarrow>
                    if re_exited (rw_env w2) then Some (Inr (Some EC_READER_EXPIRED, w2))
                    else RunReader_loop wait w2 (runCount + 1)))"

declare RunReader_loop.simps [code]

definition RunReader ::
    "'m pthread_api \<Rightarrow> tid \<Rightarrow> position \<Rightarrow> nat
     \<Rightarrow> (bytes \<Rightarrow> u32 \<Rightarrow> 'z BaseTest_scheme reader_env \<Rightarrow> 'z BaseTest_scheme reader_env)
     \<Rightarrow> (('m, 'z BaseTest_scheme reader_env) reader_world \<Rightarrow> ('m, 'z BaseTest_scheme reader_env) reader_world option)
     \<Rightarrow> 'z BaseTest_scheme \<Rightarrow> 'm agent_shared
     \<Rightarrow> (EXIT_CODE option \<times> ('m, 'z BaseTest_scheme reader_env) reader_world) result option" where
  "RunReader pt t pos0 addr OnChannelRead wait testPolicy sh =
     (case RunReader_start pt t pos0 addr OnChannelRead testPolicy sh of
        None \<Rightarrow> None
      | Some (Inl e) \<Rightarrow> Some (Inl e)
      | Some (Inr w) \<Rightarrow> RunReader_loop wait w 0)"

section \<open>The shared memory objects\<close>

text \<open>
  The sizes of the C++ types, fixed by the ABI. \<open>static\<close> handles make the call once per
  process, at the first use.
\<close>

record agent_sizes =
  sz_ByteRingBuffer :: u64
  sz_TpReaderInfo :: u64
  sz_RmpReaderInfo :: u64
  sz_Info :: u64
  sz_AgentStats :: u64

definition RingBufShm :: "'s shm_api \<Rightarrow> agent_sizes \<Rightarrow> env_vars \<Rightarrow> 's \<Rightarrow> SharedMemory result \<times> 's" where
  "RingBufShm api sz getenv s =
     (case GetOptRingBufSizeBytes getenv of
        Inl e \<Rightarrow> (Inl e, s)
      | Inr n \<Rightarrow> CreateOrOpen api ''toroni-burst-rb'' (ucast (ByteRingBuffer_Size (sz_ByteRingBuffer sz) (ucast n))) 384 s)"

definition ReaderInfoShm :: "'s shm_api \<Rightarrow> agent_sizes \<Rightarrow> env_vars \<Rightarrow> 's \<Rightarrow> SharedMemory result \<times> 's" where
  "ReaderInfoShm api sz getenv s =
     (case GetOptMaxReaders getenv of
        Inl e \<Rightarrow> (Inl e, s)
      | Inr n \<Rightarrow> CreateOrOpen api ''toroni-burst-ri''
          (ucast (TpReaderInfo_Size (sz_TpReaderInfo sz) (sz_RmpReaderInfo sz) (sz_Info sz) (ucast n))) 384 s)"

definition StatsShm :: "'s shm_api \<Rightarrow> agent_sizes \<Rightarrow> env_vars \<Rightarrow> 's \<Rightarrow> SharedMemory result \<times> 's" where
  "StatsShm api sz getenv s = CreateOrOpen api ''toroni-burst-s'' (sz_AgentStats sz) 384 s"

definition unlink_handle :: "'s shm_api \<Rightarrow> SharedMemory result \<times> 's \<Rightarrow> unit result \<times> 's" where
  "unlink_handle api hs = (case hs of (Inl e, s) \<Rightarrow> (Inl e, s) | (Inr shm, s) \<Rightarrow> Unlink api shm s)"

definition RunUnlink :: "'s shm_api \<Rightarrow> agent_sizes \<Rightarrow> env_vars \<Rightarrow> 's \<Rightarrow> unit result \<times> 's" where
  "RunUnlink api sz getenv s =
     (case unlink_handle api (RingBufShm api sz getenv s) of
        (Inl e, s1) \<Rightarrow> (Inl e, s1)
      | (Inr _, s1) \<Rightarrow>
          (case unlink_handle api (ReaderInfoShm api sz getenv s1) of
             (Inl e, s2) \<Rightarrow> (Inl e, s2)
           | (Inr _, s2) \<Rightarrow> unlink_handle api (StatsShm api sz getenv s2)))"

section \<open>The command line\<close>

datatype agent_command = Cmd_init | Cmd_write | Cmd_read | Cmd_stat | Cmd_result | Cmd_unlink | Cmd_expired
  | Cmd_waitreaders | Cmd_cmprcved | Cmd_resetiter | Cmd_layout

text \<open>The command that Main runs, \<open>None\<close> if it prints "unknown cmd" and returns EC\_UNKNOWN\_ARG.\<close>

definition Main_command :: "string list \<Rightarrow> agent_command option" where
  "Main_command argv =
     (case argv of
        prog # cmd # args \<Rightarrow>
          if cmd = ''init'' then Some Cmd_init
          else if cmd = ''write'' then Some Cmd_write
          else if cmd = ''read'' then Some Cmd_read
          else if cmd = ''stat'' then Some Cmd_stat
          else if cmd = ''result'' then Some Cmd_result
          else if cmd = ''unlink'' then Some Cmd_unlink
          else if cmd = ''expired'' then Some Cmd_expired
          else if cmd = ''waitreaders'' then Some Cmd_waitreaders
          else if cmd = ''cmprcved'' then Some Cmd_cmprcved
          else if cmd = ''resetiter'' then Some Cmd_resetiter
          else if cmd = ''layout'' then Some Cmd_layout
          else None
      | _ \<Rightarrow> None)"

end
