(* ===== verification/BurstRuns.thy ===== *)
theory BurstRuns
  imports BurstAgent
begin

text \<open>
  What a run of the burst agent measures: an initialised set of objects, one reader process and
  one writer process of the throughput test.
\<close>

section \<open>The counters of the throughput test\<close>

lemma posting_posts:
  fixes proc :: "('m, 'n, ThroughputTest) writer_process"
  assumes "post_all aw (replicate k (tt_topicMsg (wp_policy proc))) (wp_world proc) = Inr (n, w)"
    and "unat (bt_postedCount (wp_policy proc)) + k = unat (bt_msgPerWriterCount (wp_policy proc))"
  shows "posting (ThroughputTest_Post aw) proc = Some (Inr (proc\<lparr>wp_world := w, wp_wrk := wp_wrk proc \<or> 0 < n,
    wp_policy := (wp_policy proc)\<lparr>bt_postedCount := bt_msgPerWriterCount (wp_policy proc)\<rparr>\<rparr>))"
  using assms
proof (induction k arbitrary: proc n)
  case 0
  then have "bt_postedCount (wp_policy proc) = bt_msgPerWriterCount (wp_policy proc)"
    by (simp add: word_unat_eq_iff)
  then show ?case using 0 by (subst posting.simps) (simp add: PostMore_def)
next
  case (Suc k)
  let ?t = "wp_policy proc"
  have more: "PostMore ?t" using Suc.prems(2) by (simp add: PostMore_def word_less_nat_alt)
  obtain start w1 n1 where p: "Post aw (tt_topicMsg ?t) (wp_world proc) = Inr (start, w1)"
      and rest: "post_all aw (replicate k (tt_topicMsg ?t)) w1 = Inr (n1, w)" "n = (if start then 1 else 0) + n1"
    using Suc.prems(1) by (auto split: sum.splits prod.splits elim!: map_sum_Inr)
  let ?proc = "posted_one (proc\<lparr>wp_world := w1, wp_wrk := wp_wrk proc \<or> start\<rparr>)"
  have "unat (bt_postedCount ?t + 1) = Suc (unat (bt_postedCount ?t))"
    using Suc.prems(2) u64_bound [of "bt_msgPerWriterCount ?t"] by (simp add: unat_add_small)
  then have "posting (ThroughputTest_Post aw) ?proc = Some (Inr (?proc\<lparr>wp_world := w, wp_wrk := wp_wrk ?proc \<or> 0 < n1,
      wp_policy := (wp_policy ?proc)\<lparr>bt_postedCount := bt_msgPerWriterCount (wp_policy ?proc)\<rparr>\<rparr>))"
    using Suc.prems(2) rest(1) by (intro Suc.IH) (simp_all add: posted_one_def)
  then show ?case
    using more p rest(2) by (subst posting.simps) (auto simp: ThroughputTest_Post_def post_message_def posted_one_def)
qed

text \<open>The state of a reader that was given \<open>j\<close> of its \<open>N\<close> messages.\<close>

definition counted :: "nat \<Rightarrow> nat \<Rightarrow> ThroughputTest reader_env \<Rightarrow> ThroughputTest reader_env \<Rightarrow> bool" where
  "counted N j env env' \<longleftrightarrow>
     bt_rcvedCount (re_policy env') = of_nat j \<and>
     bt_msgAllWriterCount (re_policy env') = bt_msgAllWriterCount (re_policy env) \<and>
     re_exited env' = re_exited env \<and>
     msgCount (re_stats env') = msgCount (re_stats env) + (if j = N \<and> N \<noteq> 1 then of_nat j else 0)"

lemma OnChannelRead_counts:
  fixes env :: "ThroughputTest reader_env" and clock :: clock and d :: bytes and n :: u32
  defines "c \<equiv> bt_rcvedCount (re_policy env) + 1" and "env' \<equiv> ThroughputTest_OnChannelRead clock d n env"
  shows "bt_rcvedCount (re_policy env') = c"
    and "bt_msgAllWriterCount (re_policy env') = bt_msgAllWriterCount (re_policy env)"
    and "re_exited env' = re_exited env"
    and "msgCount (re_stats env') = msgCount (re_stats env)
      + (if c \<noteq> 1 \<and> c = bt_msgAllWriterCount (re_policy env) then c else 0)"
  unfolding env'_def c_def ThroughputTest_OnChannelRead_def received_one_def now_and_tick_def Let_def
  by simp_all

lemma counted_reads:
  assumes "bt_rcvedCount (re_policy env) = 0" "unat (bt_msgAllWriterCount (re_policy env)) = N"
  shows "j \<le> N \<Longrightarrow> 0 < N \<Longrightarrow> counted N j env ((ThroughputTest_OnChannelRead clock d n ^^ j) env)"
proof (induction j)
  case 0
  then show ?case using assms by (simp add: counted_def)
next
  case (Suc j)
  let ?e = "(ThroughputTest_OnChannelRead clock d n ^^ j) env"
  have N: "N < 2 ^ 64" using assms(2) u64_bound [of "bt_msgAllWriterCount (re_policy env)"] by simp
  have IH: "counted N j env ?e" "j \<noteq> N" using Suc by simp_all
  have r: "bt_rcvedCount (re_policy ?e) + 1 = of_nat (Suc j)"
    using IH(1) by (simp add: counted_def)
  have one: "(of_nat (Suc j) :: u64) = 1 \<longleftrightarrow> j = 0"
    using N Suc.prems(1) of_nat_u64_inj [of "Suc j" 1] by simp
  have "bt_msgAllWriterCount (re_policy env) = of_nat N" using assms(2) 
    by (auto simp: word_unat_eq_iff N unat_of_nat_small)
  then have all: "(of_nat (Suc j) :: u64) = bt_msgAllWriterCount (re_policy env) \<longleftrightarrow> Suc j = N"
    using N Suc.prems(1) of_nat_u64_inj [of "Suc j" N] by simp
  have e: "msgCount (re_stats ?e) = msgCount (re_stats env)" "re_exited ?e = re_exited env"
      "bt_msgAllWriterCount (re_policy ?e) = bt_msgAllWriterCount (re_policy env)"
    using IH by (simp_all add: counted_def)
  have "Suc j = N \<and> N \<noteq> 1 \<longleftrightarrow> Suc j = N \<and> j \<noteq> 0" by auto
  then show ?case
    unfolding counted_def funpow.simps o_apply OnChannelRead_counts r e one all by simp
qed

section \<open>The objects that RunInit makes\<close>

text \<open>
  Objects on which a reader and a writer process can start: made by RunInit, and then perhaps
  used by processes that have ended or died. Slot \<open>k\<close> is free or its owner has died.
\<close>

definition objects_ready :: "('m \<Rightarrow> mutex_view) \<Rightarrow> u64 \<Rightarrow> nat \<Rightarrow> 'm agent_shared \<Rightarrow> bool" where
  "objects_ready view B k sh \<longleftrightarrow>
     rb_ok (as_rb sh) \<and> configBufSizeBytes (as_rb sh) = B \<and> rb_initialized (as_rb sh) \<and>
     settled (view (writerMtx (as_rb sh))) \<and> holder_of (view (writerMtx (as_rb sh))) = None \<and>
     tp_initialized (as_ri sh) \<and> readerGen (as_ri sh) = 0 \<and>
     ri_inv (rmpReaderInfo (as_ri sh)) \<and> ri_initialized (rmpReaderInfo (as_ri sh)) \<and>
     locks_settled view (rmpReaderInfo (as_ri sh)) \<and>
     k < length (ri_slots (rmpReaderInfo (as_ri sh))) \<and> slot_holder view (rmpReaderInfo (as_ri sh)) k = None"

definition fresh_objects :: "('m \<Rightarrow> mutex_view) \<Rightarrow> u64 \<Rightarrow> 'm agent_shared \<Rightarrow> bool" where
  "fresh_objects view B sh \<longleftrightarrow> objects_ready view B 0 sh \<and> freePos (as_rb sh) = 0 \<and> as_stats sh = zero_stats
     \<and> (\<forall>i < length (ri_slots (rmpReaderInfo (as_ri sh))). slot_holder view (rmpReaderInfo (as_ri sh)) i = None)"

text \<open>A topic reader with its first channel reader: registered, active, at the end of the stream.\<close>

definition reader_joined ::
    "('m \<Rightarrow> mutex_view) \<Rightarrow> tid \<Rightarrow> nat \<Rightarrow> 'e ChannelReader \<Rightarrow> 'm ByteRingBuffer \<Rightarrow> ('m, 'e) reader_world \<Rightarrow> bool" where
  "reader_joined view t k cr rb w \<longleftrightarrow>
     reader_inv k w \<and> rw_rb w = rb \<and> rwb_Pos (tr_rmpReaderBP (rw_reader w)) = freePos rb \<and>
     tr_channelReaders (rw_reader w) = [cr] \<and> rw_serial w = [] \<and> rw_rmp w = [] \<and>
     readerGen (rw_ri w) = 0 \<and> tp_initialized (rw_ri w) \<and> ri_initialized (rw_rmp_ri w) \<and>
     locks_settled view (rw_rmp_ri w) \<and> slot_holder view (rw_rmp_ri w) k = Some t \<and>
     info_position (ri_slots (rw_rmp_ri w) ! k) = freePos rb"

lemma reader_joined_env [simp]: "reader_joined view t k cr rb (w\<lparr>rw_env := env\<rparr>) = reader_joined view t k cr rb w"
  by (simp add: reader_joined_def reader_inv_def)

text \<open>The reader process up to its loop.\<close>

definition reader_started ::
    "('m \<Rightarrow> mutex_view) \<Rightarrow> tid \<Rightarrow> nat \<Rightarrow> 'p reader_env ChannelReader \<Rightarrow> 'p \<Rightarrow> 'm agent_shared
     \<Rightarrow> ('m, 'p reader_env) reader_world \<Rightarrow> bool" where
  "reader_started view t k cr policy sh w \<longleftrightarrow>
     reader_joined view t k cr (as_rb sh) w \<and>
     rw_env w = \<lparr> re_ticks = 0, re_stats = (as_stats sh)\<lparr>readersReady := readersReady (as_stats sh) + 1\<rparr>,
       re_policy = policy, re_exited = False \<rparr>"

lemma slot_updates_frame:
  "Alloc_from pt t i n ri = Inr (rid, ri') \<Longrightarrow> ri_initialized ri' = ri_initialized ri"
  "Activate rid p ri = Inr ri' \<Longrightarrow> ri_initialized ri' = ri_initialized ri"
proof (induction n arbitrary: i ri)
  case (Suc n)
  {
    case 1
    then show ?case
      using Suc.IH(1) by (fastforce simp: Let_def Deactivate_def update_slot_def UpdateActiveRange_def
          split: if_splits sum.splits elim!: map_sum_Inr)
  next
    case 2
    then show ?case
      by (auto simp: Activate_def update_slot_def UpdateActiveRange_def split: if_splits elim!: map_sum_Inr)
  }
qed (auto simp: Activate_def update_slot_def UpdateActiveRange_def split: if_splits elim!: map_sum_Inr)

context robust_pthread
begin

lemma RunInit_fresh:
  assumes "GetOptRingBufSizeBytes getenv = Inr B" "GetOptMaxReaders getenv = Inr R"
    and "good_size B" "length mem = unat B" "(ucast R :: u16) \<noteq> 0"
  shows "\<exists>sh. RunInit pt getenv mem = Inr sh \<and> fresh_objects view B sh"
proof -
  obtain m where m: "mk_RobustProcMutex pt = Inr m" "view m = Free"
    using init_free by (cases "pthread_init pt") (simp add: mk_RobustProcMutex_def)
  let ?n = "ucast R :: u16"
  obtain ri where ri: "mk_ReaderInfo pt ?n = Inr ri" "ri_slots ri = replicate (unat ?n) (new_info m)"
    using assms(5) m(1) by (auto simp: mk_ReaderInfo_def)
  have n: "0 < unat ?n" using assms(5) by (simp add: unat_gt_0)
  have slots: "\<forall>i < length (ri_slots ri). slot_holder view ri i = None" "locks_settled view ri"
    using ri(2) n m(2) by (auto simp: slot_holder_def locks_settled_def new_info_def)
  show ?thesis
    using assms m ri n slots ReaderInfo_inv [OF ri(1)]
    by (simp add: RunInit_def mk_ByteRingBuffer_def mk_TpReaderInfo_def fresh_objects_def objects_ready_def rb_ok_def)
qed

lemma mk_TpReader_succeeds:
  assumes "rb_ok rb" "rb_initialized rb" "tp_initialized tpri" "ri_inv (rmpReaderInfo tpri)"
    and "ri_initialized (rmpReaderInfo tpri)" "locks_settled view (rmpReaderInfo tpri)"
    and k: "k < length (ri_slots (rmpReaderInfo tpri))" "slot_holder view (rmpReaderInfo tpri) k = None"
  shows "\<exists>r tpri'. mk_TpReader pt t pos0 rb tpri cb = Inr (r, tpri')"
proof -
  obtain reader where rd: "mk_Reader rb = Inr reader"
    using assms(1,2) by (auto simp: mk_Reader_def rb_ok_def good_size_def IndexMask_def)
  have "\<not> all_held view (rmpReaderInfo tpri) 0 (length (ri_slots (rmpReaderInfo tpri)))"
    using k by (auto simp: all_held_def)
  then obtain j ri' where al: "slot_acquired view t j (rmpReaderInfo tpri) ri'"
      "Alloc pt t (rmpReaderInfo tpri) = Inr (int j, ri')"
    using Alloc_spec [OF assms(6), of t] assms(4) by (auto simp: ri_inv_def)
  then have "Get ri' (int j) = Inr (ri_slots ri' ! j)"
    by (intro Get_nat) (auto simp: slot_acquired_def ri_inv_def slots_ok_def)
  then show ?thesis
    using rd al(2) assms(3,5) by (simp add: mk_TpReader_def mk_ReaderWithBackpressure_def INVALID_READER_ID_def)
qed

lemma first_channel_reader:
  fixes addr :: nat and name :: bytes and f :: "bytes \<Rightarrow> u32 \<Rightarrow> 'e \<Rightarrow> 'e" and desc :: bool
  assumes rb: "rb_ok rb" "rb_initialized rb" and tpri: "tp_initialized tpri" "readerGen tpri = 0"
    and ri: "ri_inv (rmpReaderInfo tpri)" "ri_initialized (rmpReaderInfo tpri)" "locks_settled view (rmpReaderInfo tpri)"
    and k0: "k0 < length (ri_slots (rmpReaderInfo tpri))" "slot_holder view (rmpReaderInfo tpri) k0 = None"
  defines "cr \<equiv> mk_ChannelReader addr name f desc 0"
  shows "\<exists>r ri w k. mk_TpReader pt t pos0 rb tpri ev = Inr (r, ri)
    \<and> run_at_once (snd (CreateChannelReader addr name f desc (new_reader_world r rb ri env))) = Some (Inr w)
    \<and> slot_holder view (rmpReaderInfo tpri) k = None \<and> reader_joined view t k cr rb w
    \<and> rw_env w = ev FIRST_CHANNEL_READER_CREATED env
    \<and> length (ri_slots (rw_rmp_ri w)) = length (ri_slots (rmpReaderInfo tpri))"
proof -
  let ?ri0 = "rmpReaderInfo tpri"
  obtain r ri where mk: "mk_TpReader pt t pos0 rb tpri ev = Inr (r, ri)"
    using mk_TpReader_succeeds [OF rb tpri(1) ri k0] by blast
  let ?w = "new_reader_world r rb ri env"
  obtain k where inv: "reader_inv k ?w" and acq: "slot_acquired view t k ?ri0 (rmpReaderInfo ri)"
      and free: "slot_holder view ?ri0 k = None"
    using mk_TpReader_inv [OF mk] rb ri by blast
  have r: "tr_channelReaders r = []" "tr_channelReaderEventCb r = ev" "readerGen ri = 0" "tp_initialized ri"
      "ri_initialized (rmpReaderInfo ri)"
    using mk tpri ri(2) slot_updates_frame(1) [where pt = pt and t = t and ri = ?ri0]
    by (auto simp: mk_TpReader_def mk_ReaderWithBackpressure_def Alloc_def split: sum.splits prod.splits if_splits)
  obtain w1 where add: "AddChannelReader cr ?w = Inr w1" and w1: "reader_inv k w1" "roster_sim [AddItem cr] ?w w1"
    using AddChannelReader_inv [OF inv, of cr] by blast
  have frame: "rw_rb w1 = rb" "rw_serial w1 = []" "rw_rmp w1 = []" "rwb_Pos (tr_rmpReaderBP (rw_reader w1)) = freePos rb"
    using AddChannelReader_first [OF add] r(1) by (simp_all add: new_reader_world_def)
  have env: "rw_env w1 = ev FIRST_CHANNEL_READER_CREATED env" "tr_channelReaders (rw_reader w1) = [cr]"
    using w1(2) r by (simp_all add: roster_sim_def new_reader_world_def)
  have tp: "readerGen (rw_ri w1) = 0" "tp_initialized (rw_ri w1)" "ri_initialized (rw_rmp_ri w1)"
    using add r
    by (auto simp: AddChannelReader_def Let_def rwb_Activate_def new_reader_world_def split: sum.splits
        elim!: map_sum_Inr dest!: slot_updates_frame(2))
  obtain m where m: "view m = Held t" "ri_slots (rmpReaderInfo ri) = (ri_slots ?ri0)[k := taken_slot m (ri_slots ?ri0 ! k)]"
      and k: "k < length (ri_slots ?ri0)"
    using acq by (auto simp: slot_acquired_def)
  let ?info = "(taken_slot m (ri_slots ?ri0 ! k))\<lparr>info_position := freePos rb, info_isActive := 1\<rparr>"
  have slots: "ri_slots (rw_rmp_ri w1) = (ri_slots ?ri0)[k := ?info]"
    using AddChannelReader_slot [OF add _ inv] r(1) m(2) k by (simp add: new_reader_world_def)
  then have "slot_holder view (rw_rmp_ri w1) k = Some t" "info_position (ri_slots (rw_rmp_ri w1) ! k) = freePos rb"
      "length (ri_slots (rw_rmp_ri w1)) = length (ri_slots ?ri0)"
    using m(1) k by (simp_all add: slot_holder_def taken_slot_def)
  moreover have "locks_settled view (rw_rmp_ri w1)"
    using slots m(1) ri(3) k by (auto simp: locks_settled_def taken_slot_def nth_list_update)
  moreover have "run_at_once (snd (CreateChannelReader addr name f desc ?w)) = Some (Inr w1)"
    using add frame(2,3) r(3) by (simp add: run_at_once_def CreateChannelReader_def new_reader_world_def Let_def cr_def)
  ultimately show ?thesis
    using mk free env w1(1) frame tp by (intro exI conjI) (assumption | simp add: reader_joined_def)+
qed

lemma RunReader_start_ready:
  fixes policy :: 'p
  assumes "objects_ready view B k0 sh"
  shows "\<exists>w k. RunReader_start pt t pos0 addr f policy sh = Some (Inr w)
    \<and> slot_holder view (rmpReaderInfo (as_ri sh)) k = None
    \<and> reader_started view t k (mk_ChannelReader addr channel_name f False 0) policy sh w"
proof -
  let ?env = "\<lparr> re_ticks = 0, re_stats = as_stats sh, re_policy = policy, re_exited = False \<rparr>"
  from first_channel_reader [where rb = "as_rb sh" and tpri = "as_ri sh" and ev = agent_event and env = ?env and ?k0.0 = k0
      and t = t and ?pos0.0 = pos0 and addr = addr and name = channel_name and f = f and desc = False]
  obtain r ri w k where mk: "mk_TpReader pt t pos0 (as_rb sh) (as_ri sh) agent_event = Inr (r, ri)"
      "run_at_once (snd (CreateChannelReader addr channel_name f False (new_reader_world r (as_rb sh) ri ?env))) = Some (Inr w)"
      "slot_holder view (rmpReaderInfo (as_ri sh)) k = None"
      "reader_joined view t k (mk_ChannelReader addr channel_name f False 0) (as_rb sh) w"
      "rw_env w = agent_event FIRST_CHANNEL_READER_CREATED ?env"
    using assms by (auto simp: objects_ready_def)
  then have "reader_started view t k (mk_ChannelReader addr channel_name f False 0) policy sh
      (w\<lparr>rw_env := ?env\<lparr>re_stats := (as_stats sh)\<lparr>readersReady := readersReady (as_stats sh) + 1\<rparr>\<rparr>\<rparr>)"
    by (simp add: reader_started_def)
  then show ?thesis
    using mk(1,2,3,5) by (auto simp: RunReader_start_def Let_def agent_event_def)
qed

end

section \<open>The writer process\<close>

lemma agent_callbacks:
  assumes "\<And>ri. ri_inv ri \<Longrightarrow> ri_inv (sleep ri)"
  shows "notify_keeps (notifyCb clock send)" "handler_keeps (agent_backpressure sleep)"
    and "mk_AsyncWriter rb Enqueue Drain (agent_backpressure sleep) notify = Inr aw \<Longrightarrow> gives_up aw \<mu>"
  using assms
  by (auto simp: notify_keeps_def notifyCb_def Let_def handler_keeps_def agent_backpressure_def gives_up_def
      mk_AsyncWriter_def split: prod.splits elim!: map_sum_Inr)

lemma fold_same: "fold f (replicate n x) s = (f x ^^ n) s"
  by (induction n arbitrary: s) (simp_all add: funpow_swap1)

text \<open>The message of the throughput test.\<close>

definition burst_message :: "u64 \<Rightarrow> topic_msg" where
  "burst_message msgSize = \<lparr> tm_gen = 0, tm_desc = False, tm_channel = channel_name, tm_data = replicate (unat msgSize) 0 \<rparr>"

lemma InitWriter_message:
  assumes "rb_ok rb" "GetOptMessagesSizeBytes getenv = Inr msgSize" "0 < unat msgSize"
    and "unat msgSize + 22 \<le> unat (configBufSizeBytes rb)"
  shows "tm_ok (burst_message msgSize)" "length (tm_image (burst_message msgSize)) = 17 + unat msgSize"
    and "CreateMessage rb 0 channel_name (replicate (unat msgSize) 0) msgSize False = Inr (tm_image (burst_message msgSize))"
    and "ThroughputTest_InitWriter getenv 0 rb policy = Inr (policy\<lparr>tt_topicMsg := tm_image (burst_message msgSize)\<rparr>)"
proof -
  have small: "10 + length channel_name + length (replicate (unat msgSize) (0 :: u8)) < 2 ^ 32"
    using assms(4) good_size_bounds(2) [OF rb_ok_good_size [OF assms(1)]] by (simp add: channel_name_def)
  have name: "0 \<notin> set channel_name" by (simp add: channel_name_def)
  show "tm_ok (burst_message msgSize)" using small name by (simp add: tm_ok_def burst_message_def)
  show "length (tm_image (burst_message msgSize)) = 17 + unat msgSize"
    by (simp add: tm_image_def burst_message_def channel_name_def)
  show create: "CreateMessage rb 0 channel_name (replicate (unat msgSize) 0) msgSize False = Inr (tm_image (burst_message msgSize))"
    using CreateMessage_image [OF assms(1) name, of msgSize "replicate (unat msgSize) 0"] assms(3,4) small
    by (simp add: tm_image_def burst_message_def channel_name_def)
  show "ThroughputTest_InitWriter getenv 0 rb policy = Inr (policy\<lparr>tt_topicMsg := tm_image (burst_message msgSize)\<rparr>)"
    using assms(2) create by (simp add: ThroughputTest_InitWriter_def)
qed

context robust_pthread
begin

text \<open>A writer process whose policy posts the images of \<open>tms\<close>, and a reader that reads after it.\<close>

lemma RunWriter_publishes_all:
  fixes sh :: "'m agent_shared" and rd :: "('m, 'f) reader_world" and net :: 'n
  defines "rb \<equiv> as_rb sh"
  assumes rb: "rb_ok rb" "rb_initialized rb" "settled (view (writerMtx rb))" "holder_of (view (writerMtx rb)) = None"
    and ri: "ri_inv (rmpReaderInfo (as_ri sh))" and sleep: "\<And>ri. ri_inv ri \<Longrightarrow> ri_inv (sleep ri)"
    and init: "InitWriter policy = Inr policy1"
    and posts: "\<And>aw w. aw_enqueueMsgFn aw = Enqueue \<Longrightarrow> ww_rb w = rb \<Longrightarrow> ww_queue w = new_MPSCMessageQueue \<Longrightarrow>
      ww_env w = \<lparr> we_ticks = 0, we_notificationNs = 0, we_net = net \<rparr> \<Longrightarrow>
      posting (PostFn aw) \<lparr> wp_world = w, wp_wrk = False, wp_policy = policy1 \<rparr> = Some (Inr
        \<lparr> wp_world = w\<lparr>ww_queue := \<lparr> mq_queue = map tm_image tms, mq_startDrainer = False \<rparr>,
            ww_env := (ww_env w)\<lparr>we_ticks := n\<rparr>\<rparr>, wp_wrk = True, wp_policy = policy2 \<rparr>)"
    and tms: "tms \<noteq> []" "\<And>tm. tm \<in> set tms \<Longrightarrow> tm_ok tm \<and>
      CreateMessage rb (tm_gen tm) (tm_channel tm) (tm_data tm) (of_nat (length (tm_data tm))) (tm_desc tm)
        = Inr (tm_image tm)"
    and batch: "total (batch_segments (configBufSizeBytes rb) (freePos rb) (map tm_image tms)) < unat (configBufSizeBytes rb)"
      "list_all seg_valid (batch_segments (configBufSizeBytes rb) (freePos rb) (map tm_image tms))"
    and rd: "reader_inv k rd" "rw_rb rd = rb" "tr_channelReaders (rw_reader rd) \<noteq> []" "crs \<noteq> []"
      "rwb_Pos (tr_rmpReaderBP (rw_reader rd)) = freePos rb"
  shows "\<exists>net' sh' rd'. RunWriter pt t clock send sleep InitWriter PostFn policy net sh = Some (Inr (policy2, net', sh'))
    \<and> ReadRmp crs (rd\<lparr>rw_rb := as_rb sh'\<rparr>) = Some (Inr rd') \<and> rw_env rd' = offer_all crs tms (rw_env rd)"
proof -
  obtain aw where aw: "mk_AsyncWriter rb Enqueue Drain (agent_backpressure sleep) (notifyCb clock send) = Inr aw"
    using mk_Writer_ok(1) [OF rb(1,2)] by (auto simp: mk_AsyncWriter_def)
  then have enq: "aw_enqueueMsgFn aw = Enqueue" by (auto simp: mk_AsyncWriter_def elim!: map_sum_Inr)
  define w :: "nat \<Rightarrow> ('m, bytes MPSCMessageQueue, 'n writer_env) writer_world" where
    "w i = \<lparr> ww_queue = new_MPSCMessageQueue, ww_rb = rb, ww_ri = rmpReaderInfo (as_ri sh),
       ww_env = \<lparr> we_ticks = i, we_notificationNs = 0, we_net = net \<rparr> \<rparr>" for i
  let ?q = "\<lparr> mq_queue = map tm_image tms, mq_startDrainer = False \<rparr>"
  have fits: "length m + 5 < unat (configBufSizeBytes rb)" if "m \<in> set (map tm_image tms)" for m
    using batch_message_fits [OF that] batch(1) by (rule le_less_trans)
  then have post: "post_all aw (map tm_image tms) (w i) = Inr (1, (w i)\<lparr>ww_queue := ?q\<rparr>)" for i
    using post_all_fits [of "w i" "map tm_image tms" aw] rb(1) enq tms(1)
    by (simp add: w_def new_MPSCMessageQueue_def)
  have "\<exists>w1 w2 rd'. post_all aw (map tm_image tms) (w (Suc n)) = Inr (1, w1) \<and> ProcWriter pt t aw w1 = Some (Inr w2)
    \<and> ReadRmp crs (rd\<lparr>rw_rb := ww_rb w2\<rparr>) = Some (Inr rd')
    \<and> rw_env rd' = fold (\<lambda>tm. fold (\<lambda>cr env.
        if accepts cr tm then cr_handler cr (tm_data tm) (of_nat (length (tm_data tm))) env else env) crs)
        tms (rw_env rd)"
  proof (rule publish_and_read [OF robust_pthread_axioms agent_callbacks(1,2) agent_callbacks(3) [OF sleep aw]])
    show "mk_AsyncWriter (ww_rb (w (Suc n))) Enqueue Drain (agent_backpressure sleep) (notifyCb clock send) = Inr aw"
      using aw by (simp add: w_def)
  qed (use assms in \<open>auto simp: w_def\<close>)
  then obtain w2 rd' where w2: "ProcWriter pt t aw ((w (Suc n))\<lparr>ww_queue := ?q\<rparr>) = Some (Inr w2)"
      and rd': "ReadRmp crs (rd\<lparr>rw_rb := ww_rb w2\<rparr>) = Some (Inr rd')" "rw_env rd' = offer_all crs tms (rw_env rd)"
    using post by (auto simp: offer_all_def offer_def [abs_def])
  have "posting (PostFn aw) \<lparr> wp_world = w 0, wp_wrk = False, wp_policy = policy1 \<rparr> = Some (Inr
      \<lparr> wp_world = (w n)\<lparr>ww_queue := ?q\<rparr>, wp_wrk = True, wp_policy = policy2 \<rparr>)"
    using posts [OF enq, of "w 0"] by (simp add: w_def)
  moreover have "(w n)\<lparr>ww_queue := ?q, ww_env := (ww_env (w n))\<lparr>we_ticks := Suc n\<rparr>\<rparr> = (w (Suc n))\<lparr>ww_queue := ?q\<rparr>"
    by (simp add: w_def)
  ultimately have "\<exists>net' ri' stats'. RunWriter pt t clock send sleep InitWriter PostFn policy net sh =
      Some (Inr (policy2, net', \<lparr> as_rb = ww_rb w2, as_ri = ri', as_stats = stats' \<rparr>))"
    using aw init w2 by (simp add: RunWriter_def run_wrk_def Let_def w_def rb_def)
  then show ?thesis using rd' by (metis agent_shared.select_convs(1))
qed

lemma RunWriter_publishes:
  fixes sh :: "'m agent_shared" and rd :: "('m, 'f) reader_world" and net :: 'n
  defines "rb \<equiv> as_rb sh"
  assumes rb: "rb_ok rb" "rb_initialized rb" "freePos rb = 0" "settled (view (writerMtx rb))"
      "holder_of (view (writerMtx rb)) = None"
    and ri: "ri_inv (rmpReaderInfo (as_ri sh))" and sleep: "\<And>ri. ri_inv ri \<Longrightarrow> ri_inv (sleep ri)"
    and policy: "bt_postedCount policy = 0" "unat (bt_msgPerWriterCount policy) = N" "0 < N"
    and size: "GetOptMessagesSizeBytes getenv = Inr msgSize" "0 < unat msgSize"
      "N * (22 + unat msgSize) < unat (configBufSizeBytes rb)"
    and rd: "reader_inv k rd" "rw_rb rd = rb" "tr_channelReaders (rw_reader rd) \<noteq> []" "crs \<noteq> []"
      "rwb_Pos (tr_rmpReaderBP (rw_reader rd)) = 0"
  shows "\<exists>policy' net' sh' rd'. RunWriter pt t clock send sleep (ThroughputTest_InitWriter getenv 0 rb) ThroughputTest_Post
      policy net sh = Some (Inr (policy', net', sh'))
    \<and> ReadRmp crs (rd\<lparr>rw_rb := as_rb sh'\<rparr>) = Some (Inr rd')
    \<and> rw_env rd' = (fold (offer (burst_message msgSize)) crs ^^ N) (rw_env rd)"
proof -
  let ?m = "tm_image (burst_message msgSize)" and ?B = "configBufSizeBytes rb"
  let ?tms = "replicate N (burst_message msgSize)" and ?p = "policy\<lparr>tt_topicMsg := ?m\<rparr>"
  have "22 + unat msgSize \<le> N * (22 + unat msgSize)" using policy(3) by (cases N) auto
  then have fit: "22 + unat msgSize < unat ?B" using size(3) by (rule le_less_trans)
  then have "unat msgSize + 22 \<le> unat ?B" by simp
  note msg = InitWriter_message [OF rb(1) size(1,2) this]
  have batch: "batch_segments ?B 0 (map tm_image ?tms) = replicate N (Msg ?m)"
    using size(3) msg(2) batch_segments_equal [OF rb_ok_good_size [OF rb(1)], where ms = "replicate N ?m" and n = "length ?m" and f = 0]
    by (simp add: index_of_def add.commute)
  have "\<exists>net' sh' rd'. RunWriter pt t clock send sleep (ThroughputTest_InitWriter getenv 0 rb) ThroughputTest_Post
      policy net sh = Some (Inr (?p\<lparr>bt_postedCount := bt_msgPerWriterCount policy\<rparr>, net', sh'))
    \<and> ReadRmp crs (rd\<lparr>rw_rb := as_rb sh'\<rparr>) = Some (Inr rd') \<and> rw_env rd' = offer_all crs ?tms (rw_env rd)"
    unfolding rb_def
  proof (rule RunWriter_publishes_all [where k = k and n = 0])
    show "ThroughputTest_InitWriter getenv 0 (as_rb sh) policy = Inr ?p" using msg(4) by (simp add: rb_def)
    show "total (batch_segments (configBufSizeBytes (as_rb sh)) (freePos (as_rb sh)) (map tm_image ?tms))
        < unat (configBufSizeBytes (as_rb sh))"
      "list_all seg_valid (batch_segments (configBufSizeBytes (as_rb sh)) (freePos (as_rb sh)) (map tm_image ?tms))"
      using batch rb(3) size(3) msg(2) total_map_Msg [of "replicate N ?m" "length ?m"]
      by (auto simp: list_all_iff rb_def)
    show "tm_ok tm \<and> CreateMessage (as_rb sh) (tm_gen tm) (tm_channel tm) (tm_data tm)
        (of_nat (length (tm_data tm))) (tm_desc tm) = Inr (tm_image tm)" if "tm \<in> set ?tms" for tm
      using that msg(1,3) by (simp add: burst_message_def rb_def split: if_splits)
    fix aw :: "('m, bytes MPSCMessageQueue, 'n writer_env) AsyncWriter"
      and w :: "('m, bytes MPSCMessageQueue, 'n writer_env) writer_world"
    assume w: "aw_enqueueMsgFn aw = Enqueue" "ww_rb w = as_rb sh" "ww_queue w = new_MPSCMessageQueue"
    let ?q = "\<lparr> mq_queue = replicate N ?m, mq_startDrainer = False \<rparr>"
    assume env: "ww_env w = \<lparr> we_ticks = 0, we_notificationNs = 0, we_net = net \<rparr>"
    have "post_all aw (replicate N ?m) w = Inr (1, w\<lparr>ww_queue := ?q\<rparr>)"
      using post_all_fits [of w "replicate N ?m" aw] rb(1) w policy(3) fit msg(2)
      by (simp add: rb_def new_MPSCMessageQueue_def)
    moreover have "w\<lparr>ww_queue := ?q, ww_env := (ww_env w)\<lparr>we_ticks := 0\<rparr>\<rparr> = w\<lparr>ww_queue := ?q\<rparr>"
      using env by (cases w) simp
    ultimately show "posting (ThroughputTest_Post aw) \<lparr> wp_world = w, wp_wrk = False, wp_policy = ?p \<rparr> = Some (Inr
        \<lparr> wp_world = w\<lparr>ww_queue := \<lparr> mq_queue = map tm_image ?tms, mq_startDrainer = False \<rparr>,
            ww_env := (ww_env w)\<lparr>we_ticks := 0\<rparr>\<rparr>, wp_wrk = True,
          wp_policy = ?p\<lparr>bt_postedCount := bt_msgPerWriterCount policy\<rparr> \<rparr>)"
      using posting_posts [of aw N "\<lparr> wp_world = w, wp_wrk = False, wp_policy = ?p \<rparr>" 1 "w\<lparr>ww_queue := ?q\<rparr>"] policy
      by simp
  qed (use assms in auto)
  then show ?thesis by (auto simp: offer_all_def fold_same)
qed

end

section \<open>The reader process\<close>

lemma run_at_once_Run:
  assumes "rw_serial w = []" "rw_rmp w = []" "tr_channelReaders (rw_reader w) = crs" "crs \<noteq> []"
    and "ReadRmp crs (w\<lparr>rw_rb := rb\<rparr>) = Some (Inr w')"
  shows "run_at_once (Run (w\<lparr>rw_rb := rb\<rparr>)) = Some (Inr w')"
  using assms by (cases w) (simp add: run_at_once_def Run_def GetChannelReaders_def)

lemma RunReader_loop_once:
  assumes "ReadMore (re_policy (rw_env w))" "wait w = Some w1" "run_at_once (Run w1) = Some (Inr w2)"
    and "\<not> re_exited (rw_env w2)" "\<not> ReadMore (re_policy (rw_env w2))"
  shows "RunReader_loop wait w n = Some (Inr (None, w2\<lparr>rw_env := (rw_env w2)\<lparr>re_stats :=
    (re_stats (rw_env w2))\<lparr>readerRuns := readerRuns (re_stats (rw_env w2)) + (n + 1)\<rparr>\<rparr>\<rparr>))"
  using assms by (subst RunReader_loop.simps, simp) (subst RunReader_loop.simps, simp add: Let_def)

lemma offer_burst:
  "offer (burst_message msgSize) (mk_ChannelReader addr channel_name f False 0) =
     f (replicate (unat msgSize) 0) (of_nat (unat msgSize))"
  by (simp add: offer_def accepts_def mk_ChannelReader_def burst_message_def fun_eq_iff)

text \<open>Without a message there is nothing to call: \<open>wrk\<close> was never assigned.\<close>

lemma RunWriter_no_messages:
  assumes "rb_ok (as_rb sh)" "rb_initialized (as_rb sh)"
    and "\<And>t. InitWriter t = Inr t" "bt_msgPerWriterCount policy = 0"
  shows "RunWriter pt t clock send sleep InitWriter PostFn policy net sh = Some (Inl (Thrown ''bad_function_call''))"
proof -
  obtain aw where "mk_AsyncWriter (as_rb sh) Enqueue Drain (agent_backpressure sleep) (notifyCb clock send) = Inr aw"
    using mk_Writer_ok(1) [OF assms(1,2)] by (auto simp: mk_AsyncWriter_def)
  moreover have "\<not> PostMore policy" using assms(4) by (simp add: PostMore_def)
  ultimately show ?thesis
    using assms(3) by (simp add: RunWriter_def posting.simps run_wrk_def Let_def)
qed

section \<open>Unlinking the shared memory\<close>

context posix_shm
begin

lemma CreateOrOpen_Inr:
  assumes "CreateOrOpen api name len mode s = (Inr shm, s')"
  shows "shm_name shm = name \<and> sv_fds (view s') = sv_fds (view s)
    \<and> (sv_names (view s'))(name := None) = (sv_names (view s))(name := None)"
proof (cases "sv_names (view s) name")
  case None
  from CreateOrOpen_new [OF assms [unfolded CreateOrOpen_def] _ None] show ?thesis
    by (auto simp: access_mode_def mk_SharedMemory_def)
next
  case (Some obj)
  from Open_bound [OF assms [unfolded CreateOrOpen_def] _ Some] show ?thesis
    by (auto simp: access_mode_def mk_SharedMemory_def)
qed

lemma unlink_handle_unbinds:
  assumes "unlink_handle api (CreateOrOpen api name len mode s) = (Inr (), s')"
  shows "sv_names (view s') = (sv_names (view s))(name := None) \<and> sv_fds (view s') = sv_fds (view s)"
proof -
  obtain shm s1 where open1: "CreateOrOpen api name len mode s = (Inr shm, s1)" and "Unlink api shm s1 = (Inr (), s')"
    using assms by (auto simp: unlink_handle_def split: prod.splits sum.splits)
  then obtain r where "sys_shm_unlink api name s1 = (r, s')" "r \<noteq> -1"
    using CreateOrOpen_Inr [OF open1] by (auto simp: Unlink_def split: prod.splits if_splits)
  with unlink_unbinds [OF this(1)] CreateOrOpen_Inr [OF open1] show ?thesis by auto
qed

text \<open>When RunUnlink returns, the three names are unbound and nothing else has changed.\<close>

lemma RunUnlink_unbinds:
  assumes "RunUnlink api sz getenv s = (Inr (), s')"
  shows "sv_names (view s') = (sv_names (view s))
      (''toroni-burst-rb'' := None, ''toroni-burst-ri'' := None, ''toroni-burst-s'' := None)
    \<and> sv_fds (view s') = sv_fds (view s)"
proof -
  obtain n where n: "GetOptRingBufSizeBytes getenv = Inr n"
    using assms by (auto simp: RunUnlink_def RingBufShm_def unlink_handle_def split: sum.splits)
  obtain s1 where s1: "unlink_handle api (RingBufShm api sz getenv s) = (Inr (), s1)"
    using assms by (auto simp: RunUnlink_def split: prod.splits sum.splits)
  obtain m where m: "GetOptMaxReaders getenv = Inr m"
    using assms s1 by (auto simp: RunUnlink_def ReaderInfoShm_def unlink_handle_def split: sum.splits)
  obtain s2 where s2: "unlink_handle api (ReaderInfoShm api sz getenv s1) = (Inr (), s2)"
    using assms s1 by (auto simp: RunUnlink_def split: prod.splits sum.splits)
  have s3: "unlink_handle api (StatsShm api sz getenv s2) = (Inr (), s')"
    using assms s1 s2 by (simp add: RunUnlink_def)
  show ?thesis
    using unlink_handle_unbinds [OF s1 [unfolded RingBufShm_def n sum.case]]
      unlink_handle_unbinds [OF s2 [unfolded ReaderInfoShm_def m sum.case]]
      unlink_handle_unbinds [OF s3 [unfolded StatsShm_def]] by simp
qed

end

section \<open>Properties\<close>

text \<open>A run of three messages on a ring of one kilobyte, everything else as the options default.\<close>

definition burst_env :: env_vars where
  "burst_env name =
     (if name = ''TORONI_AGENT_RINGBUF_SIZE_KB'' then Some ''1''
      else if name = ''TORONI_AGENT_MESSAGES_PER_WRITER'' then Some ''3'' else None)"

definition burst_policy :: ThroughputTest where
  "burst_policy = \<lparr> bt_msgAllWriterCount = 3, bt_msgPerWriterCount = 3, bt_bpSleepMs = 5,
     bt_postedCount = 0, bt_rcvedCount = 0, tt_firstNs = 0, tt_topicMsg = [] \<rparr>"

definition steady_clock :: clock where
  "steady_clock n = (0, of_nat n)"

lemma burst_options:
  "GetOptRingBufSizeBytes burst_env = Inr 1024" "GetOptMaxReaders burst_env = Inr 1" "GetOptWriters burst_env = Inr 1"
  "GetOptMessagesPerWriter burst_env = Inr 3" "GetOptMessagesSizeBytes burst_env = Inr 8"
  "mk_ThroughputTest burst_env = Inr burst_policy"
  by code_simp+

text \<open>
  C8: The throughput test with one writer, when all its messages fit the ring buffer together
  (each takes 22 bytes more than its payload). RunInit makes the objects, a reader process
  starts on them, a writer process posts and writes its messages, none of which is held back,
  and only when the writer has finished does the reader wake: it runs once, has counted every
  message of the writer and leaves its loop with the exit status of success. The number of
  messages it adds to the statistics is the one that cmprcved is asked for, except that a run
  of one single message, the default of the options, is never added.
\<close>

theorem burst_throughput:
  assumes "robust_pthread pt view"
    and "GetOptRingBufSizeBytes getenv = Inr B" "good_size B" "length mem = unat B"
    and "GetOptMaxReaders getenv = Inr R" "(ucast R :: u16) \<noteq> 0"
    and "GetOptWriters getenv = Inr 1" "GetOptMessagesPerWriter getenv = Inr N" "0 < N"
    and "mk_ThroughputTest getenv = Inr policy"
    and "GetOptMessagesSizeBytes getenv = Inr msgSize" "0 < msgSize" "unat N * (22 + unat msgSize) < unat B"
    and "\<And>ri. ri_inv ri \<Longrightarrow> ri_inv (sleep ri)"
  shows "\<exists>sh w policy' net' sh' w'. RunInit pt getenv mem = Inr sh
    \<and> RunReader_start pt t1 pos0 addr (ThroughputTest_OnChannelRead clock) policy sh = Some (Inr w)
    \<and> RunWriter pt t2 clock send sleep (ThroughputTest_InitWriter getenv (readerGen (as_ri sh)) (as_rb sh))
        ThroughputTest_Post policy net (sh\<lparr>as_ri := rw_ri w\<rparr>) = Some (Inr (policy', net', sh'))
    \<and> RunReader_loop (\<lambda>w. Some (w\<lparr>rw_rb := as_rb sh'\<rparr>)) w 0 = Some (Inr (None, w'))
    \<and> bt_rcvedCount (re_policy (rw_env w')) = N
    \<and> RunCmpReceivedMessages N (re_stats (rw_env w')) = (if N = 1 then 1 else 0)"
proof -
  have policy: "bt_postedCount policy = 0" "bt_msgPerWriterCount policy = N" "bt_msgAllWriterCount policy = N"
      "bt_rcvedCount policy = 0"
    using assms(7,8,10) by (auto simp: mk_ThroughputTest_def BaseTest_counts_def split: sum.splits)
  obtain sh where sh: "RunInit pt getenv mem = Inr sh" "fresh_objects view B sh"
    using robust_pthread.RunInit_fresh [OF assms(1,2,5,3,4,6)] by blast
  note fresh = sh(2) [unfolded fresh_objects_def objects_ready_def]
  have ready: "objects_ready view B 0 sh" using sh(2) by (simp add: fresh_objects_def)
  let ?on = "ThroughputTest_OnChannelRead clock"
  let ?cr = "mk_ChannelReader addr channel_name ?on False 0"
  let ?env = "\<lparr> re_ticks = 0, re_stats = zero_stats\<lparr>readersReady := 1\<rparr>, re_policy = policy, re_exited = False \<rparr>"
  obtain w k where w: "RunReader_start pt t1 pos0 addr ?on policy sh = Some (Inr w)" "reader_inv k w"
      "rw_rb w = as_rb sh" "rwb_Pos (tr_rmpReaderBP (rw_reader w)) = freePos (as_rb sh)"
      "tr_channelReaders (rw_reader w) = [?cr]" "rw_serial w = []" "rw_rmp w = []" "rw_env w = ?env"
    using robust_pthread.RunReader_start_ready [OF assms(1) ready, of t1 pos0 addr ?on policy] fresh
    by (auto simp: reader_started_def reader_joined_def zero_stats_def)
  let ?sh = "sh\<lparr>as_ri := rw_ri w\<rparr>"
  obtain policy' net' sh' w1 where run: "RunWriter pt t2 clock send sleep (ThroughputTest_InitWriter getenv 0 (as_rb ?sh))
        ThroughputTest_Post policy net ?sh = Some (Inr (policy', net', sh'))"
      and read: "ReadRmp [?cr] (w\<lparr>rw_rb := as_rb sh'\<rparr>) = Some (Inr w1)"
      and env1: "rw_env w1 = (fold (offer (burst_message msgSize)) [?cr] ^^ unat N) (rw_env w)"
  proof -
    have "ri_inv (rmpReaderInfo (as_ri ?sh))" using w(2) by (simp add: reader_inv_def)
    then show ?thesis
      using robust_pthread.RunWriter_publishes [OF assms(1), of ?sh sleep policy "unat N" getenv msgSize k w "[?cr]"
          t2 clock send net] that fresh w assms(9,11-14) policy
      by (auto simp: word_less_nat_alt)
  qed
  have "counted (unat N) (unat N) ?env (rw_env w1)"
    using counted_reads [of ?env "unat N" "unat N"] policy assms(9) w(8) env1
    by (simp add: offer_burst word_less_nat_alt)
  then have env: "bt_rcvedCount (re_policy (rw_env w1)) = N" "\<not> re_exited (rw_env w1)"
      "bt_msgAllWriterCount (re_policy (rw_env w1)) = N"
      "msgCount (re_stats (rw_env w1)) = (if N = 1 then 0 else N)"
    using policy by (auto simp: counted_def zero_stats_def word_unat_eq_iff [of N])
  have "run_at_once (Run (w\<lparr>rw_rb := as_rb sh'\<rparr>)) = Some (Inr w1)"
    using run_at_once_Run [OF w(6,7,5) _ read] by simp
  then have "\<exists>w'. RunReader_loop (\<lambda>w. Some (w\<lparr>rw_rb := as_rb sh'\<rparr>)) w 0 = Some (Inr (None, w'))
      \<and> re_policy (rw_env w') = re_policy (rw_env w1) \<and> msgCount (re_stats (rw_env w')) = msgCount (re_stats (rw_env w1))"
    using RunReader_loop_once [of w "\<lambda>w. Some (w\<lparr>rw_rb := as_rb sh'\<rparr>)"] w(8) policy env assms(9)
    by (simp add: ReadMore_def)
  then show ?thesis
    using sh(1) w(1) run fresh env assms(9) by (fastforce simp: RunCmpReceivedMessages_def)
qed

theorem burst_throughput_witness:
  "\<exists>sh w policy' net' sh' w'. RunInit posix_pthread burst_env (replicate 1024 0) = Inr sh
    \<and> RunReader_start posix_pthread 1 5 100 (ThroughputTest_OnChannelRead steady_clock) burst_policy sh = Some (Inr w)
    \<and> RunWriter posix_pthread 2 steady_clock Suc id
        (ThroughputTest_InitWriter burst_env (readerGen (as_ri sh)) (as_rb sh))
        ThroughputTest_Post burst_policy 0 (sh\<lparr>as_ri := rw_ri w\<rparr>) = Some (Inr (policy', net', sh'))
    \<and> RunReader_loop (\<lambda>w. Some (w\<lparr>rw_rb := as_rb sh'\<rparr>)) w 0 = Some (Inr (None, w'))
    \<and> bt_rcvedCount (re_policy (rw_env w')) = 3 \<and> RunCmpReceivedMessages 3 (re_stats (rw_env w')) = 0"
proof -
  have "good_size 1024" by (simp add: good_size_def IsZeroOrPowerOfTwo_def)
  then show ?thesis
    using burst_throughput [OF posix.robust_pthread_axioms burst_options(1) _ _ burst_options(2) _ burst_options(3,4) _
        burst_options(6,5), where mem = "replicate 1024 0" and sleep = id and ?t1.0 = 1 and ?pos0.0 = 5 and addr = 100 and clock = steady_clock
        and ?t2.0 = 2 and send = Suc and net = 0] by simp
qed

end
