(* ===== verification/BurstLatency.thy ===== *)
theory BurstLatency
  imports BurstRuns
begin

text \<open>
  The latency test of the burst agent: every message carries the time at which it was posted.
  The objects it runs on need not be fresh.
\<close>

section \<open>One session\<close>

text \<open>
  A reader process, a writer process, the reader woken once, and the end of the reader's
  process: the statistics it leaves, \<open>None\<close> if one of the processes fails or does not return.
\<close>

definition latency_session ::
    "'m pthread_api \<Rightarrow> tid \<Rightarrow> tid \<Rightarrow> position \<Rightarrow> nat \<Rightarrow> clock \<Rightarrow> clock \<Rightarrow> ('n \<Rightarrow> 'n) \<Rightarrow> ('m ReaderInfo \<Rightarrow> 'm ReaderInfo)
     \<Rightarrow> LatencyTest \<Rightarrow> 'n \<Rightarrow> 'm agent_shared \<Rightarrow> AgentStats option" where
  "latency_session pt t1 t2 pos0 addr clock1 clock2 send sleep policy net sh =
     (case RunReader_start pt t1 pos0 addr (LatencyTest_OnChannelRead clock1) policy sh of
        Some (Inr w) \<Rightarrow>
          (case RunWriter pt t2 clock2 send sleep LatencyTest_InitWriter (LatencyTest_Post clock2 (readerGen (rw_ri w)))
                  policy net (sh\<lparr>as_ri := rw_ri w\<rparr>) of
             Some (Inr (policy2, net2, sh2)) \<Rightarrow>
               (case RunReader_loop (\<lambda>w. Some (w\<lparr>rw_rb := as_rb sh2\<rparr>)) w 0 of
                  Some (Inr (None, w2)) \<Rightarrow> Some (LatencyTest_destroy (re_policy (rw_env w2)) (re_stats (rw_env w2)))
                | _ \<Rightarrow> None)
           | _ \<Rightarrow> None)
      | _ \<Rightarrow> None)"

section \<open>Posting time stamps\<close>

definition stamp_message :: "u64 \<Rightarrow> topic_msg" where
  "stamp_message now = \<lparr> tm_gen = 0, tm_desc = False, tm_channel = channel_name, tm_data = le_bytes 8 now \<rparr>"

definition stamps :: "clock \<Rightarrow> nat \<Rightarrow> nat \<Rightarrow> topic_msg list" where
  "stamps clock i n = map (\<lambda>j. stamp_message (NowNanoSec clock j)) [i ..< i + n]"

lemma stamps_Suc: "stamps clock i (Suc n) = stamp_message (NowNanoSec clock i) # stamps clock (Suc i) n"
proof -
  have "[i ..< i + Suc n] = i # [Suc i ..< Suc i + n]" by (simp add: upt_rec)
  then show ?thesis by (simp only: stamps_def list.map)
qed

lemma length_stamp_image: "length (tm_image (stamp_message now)) = 25"
  by (simp add: tm_image_def stamp_message_def channel_name_def)

lemma stamp_message_ok:
  assumes "rb_ok rb" "30 < unat (configBufSizeBytes rb)"
  shows "tm_ok (stamp_message now)"
    and "CreateMessage rb 0 channel_name (le_bytes 8 now) 8 False = Inr (tm_image (stamp_message now))"
proof -
  show "tm_ok (stamp_message now)" by (simp add: tm_ok_def stamp_message_def channel_name_def)
  have "0 \<notin> set channel_name" "(le_bytes 8 now :: bytes) \<noteq> []"
    by (auto simp: channel_name_def dest: arg_cong [where f = length])
  then show "CreateMessage rb 0 channel_name (le_bytes 8 now) 8 False = Inr (tm_image (stamp_message now))"
    using CreateMessage_image [OF assms(1), of channel_name 8 "le_bytes 8 now" 0 False] assms(2)
    by (simp add: tm_image_def stamp_message_def channel_name_def)
qed

lemma posting_stamps:
  fixes proc :: "('m, 'n, LatencyTest) writer_process"
  assumes "rb_ok (ww_rb (wp_world proc))" "30 < unat (configBufSizeBytes (ww_rb (wp_world proc)))"
    and "aw_enqueueMsgFn aw = Enqueue"
    and "unat (bt_postedCount (wp_policy proc)) + n = unat (bt_msgPerWriterCount (wp_policy proc))"
  defines "w \<equiv> wp_world proc"
  defines "q \<equiv> ww_queue w"
  shows "posting (LatencyTest_Post clock 0 aw) proc = Some (Inr (proc\<lparr>
    wp_world := w\<lparr>ww_queue := \<lparr> mq_queue = mq_queue q @ map tm_image (stamps clock (we_ticks (ww_env w)) n),
        mq_startDrainer = (mq_startDrainer q \<and> n = 0) \<rparr>,
      ww_env := (ww_env w)\<lparr>we_ticks := we_ticks (ww_env w) + n\<rparr>\<rparr>,
    wp_wrk := wp_wrk proc \<or> mq_startDrainer q \<and> 0 < n,
    wp_policy := (wp_policy proc)\<lparr>bt_postedCount := bt_msgPerWriterCount (wp_policy proc)\<rparr>\<rparr>))"
  using assms(1,2,4) unfolding w_def q_def
proof (induction n arbitrary: proc)
  case 0
  then have "bt_postedCount (wp_policy proc) = bt_msgPerWriterCount (wp_policy proc)"
    by (simp add: word_unat_eq_iff)
  then show ?case by (subst posting.simps) (simp add: PostMore_def stamps_def)
next
  case (Suc n)
  let ?t = "wp_policy proc" and ?w = "wp_world proc"
  let ?q = "ww_queue ?w" and ?env = "(ww_env ?w)\<lparr>we_ticks := Suc (we_ticks (ww_env ?w))\<rparr>"
  let ?m = "tm_image (stamp_message (NowNanoSec clock (we_ticks (ww_env ?w))))"
  have more: "PostMore ?t" using Suc.prems(3) by (simp add: PostMore_def word_less_nat_alt)
  let ?w1 = "?w\<lparr>ww_env := ?env, ww_queue := \<lparr> mq_queue = mq_queue ?q @ [?m], mq_startDrainer = False \<rparr>\<rparr>"
  have post: "Post aw ?m (?w\<lparr>ww_env := ?env\<rparr>) = Inr (mq_startDrainer ?q, ?w1)"
    using Post_fits [of "?w\<lparr>ww_env := ?env\<rparr>" ?m aw] Suc.prems(1,2) assms(3) by (simp add: length_stamp_image)
  let ?proc = "posted_one (proc\<lparr>wp_world := ?w1, wp_wrk := wp_wrk proc \<or> mq_startDrainer ?q\<rparr>)"
  have step: "LatencyTest_Post clock 0 aw proc = Inr ?proc"
    using post stamp_message_ok(2) [OF Suc.prems(1,2)] by (simp add: LatencyTest_Post_def post_message_def Let_def)
  have "unat (bt_postedCount ?t + 1) = Suc (unat (bt_postedCount ?t))"
    using Suc.prems(3) u64_bound [of "bt_msgPerWriterCount ?t"] by (simp add: unat_add_small)
  then have "posting (LatencyTest_Post clock 0 aw) ?proc = Some (Inr (?proc\<lparr>
      wp_world := (wp_world ?proc)\<lparr>ww_queue := \<lparr> mq_queue = mq_queue (ww_queue (wp_world ?proc))
            @ map tm_image (stamps clock (we_ticks (ww_env (wp_world ?proc))) n),
          mq_startDrainer = (mq_startDrainer (ww_queue (wp_world ?proc)) \<and> n = 0) \<rparr>,
        ww_env := (ww_env (wp_world ?proc))\<lparr>we_ticks := we_ticks (ww_env (wp_world ?proc)) + n\<rparr>\<rparr>,
      wp_wrk := wp_wrk ?proc \<or> mq_startDrainer (ww_queue (wp_world ?proc)) \<and> 0 < n,
      wp_policy := (wp_policy ?proc)\<lparr>bt_postedCount := bt_msgPerWriterCount (wp_policy ?proc)\<rparr>\<rparr>))"
    using Suc.prems by (intro Suc.IH) (simp_all add: posted_one_def)
  then show ?case
    using more step by (subst posting.simps) (simp add: posted_one_def stamps_Suc)
qed

section \<open>Reading time stamps\<close>

definition stamped :: "clock \<Rightarrow> u64 list \<Rightarrow> LatencyTest reader_env \<Rightarrow> LatencyTest reader_env \<Rightarrow> bool" where
  "stamped clock ts env env' \<longleftrightarrow>
     re_ticks env' = re_ticks env + length ts \<and> re_stats env' = re_stats env \<and> re_exited env' = re_exited env \<and>
     bt_msgAllWriterCount (re_policy env') = bt_msgAllWriterCount (re_policy env) \<and>
     bt_rcvedCount (re_policy env') = bt_rcvedCount (re_policy env) + of_nat (length ts) \<and>
     lt_latencySumNs (re_policy env') = lt_latencySumNs (re_policy env)
       + (\<Sum>i < length ts. NowNanoSec clock (re_ticks env + i) - ts ! i)"

lemma OnChannelRead_stamps:
  "stamped clock ts env (fold (\<lambda>now. LatencyTest_OnChannelRead clock (le_bytes 8 now) 8) ts env)"
proof (induction ts rule: rev_induct)
  case Nil
  then show ?case by (simp add: stamped_def)
next
  case (snoc now ts)
  have sum: "(\<Sum>i < length ts. NowNanoSec clock (re_ticks env + i) - (ts @ [now]) ! i) =
      (\<Sum>i < length ts. NowNanoSec clock (re_ticks env + i) - ts ! i)"
    by (rule sum.cong) (simp_all add: nth_append)
  show ?case
    using snoc.IH
    by (simp add: stamped_def LatencyTest_OnChannelRead_def received_one_def now_and_tick_def Let_def
        le_word_le_bytes sum add.assoc)
qed

lemma offer_stamps:
  fixes clock1 :: clock and addr :: nat
  defines "cr \<equiv> mk_ChannelReader addr channel_name (LatencyTest_OnChannelRead clock1) False 0"
  shows "offer_all [cr] (stamps clock i n) env =
    fold (\<lambda>now. LatencyTest_OnChannelRead clock1 (le_bytes 8 now) 8) (map (NowNanoSec clock) [i ..< i + n]) env"
proof -
  have "fold (offer (stamp_message now)) [cr] = LatencyTest_OnChannelRead clock1 (le_bytes 8 now) 8" for now
    by (simp add: cr_def offer_def accepts_def mk_ChannelReader_def stamp_message_def fun_eq_iff)
  then show ?thesis by (simp add: offer_all_def stamps_def fold_map comp_def)
qed

section \<open>Messages of given lengths that fit the ring together\<close>

definition fits_ring :: "u64 \<Rightarrow> position \<Rightarrow> nat list \<Rightarrow> bool" where
  "fits_ring B f lens \<longleftrightarrow>
     (let ss = batch_segments B f (map (\<lambda>n. replicate n 0) lens)
      in total ss < unat B \<and> list_all seg_valid ss)"

lemma write_segments_length:
  assumes "length d = length e"
  shows "total (write_segments B f d) = total (write_segments B f e)"
    and "list_all seg_valid (write_segments B f d) = list_all seg_valid (write_segments B f e)"
proof -
  have "d = [] \<longleftrightarrow> e = []" using assms by (metis length_0_conv)
  then show "total (write_segments B f d) = total (write_segments B f e)"
    "list_all seg_valid (write_segments B f d) = list_all seg_valid (write_segments B f e)"
    using assms by (simp_all add: write_segments_def)
qed

lemma batch_segments_length:
  "map length ds = map length es \<Longrightarrow>
     total (batch_segments B f ds) = total (batch_segments B f es)
     \<and> list_all seg_valid (batch_segments B f ds) = list_all seg_valid (batch_segments B f es)"
proof (induction ds arbitrary: es f)
  case (Cons d ds)
  then obtain e es' where es: "es = e # es'" "length d = length e" "map length ds = map length es'" by (cases es) auto
  show ?case
    using Cons.IH [OF es(3), of "f + of_nat (total (write_segments B f e))"] write_segments_length [OF es(2), of B f]
    by (simp add: es(1))
qed simp

lemma fits_ring_batch:
  "fits_ring B f (map length ds) \<longleftrightarrow>
     total (batch_segments B f ds) < unat B \<and> list_all seg_valid (batch_segments B f ds)"
proof -
  have "map length (map (\<lambda>n. replicate n 0) (map length ds)) = map length ds" by (simp add: comp_def)
  from batch_segments_length [OF this, of B f] show ?thesis by (simp add: fits_ring_def Let_def)
qed

lemma fits_ring_stamps:
  "fits_ring B f (replicate n 25) \<longleftrightarrow>
     total (batch_segments B f (map tm_image (stamps clock i n))) < unat B
     \<and> list_all seg_valid (batch_segments B f (map tm_image (stamps clock i n)))"
proof -
  have "map length (map tm_image (stamps clock i n)) = replicate n 25"
    by (rule nth_equalityI) (simp_all add: stamps_def length_stamp_image)
  with fits_ring_batch [of B f "map tm_image (stamps clock i n)"] show ?thesis by simp
qed

section \<open>The session counts every message\<close>

lemma mk_LatencyTest_counts:
  assumes "mk_LatencyTest getenv = Inr policy" "GetOptWriters getenv = Inr 1" "GetOptMessagesPerWriter getenv = Inr N"
  shows "bt_postedCount policy = 0 \<and> bt_rcvedCount policy = 0 \<and> bt_msgPerWriterCount policy = N
    \<and> bt_msgAllWriterCount policy = N \<and> lt_latencySumNs policy = 0"
  using assms by (auto simp: mk_LatencyTest_def BaseTest_counts_def split: sum.splits)

context robust_pthread
begin

lemma latency_session_counts:
  fixes sh :: "'m agent_shared" and net :: 'n
  assumes ready: "objects_ready view B k0 sh"
    and policy: "mk_LatencyTest getenv = Inr policy" "GetOptWriters getenv = Inr 1"
      "GetOptMessagesPerWriter getenv = Inr N" "0 < N"
    and fits: "fits_ring B (freePos (as_rb sh)) (replicate (unat N) 25)"
    and sleep: "\<And>ri. ri_inv ri \<Longrightarrow> ri_inv (sleep ri)"
  shows "\<exists>stats. latency_session pt t1 t2 pos0 addr clock1 clock2 send sleep policy net sh = Some stats
    \<and> msgCount stats = msgCount (as_stats sh) + N
    \<and> latencyNsSum stats = latencyNsSum (as_stats sh)
      + (\<Sum>i < unat N. NowNanoSec clock1 i - NowNanoSec clock2 i)"
proof -
  note sh = ready [unfolded objects_ready_def]
  note counts = mk_LatencyTest_counts [OF policy(1-3)]
  let ?on = "LatencyTest_OnChannelRead clock1" and ?tms = "stamps clock2 0 (unat N)"
  let ?cr = "mk_ChannelReader addr channel_name ?on False 0"
  have N: "0 < unat N" using policy(4) by (simp add: word_less_nat_alt)
  obtain w k where w: "RunReader_start pt t1 pos0 addr ?on policy sh = Some (Inr w)"
      "reader_started view t1 k ?cr policy sh w"
    using RunReader_start_ready [OF ready, of t1 pos0 addr ?on policy] by blast
  note st = w(2) [unfolded reader_started_def reader_joined_def]
  let ?sh = "sh\<lparr>as_ri := rw_ri w\<rparr>" and ?rb = "as_rb sh"
  have batch: "total (batch_segments B (freePos ?rb) (map tm_image ?tms)) < unat B"
      "list_all seg_valid (batch_segments B (freePos ?rb) (map tm_image ?tms))"
    using fits fits_ring_stamps by blast+
  have "?tms \<noteq> []" using N by (simp add: stamps_def)
  have "tm_image (stamp_message (NowNanoSec clock2 0)) \<in> set (map tm_image ?tms)"
    using N by (force simp: stamps_def)
  from batch_message_fits [OF this, of B "freePos ?rb"] have fit: "30 < unat B"
    using batch(1) by (simp add: length_stamp_image)
  have "\<exists>net' sh' w1. RunWriter pt t2 clock2 send sleep LatencyTest_InitWriter (LatencyTest_Post clock2 0) policy net ?sh
      = Some (Inr (policy\<lparr>bt_postedCount := N\<rparr>, net', sh'))
    \<and> ReadRmp [?cr] (w\<lparr>rw_rb := as_rb sh'\<rparr>) = Some (Inr w1) \<and> rw_env w1 = offer_all [?cr] ?tms (rw_env w)"
  proof (rule RunWriter_publishes_all [where k = k and n = "unat N"])
    show "tm_ok tm \<and> CreateMessage (as_rb ?sh) (tm_gen tm) (tm_channel tm) (tm_data tm)
        (of_nat (length (tm_data tm))) (tm_desc tm) = Inr (tm_image tm)" if "tm \<in> set ?tms" for tm
      using that stamp_message_ok [of ?rb] sh fit by (auto simp: stamps_def stamp_message_def)
    fix aw :: "('m, bytes MPSCMessageQueue, 'n writer_env) AsyncWriter"
      and v :: "('m, bytes MPSCMessageQueue, 'n writer_env) writer_world"
    assume v: "aw_enqueueMsgFn aw = Enqueue" "ww_rb v = as_rb ?sh" "ww_queue v = new_MPSCMessageQueue"
      "ww_env v = \<lparr> we_ticks = 0, we_notificationNs = 0, we_net = net \<rparr>"
    show "posting (LatencyTest_Post clock2 0 aw) \<lparr> wp_world = v, wp_wrk = False, wp_policy = policy \<rparr> = Some (Inr
        \<lparr> wp_world = v\<lparr>ww_queue := \<lparr> mq_queue = map tm_image ?tms, mq_startDrainer = False \<rparr>,
            ww_env := (ww_env v)\<lparr>we_ticks := unat N\<rparr>\<rparr>, wp_wrk = True, wp_policy = policy\<lparr>bt_postedCount := N\<rparr> \<rparr>)"
      using posting_stamps [of "\<lparr> wp_world = v, wp_wrk = False, wp_policy = policy \<rparr>" aw "unat N" clock2] v counts fit sh N
      by (simp add: new_MPSCMessageQueue_def)
  qed (use sh st sleep batch \<open>?tms \<noteq> []\<close> in \<open>auto simp: LatencyTest_InitWriter_def reader_inv_def\<close>)
  then obtain net' sh' w1 where run: "RunWriter pt t2 clock2 send sleep LatencyTest_InitWriter (LatencyTest_Post clock2 0)
        policy net ?sh = Some (Inr (policy\<lparr>bt_postedCount := N\<rparr>, net', sh'))"
      and read: "ReadRmp [?cr] (w\<lparr>rw_rb := as_rb sh'\<rparr>) = Some (Inr w1)"
      and env1: "rw_env w1 = offer_all [?cr] ?tms (rw_env w)" by blast
  let ?ts = "map (NowNanoSec clock2) [0 ..< unat N]"
  have "stamped clock1 ?ts (rw_env w) (rw_env w1)"
    using OnChannelRead_stamps [of clock1 ?ts "rw_env w"] env1 offer_stamps [of addr clock1 clock2 0 "unat N"] by simp
  then have env: "re_stats (rw_env w1) = (as_stats sh)\<lparr>readersReady := readersReady (as_stats sh) + 1\<rparr>"
      "bt_rcvedCount (re_policy (rw_env w1)) = N" "bt_msgAllWriterCount (re_policy (rw_env w1)) = N"
      "\<not> re_exited (rw_env w1)"
      "lt_latencySumNs (re_policy (rw_env w1)) = (\<Sum>i < unat N. NowNanoSec clock1 i - NowNanoSec clock2 i)"
    using counts st by (simp_all add: stamped_def)
  have "run_at_once (Run (w\<lparr>rw_rb := as_rb sh'\<rparr>)) = Some (Inr w1)"
    using run_at_once_Run [OF _ _ _ _ read] st by simp
  then have "\<exists>w'. RunReader_loop (\<lambda>w. Some (w\<lparr>rw_rb := as_rb sh'\<rparr>)) w 0 = Some (Inr (None, w'))
      \<and> re_policy (rw_env w') = re_policy (rw_env w1)
      \<and> msgCount (re_stats (rw_env w')) = msgCount (re_stats (rw_env w1))
      \<and> latencyNsSum (re_stats (rw_env w')) = latencyNsSum (re_stats (rw_env w1))"
    using RunReader_loop_once [of w "\<lambda>w. Some (w\<lparr>rw_rb := as_rb sh'\<rparr>)"] st counts env(2-4) policy(4)
    by (simp add: ReadMore_def)
  then obtain w' where w': "RunReader_loop (\<lambda>w. Some (w\<lparr>rw_rb := as_rb sh'\<rparr>)) w 0 = Some (Inr (None, w'))"
      "re_policy (rw_env w') = re_policy (rw_env w1)"
      "msgCount (re_stats (rw_env w')) = msgCount (re_stats (rw_env w1))"
      "latencyNsSum (re_stats (rw_env w')) = latencyNsSum (re_stats (rw_env w1))" by blast
  have "readerGen (rw_ri w) = 0" using st by simp
  then have "latency_session pt t1 t2 pos0 addr clock1 clock2 send sleep policy net sh
      = Some (LatencyTest_destroy (re_policy (rw_env w')) (re_stats (rw_env w')))"
    by (simp add: latency_session_def w(1) run w'(1))
  then show ?thesis using env by (simp add: LatencyTest_destroy_def w'(2-4))
qed

end

section \<open>Properties\<close>

text \<open>
  C9: The latency test. On objects that are ready - fresh, or left behind by processes that
  ended or died - a reader and a writer process of the latency test return, every message of
  the writer is counted, and the latency that is added to the statistics is the sum of the
  time of each reading less the time at which the message was posted, in 64 bits. Required is
  that the messages fit the ring together without a padding run of length zero.
\<close>

theorem burst_latency:
  assumes "robust_pthread pt view" "objects_ready view B k sh"
    and "mk_LatencyTest getenv = Inr policy" "GetOptWriters getenv = Inr 1"
    and "GetOptMessagesPerWriter getenv = Inr N" "0 < N"
    and "fits_ring B (freePos (as_rb sh)) (replicate (unat N) 25)"
    and "\<And>ri. ri_inv ri \<Longrightarrow> ri_inv (sleep ri)"
  shows "\<exists>stats. latency_session pt t1 t2 pos0 addr clock1 clock2 send sleep policy net sh = Some stats
    \<and> msgCount stats = msgCount (as_stats sh) + N
    \<and> latencyNsSum stats = latencyNsSum (as_stats sh)
      + (\<Sum>i < unat N. NowNanoSec clock1 i - NowNanoSec clock2 i)"
  by (rule robust_pthread.latency_session_counts [OF assms])

text \<open>Three messages, each read ten nanoseconds after it was posted, on a ring of one kilobyte.\<close>

definition late_clock :: clock where
  "late_clock n = (0, of_nat n + 10)"

definition stamp_policy :: LatencyTest where
  "stamp_policy = \<lparr> bt_msgAllWriterCount = 3, bt_msgPerWriterCount = 3, bt_bpSleepMs = 5,
     bt_postedCount = 0, bt_rcvedCount = 0, lt_latencySumNs = 0 \<rparr>"

theorem burst_latency_witness:
  "\<exists>sh stats. RunInit posix_pthread burst_env (replicate 1024 0) = Inr sh
    \<and> latency_session posix_pthread 1 2 5 100 late_clock steady_clock Suc id stamp_policy 0 sh = Some stats
    \<and> msgCount stats = 3 \<and> latencyNsSum stats = 30"
proof -
  obtain sh where sh: "RunInit posix_pthread burst_env (replicate 1024 0) = Inr sh" "fresh_objects id 1024 sh"
    using posix.RunInit_fresh [OF burst_options(1,2), of "replicate 1024 0"]
    by (auto simp: good_size_def IsZeroOrPowerOfTwo_def)
  then have ready: "objects_ready id 1024 0 sh" "freePos (as_rb sh) = 0" "as_stats sh = zero_stats"
    by (simp_all add: fresh_objects_def)
  have policy: "mk_LatencyTest burst_env = Inr stamp_policy" by code_simp
  have "fits_ring 1024 0 (replicate 3 25)" by code_simp
  moreover have "(\<Sum>i < 3. NowNanoSec late_clock i - NowNanoSec steady_clock i) = 30"
    by (simp add: eval_nat_numeral NowNanoSec_def late_clock_def steady_clock_def)
  ultimately show ?thesis
    using sh(1) burst_latency [OF posix.robust_pthread_axioms ready(1) policy burst_options(3,4), where sleep = id
        and ?t1.0 = 1 and ?t2.0 = 2 and ?pos0.0 = 5 and addr = 100 and ?clock1.0 = late_clock
        and ?clock2.0 = steady_clock and send = Suc and net = 0]
    by (simp add: ready(2,3) zero_stats_def)
qed

end
