(* ===== verification/ReliableStream.thy ===== *)
theory ReliableStream
  imports RmpWriter ReaderWithBackpressure
begin

text \<open>
  The reliable message protocol as a whole, at the granularity of operations: readers join
  (allocate and activate a slot), read and leave, writers write with backpressure honoured.
  A ghost log records every message written, and whether its segments are ones the reader
  accepts: a write of an empty message, or one that needs a padding run of length zero, is
  not. The invariant of the reachable sessions gives the guarantees of the README: every
  reader gets every message written since it joined, exactly once, in the one order of the
  log, up to the first unreadable write, where its reads end with EXPIRED_POSITION.
\<close>

section \<open>Sessions\<close>

text \<open>The client of a reader in a session collects what it is handed.\<close>

record member =
  mb_rwb :: ReaderWithBackpressure
  mb_tid :: tid
  mb_start :: nat
  mb_handler :: "bytes list CopyConfirmHandler"

definition received :: "member \<Rightarrow> bytes list" where
  "received mb = cch_env (mb_handler mb)"

record 'm session =
  s_rb :: "'m ByteRingBuffer"
  s_ri :: "'m ReaderInfo"
  s_members :: "member list"
  s_log :: "(bytes \<times> bool) list"

text \<open>
  A write whose segments the reader will accept: the message is not empty, and the write does
  not begin five bytes before the end of the buffer, where it stores a padding header of
  length zero. The log keeps the answer beside the message.
\<close>

definition clean_write :: "'m ByteRingBuffer \<Rightarrow> bytes \<Rightarrow> bool" where
  "clean_write rb d \<longleftrightarrow>
     d \<noteq> [] \<and> unat (configBufSizeBytes rb) - index_of (configBufSizeBytes rb) (freePos rb) \<noteq> 5"

lemma clean_write_valid:
  "clean_write rb d = list_all seg_valid (write_segments (configBufSizeBytes rb) (freePos rb) d)"
  by (cases d) (auto simp: clean_write_def write_segments_def filler_def Let_def)

text \<open>
  The death of the process of a reader: no code runs, the slot stays as it was and the kernel
  marks its robust mutex; \<open>dies\<close> is what it does to the mutex.
\<close>

definition release_dead :: "(tid \<Rightarrow> 'm \<Rightarrow> 'm) \<Rightarrow> tid \<Rightarrow> nat \<Rightarrow> 'm ReaderInfo \<Rightarrow> 'm ReaderInfo" where
  "release_dead dies t k ri =
     ri\<lparr>ri_slots := (ri_slots ri)[k :=
       (ri_slots ri ! k)\<lparr>info_lock := dies t (info_lock (ri_slots ri ! k))\<rparr>]\<rparr>"

inductive session_step ::
    "'m pthread_api \<Rightarrow> (tid \<Rightarrow> 'm \<Rightarrow> 'm) \<Rightarrow> Writer \<Rightarrow> 'm session \<Rightarrow> 'm session \<Rightarrow> bool"
  for pt dies w where
  join_step: "mk_ReaderWithBackpressure pt t pos0 (s_rb s) (s_ri s) = Inr (rwb, ri1) \<Longrightarrow>
    rwb_Activate rwb (s_rb s) ri1 = Inr (rwb', ri2) \<Longrightarrow>
    session_step pt dies w s (s\<lparr>s_ri := ri2,
      s_members := s_members s @ [\<lparr> mb_rwb = rwb', mb_tid = t, mb_start = length (s_log s),
        mb_handler = \<lparr> cch_data = [], cch_env = [] \<rparr> \<rparr>]\<rparr>)"
| write_step: "unat n = length d \<Longrightarrow>
    Write w d n True EMPTY_POSITION (s_ri s) (s_rb s) = Inr (None, rb') \<Longrightarrow>
    session_step pt dies w s (s\<lparr>s_rb := rb', s_log := s_log s @ [(d, clean_write (s_rb s) d)]\<rparr>)"
| read_step: "i < length (s_members s) \<Longrightarrow> mb = s_members s ! i \<Longrightarrow>
    rwb_ReadEx (CopyConfirm collect) (s_rb s) (mb_rwb mb, s_ri s, mb_handler mb)
      = Some (Inr (res, rwb', ri', h')) \<Longrightarrow>
    session_step pt dies w s (s\<lparr>s_ri := ri',
      s_members := (s_members s)[i := mb\<lparr>mb_rwb := rwb', mb_handler := h'\<rparr>]\<rparr>)"
| leave_step: "i < length (s_members s) \<Longrightarrow>
    rwb_destroy pt (mb_tid (s_members s ! i)) (mb_rwb (s_members s ! i)) (s_ri s) = Inr ri' \<Longrightarrow>
    session_step pt dies w s (s\<lparr>s_ri := ri',
      s_members := take i (s_members s) @ drop (Suc i) (s_members s)\<rparr>)"
| crash_step: "i < length (s_members s) \<Longrightarrow> mb = s_members s ! i \<Longrightarrow>
    session_step pt dies w s (s\<lparr>
      s_ri := release_dead dies (mb_tid mb) (nat (rwb_procReaderId (mb_rwb mb))) (s_ri s),
      s_members := take i (s_members s) @ drop (Suc i) (s_members s)\<rparr>)"

inductive_cases session_stepE: "session_step pt dies w s s'"

inductive session_reachable ::
    "'m pthread_api \<Rightarrow> (tid \<Rightarrow> 'm \<Rightarrow> 'm) \<Rightarrow> Writer \<Rightarrow> 'm session \<Rightarrow> 'm session \<Rightarrow> bool"
  for pt dies w s0 where
  start: "session_reachable pt dies w s0 s0"
| step: "session_reachable pt dies w s0 s \<Longrightarrow> session_step pt dies w s s' \<Longrightarrow> session_reachable pt dies w s0 s'"

text \<open>A session begins on a fresh ring buffer and a fresh reader table.\<close>

definition new_session :: "'m ByteRingBuffer \<Rightarrow> 'm ReaderInfo \<Rightarrow> 'm session" where
  "new_session rb ri = \<lparr> s_rb = rb, s_ri = ri, s_members = [], s_log = [] \<rparr>"

section \<open>The invariant\<close>

definition member_slot :: "member \<Rightarrow> nat" where
  "member_slot mb = nat (rwb_procReaderId (mb_rwb mb))"

text \<open>
  What a member has not read: the segments \<open>ss\<close> from its own position to the stream end. Its
  published position is \<open>lag\<close> bytes behind after a read that stopped half way.
\<close>

definition left_unread :: "'m ByteRingBuffer \<Rightarrow> position \<Rightarrow> nat \<Rightarrow> position \<Rightarrow> segment list \<Rightarrow> bool" where
  "left_unread rb published lag pos ss \<longleftrightarrow>
     on_ring (configBufSizeBytes rb) (rb_data rb) pos ss \<and> pos = published + of_nat lag \<and>
     freePos rb = pos + of_nat (total ss) \<and> lag + total ss < unat (configBufSizeBytes rb)"

text \<open>The messages of a log before the first unreadable write.\<close>

definition deliverable :: "(bytes \<times> bool) list \<Rightarrow> bytes list" where
  "deliverable log = map fst (takeWhile snd log)"

text \<open>What a member got and what it has not read make up the log.\<close>

definition in_step :: "bytes list \<Rightarrow> segment list \<Rightarrow> (bytes \<times> bool) list \<Rightarrow> bool" where
  "in_step got ss log \<longleftrightarrow>
     got @ messages ss = map fst log \<and> list_all seg_valid ss = list_all snd log \<and>
     got @ messages (takeWhile seg_valid ss) = deliverable log"

definition member_ok ::
    "('m \<Rightarrow> mutex_view) \<Rightarrow> 'm ByteRingBuffer \<Rightarrow> 'm ReaderInfo \<Rightarrow> (bytes \<times> bool) list \<Rightarrow> member \<Rightarrow> bool" where
  "member_ok view rb ri log mb \<longleftrightarrow>
     (let k = member_slot mb in
      rwb_procReaderId (mb_rwb mb) = int k \<and> active_at ri k \<and> slot_holder view ri k = Some (mb_tid mb) \<and>
      reader_ok (rwb_reader (mb_rwb mb)) rb \<and> mb_start mb \<le> length log \<and>
      (\<exists>lag ss. left_unread rb (info_position (ri_slots ri ! k)) lag (rwb_readerPos (mb_rwb mb)) ss \<and>
         in_step (received mb) ss (drop (mb_start mb) log)))"

definition session_inv :: "('m \<Rightarrow> mutex_view) \<Rightarrow> Writer \<Rightarrow> 'm session \<Rightarrow> bool" where
  "session_inv view w s \<longleftrightarrow>
     writer_ok w (s_rb s) \<and> ri_inv (s_ri s) \<and> locks_settled view (s_ri s) \<and>
     distinct (map member_slot (s_members s)) \<and>
     (\<forall>mb \<in> set (s_members s). member_ok view (s_rb s) (s_ri s) (s_log s) mb)"

lemma left_unread_dist:
  assumes "rb_ok rb" "left_unread rb published lag pos ss"
  shows "dist published (freePos rb) = lag + total ss"
proof -
  have "freePos rb = published + of_nat (lag + total ss)" "lag + total ss < unat (configBufSizeBytes rb)"
    using assms(2) by (simp_all add: left_unread_def add.assoc)
  then show ?thesis
    using good_size_bounds(2) [OF rb_ok_good_size [OF assms(1)]]
    by (simp only:) (intro dist_of_nat, simp)
qed

lemma left_unread_empty: "rb_ok rb \<Longrightarrow> left_unread rb (freePos rb) 0 (freePos rb) []"
  using good_size_bounds(1) [OF rb_ok_good_size] by (fastforce simp: left_unread_def)

lemma in_step_Nil: "in_step [] [] []"
  by (simp add: in_step_def deliverable_def)

lemma deliverable_all: "list_all snd log \<Longrightarrow> deliverable log = map fst log"
  by (induction log) (auto simp: deliverable_def)

lemma in_step_read: "in_step got (ss @ ts) log \<Longrightarrow> list_all seg_valid ss \<Longrightarrow> in_step (got @ messages ss) ts log"
  by (auto simp: in_step_def list_all_iff)

lemma in_step_write:
  assumes "in_step got ss log"
  shows "in_step got (ss @ write_segments B f d) (log @ [(d, list_all seg_valid (write_segments B f d))])"
proof -
  let ?ws = "write_segments B f d"
  have ws: "messages (takeWhile seg_valid ?ws) = (if list_all seg_valid ?ws then [d] else [])"
    by (simp add: write_segments_def filler_def Let_def)
  have tw: "takeWhile P (xs @ ys) = (if list_all P xs then xs @ takeWhile P ys else takeWhile P xs)"
    for P and xs ys :: "'z list"
    by (induction xs) simp_all
  show ?thesis
    using assms ws deliverable_all [of log]
    by (auto simp: in_step_def deliverable_def tw simp flip: append_assoc)
qed

text \<open>A member depends on the reader table through its own slot only.\<close>

lemma member_ok_cong:
  assumes "member_ok view rb ri log mb"
    and "length (ri_slots ri') = length (ri_slots ri)"
    and "ri_slots ri' ! member_slot mb = ri_slots ri ! member_slot mb"
  shows "member_ok view rb ri' log mb"
  using assms by (simp add: member_ok_def Let_def active_at_def slot_holder_def)

lemma member_ok_update_other:
  assumes "member_ok view rb ri log mb" "member_slot mb \<noteq> k"
    and "ri_slots ri' = (ri_slots ri)[k := x]"
  shows "member_ok view rb ri' log mb"
  by (rule member_ok_cong [OF assms(1)]) (use assms(2,3) in simp_all)

lemma locks_settled_update:
  assumes "locks_settled view ri" "ri_slots ri' = (ri_slots ri)[k := x]" "settled (view (info_lock x))"
  shows "locks_settled view ri'"
  unfolding locks_settled_def
proof (intro allI impI)
  fix i assume "i < length (ri_slots ri')"
  then show "settled (view (info_lock (ri_slots ri' ! i)))"
    using assms by (cases "i = k") (auto simp: locks_settled_def)
qed

subsection \<open>Writing\<close>

text \<open>What honoured backpressure means for an active reader: the write does not reach it.\<close>

lemma Write_honoured_dist:
  assumes w: "writer_ok w rb" and ri: "ri_inv ri" and n: "unat n = length d"
    and wr: "Write w d n True EMPTY_POSITION ri rb = Inr (None, rb')"
  shows "stored_write rb d rb'"
    and "\<And>k. active_at ri k \<Longrightarrow> dist (info_position (ri_slots ri ! k)) (freePos rb) < unat (configBufSizeBytes rb) \<Longrightarrow>
      dist (info_position (ri_slots ri ! k)) (freePos rb)
        + total (write_segments (configBufSizeBytes rb) (freePos rb) d) < unat (configBufSizeBytes rb)"
proof -
  let ?B = "configBufSizeBytes rb"
  let ?p = "Write_plan (writer_indexMask w) ?B (freePos rb) n"
  let ?T = "plan_bytesToWrite ?p"
  have ok: "rb_ok rb" and mask: "writer_indexMask w = ?B - 1" using w by (auto simp: writer_ok_def)
  note good = rb_ok_good_size [OF ok]
  have len: "ucast n \<le> GetMaxMessageSize rb" using wr by (auto simp: Write_def split: if_splits)
  have det: "DetectReaderBackpressure ?T EMPTY_POSITION rb ri = Inr None"
    using wr Detect_total [OF ri, of ?T EMPTY_POSITION rb]
    by (auto simp: Write_def Let_def split: if_splits sum.splits option.splits)
  show "stored_write rb d rb'"
    using Write_stores [OF w len, of d True EMPTY_POSITION ri] det wr n by auto
  have n5: "unat n + 5 \<le> unat ?B"
    using len good_size_bounds(1) [OF good] by (simp add: word_le_nat_alt unat_GetMaxMessageSize [OF ok])
  have T: "unat ?T = total (write_segments ?B (freePos rb) d)"
    using Write_plan_eq [OF good n5, of "freePos rb"] by (auto simp: mask write_segments_def n)
  have Tle: "unat ?T \<le> 2 * unat ?B"
    using T total_filler_le [of ?B "freePos rb" "length d"] n5 n by (simp add: write_segments_def)
  fix k assume act: "active_at ri k"
  let ?info = "ri_slots ri ! k"
  assume d: "dist (info_position ?info) (freePos rb) < unat ?B"
  have "bp_check ?B (freePos rb) ?T None ?info = None"
    using det act unfolding Detect_None_iff [OF ri] by (simp add: EMPTY_POSITION_def)
  moreover have "dist (info_position ?info) (freePos rb) + unat ?T < 2 ^ 63"
    using d Tle good_size_bounds(2) [OF good] by simp
  ultimately show "dist (info_position ?info) (freePos rb) + total (write_segments ?B (freePos rb) d) < unat ?B"
    using act d by (auto simp: bp_check_dist [OF good] T active_at_def split: if_splits)
qed

lemma stored_write_reader: "stored_write rb d rb' \<Longrightarrow> reader_ok r rb' = reader_ok r rb"
  by (auto simp: stored_write_def extends_def rb_ok_def reader_ok_def)

lemma left_unread_write:
  assumes "stored_write rb d rb'" "left_unread rb published lag pos ss"
    and "lag + total ss + total (write_segments (configBufSizeBytes rb) (freePos rb) d) < unat (configBufSizeBytes rb)"
  shows "left_unread rb' published lag pos (ss @ write_segments (configBufSizeBytes rb) (freePos rb) d)"
proof -
  let ?ws = "write_segments (configBufSizeBytes rb) (freePos rb) d"
  have "extends (configBufSizeBytes rb) (rb_data rb) (freePos rb) ?ws (rb_data rb')"
    and frame: "freePos rb' = freePos rb + of_nat (total ?ws)" "configBufSizeBytes rb' = configBufSizeBytes rb"
    using assms(1) by (auto simp: stored_write_def)
  moreover have un: "on_ring (configBufSizeBytes rb) (rb_data rb) pos ss" "pos = published + of_nat lag"
      "freePos rb = pos + of_nat (total ss)" "lag + total ss < unat (configBufSizeBytes rb)"
    using assms(2) by (auto simp: left_unread_def)
  ultimately have "on_ring (configBufSizeBytes rb) (rb_data rb') pos (ss @ ?ws)"
    using assms(3) unfolding extends_def by simp
  moreover have "freePos rb' = pos + of_nat (total (ss @ ?ws))"
    by (simp only: frame un(3) total_simps of_nat_add add.assoc)
  ultimately show ?thesis using assms(3) un(2) frame(2) by (simp add: left_unread_def add.assoc)
qed

lemma session_write_inv:
  assumes inv: "session_inv view w s" and n: "unat n = length d"
    and wr: "Write w d n True EMPTY_POSITION (s_ri s) (s_rb s) = Inr (None, rb')"
  shows "session_inv view w (s\<lparr>s_rb := rb', s_log := s_log s @ [(d, clean_write (s_rb s) d)]\<rparr>)"
proof -
  have ri: "ri_inv (s_ri s)" and w: "writer_ok w (s_rb s)" using inv by (auto simp: session_inv_def)
  have ok: "rb_ok (s_rb s)" using w by (simp add: writer_ok_def)
  note hon = Write_honoured_dist [OF w ri n wr]
  have "member_ok view rb' (s_ri s) (s_log s @ [(d, clean_write (s_rb s) d)]) mb" if "mb \<in> set (s_members s)" for mb
  proof -
    let ?k = "member_slot mb" and ?ws = "write_segments (configBufSizeBytes (s_rb s)) (freePos (s_rb s)) d"
    have mb: "member_ok view (s_rb s) (s_ri s) (s_log s) mb" using inv that by (auto simp: session_inv_def)
    then obtain lag ss where ss: "left_unread (s_rb s) (info_position (ri_slots (s_ri s) ! ?k)) lag (rwb_readerPos (mb_rwb mb)) ss"
        "in_step (received mb) ss (drop (mb_start mb) (s_log s))"
      by (auto simp: member_ok_def Let_def)
    have "lag + total ss + total ?ws < unat (configBufSizeBytes (s_rb s))"
      using hon(2) [of ?k] mb ss(1) left_unread_dist [OF ok ss(1)] by (simp add: member_ok_def Let_def left_unread_def)
    note unread = left_unread_write [OF hon(1) ss(1) this]
    have "in_step (received mb) (ss @ ?ws) (drop (mb_start mb) (s_log s @ [(d, clean_write (s_rb s) d)]))"
      using in_step_write [OF ss(2)] mb by (simp add: member_ok_def Let_def clean_write_valid)
    with unread mb show ?thesis
      unfolding member_ok_def Let_def using stored_write_reader [OF hon(1)] by auto
  qed
  then show ?thesis using inv stored_write_frame(8) [OF hon(1)] by (simp add: session_inv_def)
qed

subsection \<open>Joining, reading, leaving\<close>

text \<open>An operation of one member that leaves the slots of the others alone.\<close>

lemma members_frame:
  assumes mbs: "\<forall>mb \<in> set mbs. member_ok view rb ri log mb" and k: "k \<notin> set (map member_slot mbs)"
    and "ri_slots ri' = (ri_slots ri)[k := x]"
  shows "\<forall>mb \<in> set mbs. member_ok view rb ri' log mb"
proof
  fix mb assume "mb \<in> set mbs"
  then have "member_ok view rb ri log mb" "member_slot mb \<noteq> k" using mbs k by auto
  then show "member_ok view rb ri' log mb" by (rule member_ok_update_other) fact
qed

lemma free_slot_not_member:
  assumes "\<forall>mb \<in> set mbs. member_ok view rb ri log mb" "slot_holder view ri k = None"
  shows "k \<notin> set (map member_slot mbs)"
  using assms by (auto simp: member_ok_def Let_def)

lemma distinct_others:
  assumes "distinct (map f xs)" "i < length xs"
  shows "f (xs ! i) \<notin> set (map f (take i xs @ drop (Suc i) xs))"
    and "distinct (map f (take i xs @ drop (Suc i) xs))"
proof -
  have "xs = take i xs @ xs ! i # drop (Suc i) xs" using assms(2) by (rule id_take_nth_drop)
  then have "distinct (map f (take i xs @ xs ! i # drop (Suc i) xs))" using assms(1) by simp
  then show "f (xs ! i) \<notin> set (map f (take i xs @ drop (Suc i) xs))"
    "distinct (map f (take i xs @ drop (Suc i) xs))" by auto
qed

lemma set_others: "set (take i xs @ drop (Suc i) xs) \<subseteq> set xs"
  using set_take_subset set_drop_subset by fastforce

text \<open>Losing one member, whose slot changes: what leaving and dying have in common.\<close>

lemma session_inv_remove:
  assumes inv: "session_inv view w s" and i: "i < length (s_members s)"
    and slots: "ri_slots ri' = (ri_slots (s_ri s))[member_slot (s_members s ! i) := x]"
    and x: "settled (view (info_lock x))" and ri': "ri_inv ri'"
  shows "session_inv view w (s\<lparr>s_ri := ri',
      s_members := take i (s_members s) @ drop (Suc i) (s_members s)\<rparr>)"
proof -
  define rest where "rest = take i (s_members s) @ drop (Suc i) (s_members s)"
  have mbs: "\<forall>mb \<in> set (s_members s). member_ok view (s_rb s) (s_ri s) (s_log s) mb"
    and di: "distinct (map member_slot (s_members s))" and lk: "locks_settled view (s_ri s)"
    and w: "writer_ok w (s_rb s)"
    using inv by (auto simp: session_inv_def)
  have "set rest \<subseteq> set (s_members s)" unfolding rest_def by (rule set_others)
  with mbs have "\<forall>mb \<in> set rest. member_ok view (s_rb s) (s_ri s) (s_log s) mb" by blast
  moreover have "member_slot (s_members s ! i) \<notin> set (map member_slot rest)" "distinct (map member_slot rest)"
    unfolding rest_def by (fact distinct_others [OF di i])+
  moreover from calculation(1,2) have "\<forall>mb \<in> set rest. member_ok view (s_rb s) ri' (s_log s) mb"
    using slots by (rule members_frame)
  moreover have "locks_settled view ri'" using lk slots x by (rule locks_settled_update)
  ultimately have "session_inv view w (s\<lparr>s_ri := ri', s_members := rest\<rparr>)"
    using w ri' by (simp add: session_inv_def)
  then show ?thesis by (simp only: rest_def)
qed

text \<open>A member that stays in its slot.\<close>

lemma session_inv_replace:
  assumes inv: "session_inv view w s" and i: "i < length (s_members s)"
    and slots: "ri_slots ri' = (ri_slots (s_ri s))[member_slot (s_members s ! i) := x]"
    and x: "settled (view (info_lock x))" and ri': "ri_inv ri'"
    and mb': "member_slot mb' = member_slot (s_members s ! i)" "member_ok view (s_rb s) ri' (s_log s) mb'"
  shows "session_inv view w (s\<lparr>s_ri := ri', s_members := (s_members s)[i := mb']\<rparr>)"
proof -
  have mbs: "\<forall>mb \<in> set (s_members s). member_ok view (s_rb s) (s_ri s) (s_log s) mb"
    and di: "distinct (map member_slot (s_members s))" and lk: "locks_settled view (s_ri s)"
    using inv by (auto simp: session_inv_def)
  have "\<forall>mb2 \<in> set ((s_members s)[i := mb']). member_ok view (s_rb s) ri' (s_log s) mb2"
  proof
    fix mb2 assume "mb2 \<in> set ((s_members s)[i := mb'])"
    then obtain j where j: "j < length (s_members s)" "mb2 = (s_members s)[i := mb'] ! j"
      by (auto simp: in_set_conv_nth)
    show "member_ok view (s_rb s) ri' (s_log s) mb2"
    proof (cases "j = i")
      case True
      then show ?thesis using j mb'(2) by simp
    next
      case False
      then have "member_slot mb2 \<noteq> member_slot (s_members s ! i)"
        using j i di by (auto simp: distinct_conv_nth)
      with False j mbs show ?thesis by (auto intro: member_ok_update_other [OF _ _ slots])
    qed
  qed
  moreover have "map member_slot ((s_members s)[i := mb']) = map member_slot (s_members s)"
    using mb'(1) i by (simp add: map_update list_update_same_conv)
  moreover have "locks_settled view ri'" using lk slots x by (rule locks_settled_update)
  ultimately show ?thesis using inv di ri' by (simp add: session_inv_def)
qed

lemma session_inv_member:
  assumes "session_inv view w s" "i < length (s_members s)"
  shows "member_ok view (s_rb s) (s_ri s) (s_log s) (s_members s ! i)"
  using assms by (simp add: session_inv_def)


text \<open>
  Reading: the reader is left with the segments from the first one it refuses on, its client
  with everything before.
\<close>

lemma read_run:
  fixes ri :: "'m ReaderInfo"
  assumes ri: "ri_inv ri" and k: "rwb_procReaderId rwb = int k" "active_at ri k"
    and r: "reader_ok (rwb_reader rwb) rb"
    and un: "left_unread rb (info_position (ri_slots ri ! k)) lag (rwb_readerPos rwb) ss"
    and step: "in_step (cch_env h) ss since"
  shows "\<exists>pos ri' h' bp lag' ts. rwb_ReadEx (CopyConfirm collect) rb (rwb, ri, h) =
      Some (Inr (if list_all snd since then SUCCESS else EXPIRED_POSITION, rwb\<lparr>rwb_readerPos := pos\<rparr>, ri', h'))
    \<and> cch_env h' = deliverable since \<and> ri_inv ri'
    \<and> ri_slots ri' = (ri_slots ri)[k := set_position bp (ri_slots ri ! k)]
    \<and> left_unread rb bp lag' pos ts \<and> in_step (cch_env h') ts since"
proof (cases "list_all seg_valid ss")
  case True
  let ?h = "deliver (CopyConfirm collect) (messages ss) h"
  have len: "k < length (ri_slots ri)" using k(2) by (simp add: active_at_def)
  have env: "cch_env ?h = cch_env h @ messages ss" by (simp add: deliver_collect)
  have all: "list_all snd since" using step True by (simp add: in_step_def)
  have ring: "on_ring (configBufSizeBytes rb) (rb_data rb) (rwb_readerPos rwb) ss"
      "freePos rb = rwb_readerPos rwb + of_nat (total ss)" "total ss < unat (configBufSizeBytes rb)"
    using un unfolding left_unread_def by (blast, blast, linarith)
  show ?thesis
  proof (intro exI conjI)
    show "rwb_ReadEx (CopyConfirm collect) rb (rwb, ri, h) =
        Some (Inr (if list_all snd since then SUCCESS else EXPIRED_POSITION, rwb\<lparr>rwb_readerPos := freePos rb\<rparr>,
          ri\<lparr>ri_slots := (ri_slots ri)[k := set_position (freePos rb) (ri_slots ri ! k)]\<rparr>, ?h))"
      unfolding if_P [OF all] by (rule rwb_ReadEx_stream [OF ri k r ring]) (use True in \<open>simp add: list_all_iff\<close>)
    show "cch_env ?h = deliverable since"
      using step True deliverable_all [OF all] by (simp add: in_step_def env)
    show "left_unread rb (freePos rb) 0 (freePos rb) []" using un by (simp add: left_unread_def)
    show "in_step (cch_env ?h) [] since" unfolding env by (rule in_step_read) (use step True in simp_all)
  qed (use ri_inv_set_position [OF ri len] in simp_all)
next
  case False
  then have "\<exists>g \<in> set ss. \<not> seg_valid g" by (simp add: list_all_iff)
  from split_list_first_prop [OF this] obtain us bad tail
    where ss: "ss = us @ bad # tail" "\<not> seg_valid bad" "list_all seg_valid us"
    by (auto simp: list_all_iff)
  have ring: "on_ring (configBufSizeBytes rb) (rb_data rb) (rwb_readerPos rwb) ss"
      "freePos rb = rwb_readerPos rwb + of_nat (total ss)" "total ss < unat (configBufSizeBytes rb)"
    using un unfolding left_unread_def by (blast, blast, linarith)
  let ?pos = "rwb_readerPos rwb + of_nat (total us)" and ?h = "deliver (CopyConfirm collect) (messages us) h"
  have len: "k < length (ri_slots ri)" using k(2) by (simp add: active_at_def)
  have env: "cch_env ?h = cch_env h @ messages us" by (simp add: deliver_collect)
  have some: "\<not> list_all snd since" using step False by (simp add: in_step_def)
  obtain bp where read: "rwb_ReadEx (CopyConfirm collect) rb (rwb, ri, h) =
      Some (Inr (EXPIRED_POSITION, rwb\<lparr>rwb_readerPos := ?pos\<rparr>,
        ri\<lparr>ri_slots := (ri_slots ri)[k := set_position bp (ri_slots ri ! k)], expiredReaders := expiredReaders ri + 1\<rparr>, ?h))"
      (is "_ = Some (Inr (_, _, ?ri, _))")
      and bp: "bp = info_position (ri_slots ri ! k) \<or> (\<exists>n \<le> total us. bp = rwb_readerPos rwb + of_nat n)"
    using rwb_ReadEx_stuck [OF ri k r ring [unfolded ss(1)] _ ss(2), of "CopyConfirm collect" h] ss(3)
    unfolding list_all_iff by blast
  obtain lag' where un': "left_unread rb bp lag' ?pos (bad # tail)"
  proof -
    have rest: "on_ring (configBufSizeBytes rb) (rb_data rb) ?pos (bad # tail)"
        "freePos rb = ?pos + of_nat (total (bad # tail))"
      using ring by (simp_all add: ss(1) on_ring_append add.assoc)
    have lag: "rwb_readerPos rwb = info_position (ri_slots ri ! k) + of_nat lag"
        "lag + total us + total (bad # tail) < unat (configBufSizeBytes rb)"
      using un unfolding left_unread_def ss(1) by (blast, simp)
    from bp show ?thesis
    proof (elim disjE exE conjE)
      assume "bp = info_position (ri_slots ri ! k)"
      then have "?pos = bp + of_nat (lag + total us)" using lag(1) by (simp add: add.assoc)
      then show ?thesis using rest lag(2) by (intro that [of "lag + total us"]) (simp only: left_unread_def)
    next
      fix n assume n: "n \<le> total us" "bp = rwb_readerPos rwb + of_nat n"
      then have "?pos = bp + of_nat (total us - n)" by simp
      moreover have "total us - n + total (bad # tail) < unat (configBufSizeBytes rb)" using lag(2) by linarith
      ultimately show ?thesis using rest by (intro that [of "total us - n"]) (simp only: left_unread_def)
    qed
  qed
  show ?thesis
  proof (intro exI conjI)
    show "rwb_ReadEx (CopyConfirm collect) rb (rwb, ri, h) =
        Some (Inr (if list_all snd since then SUCCESS else EXPIRED_POSITION, rwb\<lparr>rwb_readerPos := ?pos\<rparr>, ?ri, ?h))"
      unfolding if_not_P [OF some] by (rule read)
    show "cch_env ?h = deliverable since" using step ss by (simp add: in_step_def env list_all_iff)
    show "left_unread rb bp lag' ?pos (bad # tail)" by (rule un')
    show "in_step (cch_env ?h) (bad # tail) since"
      unfolding env by (rule in_step_read) (use step ss in simp_all)
    show "ri_inv ?ri"
      using ri_inv_set_position [OF ri len, of bp]
      by (simp add: ri_inv_def slots_ok_def range_covers_def active_at_def GetActiveRange_def)
  qed simp
qed

lemma member_read:
  fixes ri :: "'m ReaderInfo"
  assumes ri: "ri_inv ri" and mb: "member_ok view rb ri log mb"
  shows "\<exists>rwb' ri' h' bp. rwb_ReadEx (CopyConfirm collect) rb (mb_rwb mb, ri, mb_handler mb) =
      Some (Inr (if list_all snd (drop (mb_start mb) log) then SUCCESS else EXPIRED_POSITION, rwb', ri', h'))
    \<and> cch_env h' = deliverable (drop (mb_start mb) log) \<and> ri_inv ri'
    \<and> ri_slots ri' = (ri_slots ri)[member_slot mb := set_position bp (ri_slots ri ! member_slot mb)]
    \<and> member_slot (mb\<lparr>mb_rwb := rwb', mb_handler := h'\<rparr>) = member_slot mb
    \<and> member_ok view rb ri' log (mb\<lparr>mb_rwb := rwb', mb_handler := h'\<rparr>)"
proof -
  define k where "k = member_slot mb"
  obtain lag ss where
      k: "rwb_procReaderId (mb_rwb mb) = int k" "active_at ri k"
        "slot_holder view ri k = Some (mb_tid mb)" "mb_start mb \<le> length log"
      and r: "reader_ok (rwb_reader (mb_rwb mb)) rb"
      and un: "left_unread rb (info_position (ri_slots ri ! k)) lag (rwb_readerPos (mb_rwb mb)) ss"
      and step: "in_step (cch_env (mb_handler mb)) ss (drop (mb_start mb) log)"
    using mb by (auto simp: member_ok_def Let_def k_def received_def)
  have len: "k < length (ri_slots ri)" using k(2) by (simp add: active_at_def)
  obtain pos ri' h' bp lag' ts where
      read: "rwb_ReadEx (CopyConfirm collect) rb (mb_rwb mb, ri, mb_handler mb) =
        Some (Inr (if list_all snd (drop (mb_start mb) log) then SUCCESS else EXPIRED_POSITION,
          (mb_rwb mb)\<lparr>rwb_readerPos := pos\<rparr>, ri', h'))"
      and ri': "cch_env h' = deliverable (drop (mb_start mb) log)" "ri_inv ri'"
      and slots: "ri_slots ri' = (ri_slots ri)[k := set_position bp (ri_slots ri ! k)]"
      and un': "left_unread rb bp lag' pos ts" and step': "in_step (cch_env h') ts (drop (mb_start mb) log)"
    using read_run [OF ri k(1,2) r un step] by blast
  let ?mb = "mb\<lparr>mb_rwb := (mb_rwb mb)\<lparr>rwb_readerPos := pos\<rparr>, mb_handler := h'\<rparr>"
  have slot: "member_slot ?mb = k" by (simp add: member_slot_def k(1))
  have "active_at ri' k" using k(2) active_at_set_position [OF len slots] by simp
  moreover have "slot_holder view ri' k = Some (mb_tid mb)"
    using k(3) len by (simp add: slot_holder_def slots)
  ultimately have "member_ok view rb ri' log ?mb"
    unfolding member_ok_def slot Let_def using k(1,4) len r un' step'
    by (auto simp: slots received_def)
  with read ri' slots slot show ?thesis unfolding k_def [symmetric] by blast
qed

lemma session_read_inv:
  assumes inv: "session_inv view w s" and i: "i < length (s_members s)"
    and rd: "rwb_ReadEx (CopyConfirm collect) (s_rb s)
        (mb_rwb (s_members s ! i), s_ri s, mb_handler (s_members s ! i)) = Some (Inr (res, rwb', ri', h'))"
  shows "session_inv view w (s\<lparr>s_ri := ri',
      s_members := (s_members s)[i := (s_members s ! i)\<lparr>mb_rwb := rwb', mb_handler := h'\<rparr>]\<rparr>)"
proof -
  let ?mb = "s_members s ! i"
  have ri: "ri_inv (s_ri s)" and lk: "locks_settled view (s_ri s)" using inv by (auto simp: session_inv_def)
  note mb = session_inv_member [OF inv i]
  obtain bp where ri': "ri_inv ri'"
      and slots: "ri_slots ri' = (ri_slots (s_ri s))[member_slot ?mb := set_position bp (ri_slots (s_ri s) ! member_slot ?mb)]"
      and mb': "member_slot (?mb\<lparr>mb_rwb := rwb', mb_handler := h'\<rparr>) = member_slot ?mb"
        "member_ok view (s_rb s) ri' (s_log s) (?mb\<lparr>mb_rwb := rwb', mb_handler := h'\<rparr>)"
    using member_read [OF ri mb] rd by fastforce
  have "settled (view (info_lock (set_position bp (ri_slots (s_ri s) ! member_slot ?mb))))"
    using lk mb by (simp add: locks_settled_def member_ok_def Let_def active_at_def)
  from session_inv_replace [OF inv i slots this ri' mb'] show ?thesis .
qed

subsection \<open>All reachable sessions\<close>

context robust_pthread
begin

lemma session_join_inv:
  assumes inv: "session_inv view w s"
    and mk: "mk_ReaderWithBackpressure pt t pos0 (s_rb s) (s_ri s) = Inr (rwb, ri1)"
    and act: "rwb_Activate rwb (s_rb s) ri1 = Inr (rwb', ri2)"
    and mb: "mb = \<lparr> mb_rwb = rwb', mb_tid = t, mb_start = length (s_log s),
        mb_handler = \<lparr> cch_data = [], cch_env = [] \<rparr> \<rparr>"
  shows "session_inv view w (s\<lparr>s_ri := ri2, s_members := s_members s @ [mb]\<rparr>)"
proof -
  have ri: "slots_ok (s_ri s)" and lk: "locks_settled view (s_ri s)" and rbok: "rb_ok (s_rb s)"
    and mbs: "\<forall>mb \<in> set (s_members s). member_ok view (s_rb s) (s_ri s) (s_log s) mb"
    using inv by (auto simp: session_inv_def writer_ok_def ri_inv_def)
  obtain reader rid where rd: "mk_Reader (s_rb s) = Inr reader" and al: "Alloc pt t (s_ri s) = Inr (rid, ri1)"
      and rid: "rid \<noteq> INVALID_READER_ID"
      and rwb: "rwb = \<lparr> rwb_reader = reader, rwb_procReaderId = rid, rwb_readerPos = pos0 \<rparr>"
    using mk_rwb_Inr [OF mk] by blast
  obtain k where k: "rid = int k" and acq: "slot_acquired view t k (s_ri s) ri1"
    using Alloc_spec [OF lk ri, of t] al rid by auto
  then obtain m where len: "k < length (ri_slots (s_ri s))" and none: "slot_holder view (s_ri s) k = None"
      and ri1: "ri_inv ri1" "ri_slots ri1 = (ri_slots (s_ri s))[k := taken_slot m (ri_slots (s_ri s) ! k)]"
      and m: "view m = Held t"
    by (auto simp: slot_acquired_def)
  define x where "x = (ri_slots ri1 ! k)\<lparr>info_position := freePos (s_rb s), info_isActive := 1\<rparr>"
  have ri2: "rwb' = rwb\<lparr>rwb_readerPos := freePos (s_rb s)\<rparr>" "ri_inv ri2"
      and slots: "ri_slots ri2 = (ri_slots (s_ri s))[k := x]"
    using rwb_Activate_spec [of ri1 rwb k "s_rb s"] act ri1 len
    by (auto simp: ri_inv_def rwb k x_def)
  have x: "info_lock x = m" "info_position x = freePos (s_rb s)" "slot_active x"
    using len by (simp_all add: x_def ri1(2) taken_slot_def slot_active_def)
  have slot: "member_slot mb = k" by (simp add: mb member_slot_def ri2(1) rwb k)
  have "k \<notin> set (map member_slot (s_members s))" by (rule free_slot_not_member [OF mbs none])
  moreover from mbs this slots have "\<forall>mb \<in> set (s_members s). member_ok view (s_rb s) ri2 (s_log s) mb"
    by (rule members_frame)
  moreover have "member_ok view (s_rb s) ri2 (s_log s) mb"
    unfolding member_ok_def slot Let_def
    using len x m left_unread_empty [OF rbok] in_step_Nil mk_Reader_Inr [OF rd rbok]
    by (auto simp: mb ri2(1) rwb k slots active_at_def slot_holder_def received_def)
  moreover have "locks_settled view ri2"
    using lk slots by (rule locks_settled_update) (simp add: x m)
  ultimately show ?thesis using inv ri2(2) slot by (simp add: session_inv_def)
qed

lemma session_leave_inv:
  assumes inv: "session_inv view w s" and i: "i < length (s_members s)"
    and lv: "rwb_destroy pt (mb_tid (s_members s ! i)) (mb_rwb (s_members s ! i)) (s_ri s) = Inr ri'"
  shows "session_inv view w (s\<lparr>s_ri := ri',
      s_members := take i (s_members s) @ drop (Suc i) (s_members s)\<rparr>)"
proof -
  let ?mb = "s_members s ! i"
  let ?k = "member_slot ?mb"
  have mb: "rwb_procReaderId (mb_rwb ?mb) = int ?k" "?k < length (ri_slots (s_ri s))"
      "slot_holder view (s_ri s) ?k = Some (mb_tid ?mb)"
    using session_inv_member [OF inv i] by (auto simp: member_ok_def Let_def active_at_def)
  have "locks_settled view (s_ri s)" "slots_ok (s_ri s)" using inv by (auto simp: session_inv_def ri_inv_def)
  from Free_slot_spec [OF this mb(2,3)] obtain m where "view m = Free" "ri_inv ri'"
      "ri_slots ri' = (ri_slots (s_ri s))[?k := taken_slot m (ri_slots (s_ri s) ! ?k)]"
    using lv by (auto simp: rwb_destroy_def mb(1))
  then show ?thesis by (intro session_inv_remove [OF inv i]) (auto simp: taken_slot_def)
qed

lemma session_crash_inv:
  assumes inv: "session_inv view w s" and i: "i < length (s_members s)" and mb: "mb = s_members s ! i"
    and dies: "\<And>t m. view m = Held t \<Longrightarrow> view (dies t m) = OwnerDied t"
  shows "session_inv view w (s\<lparr>
      s_ri := release_dead dies (mb_tid mb) (nat (rwb_procReaderId (mb_rwb mb))) (s_ri s),
      s_members := take i (s_members s) @ drop (Suc i) (s_members s)\<rparr>)"
proof -
  let ?k = "member_slot mb"
  let ?ri = "release_dead dies (mb_tid mb) ?k (s_ri s)"
  have ok: "?k < length (ri_slots (s_ri s))" "slot_holder view (s_ri s) ?k = Some (mb_tid mb)"
    using session_inv_member [OF inv i] by (auto simp: member_ok_def Let_def active_at_def mb)
  then have "view (info_lock (ri_slots (s_ri s) ! ?k)) = Held (mb_tid mb)"
    using inv settled_holder_Some by (auto simp: session_inv_def locks_settled_def slot_holder_def)
  then have "settled (view (dies (mb_tid mb) (info_lock (ri_slots (s_ri s) ! ?k))))" by (simp add: dies)
  moreover have "active_at ?ri = active_at (s_ri s)"
    using ok(1) by (auto simp: fun_eq_iff active_at_def release_dead_def nth_list_update slot_active_def)
  then have "ri_inv ?ri"
    using inv by (auto simp: session_inv_def ri_inv_def slots_ok_def range_covers_def release_dead_def
        GetActiveRange_def)
  ultimately show ?thesis unfolding member_slot_def [symmetric]
    by (intro session_inv_remove [OF inv i]) (auto simp: release_dead_def mb)
qed

lemma session_step_inv:
  assumes "session_step pt dies w s s'" "session_inv view w s"
    and "\<And>t m. view m = Held t \<Longrightarrow> view (dies t m) = OwnerDied t"
  shows "session_inv view w s'"
  using assms
proof cases
  case (join_step t pos0 rwb ri1 rwb' ri2)
  then show ?thesis using session_join_inv [OF assms(2) join_step(2,3) refl] by simp
next
  case (write_step n d rb')
  then show ?thesis using session_write_inv [OF assms(2)] by simp
next
  case (read_step i mb res rwb' ri' h')
  then show ?thesis using session_read_inv [OF assms(2)] by simp
next
  case (leave_step i ri')
  then show ?thesis using session_leave_inv [OF assms(2)] by simp
next
  case (crash_step i mb)
  then show ?thesis using session_crash_inv [OF assms(2) _ _ assms(3)] by simp
qed

lemma session_reachable_inv:
  assumes "session_reachable pt dies w s0 s" "session_inv view w s0"
    and "\<And>t m. view m = Held t \<Longrightarrow> view (dies t m) = OwnerDied t"
  shows "session_inv view w s"
  using assms by (induction rule: session_reachable.induct) (auto intro: session_step_inv)

lemma new_session_inv:
  assumes rb: "mk_ByteRingBuffer pt mem B = Inr rb" "length mem = unat B" "8 \<le> B" "B \<le> 2 ^ 32"
    and ri: "mk_ReaderInfo pt n = Inr ri" and w: "mk_Writer rb = Inr w"
  shows "session_inv view w (new_session rb ri)"
proof -
  have "configBufSizeBytes rb = B" "rb_data rb = mem" "rb_initialized rb"
    using rb(1) by (auto simp: mk_ByteRingBuffer_def split: sum.splits)
  moreover have "8 \<le> unat B" "unat B \<le> 2 ^ 32" using rb(3,4) by (simp_all add: word_le_nat_alt)
  ultimately have "writer_ok w rb"
    using w rb(2) IsZeroOrPowerOfTwo_iff [of B]
    by (auto simp: mk_Writer_def IndexMask_def writer_ok_def rb_ok_def good_size_def split: if_splits)
  moreover have "locks_settled view ri"
    using ri init_free
    by (auto simp: mk_ReaderInfo_def mk_RobustProcMutex_def locks_settled_def new_info_def
        split: if_splits sum.splits prod.splits)
  ultimately show ?thesis
    using ReaderInfo_inv [OF ri] by (simp add: session_inv_def new_session_def)
qed

end

lemma session_read_total:
  assumes inv: "session_inv view w s" and i: "i < length (s_members s)"
    and "since = drop (mb_start (s_members s ! i)) (s_log s)"
  shows "\<exists>res rwb' ri' h'. rwb_ReadEx (CopyConfirm collect) (s_rb s)
      (mb_rwb (s_members s ! i), s_ri s, mb_handler (s_members s ! i)) = Some (Inr (res, rwb', ri', h'))
    \<and> res = (if list_all snd since then SUCCESS else EXPIRED_POSITION) \<and> cch_env h' = deliverable since"
proof -
  have "ri_inv (s_ri s)" using inv by (simp add: session_inv_def)
  from member_read [OF this session_inv_member [OF inv i]] show ?thesis unfolding assms(3) by blast
qed

section \<open>Running a session\<close>

text \<open>The steps as a function of an action, which witnesses evaluate.\<close>

datatype action = Join tid position | Publish u32 bytes | Consume nat | Quit nat | Die nat

definition without :: "nat \<Rightarrow> 'a list \<Rightarrow> 'a list" where
  "without i xs = take i xs @ drop (Suc i) xs"

fun perform :: "'m pthread_api \<Rightarrow> (tid \<Rightarrow> 'm \<Rightarrow> 'm) \<Rightarrow> Writer \<Rightarrow> action \<Rightarrow> 'm session \<Rightarrow> 'm session option" where
  "perform pt dies w (Join t pos0) s =
     (case mk_ReaderWithBackpressure pt t pos0 (s_rb s) (s_ri s) of
        Inl e \<Rightarrow> None
      | Inr (rwb, ri1) \<Rightarrow>
          (case rwb_Activate rwb (s_rb s) ri1 of
             Inl e \<Rightarrow> None
           | Inr (rwb', ri2) \<Rightarrow> Some (s\<lparr>s_ri := ri2,
               s_members := s_members s @ [\<lparr> mb_rwb = rwb', mb_tid = t, mb_start = length (s_log s),
                 mb_handler = \<lparr> cch_data = [], cch_env = [] \<rparr> \<rparr>]\<rparr>)))"
| "perform pt dies w (Publish n d) s =
     (if unat n = length d
      then (case Write w d n True EMPTY_POSITION (s_ri s) (s_rb s) of
              Inr (None, rb') \<Rightarrow> Some (s\<lparr>s_rb := rb', s_log := s_log s @ [(d, clean_write (s_rb s) d)]\<rparr>)
            | _ \<Rightarrow> None)
      else None)"
| "perform pt dies w (Consume i) s =
     (if i < length (s_members s)
      then (case rwb_ReadEx (CopyConfirm collect) (s_rb s)
                   (mb_rwb (s_members s ! i), s_ri s, mb_handler (s_members s ! i)) of
              Some (Inr (res, rwb', ri', h')) \<Rightarrow> Some (s\<lparr>s_ri := ri',
                s_members := (s_members s)[i := (s_members s ! i)\<lparr>mb_rwb := rwb', mb_handler := h'\<rparr>]\<rparr>)
            | _ \<Rightarrow> None)
      else None)"
| "perform pt dies w (Quit i) s =
     (if i < length (s_members s)
      then (case rwb_destroy pt (mb_tid (s_members s ! i)) (mb_rwb (s_members s ! i)) (s_ri s) of
              Inl e \<Rightarrow> None
            | Inr ri' \<Rightarrow> Some (s\<lparr>s_ri := ri', s_members := without i (s_members s)\<rparr>))
      else None)"
| "perform pt dies w (Die i) s =
     (if i < length (s_members s)
      then Some (s\<lparr>s_ri := release_dead dies (mb_tid (s_members s ! i))
                     (nat (rwb_procReaderId (mb_rwb (s_members s ! i)))) (s_ri s),
                   s_members := without i (s_members s)\<rparr>)
      else None)"

fun perform_all ::
    "'m pthread_api \<Rightarrow> (tid \<Rightarrow> 'm \<Rightarrow> 'm) \<Rightarrow> Writer \<Rightarrow> action list \<Rightarrow> 'm session \<Rightarrow> 'm session option" where
  "perform_all pt dies w [] s = Some s"
| "perform_all pt dies w (a # as) s =
     (case perform pt dies w a s of None \<Rightarrow> None | Some s' \<Rightarrow> perform_all pt dies w as s')"

lemma perform_step: "perform pt dies w a s = Some s' \<Longrightarrow> session_step pt dies w s s'"
  by (cases a)
    (auto split: sum.splits option.splits prod.splits if_splits simp: without_def
      intro!: session_step.intros)

lemma session_reachable_first:
  assumes "session_reachable pt dies w s1 s" "session_step pt dies w s0 s1"
  shows "session_reachable pt dies w s0 s"
  using assms by (induction rule: session_reachable.induct) (auto intro: session_reachable.intros)

lemma perform_all_reachable:
  "perform_all pt dies w as s = Some s' \<Longrightarrow> session_reachable pt dies w s s'"
  by (induction as arbitrary: s)
    (auto split: option.splits intro: session_reachable.intros session_reachable_first perform_step)

section \<open>Properties\<close>

definition sample_writer :: Writer where
  "sample_writer = \<lparr> writer_indexMask = 31 \<rparr>"

text \<open>
  Two readers join, messages are written, one reader reads, dies and its slot is taken over;
  an empty message is written in between.
\<close>

definition sample_session :: "mutex_view session" where
  "sample_session = the (perform_all posix_pthread thread_death sample_writer
     [Join 1 9, Publish 3 [1, 2, 3], Join 2 9, Publish 2 [4, 5], Consume 0, Die 0, Publish 0 [], Join 3 9, Publish 1 [6]]
     (new_session ring_32 table_2))"

lemma sample_start:
  "mk_Writer ring_32 = Inr sample_writer"
  by (simp add: mk_Writer_def IndexMask_def IsZeroOrPowerOfTwo_def sample_writer_def)

lemma sample_reachable:
  "session_reachable posix_pthread thread_death sample_writer
     (new_session ring_32 table_2) sample_session"
proof (rule perform_all_reachable)
  have "perform_all posix_pthread thread_death sample_writer
     [Join 1 9, Publish 3 [1, 2, 3], Join 2 9, Publish 2 [4, 5], Consume 0, Die 0, Publish 0 [], Join 3 9, Publish 1 [6]]
     (new_session ring_32 table_2) \<noteq> None"
    by code_simp
  then show "perform_all posix_pthread thread_death sample_writer
     [Join 1 9, Publish 3 [1, 2, 3], Join 2 9, Publish 2 [4, 5], Consume 0, Die 0, Publish 0 [], Join 3 9, Publish 1 [6]]
     (new_session ring_32 table_2) = Some sample_session"
    unfolding sample_session_def by simp
qed

lemma sample_log: "s_log sample_session = [([1, 2, 3], True), ([4, 5], True), ([], False), ([6], True)]"
  unfolding sample_session_def by code_simp

lemma sample_starts: "map mb_start (s_members sample_session) = [1, 3]"
  unfolding sample_session_def by code_simp

lemma sample_members: "length (s_members sample_session) = 2"
  using arg_cong [OF sample_starts, of length] by simp

lemma thread_death_held: "id m = Held t \<Longrightarrow> id (thread_death t m) = OwnerDied t"
  by (simp add: thread_death_def)

text \<open>
  C4: Reliable delivery. In every session that starts on a fresh ring buffer and a fresh
  reader table, whatever joins, reads, departures, process deaths and writes that honour
  backpressure happened before, a read by any member returns without failure and without
  handing over a message twice. If every write since the member joined is readable, the read
  returns SUCCESS and brings what the member has been handed to exactly the messages written
  since then, each once, in the order written. If not, it returns EXPIRED_POSITION and brings
  it to exactly the messages before the first unreadable write. A write is unreadable if its
  message is empty or it begins five bytes before the end of the buffer, where the writer
  stores a padding header of length zero (the reader takes length zero for expiry).
\<close>

theorem session_read_delivers:
  assumes "robust_pthread pt view" "\<And>t m. view m = Held t \<Longrightarrow> view (dies t m) = OwnerDied t"
    and "mk_ByteRingBuffer pt mem B = Inr rb" "length mem = unat B" "8 \<le> B" "B \<le> 2 ^ 32"
    and "mk_ReaderInfo pt n = Inr ri" "mk_Writer rb = Inr w"
    and "session_reachable pt dies w (new_session rb ri) s" "i < length (s_members s)"
    and "since = drop (mb_start (s_members s ! i)) (s_log s)"
  shows "\<exists>res rwb' ri' h'. rwb_ReadEx (CopyConfirm collect) (s_rb s)
      (mb_rwb (s_members s ! i), s_ri s, mb_handler (s_members s ! i)) = Some (Inr (res, rwb', ri', h'))
    \<and> (if list_all snd since
       then res = SUCCESS \<and> cch_env h' = map fst since
       else res = EXPIRED_POSITION \<and> cch_env h' = map fst (takeWhile snd since))"
proof -
  have "session_inv view w s"
    by (rule robust_pthread.session_reachable_inv [OF assms(1,9)
          robust_pthread.new_session_inv [OF assms(1,3-8)] assms(2)])
  from session_read_total [OF this assms(10,11)] show ?thesis
    by (cases "list_all snd since") (simp_all add: deliverable_all, simp add: deliverable_def)
qed

theorem session_read_delivers_witness:
  "(\<exists>rwb' ri' h'. rwb_ReadEx (CopyConfirm collect) (s_rb sample_session)
      (mb_rwb (s_members sample_session ! 0), s_ri sample_session, mb_handler (s_members sample_session ! 0))
        = Some (Inr (EXPIRED_POSITION, rwb', ri', h')) \<and> cch_env h' = [[4, 5]])
   \<and> (\<exists>rwb' ri' h'. rwb_ReadEx (CopyConfirm collect) (s_rb sample_session)
      (mb_rwb (s_members sample_session ! 1), s_ri sample_session, mb_handler (s_members sample_session ! 1))
        = Some (Inr (SUCCESS, rwb', ri', h')) \<and> cch_env h' = [[6]])"
proof -
  have "mb_start (s_members sample_session ! 0) = 1" "mb_start (s_members sample_session ! 1) = 3"
    using arg_cong [OF sample_starts, of "\<lambda>xs. xs ! 0"] arg_cong [OF sample_starts, of "\<lambda>xs. xs ! 1"]
      sample_members by simp_all
  with session_read_delivers [OF posix.robust_pthread_axioms thread_death_held ring_32_made _ _ _
      table_2_made sample_start sample_reachable _ refl, of 0]
    session_read_delivers [OF posix.robust_pthread_axioms thread_death_held ring_32_made _ _ _
      table_2_made sample_start sample_reachable _ refl, of 1]
  show ?thesis by (auto simp: sample_log sample_members)
qed

text \<open>
  C3: Total order. At every moment of such a session, with unreadable writes in it or not,
  each member has been handed a prefix
  of the messages written since it joined: no member sees a message twice, out of order, or
  from before it joined, and any two members see the messages they share in the same order.
\<close>

theorem session_total_order:
  assumes "robust_pthread pt view" "\<And>t m. view m = Held t \<Longrightarrow> view (dies t m) = OwnerDied t"
    and "mk_ByteRingBuffer pt mem B = Inr rb" "length mem = unat B" "8 \<le> B" "B \<le> 2 ^ 32"
    and "mk_ReaderInfo pt n = Inr ri" "mk_Writer rb = Inr w"
    and "session_reachable pt dies w (new_session rb ri) s" "mb \<in> set (s_members s)"
  shows "received mb = take (length (received mb)) (drop (mb_start mb) (map fst (s_log s)))"
proof -
  have "session_inv view w s"
    by (rule robust_pthread.session_reachable_inv [OF assms(1,9)
          robust_pthread.new_session_inv [OF assms(1,3-8)] assms(2)])
  then obtain ss where "received mb @ messages ss = drop (mb_start mb) (map fst (s_log s))"
    using assms(10) by (auto simp: session_inv_def member_ok_def Let_def in_step_def drop_map)
  then show ?thesis by (metis append_eq_conv_conj)
qed

theorem session_total_order_witness:
  "received (s_members sample_session ! 1) =
     take (length (received (s_members sample_session ! 1)))
       (drop (mb_start (s_members sample_session ! 1)) (map fst (s_log sample_session)))"
  by (rule session_total_order [OF posix.robust_pthread_axioms thread_death_held ring_32_made _ _ _
      table_2_made sample_start sample_reachable]) (simp_all add: sample_members)

end
