(* ===== verification/BurstRobust.thy ===== *)
theory BurstRobust
  imports BurstLatency ReliableStream
begin

text \<open>
  The two tests of robustness of the burst agent, whose policies call \<open>exit\<close>: the writer in its
  backpressure handler, holding the mutex of the ring buffer, and the reader before it waits
  for the first time, holding its slot. No destructor of a local object runs, and the kernel
  marks the robust mutexes of the process.
\<close>

section \<open>A writer whose handler ends the process\<close>

text \<open>
  WriteEx, the loop of ProcWriter and RunWriter again for the handler of RobustWriterTest. The
  handler does not return, so the first backpressure is the end; before it, ProcWriter's
  wrapper has counted and sent a notification.
\<close>

datatype 's ended = Finished 's | Exited 's

definition WriteEx_or_exit ::
    "'m pthread_api \<Rightarrow> tid \<Rightarrow> ('m, 'q, 'e) AsyncWriter \<Rightarrow> bytes \<Rightarrow> ('m, 'q, 'e) writer_world
     \<Rightarrow> ('m, 'q, 'e) writer_world ended result" where
  "WriteEx_or_exit pt t aw msg w =
     (case Lock pt t (writerMtx (ww_rb w)) of
        Inl e \<Rightarrow> Inl e
      | Inr m \<Rightarrow>
          (case Write (aw_rbWriter aw) msg (of_nat (length msg)) True EMPTY_POSITION (ww_ri w)
                  ((ww_rb w)\<lparr>writerMtx := m\<rparr>) of
             Inl e \<Rightarrow> Inl e
           | Inr (None, rb) \<Rightarrow>
               map_sum id (\<lambda>m'. Finished (w\<lparr>ww_rb := rb\<lparr>writerMtx := m'\<rparr>\<rparr>)) (Unlock pt t (writerMtx rb))
           | Inr (Some readBp, rb) \<Rightarrow>
               Inr (Exited (notify_end aw (w\<lparr>ww_rb := rb\<lparr>backPressureCount := backPressureCount rb + 1\<rparr>\<rparr>)))))"

fun write_batch_or_exit ::
    "'m pthread_api \<Rightarrow> tid \<Rightarrow> ('m, 'q, 'e) AsyncWriter \<Rightarrow> bytes list \<Rightarrow> ('m, 'q, 'e) writer_world
     \<Rightarrow> ('m, 'q, 'e) writer_world ended result" where
  "write_batch_or_exit pt t aw [] w = Inr (Finished w)"
| "write_batch_or_exit pt t aw (msg # msgs) w =
     (case WriteEx_or_exit pt t aw msg w of
        Inl e \<Rightarrow> Inl e
      | Inr (Finished w') \<Rightarrow> write_batch_or_exit pt t aw msgs w'
      | Inr (Exited w') \<Rightarrow> Inr (Exited w'))"

partial_function (option) ProcWriter_or_exit ::
    "'m pthread_api \<Rightarrow> tid \<Rightarrow> ('m, 'q, 'e) AsyncWriter \<Rightarrow> ('m, 'q, 'e) writer_world
     \<Rightarrow> ('m, 'q, 'e) writer_world ended result option" where
  "ProcWriter_or_exit pt t aw w =
     (case aw_drainMsgFn aw (ww_queue w) of (queueCopy, q) \<Rightarrow>
        (let w1 = w\<lparr>ww_queue := q\<rparr> in
         if queueCopy = [] then Some (Inr (Finished (notify_end aw w1)))
         else (case write_batch_or_exit pt t aw queueCopy w1 of
                 Inl e \<Rightarrow> Some (Inl e)
               | Inr (Exited w2) \<Rightarrow> Some (Inr (Exited w2))
               | Inr (Finished w2) \<Rightarrow> ProcWriter_or_exit pt t aw w2)))"

declare ProcWriter_or_exit.simps [code]

text \<open>The handler in the writer object is not called: ProcWriter\_or\_exit stands for it.\<close>

definition RunWriter_robust ::
    "'m pthread_api \<Rightarrow> tid \<Rightarrow> clock \<Rightarrow> ('n \<Rightarrow> 'n) \<Rightarrow> (ThroughputTest \<Rightarrow> ThroughputTest result)
     \<Rightarrow> ThroughputTest \<Rightarrow> 'n \<Rightarrow> 'm agent_shared \<Rightarrow> ('n \<times> 'm agent_shared) ended result option" where
  "RunWriter_robust pt t clock send InitWriter testPolicy net sh =
     (case mk_AsyncWriter (as_rb sh) Enqueue Drain (agent_backpressure id) (notifyCb clock send) of
        Inl e \<Rightarrow> Some (Inl e)
      | Inr writer \<Rightarrow>
          (case InitWriter testPolicy of
             Inl e \<Rightarrow> Some (Inl e)
           | Inr testPolicy1 \<Rightarrow>
               (let w0 = \<lparr> ww_queue = new_MPSCMessageQueue, ww_rb = as_rb sh, ww_ri = rmpReaderInfo (as_ri sh),
                          ww_env = \<lparr> we_ticks = 0, we_notificationNs = 0, we_net = net \<rparr> \<rparr>;
                    shared = (\<lambda>w stats. \<lparr> as_rb = ww_rb w, as_ri = (as_ri sh)\<lparr>rmpReaderInfo := ww_ri w\<rparr>, as_stats = stats \<rparr>)
                in case posting (ThroughputTest_Post writer) \<lparr> wp_world = w0, wp_wrk = False, wp_policy = testPolicy1 \<rparr> of
                     None \<Rightarrow> None
                   | Some (Inl e) \<Rightarrow> Some (Inl e)
                   | Some (Inr proc) \<Rightarrow>
                       (let w = wp_world proc; startNs = NowNanoSec clock (we_ticks (ww_env w))
                        in if \<not> wp_wrk proc then Some (Inl (Thrown ''bad_function_call''))
                           else (case ProcWriter_or_exit pt t writer
                                   (w\<lparr>ww_env := (ww_env w)\<lparr>we_ticks := Suc (we_ticks (ww_env w))\<rparr>\<rparr>) of
                               None \<Rightarrow> None
                             | Some (Inl e) \<Rightarrow> Some (Inl e)
                             | Some (Inr (Exited w')) \<Rightarrow> Some (Inr (Exited (we_net (ww_env w'), shared w' (as_stats sh))))
                             | Some (Inr (Finished w')) \<Rightarrow>
                                 (let elapsed = NowNanoSec clock (we_ticks (ww_env w')) - startNs; stats = as_stats sh
                                  in Some (Inr (Finished (we_net (ww_env w'), shared w' (stats\<lparr>
                                       writerDurationNsSum := writerDurationNsSum stats + elapsed,
                                       notificationNsSum := notificationNsSum stats + we_notificationNs (ww_env w')\<rparr>))))))))))"

section \<open>A reader whose test for more messages ends the process\<close>

definition RunReader_robust ::
    "'m pthread_api \<Rightarrow> tid \<Rightarrow> position \<Rightarrow> nat \<Rightarrow> (bytes \<Rightarrow> u32 \<Rightarrow> ThroughputTest reader_env \<Rightarrow> ThroughputTest reader_env)
     \<Rightarrow> ThroughputTest \<Rightarrow> 'm agent_shared \<Rightarrow> (EXIT_CODE \<times> ('m, ThroughputTest reader_env) reader_world) result option" where
  "RunReader_robust pt t pos0 addr OnChannelRead testPolicy sh =
     (case RunReader_start pt t pos0 addr OnChannelRead testPolicy sh of
        None \<Rightarrow> None
      | Some (Inl e) \<Rightarrow> Some (Inl e)
      | Some (Inr w) \<Rightarrow> Some (Inr (EC_SUCCESS, w)))"

section \<open>The end of a process\<close>

text \<open>\<open>dies\<close> is what the kernel does to a mutex when a thread ends.\<close>

definition process_dies :: "(tid \<Rightarrow> 'm \<Rightarrow> 'm) \<Rightarrow> tid \<Rightarrow> 'm agent_shared \<Rightarrow> 'm agent_shared" where
  "process_dies dies t sh =
     (let ri = rmpReaderInfo (as_ri sh)
      in sh\<lparr>as_rb := (as_rb sh)\<lparr>writerMtx := dies t (writerMtx (as_rb sh))\<rparr>,
            as_ri := (as_ri sh)\<lparr>rmpReaderInfo :=
              ri\<lparr>ri_slots := map (\<lambda>info. info\<lparr>info_lock := dies t (info_lock info)\<rparr>) (ri_slots ri)\<rparr>\<rparr>\<rparr>)"

definition objects_sound :: "('m \<Rightarrow> mutex_view) \<Rightarrow> u64 \<Rightarrow> 'm agent_shared \<Rightarrow> bool" where
  "objects_sound view B sh \<longleftrightarrow>
     rb_ok (as_rb sh) \<and> configBufSizeBytes (as_rb sh) = B \<and> rb_initialized (as_rb sh) \<and>
     settled (view (writerMtx (as_rb sh))) \<and> tp_initialized (as_ri sh) \<and> readerGen (as_ri sh) = 0 \<and>
     ri_inv (rmpReaderInfo (as_ri sh)) \<and> ri_initialized (rmpReaderInfo (as_ri sh)) \<and>
     locks_settled view (rmpReaderInfo (as_ri sh))"

lemma objects_ready_iff:
  "objects_ready view B k sh \<longleftrightarrow> objects_sound view B sh \<and> holder_of (view (writerMtx (as_rb sh))) = None
     \<and> k < length (ri_slots (rmpReaderInfo (as_ri sh))) \<and> slot_holder view (rmpReaderInfo (as_ri sh)) k = None"
  by (auto simp: objects_ready_def objects_sound_def)

lemma thread_death_view:
  "settled v \<Longrightarrow> settled (thread_death t v)"
  "holder_of (thread_death t v) = (if holder_of v = Some t then None else holder_of v)"
  by (simp_all add: thread_death_def)

lemma ri_inv_relock:
  "ri_inv (ri\<lparr>ri_slots := map (\<lambda>info. info\<lparr>info_lock := f info\<rparr>) (ri_slots ri)\<rparr>) = ri_inv ri"
proof -
  let ?ri = "ri\<lparr>ri_slots := map (\<lambda>info. info\<lparr>info_lock := f info\<rparr>) (ri_slots ri)\<rparr>"
  have "active_at ?ri i = active_at ri i" for i
    by (cases "i < length (ri_slots ri)") (simp_all add: active_at_def slot_active_def)
  then show ?thesis by (simp add: ri_inv_def slots_ok_def range_covers_def GetActiveRange_def)
qed

lemma process_dies_frame [simp]:
  "freePos (as_rb (process_dies dies t sh)) = freePos (as_rb sh)"
  "as_stats (process_dies dies t sh) = as_stats sh"
  "length (ri_slots (rmpReaderInfo (as_ri (process_dies dies t sh)))) = length (ri_slots (rmpReaderInfo (as_ri sh)))"
  by (simp_all add: process_dies_def Let_def)

lemma process_dies_sound:
  assumes dies: "\<And>t m. view (dies t m) = thread_death t (view m)" and sound: "objects_sound view B sh"
  shows "objects_sound view B (process_dies dies t sh)"
    and "holder_of (view (writerMtx (as_rb (process_dies dies t sh)))) =
      (let h = holder_of (view (writerMtx (as_rb sh))) in if h = Some t then None else h)"
    and "i < length (ri_slots (rmpReaderInfo (as_ri sh))) \<Longrightarrow>
      slot_holder view (rmpReaderInfo (as_ri (process_dies dies t sh))) i =
      (let h = slot_holder view (rmpReaderInfo (as_ri sh)) i in if h = Some t then None else h)"
  using sound
  by (auto simp: objects_sound_def process_dies_def Let_def rb_ok_def dies thread_death_view locks_settled_def
      slot_holder_def ri_inv_relock)

section \<open>The writer exits when it would overrun the reader\<close>

lemma total_batch_ge:
  "(\<Sum>m\<leftarrow>msgs. 5 + length m) \<le> total (batch_segments B f msgs)"
  by (induction msgs arbitrary: f) (auto simp: write_segments_def intro: add_mono trans_le_add2)

lemma batch_stored_frame:
  assumes "batch_stored rb ms rb'"
  shows "configBufSizeBytes rb' = configBufSizeBytes rb" "rb_initialized rb' = rb_initialized rb" "rb_ok rb' = rb_ok rb"
  using assms by (auto simp: batch_stored_def extends_def rb_ok_def)

context robust_pthread
begin

lemma WriteEx_or_exit_outcome:
  fixes aw :: "('m, 'q, 'e) AsyncWriter" and w :: "('m, 'q, 'e) writer_world"
  defines "B \<equiv> configBufSizeBytes (ww_rb w)" and "f \<equiv> freePos (ww_rb w)"
  assumes notify: "\<And>ri env. fst (aw_notifyAllReaders aw (ri, env)) = ri"
    and w: "world_ok view aw w" and fits: "message_fits B msg"
  shows "(\<exists>w'. WriteEx_or_exit pt t aw msg w = Inr (Exited w') \<and> batch_stored (ww_rb w) [] (ww_rb w')
        \<and> view (writerMtx (ww_rb w')) = Held t \<and> ww_ri w' = ww_ri w)
    \<or> (\<exists>w'. WriteEx_or_exit pt t aw msg w = Inr (Finished w') \<and> batch_stored (ww_rb w) [msg] (ww_rb w')
        \<and> world_ok view aw w' \<and> ww_ri w' = ww_ri w
        \<and> (\<forall>k. active_at (ww_ri w) k \<longrightarrow> dist (info_position (ri_slots (ww_ri w) ! k)) f < unat B \<longrightarrow>
            dist (info_position (ri_slots (ww_ri w) ! k)) f + total (write_segments B f msg) < unat B))"
proof -
  have wr: "writer_ok (aw_rbWriter aw) (ww_rb w)" and ri: "ri_inv (ww_ri w)"
    and mtx: "settled (view (writerMtx (ww_rb w)))" "holder_of (view (writerMtx (ww_rb w))) = None"
    using w by (auto simp: world_ok_def)
  then have ok: "rb_ok (ww_rb w)" by (simp add: writer_ok_def)
  obtain m where m: "Lock pt t (writerMtx (ww_rb w)) = Inr m" "view m = Held t"
    using Lock_acquires [OF mtx] by blast
  let ?rb = "(ww_rb w)\<lparr>writerMtx := m\<rparr>" and ?n = "of_nat (length msg) :: u32"
  have len: "unat ?n = length msg"
    using fits good_size_bounds(2) [OF rb_ok_good_size [OF ok]]
    by (intro unat_of_nat_small) (simp add: message_fits_def B_def)
  have max: "ucast ?n \<le> GetMaxMessageSize ?rb"
    using fits unat_GetMaxMessageSize [of ?rb] ok
    by (simp add: word_le_nat_alt len message_fits_def B_def rb_ok_def)
  have wr': "writer_ok (aw_rbWriter aw) ?rb" using wr by (simp add: writer_ok_def rb_ok_def)
  from Write_checked [OF wr' max _ ri, of msg EMPTY_POSITION] len
  consider rb' where "Write (aw_rbWriter aw) msg ?n True EMPTY_POSITION (ww_ri w) ?rb = Inr (None, rb')"
      "stored_write ?rb msg rb'"
    | r where "Write (aw_rbWriter aw) msg ?n True EMPTY_POSITION (ww_ri w) ?rb = Inr (Some r, ?rb)"
    by auto
  then show ?thesis
  proof cases
    case 1
    note frame = stored_write_frame [OF 1(2)]
    obtain m' where m': "Unlock pt t m = Inr m'" "view m' = Free" using Unlock_releases [OF m(2)] by blast
    let ?w = "w\<lparr>ww_rb := rb'\<lparr>writerMtx := m'\<rparr>\<rparr>"
    have "written_free view (ww_rb w) msg (rb'\<lparr>writerMtx := m'\<rparr>)"
      unfolding written_free_def
    proof (intro exI conjI)
      have "rb'\<lparr>writerMtx := m\<rparr> = rb'" using frame(4) by (cases rb') simp
      then show "stored_write ((ww_rb w)\<lparr>writerMtx := m, backPressureCount := backPressureCount (ww_rb w)\<rparr>) msg
          (rb'\<lparr>writerMtx := m', writerMtx := m\<rparr>)"
        using 1(2) by simp
    qed (use m'(2) in simp_all)
    then have "batch_stored (ww_rb w) [msg] (ww_rb ?w)" by (simp add: written_free_batch)
    moreover have "world_ok view aw ?w"
      using frame(7) frame(8) [of "aw_rbWriter aw"] wr' m'(2) ri by (simp add: world_ok_def writer_ok_def rb_ok_def)
    moreover have "WriteEx_or_exit pt t aw msg w = Inr (Finished ?w)"
      using 1(1) m m' frame(4) by (simp add: WriteEx_or_exit_def)
    ultimately show ?thesis
      using Write_honoured_dist(2) [OF wr' ri len 1(1)] by (auto simp: B_def f_def)
  next
    case 2
    let ?w = "notify_end aw (w\<lparr>ww_rb := ?rb\<lparr>backPressureCount := backPressureCount ?rb + 1\<rparr>\<rparr>)"
    have "fst (aw_notifyAllReaders aw (ww_ri w, ww_env w)) = ww_ri w" by (rule notify)
    then have "ww_ri ?w = ww_ri w" "batch_stored (ww_rb w) [] (ww_rb ?w)" "view (writerMtx (ww_rb ?w)) = Held t"
      using m(2) by (auto simp: notify_end_def batch_stored_def extends_Nil split: prod.splits)
    moreover have "WriteEx_or_exit pt t aw msg w = Inr (Exited ?w)"
      using 2 m by (simp add: WriteEx_or_exit_def)
    ultimately show ?thesis by blast
  qed
qed

lemma write_batch_exits:
  fixes aw :: "('m, 'q, 'e) AsyncWriter" and w :: "('m, 'q, 'e) writer_world"
  assumes notify: "\<And>ri env. fst (aw_notifyAllReaders aw (ri, env)) = ri"
    and "world_ok view aw w" "\<And>msg. msg \<in> set msgs \<Longrightarrow> message_fits B msg" "B = configBufSizeBytes (ww_rb w)"
    and "active_at (ww_ri w) k" "p = info_position (ri_slots (ww_ri w) ! k)" "dist p (freePos (ww_rb w)) < unat B"
    and "unat B \<le> dist p (freePos (ww_rb w)) + total (batch_segments B (freePos (ww_rb w)) msgs)"
  shows "\<exists>j w'. write_batch_or_exit pt t aw msgs w = Inr (Exited w') \<and> j < length msgs
    \<and> batch_stored (ww_rb w) (take j msgs) (ww_rb w') \<and> view (writerMtx (ww_rb w')) = Held t \<and> ww_ri w' = ww_ri w"
  using assms(2-)
proof (induction msgs arbitrary: w)
  case Nil
  then show ?case by simp
next
  case (Cons msg msgs)
  let ?f = "freePos (ww_rb w)"
  from WriteEx_or_exit_outcome [OF notify Cons.prems(1), of msg t] Cons.prems(2) [of msg] Cons.prems(3)
  consider w' where "WriteEx_or_exit pt t aw msg w = Inr (Exited w')" "batch_stored (ww_rb w) [] (ww_rb w')"
      "view (writerMtx (ww_rb w')) = Held t" "ww_ri w' = ww_ri w"
    | w' where "WriteEx_or_exit pt t aw msg w = Inr (Finished w')" "batch_stored (ww_rb w) [msg] (ww_rb w')"
      "world_ok view aw w'" "ww_ri w' = ww_ri w" "dist p ?f + total (write_segments B ?f msg) < unat B"
    using Cons.prems(4-6) by auto
  then show ?case
  proof cases
    case 1
    then show ?thesis by (intro exI [of _ 0]) auto
  next
    case 2
    let ?T = "total (write_segments B ?f msg)"
    have cfg: "configBufSizeBytes (ww_rb w') = B" and f': "freePos (ww_rb w') = ?f + of_nat ?T"
      using 2(2) Cons.prems(3) by (simp_all add: batch_stored_def)
    have "unat (of_nat ?T :: u64) = ?T"
      using 2(5) u64_bound [of B] by (intro unat_of_nat_small) simp
    then have d: "dist p (freePos (ww_rb w')) = dist p ?f + ?T"
      using dist_add_right [of p ?f "of_nat ?T"] 2(5) u64_bound [of B] f' by simp
    have "\<exists>j w''. write_batch_or_exit pt t aw msgs w' = Inr (Exited w'') \<and> j < length msgs
        \<and> batch_stored (ww_rb w') (take j msgs) (ww_rb w'') \<and> view (writerMtx (ww_rb w'')) = Held t \<and> ww_ri w'' = ww_ri w'"
      using Cons.prems 2 d cfg f' by (intro Cons.IH) simp_all
    then obtain j w'' where "write_batch_or_exit pt t aw msgs w' = Inr (Exited w'')" "j < length msgs"
        "batch_stored (ww_rb w') (take j msgs) (ww_rb w'')" "view (writerMtx (ww_rb w'')) = Held t" "ww_ri w'' = ww_ri w'"
      by blast
    then show ?thesis
      using 2(1,4) batch_stored_append [OF 2(2), of "take j msgs" "ww_rb w''"]
      by (intro exI [of _ "Suc j"] exI [of _ w'']) simp
  qed
qed

lemma RunWriter_robust_exits:
  fixes sh :: "'m agent_shared" and net :: 'n
  defines "rb \<equiv> as_rb sh" and "ri \<equiv> rmpReaderInfo (as_ri sh)"
  assumes rb: "rb_ok rb" "rb_initialized rb" "freePos rb = 0" "settled (view (writerMtx rb))"
      "holder_of (view (writerMtx rb)) = None"
    and ri: "ri_inv ri" "active_at ri k" "info_position (ri_slots ri ! k) = freePos rb"
    and policy: "bt_postedCount policy = 0" "unat (bt_msgPerWriterCount policy) = N"
    and size: "GetOptMessagesSizeBytes getenv = Inr n" "0 < unat n" "22 + unat n < unat (configBufSizeBytes rb)"
      "unat (configBufSizeBytes rb) \<le> N * (22 + unat n)"
  shows "\<exists>net' sh' j. RunWriter_robust pt t clock send (ThroughputTest_InitWriter getenv 0 rb) policy net sh
      = Some (Inr (Exited (net', sh')))
    \<and> j < N \<and> batch_stored rb (replicate j (tm_image (burst_message n))) (as_rb sh')
    \<and> view (writerMtx (as_rb sh')) = Held t \<and> as_ri sh' = as_ri sh \<and> as_stats sh' = as_stats sh"
proof -
  let ?m = "tm_image (burst_message n)" and ?B = "configBufSizeBytes rb"
  let ?q = "\<lparr> mq_queue = replicate N ?m, mq_startDrainer = False \<rparr>"
  have N: "0 < N" using size(3,4) by (cases N) auto
  have "unat n + 22 \<le> unat ?B" using size(3) by simp
  note msg = InitWriter_message [OF rb(1) size(1,2) this]
  obtain aw where aw: "mk_AsyncWriter rb Enqueue Drain (agent_backpressure id) (notifyCb clock send) = Inr aw"
    using mk_Writer_ok(1) [OF rb(1,2)] by (auto simp: mk_AsyncWriter_def)
  then have fns: "aw_enqueueMsgFn aw = Enqueue" "aw_drainMsgFn aw = Drain" "aw_notifyAllReaders aw = notifyCb clock send"
      "writer_ok (aw_rbWriter aw) rb"
    using mk_Writer_ok(1,2) [OF rb(1,2)] by (auto simp: mk_AsyncWriter_def)
  define w :: "nat \<Rightarrow> ('m, bytes MPSCMessageQueue, 'n writer_env) writer_world" where
    "w i = \<lparr> ww_queue = new_MPSCMessageQueue, ww_rb = rb, ww_ri = ri,
       ww_env = \<lparr> we_ticks = i, we_notificationNs = 0, we_net = net \<rparr> \<rparr>" for i
  have post: "post_all aw (replicate N ?m) (w 0) = Inr (1, (w 0)\<lparr>ww_queue := ?q\<rparr>)"
    using post_all_fits [of "w 0" "replicate N ?m" aw] rb(1) fns(1) N size(3) msg(2)
    by (simp add: w_def new_MPSCMessageQueue_def)
  let ?p = "policy\<lparr>tt_topicMsg := ?m\<rparr>" and ?w1 = "(w 1)\<lparr>ww_queue := new_MPSCMessageQueue\<lparr>mq_startDrainer := False\<rparr>\<rparr>"
  have posted: "posting (ThroughputTest_Post aw) \<lparr> wp_world = w 0, wp_wrk = False, wp_policy = ?p \<rparr> = Some (Inr
      \<lparr> wp_world = (w 0)\<lparr>ww_queue := ?q\<rparr>, wp_wrk = True, wp_policy = ?p\<lparr>bt_postedCount := bt_msgPerWriterCount policy\<rparr> \<rparr>)"
    using posting_posts [of aw N "\<lparr> wp_world = w 0, wp_wrk = False, wp_policy = ?p \<rparr>" 1] post policy by simp
  have "(\<Sum>m\<leftarrow>replicate N ?m. 5 + length m) = N * (22 + unat n)" by (simp add: sum_list_replicate msg(2))
  then have big: "unat ?B \<le> total (batch_segments ?B (freePos rb) (replicate N ?m))"
    using total_batch_ge [of "replicate N ?m" ?B "freePos rb"] size(4) by simp
  have ok: "world_ok view aw ?w1" using fns(4) ri(1) rb(4,5) by (simp add: world_ok_def w_def)
  have keep: "fst (aw_notifyAllReaders aw (ri', env)) = ri'" for ri' env
    by (simp add: fns(3) notifyCb_def Let_def)
  have w1: "ww_rb (w i) = rb" "ww_ri (w i) = ri" for i by (simp_all add: w_def)
  have "\<exists>j w'. write_batch_or_exit pt t aw (replicate N ?m) ?w1 = Inr (Exited w') \<and> j < length (replicate N ?m)
      \<and> batch_stored (ww_rb ?w1) (take j (replicate N ?m)) (ww_rb w') \<and> view (writerMtx (ww_rb w')) = Held t
      \<and> ww_ri w' = ww_ri ?w1"
    by (rule write_batch_exits [OF keep ok, where B = ?B and k = k and p = "freePos rb"])
      (use ri(2,3) size(3) msg(2) big in \<open>simp_all add: w1 message_fits_def split: if_splits\<close>)
  then obtain j w' where w': "write_batch_or_exit pt t aw (replicate N ?m) ?w1 = Inr (Exited w')" "j < N"
      "batch_stored rb (take j (replicate N ?m)) (ww_rb w')" "view (writerMtx (ww_rb w')) = Held t" "ww_ri w' = ri"
    by (auto simp: w1)
  have "(w 0)\<lparr>ww_queue := ?q, ww_env := (ww_env (w 0))\<lparr>we_ticks := Suc 0\<rparr>\<rparr> = (w 1)\<lparr>ww_queue := ?q\<rparr>"
    by (simp add: w_def)
  moreover have "ProcWriter_or_exit pt t aw ((w 1)\<lparr>ww_queue := ?q\<rparr>) = Some (Inr (Exited w'))"
    using w'(1) N by (subst ProcWriter_or_exit.simps) (simp add: fns(2) Drain_def new_MPSCMessageQueue_def Let_def)
  ultimately have "RunWriter_robust pt t clock send (ThroughputTest_InitWriter getenv 0 rb) policy net sh
      = Some (Inr (Exited (we_net (ww_env w'), \<lparr> as_rb = ww_rb w', as_ri = (as_ri sh)\<lparr>rmpReaderInfo := ww_ri w'\<rparr>,
          as_stats = as_stats sh \<rparr>)))"
    using aw msg(4) posted by (simp add: RunWriter_robust_def Let_def w_def rb_def ri_def)
  moreover have "min j N = j" using w'(2) by simp
  moreover have "(as_ri sh)\<lparr>rmpReaderInfo := ri\<rparr> = as_ri sh" by (simp add: ri_def)
  ultimately show ?thesis using w'(2-5) by auto
qed

lemma reader_started_sound:
  assumes "objects_ready view B k0 sh" "reader_started view t k cr policy sh rd"
  shows "objects_sound view B (sh\<lparr>as_ri := rw_ri rd\<rparr>)" "active_at (rw_rmp_ri rd) k"
    and "k < length (ri_slots (rw_rmp_ri rd))"
  using assms by (auto simp: objects_ready_def objects_sound_def reader_started_def reader_joined_def reader_inv_def)

text \<open>What the two deaths leave: a mutex and a slot whose owners have died.\<close>

lemma deaths_ready:
  assumes dies: "\<And>t m. view (dies t m) = thread_death t (view m)"
    and "objects_sound view B sh" "holder_of (view (writerMtx (as_rb sh))) \<in> {None, Some t2}"
    and "k < length (ri_slots (rmpReaderInfo (as_ri sh)))" "slot_holder view (rmpReaderInfo (as_ri sh)) k = Some t1"
  shows "objects_ready view B k (process_dies dies t1 (process_dies dies t2 sh))"
proof -
  note one = process_dies_sound [of view dies, OF dies assms(2), where t = t2]
  note two = process_dies_sound [of view dies, OF dies one(1), where t = t1]
  show ?thesis using assms(3-5) one two by (auto simp: objects_ready_iff Let_def)
qed

end

section \<open>Properties\<close>

text \<open>
  C10: A writer that crashes. Messages of the throughput test that do not fit the ring together
  are posted by a writer process of RobustWriterTest after a reader process has started. The
  writer calls exit in its backpressure handler, holding the mutex, and no message is counted;
  the reader is killed. On what the two leave behind, whatever their death does to the mutexes
  as POSIX documents, a session of the latency test returns with all its messages counted, so
  that cmprcved answers 0: the next writer acquires the mutex and the next reader the slot.
\<close>

theorem robust_writer_recovers:
  assumes "robust_pthread pt view" "\<And>t m. view (dies t m) = thread_death t (view m)"
    and "GetOptRingBufSizeBytes getenv = Inr B" "good_size B" "length mem = unat B"
    and "GetOptMaxReaders getenv = Inr R" "(ucast R :: u16) \<noteq> 0"
    and "GetOptWriters getenv = Inr 1" "GetOptMessagesPerWriter getenv = Inr N"
    and "mk_ThroughputTest getenv = Inr policy1" "mk_LatencyTest getenv = Inr policy2"
    and "GetOptMessagesSizeBytes getenv = Inr n" "0 < n" "22 + unat n < unat B" "unat B \<le> unat N * (22 + unat n)"
    and "\<And>j. j < unat N \<Longrightarrow>
      fits_ring B (of_nat (total (batch_segments B 0 (replicate j (replicate (17 + unat n) 0))))) (replicate (unat N) 25)"
    and "\<And>ri. ri_inv ri \<Longrightarrow> ri_inv (sleep ri)"
  shows "\<exists>sh rd net' sh' stats. RunInit pt getenv mem = Inr sh
    \<and> RunReader_start pt t1 pos0 addr f policy1 sh = Some (Inr rd)
    \<and> RunWriter_robust pt t2 clock send (ThroughputTest_InitWriter getenv (readerGen (as_ri sh)) (as_rb sh)) policy1 net
        (sh\<lparr>as_ri := rw_ri rd\<rparr>) = Some (Inr (Exited (net', sh')))
    \<and> view (writerMtx (as_rb sh')) = Held t2 \<and> RunCmpReceivedMessages 0 (as_stats sh') = 0
    \<and> latency_session pt t3 t4 pos0 addr clock1 clock2 send sleep policy2 net'
        (process_dies dies t1 (process_dies dies t2 sh')) = Some stats
    \<and> RunCmpReceivedMessages N stats = 0"
proof -
  have policy: "bt_postedCount policy1 = 0" "bt_msgPerWriterCount policy1 = N"
    using assms(8-10) by (auto simp: mk_ThroughputTest_def BaseTest_counts_def split: sum.splits)
  have N: "0 < N" using assms(4,15) good_size_bounds(1) [of B] by (cases "N = 0") (auto simp: word_gt_0)
  obtain sh where sh: "RunInit pt getenv mem = Inr sh" "fresh_objects view B sh"
    using robust_pthread.RunInit_fresh [OF assms(1,3,6,4,5,7)] by blast
  note fresh = sh(2) [unfolded fresh_objects_def]
  note ready = fresh [THEN conjunct1] and facts = fresh [unfolded objects_ready_def]
  obtain rd k where rd: "RunReader_start pt t1 pos0 addr f policy1 sh = Some (Inr rd)"
      "reader_started view t1 k (mk_ChannelReader addr channel_name f False 0) policy1 sh rd"
    using robust_pthread.RunReader_start_ready [OF assms(1) ready, of t1 pos0 addr f policy1] by blast
  let ?sh = "sh\<lparr>as_ri := rw_ri rd\<rparr>"
  note sound = robust_pthread.reader_started_sound [OF assms(1) ready rd(2)]
  have "\<exists>net' sh' j. RunWriter_robust pt t2 clock send (ThroughputTest_InitWriter getenv 0 (as_rb ?sh)) policy1 net ?sh
      = Some (Inr (Exited (net', sh')))
    \<and> j < unat N \<and> batch_stored (as_rb ?sh) (replicate j (tm_image (burst_message n))) (as_rb sh')
    \<and> view (writerMtx (as_rb sh')) = Held t2 \<and> as_ri sh' = as_ri ?sh \<and> as_stats sh' = as_stats ?sh"
  proof (rule robust_pthread.RunWriter_robust_exits [OF assms(1), where k = k])
    show "ri_inv (rmpReaderInfo (as_ri ?sh))" "active_at (rmpReaderInfo (as_ri ?sh)) k"
      "info_position (ri_slots (rmpReaderInfo (as_ri ?sh)) ! k) = freePos (as_rb ?sh)"
      using sound(1,2) rd(2) by (simp_all add: objects_sound_def reader_started_def reader_joined_def)
  qed (use facts policy assms(12-15) in \<open>simp_all add: word_less_nat_alt\<close>)
  then obtain net' sh' j where run: "RunWriter_robust pt t2 clock send (ThroughputTest_InitWriter getenv 0 (as_rb ?sh)) policy1 net ?sh
        = Some (Inr (Exited (net', sh')))" "j < unat N"
      "batch_stored (as_rb sh) (replicate j (tm_image (burst_message n))) (as_rb sh')"
      "view (writerMtx (as_rb sh')) = Held t2" "as_ri sh' = rw_ri rd" "as_stats sh' = as_stats sh"
    by auto
  have f': "freePos (as_rb sh') = of_nat (total (batch_segments B 0 (replicate j (replicate (17 + unat n) 0))))"
  proof -
    have "map length (replicate j (tm_image (burst_message n))) = map length (replicate j (replicate (17 + unat n) (0 :: u8)))"
      using InitWriter_message(2) [of "as_rb sh" getenv n] facts assms(12-14) by (simp add: word_less_nat_alt)
    from batch_segments_length [OF this, of B 0] run(3) facts show ?thesis by (simp add: batch_stored_def)
  qed
  have "objects_sound view B sh'"
    using sound(1) batch_stored_frame [OF run(3)] run(4,5) by (simp add: objects_sound_def)
  then have ready2: "objects_ready view B k (process_dies dies t1 (process_dies dies t2 sh'))"
    using robust_pthread.deaths_ready [OF assms(1,2), of B sh' t2 k t1] run(4,5) sound(3) rd(2)
    by (simp add: reader_started_def reader_joined_def)
  have "fits_ring B (freePos (as_rb (process_dies dies t1 (process_dies dies t2 sh')))) (replicate (unat N) 25)"
    using assms(16) [OF run(2)] f' by simp
  from robust_pthread.latency_session_counts [OF assms(1) ready2 assms(11,8,9) N this, of sleep t3 t4 pos0 addr
      clock1 clock2 send net'] assms(17)
  obtain stats where "latency_session pt t3 t4 pos0 addr clock1 clock2 send sleep policy2 net'
        (process_dies dies t1 (process_dies dies t2 sh')) = Some stats" "msgCount stats = msgCount (as_stats sh') + N"
    by auto
  moreover have "readerGen (as_ri sh) = 0" "msgCount (as_stats sh') = 0" using facts run(6) by (simp_all add: zero_stats_def)
  ultimately show ?thesis
    using sh(1) rd(1) run(1,4)
    by (intro exI [of _ sh] exI [of _ rd] exI [of _ net'] exI [of _ sh'] exI [of _ stats])
      (simp add: RunCmpReceivedMessages_def)
qed

text \<open>The options of robust-writer.sh: one kilobyte, two messages of a thousand bytes.\<close>

definition robust_env :: env_vars where
  "robust_env name =
     (if name = ''TORONI_AGENT_RINGBUF_SIZE_KB'' then Some ''1''
      else if name = ''TORONI_AGENT_MESSAGES_PER_WRITER'' then Some ''2''
      else if name = ''TORONI_AGENT_MESSAGE_SIZE_BYTES'' then Some ''1000''
      else if name = ''TORONI_AGENT_READERS_MAX'' then Some ''16'' else None)"

definition robust_policy :: ThroughputTest where
  "robust_policy = \<lparr> bt_msgAllWriterCount = 2, bt_msgPerWriterCount = 2, bt_bpSleepMs = 5,
     bt_postedCount = 0, bt_rcvedCount = 0, tt_firstNs = 0, tt_topicMsg = [] \<rparr>"

definition two_stamps_policy :: LatencyTest where
  "two_stamps_policy = \<lparr> bt_msgAllWriterCount = 2, bt_msgPerWriterCount = 2, bt_bpSleepMs = 5,
     bt_postedCount = 0, bt_rcvedCount = 0, lt_latencySumNs = 0 \<rparr>"

lemma robust_options:
  "GetOptRingBufSizeBytes robust_env = Inr 1024" "GetOptMaxReaders robust_env = Inr 16"
  "GetOptWriters robust_env = Inr 1" "GetOptMessagesPerWriter robust_env = Inr 2"
  "GetOptMessagesSizeBytes robust_env = Inr 1000"
  "mk_ThroughputTest robust_env = Inr robust_policy" "mk_LatencyTest robust_env = Inr two_stamps_policy"
  by code_simp+

lemma robust_fits:
  assumes "j < 2"
  shows "fits_ring 1024 (of_nat (total (batch_segments 1024 0 (replicate j (replicate 1017 0))))) (replicate 2 25)"
proof -
  have "total (batch_segments 1024 0 (replicate 1 (replicate 1017 0))) = 1022"
    by (simp add: write_segments_def filler_def index_of_def Let_def)
  moreover have "fits_ring 1024 0 (replicate 2 25)" "fits_ring 1024 1022 (replicate 2 25)" by code_simp+
  moreover have "j = 0 \<or> j = 1" using assms by auto
  ultimately show ?thesis by auto
qed

theorem robust_writer_recovers_witness:
  "\<exists>sh rd net' sh' stats. RunInit posix_pthread robust_env (replicate 1024 0) = Inr sh
    \<and> RunReader_start posix_pthread 1 5 100 (ThroughputTest_OnChannelRead steady_clock) robust_policy sh = Some (Inr rd)
    \<and> RunWriter_robust posix_pthread 2 steady_clock Suc
        (ThroughputTest_InitWriter robust_env (readerGen (as_ri sh)) (as_rb sh)) robust_policy 0
        (sh\<lparr>as_ri := rw_ri rd\<rparr>) = Some (Inr (Exited (net', sh')))
    \<and> writerMtx (as_rb sh') = Held 2 \<and> RunCmpReceivedMessages 0 (as_stats sh') = 0
    \<and> latency_session posix_pthread 3 4 5 100 late_clock steady_clock Suc id two_stamps_policy net'
        (process_dies thread_death 1 (process_dies thread_death 2 sh')) = Some stats
    \<and> RunCmpReceivedMessages 2 stats = 0"
proof -
  have "good_size 1024" by (simp add: good_size_def IsZeroOrPowerOfTwo_def)
  then show ?thesis
    using robust_writer_recovers [OF posix.robust_pthread_axioms _ robust_options(1) _ _ robust_options(2) _
        robust_options(3,4,6,7,5), where dies = thread_death and mem = "replicate 1024 0" and sleep = id and ?t1.0 = 1
        and ?pos0.0 = 5 and addr = 100 and f = "ThroughputTest_OnChannelRead steady_clock" and ?t2.0 = 2
        and clock = steady_clock and send = Suc and net = 0 and ?t3.0 = 3 and ?t4.0 = 4 and ?clock1.0 = late_clock
        and ?clock2.0 = steady_clock] robust_fits
    by simp
qed

text \<open>
  C11: A reader that crashes. A reader process of RobustReaderTest exits before its first wait,
  with its slot taken and active. After its death a session of the latency test returns with
  all its messages counted, even if the table has only this one slot.
\<close>

theorem robust_reader_recovers:
  assumes "robust_pthread pt view" "\<And>t m. view (dies t m) = thread_death t (view m)"
    and "GetOptRingBufSizeBytes getenv = Inr B" "good_size B" "length mem = unat B"
    and "GetOptMaxReaders getenv = Inr R" "(ucast R :: u16) \<noteq> 0"
    and "GetOptWriters getenv = Inr 1" "GetOptMessagesPerWriter getenv = Inr N" "0 < N" "unat N * 30 < unat B"
    and "mk_LatencyTest getenv = Inr policy2"
    and "\<And>ri. ri_inv ri \<Longrightarrow> ri_inv (sleep ri)"
  shows "\<exists>sh rd stats. RunInit pt getenv mem = Inr sh
    \<and> RunReader_robust pt t1 pos0 addr f policy1 sh = Some (Inr (EC_SUCCESS, rd))
    \<and> (\<exists>k. active_at (rw_rmp_ri rd) k \<and> slot_holder view (rw_rmp_ri rd) k = Some t1)
    \<and> latency_session pt t3 t4 pos0 addr clock1 clock2 send sleep policy2 net
        (process_dies dies t1 (sh\<lparr>as_ri := rw_ri rd, as_stats := re_stats (rw_env rd)\<rparr>)) = Some stats
    \<and> RunCmpReceivedMessages N stats = 0"
proof -
  obtain sh where sh: "RunInit pt getenv mem = Inr sh" "fresh_objects view B sh"
    using robust_pthread.RunInit_fresh [OF assms(1,3,6,4,5,7)] by blast
  note fresh = sh(2) [unfolded fresh_objects_def]
  note ready = fresh [THEN conjunct1] and facts = fresh [unfolded objects_ready_def]
  obtain rd k where rd: "RunReader_start pt t1 pos0 addr f policy1 sh = Some (Inr rd)"
      "reader_started view t1 k (mk_ChannelReader addr channel_name f False 0) policy1 sh rd"
    using robust_pthread.RunReader_start_ready [OF assms(1) ready, of t1 pos0 addr f policy1] by blast
  note sound = robust_pthread.reader_started_sound [OF assms(1) ready rd(2)]
  let ?sh = "sh\<lparr>as_ri := rw_ri rd, as_stats := re_stats (rw_env rd)\<rparr>"
  have "objects_sound view B ?sh" using sound(1) by (simp add: objects_sound_def)
  note dead = process_dies_sound [of view dies, OF assms(2) this, where t = t1]
  have ready2: "objects_ready view B k (process_dies dies t1 ?sh)"
    using dead sound(3) facts rd(2) by (simp add: objects_ready_iff reader_started_def reader_joined_def Let_def)
  have "map length (replicate (unat N) (replicate 25 (0 :: u8))) = replicate (unat N) 25" by simp
  moreover have "batch_segments B 0 (replicate (unat N) (replicate 25 0)) = replicate (unat N) (Msg (replicate 25 0))"
    using batch_segments_equal [OF assms(4), of 0 "replicate (unat N) (replicate 25 0)" 25] assms(11)
    by (simp add: index_of_def)
  ultimately have "fits_ring B 0 (replicate (unat N) 25)"
    using fits_ring_batch [of B 0 "replicate (unat N) (replicate 25 0)"] assms(11)
      total_map_Msg [of "replicate (unat N) (replicate 25 0)" 25] by (simp add: list_all_iff)
  then have "fits_ring B (freePos (as_rb (process_dies dies t1 ?sh))) (replicate (unat N) 25)" using facts by simp
  from robust_pthread.latency_session_counts [OF assms(1) ready2 assms(12,8,9,10) this, of sleep t3 t4 pos0 addr
      clock1 clock2 send net] assms(13)
  obtain stats where "latency_session pt t3 t4 pos0 addr clock1 clock2 send sleep policy2 net (process_dies dies t1 ?sh)
      = Some stats" "msgCount stats = N"
    using rd(2) facts by (auto simp: reader_started_def reader_joined_def zero_stats_def)
  then show ?thesis
    using sh(1) rd sound(2) by (auto simp: RunReader_robust_def RunCmpReceivedMessages_def reader_started_def reader_joined_def)
qed

text \<open>The options of robust-reader.sh: one slot.\<close>

theorem robust_reader_recovers_witness:
  "\<exists>sh rd stats. RunInit posix_pthread burst_env (replicate 1024 0) = Inr sh
    \<and> RunReader_robust posix_pthread 1 5 100 (ThroughputTest_OnChannelRead steady_clock) burst_policy sh
      = Some (Inr (EC_SUCCESS, rd))
    \<and> (\<exists>k. active_at (rw_rmp_ri rd) k \<and> slot_holder id (rw_rmp_ri rd) k = Some 1)
    \<and> latency_session posix_pthread 3 4 5 100 late_clock steady_clock Suc id stamp_policy 0
        (process_dies thread_death 1 (sh\<lparr>as_ri := rw_ri rd, as_stats := re_stats (rw_env rd)\<rparr>)) = Some stats
    \<and> RunCmpReceivedMessages 3 stats = 0"
proof -
  have "good_size 1024" by (simp add: good_size_def IsZeroOrPowerOfTwo_def)
  moreover have "mk_LatencyTest burst_env = Inr stamp_policy" by code_simp
  ultimately show ?thesis
    using robust_reader_recovers [OF posix.robust_pthread_axioms _ burst_options(1) _ _ burst_options(2) _
        burst_options(3,4), where dies = thread_death and mem = "replicate 1024 0" and sleep = id and ?t1.0 = 1
        and ?pos0.0 = 5 and addr = 100 and f = "ThroughputTest_OnChannelRead steady_clock" and ?policy1.0 = burst_policy
        and ?t3.0 = 3 and ?t4.0 = 4 and ?clock1.0 = late_clock and ?clock2.0 = steady_clock and send = Suc and net = 0
        and ?policy2.0 = stamp_policy]
    by simp
qed

end
