(* ===== verification/BurstReport.thy ===== *)
theory BurstReport
  imports Complex_Main BurstRuns
begin

text \<open>
  The rest of system_tests/burst/agent.cpp: waiting for the readers, and what the agent prints. The
  arithmetic of \<open>double\<close> is a parameter, and so is the layout of the objects. What is printed is a list of items, one for each piece of
  text and each conversion of the format strings.
\<close>

section \<open>Waiting for the readers\<close>

text \<open>\<open>readings\<close> are the values that the loop reads one after the other; the result is how often it read in vain.\<close>

partial_function (option) wait_readers :: "u64 \<Rightarrow> (nat \<Rightarrow> u64) \<Rightarrow> nat \<Rightarrow> nat option" where
  "wait_readers expReaders readings i =
     (if readings i < expReaders then wait_readers expReaders readings (Suc i) else Some i)"

declare wait_readers.simps [code]

text \<open>The parameter is an \<open>int\<close>, which the comparison converts to the type of the counter.\<close>

definition RunWaitReadersReady :: "int \<Rightarrow> (nat \<Rightarrow> u64) \<Rightarrow> nat option" where
  "RunWaitReadersReady expReaders readings = wait_readers (of_int expReaders) readings 0"

lemma wait_readers_first:
  assumes "\<not> readings (i + n) < e" "\<And>j. j < n \<Longrightarrow> readings (i + j) < e"
  shows "wait_readers e readings i = Some (i + n)"
  using assms
proof (induction n arbitrary: i)
  case 0
  then show ?case by (subst wait_readers.simps) simp
next
  case (Suc n)
  have "readings i < e" using Suc.prems(2) [of 0] by simp
  moreover have "readings (Suc i + j) < e" if "j < n" for j using Suc.prems(2) [of "Suc j"] that by simp
  ultimately show ?case using Suc.IH [of "Suc i"] Suc.prems(1) by (subst wait_readers.simps) simp
qed

lemma wait_readers_Some:
  assumes "wait_readers e readings i = Some n"
  shows "i \<le> n \<and> \<not> readings n < e \<and> (\<forall>j. i \<le> j \<and> j < n \<longrightarrow> readings j < e)"
proof (rule wait_readers.raw_induct [where P = "\<lambda>e r i n. i \<le> n \<and> \<not> r n < e \<and> (\<forall>j. i \<le> j \<and> j < n \<longrightarrow> r j < e)", OF _ assms])
  fix f :: "u64 \<Rightarrow> (nat \<Rightarrow> u64) \<Rightarrow> nat \<Rightarrow> nat option" and e r i n
  assume ih: "\<And>e r i n. f e r i = Some n \<Longrightarrow> i \<le> n \<and> \<not> r n < e \<and> (\<forall>j. i \<le> j \<and> j < n \<longrightarrow> r j < e)"
    and step: "(if r i < e then f e r (Suc i) else Some i) = Some (n :: nat)"
  show "i \<le> n \<and> \<not> r n < e \<and> (\<forall>j. i \<le> j \<and> j < n \<longrightarrow> r j < e)"
  proof (cases "r i < e")
    case True
    with step have later: "Suc i \<le> n \<and> \<not> r n < e \<and> (\<forall>j. Suc i \<le> j \<and> j < n \<longrightarrow> r j < e)" by (intro ih) simp
    have "r j < e" if "i \<le> j" "j < n" for j using that later True by (cases "j = i") auto
    then show ?thesis using later by (auto dest: Suc_leD)
  next
    case False
    with step show ?thesis by auto
  qed
qed

text \<open>The command returns at the first reading that is large enough, and never if there is none.\<close>

lemma RunWaitReadersReady_returns:
  "RunWaitReadersReady expReaders readings = Some n \<longleftrightarrow>
     of_int expReaders \<le> readings n \<and> (\<forall>j < n. readings j < of_int expReaders)"
proof
  assume "RunWaitReadersReady expReaders readings = Some n"
  then show "of_int expReaders \<le> readings n \<and> (\<forall>j < n. readings j < of_int expReaders)"
    using wait_readers_Some [of "of_int expReaders" readings 0 n] by (simp add: RunWaitReadersReady_def not_less)
next
  assume "of_int expReaders \<le> readings n \<and> (\<forall>j < n. readings j < of_int expReaders)"
  then show "RunWaitReadersReady expReaders readings = Some n"
    using wait_readers_first [of readings 0 n "of_int expReaders"] by (simp add: RunWaitReadersReady_def not_less)
qed

section \<open>What is printed\<close>

record 'd double_ops =
  d_of_u64 :: "u64 \<Rightarrow> 'd"
  d_mul :: "'d \<Rightarrow> 'd \<Rightarrow> 'd"
  d_div :: "'d \<Rightarrow> 'd \<Rightarrow> 'd"
  d_sub :: "'d \<Rightarrow> 'd \<Rightarrow> 'd"

datatype 'd printed = Text string | Fixed nat 'd | Unsigned u64 | Decimal int

definition MS_NANOSEC :: u64 where
  "MS_NANOSEC = 1000 * 1000"

text \<open>\<open>1.0 * n\<close>.\<close>

definition times_one :: "'d double_ops \<Rightarrow> u64 \<Rightarrow> 'd" where
  "times_one ops n = d_mul ops (d_of_u64 ops 1) (d_of_u64 ops n)"

definition AvgPerIter :: "'d double_ops \<Rightarrow> u64 \<Rightarrow> 'd \<Rightarrow> 'd" where
  "AvgPerIter ops iterations v = d_div ops v (d_of_u64 ops iterations)"

text \<open>The arguments of \<open>printf\<close> are computed before anything is printed.\<close>

definition PrintResultExt :: "'d double_ops \<Rightarrow> env_vars \<Rightarrow> 'm agent_shared \<Rightarrow> 'd printed list result" where
  "PrintResultExt ops getenv sh =
     (let rb = as_rb sh; ri = rmpReaderInfo (as_ri sh); st = as_stats sh; div_by = (\<lambda>v n. d_div ops v (d_of_u64 ops n)) in
      case (GetOptWriters getenv, GetOptIterations getenv, GetOptReaders getenv) of
        (Inl e, _, _) \<Rightarrow> Inl e
      | (_, Inl e, _) \<Rightarrow> Inl e
      | (_, _, Inl e) \<Rightarrow> Inl e
      | (Inr writers, Inr iterations, Inr readers) \<Rightarrow>
          let avg = AvgPerIter ops iterations;
              wtMs = avg (div_by (div_by (times_one ops (writerDurationNsSum st)) writers) MS_NANOSEC);
              wnMs = div_by (div_by (times_one ops (notificationNsSum st)) (notificationCount rb)) MS_NANOSEC;
              wwMs = d_sub ops wtMs wnMs
          in Inr [Text ''WT='', Fixed 3 wtMs, Text ''_WW='', Fixed 3 wwMs, Text ''_WN='', Fixed 3 wnMs,
                  Text ''_E='', Fixed 3 (avg (d_of_u64 ops (expiredReaders ri))),
                  Text ''_N='', Fixed 3 (avg (div_by (times_one ops (notificationCount rb)) writers)),
                  Text ''_B='', Fixed 3 (avg (times_one ops (backPressureCount rb))),
                  Text ''_R='', Fixed 3 (avg (div_by (times_one ops (readerRuns st)) readers))])"

definition AvgThroughputKMsgSec :: "'d double_ops \<Rightarrow> AgentStats \<Rightarrow> 'd" where
  "AvgThroughputKMsgSec ops st =
     (let msgCountK = d_div ops (times_one ops (msgCount st)) (d_of_u64 ops 1000);
          durSec = d_div ops (d_div ops (times_one ops (firstLastDurationNsSum st)) (d_of_u64 ops MS_NANOSEC)) (d_of_u64 ops 1000)
      in d_div ops msgCountK durSec)"

definition AvgLatencyMs :: "'d double_ops \<Rightarrow> AgentStats \<Rightarrow> 'd" where
  "AvgLatencyMs ops st =
     d_div ops (d_div ops (times_one ops (latencyNsSum st)) (d_of_u64 ops MS_NANOSEC)) (d_of_u64 ops (msgCount st))"

definition result_ext :: "'d double_ops \<Rightarrow> env_vars \<Rightarrow> 'm agent_shared \<Rightarrow> 'd printed list \<Rightarrow> 'd printed list result" where
  "result_ext ops getenv sh first =
     (case GetOptExtResult getenv of
        Inl e \<Rightarrow> Inl e
      | Inr ext \<Rightarrow> if ext \<noteq> 0 then map_sum id (\<lambda>more. first @ Text ''_'' # more) (PrintResultExt ops getenv sh) else Inr first)"

definition ThroughputTest_Result :: "'d double_ops \<Rightarrow> env_vars \<Rightarrow> 'm agent_shared \<Rightarrow> 'd printed list result" where
  "ThroughputTest_Result ops getenv sh = result_ext ops getenv sh [Fixed 3 (AvgThroughputKMsgSec ops (as_stats sh))]"

definition LatencyTest_Result :: "'d double_ops \<Rightarrow> env_vars \<Rightarrow> 'm agent_shared \<Rightarrow> 'd printed list result" where
  "LatencyTest_Result ops getenv sh = result_ext ops getenv sh [Fixed 3 (AvgLatencyMs ops (as_stats sh)), Text [CHR 10]]"

definition RunStat :: "'d double_ops \<Rightarrow> 'm agent_shared \<Rightarrow> 'd printed list" where
  "RunStat ops sh =
     (let rb = as_rb sh; ri = rmpReaderInfo (as_ri sh); st = as_stats sh; nl = Text [CHR 10];
          ms = (\<lambda>n. d_div ops (times_one ops n) (d_of_u64 ops MS_NANOSEC)) in
      case GetActiveRange ri of (amin, amax) \<Rightarrow>
        [Text ''Backpressure count:'', Unsigned (backPressureCount rb), nl,
         Text ''Expired reader count:'', Unsigned (expiredReaders ri), nl,
         Text ''Write notifications count:'', Unsigned (notificationCount rb), nl,
         Text ''Freepos:'', Unsigned (freePos rb), nl,
         Text ''Active reader range ['', Decimal (uint amin), Text '','', Decimal (uint amax), Text '')'', nl,
         Text ''Sum latency: '', Fixed 5 (ms (latencyNsSum st)), Text '' (ms)'', nl,
         Text ''Sum throughput-first-last-duration: '', Fixed 5 (ms (firstLastDurationNsSum st)), Text '' (ms) '', nl,
         Text ''Avg-latency: '', Fixed 3 (AvgLatencyMs ops st), Text '' (ms)'', nl,
         Text ''Avg-throughput-first-last: '', Fixed 3 (AvgThroughputKMsgSec ops st), Text '' (Kmsg/sec)'', nl,
         Text ''Readers ready: '', Unsigned (readersReady st), nl,
         Text ''Received messages: '', Unsigned (msgCount st), nl])"

section \<open>The layout of the shared objects\<close>

text \<open>
  Where the ABI puts the objects and their fields. The difference of the two pointers is printed
  by a conversion for \<open>int\<close>, which takes its low 32 bits.
\<close>

record layout =
  ly_ring :: "int \<times> (string \<Rightarrow> int)"
  ly_readers :: "int \<times> (string \<Rightarrow> int)"
  ly_slot :: "nat \<Rightarrow> string \<Rightarrow> int"
  ly_stats :: "int \<times> (string \<Rightarrow> int)"

definition OffsetPrinter :: "string \<Rightarrow> 'd printed list" where
  "OffsetPrinter name = [Text name, Text [CHR 10]]"

definition Offset :: "int \<Rightarrow> string \<Rightarrow> int \<Rightarrow> 'd printed list" where
  "Offset basePtr field ptr = [Text field, Text '' '', Decimal (sint (word_of_int (ptr - basePtr) :: 32 word)), Text [CHR 10]]"

fun slot_offsets :: "layout \<Rightarrow> 'm ReaderInfo \<Rightarrow> nat list \<Rightarrow> 'd printed list result" where
  "slot_offsets ly ri [] = Inr []"
| "slot_offsets ly ri (i # is) =
     (case Get ri (int i) of
        Inl e \<Rightarrow> Inl e
      | Inr info \<Rightarrow> map_sum id (\<lambda>more.
          concat (map (\<lambda>field. Offset (fst (ly_readers ly)) field (ly_slot ly i field)) [''lock'', ''position'', ''isActive''])
          @ more) (slot_offsets ly ri is))"

definition RunLayout :: "layout \<Rightarrow> 'm agent_shared \<Rightarrow> 'd printed list result" where
  "RunLayout ly sh =
     (let offsets = (\<lambda>(basePtr, ptr) fields. concat (map (\<lambda>field. Offset basePtr field (ptr field)) fields)) in
      map_sum id (\<lambda>slots.
        OffsetPrinter ''RingBuf'' @ offsets (ly_ring ly) [''configBufSizeBytes'', ''writerMtx'', ''freePos'', ''backPressureCount'',
          ''notificationCount'', ''initialized'', ''index0''] @
        OffsetPrinter ''ReaderInfo'' @ offsets (ly_readers ly) [''readerGen'', ''initialized'', ''expiredReaders'',
          ''configMaxReaders'', ''readersMinMax''] @ slots @
        OffsetPrinter ''Stats'' @ offsets (ly_stats ly) [''latencyNsSum'', ''firstLastDurationNsSum'', ''writerDurationNsSum'',
          ''notificationNsSum'', ''msgCount'', ''readersReady'', ''writersReady'', ''readerRuns''])
        (slot_offsets ly (rmpReaderInfo (as_ri sh)) [0, 1]))"

lemma Offset_exact:
  assumes "0 \<le> ptr - basePtr" "ptr - basePtr < 2 ^ 31"
  shows "Offset basePtr field ptr = [Text field, Text '' '', Decimal (ptr - basePtr), Text [CHR 10]]"
proof -
  have "sint (word_of_int d :: 32 word) = d" if "0 \<le> d" "d < 2 ^ 31" for d
    using that by (simp add: sint_uint uint_word_of_int_eq signed_take_bit_take_bit signed_take_bit_int_eq_self)
  from this [OF assms] show ?thesis unfolding Offset_def by (simp only:)
qed

text \<open>The table must have two slots.\<close>

lemma RunLayout_slots:
  "isl (RunLayout ly sh) \<longleftrightarrow> isl (Get (rmpReaderInfo (as_ri sh)) 0) \<or> isl (Get (rmpReaderInfo (as_ri sh)) 1)"
  by (auto simp: RunLayout_def Let_def split: sum.splits)

section \<open>The test flavor\<close>

datatype agent_policy = Throughput ThroughputTest | Latency LatencyTest | RobustWriter ThroughputTest | RobustReader ThroughputTest

text \<open>The policy with which main calls Main, or the exit status of its default case.\<close>

definition agent_main :: "env_vars \<Rightarrow> (EXIT_CODE + agent_policy) result" where
  "agent_main getenv =
     (case GetOptTestFlavor getenv of
        Inl e \<Rightarrow> Inl e
      | Inr FIRST_LAST_DURATION \<Rightarrow> map_sum id (Inr \<circ> Throughput) (mk_ThroughputTest getenv)
      | Inr LATENCY \<Rightarrow> map_sum id (Inr \<circ> Latency) (mk_LatencyTest getenv)
      | Inr ROBUST_WRITER \<Rightarrow> map_sum id (Inr \<circ> RobustWriter) (mk_ThroughputTest getenv)
      | Inr ROBUST_READER \<Rightarrow> map_sum id (Inr \<circ> RobustReader) (mk_ThroughputTest getenv)
      | Inr UNKNOWN \<Rightarrow> Inr (Inl EC_UNKNOWN_ARG))"

section \<open>The averages in exact arithmetic\<close>

definition exact_ops :: "real double_ops" where
  "exact_ops = \<lparr> d_of_u64 = (\<lambda>n. real (unat n)), d_mul = (*), d_div = (/), d_sub = (-) \<rparr>"

text \<open>Thousands of messages per second, and milliseconds per message, of sums in nanoseconds.\<close>

lemma exact_averages:
  "AvgThroughputKMsgSec exact_ops st = real (unat (msgCount st)) * 10 ^ 6 / real (unat (firstLastDurationNsSum st))"
  "AvgLatencyMs exact_ops st = real (unat (latencyNsSum st)) / 10 ^ 6 / real (unat (msgCount st))"
  by (simp_all add: AvgThroughputKMsgSec_def AvgLatencyMs_def times_one_def exact_ops_def MS_NANOSEC_def)

end
