(* ===== verification/UdpNotification.thy ===== *)
theory UdpNotification
  imports StdStrings
begin

text \<open>
  traits/posix/multicastUdpNotification.hpp: notifications as empty multicast datagrams. The
  socket calls are a parameter, a record of functions on an unspecified state \<open>'s\<close> of the
  operating system; what their manual documents is the locale \<open>udp_sockets\<close>. A call that may
  block gives \<open>None\<close> when it never returns.
\<close>

definition AF_INET :: int where "AF_INET = 2"
definition INADDR_ANY :: u32 where "INADDR_ANY = 0"
definition MSG_PEEK :: int where "MSG_PEEK = 2"
definition MSG_DONTWAIT :: int where "MSG_DONTWAIT = 64"
definition EINTR :: int where "EINTR = 4"
definition EAGAIN :: int where "EAGAIN = 11"

text \<open>\<open>htons\<close> on a little-endian machine.\<close>

definition htons :: "u16 \<Rightarrow> u16" where
  "htons p = push_bit 8 p OR drop_bit 8 p"

record sockaddr_in =
  sin_family :: int
  sin_port :: u16
  sin_addr :: u32

text \<open>The socket options that the class sets, with their values.\<close>

datatype sockopt = SO_REUSEADDR int | IP_ADD_MEMBERSHIP u32 u32 | IP_MULTICAST_IF u32

text \<open>The calls return the value of the C function, with errno where the class looks at it.\<close>

record 's socket_api =
  sys_socket :: "'s \<Rightarrow> int \<times> 's"
  sys_setsockopt :: "int \<Rightarrow> sockopt \<Rightarrow> 's \<Rightarrow> int \<times> 's"
  sys_bind :: "int \<Rightarrow> sockaddr_in \<Rightarrow> 's \<Rightarrow> int \<times> 's"
  sys_sendto :: "int \<Rightarrow> bytes \<Rightarrow> int \<Rightarrow> sockaddr_in \<Rightarrow> 's \<Rightarrow> int \<times> int \<times> 's"
  sys_recv :: "int \<Rightarrow> int \<Rightarrow> 's \<Rightarrow> (int \<times> int \<times> 's) option"
  sys_closesocket :: "int \<Rightarrow> 's \<Rightarrow> 's"
  sys_inet_addr :: "string \<Rightarrow> u32"

section \<open>The class\<close>

record MulticastUdpNotification =
  udp_sd :: int
  udp_sendSockAddr :: sockaddr_in

definition mk_MulticastUdpNotification ::
    "'s socket_api \<Rightarrow> string \<Rightarrow> u16 \<Rightarrow> string \<Rightarrow> 's \<Rightarrow> MulticastUdpNotification result \<times> 's" where
  "mk_MulticastUdpNotification api mcastIp port localIf s =
     (case sys_socket api s of (sd, s1) \<Rightarrow>
      if sd < 0 then (Inl (Thrown ''Error opening UdpReader error''), s1)
      else (case sys_setsockopt api sd (SO_REUSEADDR 1) s1 of (r1, s2) \<Rightarrow>
      if r1 < 0 then (Inl (Thrown ''Setting SO_REUSEADDR error''), sys_closesocket api sd s2)
      else (case sys_bind api sd \<lparr> sin_family = AF_INET, sin_port = htons port, sin_addr = INADDR_ANY \<rparr> s2 of (r2, s3) \<Rightarrow>
      if r2 \<noteq> 0 then (Inl (Thrown ''Binding datagram socket error''), sys_closesocket api sd s3)
      else (case sys_setsockopt api sd (IP_ADD_MEMBERSHIP (sys_inet_addr api mcastIp) (sys_inet_addr api localIf)) s3 of (r3, s4) \<Rightarrow>
      if r3 < 0 then (Inl (Thrown ''Adding multicast group error''), sys_closesocket api sd s4)
      else (case sys_setsockopt api sd (IP_MULTICAST_IF (sys_inet_addr api localIf)) s4 of (r4, s5) \<Rightarrow>
      if r4 < 0 then (Inl (Thrown ''Error setting local interface error''), sys_closesocket api sd s5)
      else (Inr \<lparr> udp_sd = sd, udp_sendSockAddr = \<lparr> sin_family = AF_INET, sin_port = htons port,
                    sin_addr = sys_inet_addr api mcastIp \<rparr> \<rparr>, s5))))))"

definition Send :: "'s socket_api \<Rightarrow> MulticastUdpNotification \<Rightarrow> 's \<Rightarrow> unit result \<times> 's" where
  "Send api n s =
     (case sys_sendto api (udp_sd n) [] MSG_DONTWAIT (udp_sendSockAddr n) s of (r, errno, s') \<Rightarrow>
        (if r < 0 then Inl (Thrown (''Error sending. errno='' @ std_to_string errno)) else Inr (), s'))"

text \<open>The loop of \<open>Wait\<close> and of \<open>Peek\<close>: receive again while a signal interrupts the call.\<close>

partial_function (option) recv_loop ::
    "'s socket_api \<Rightarrow> int \<Rightarrow> int \<Rightarrow> 's \<Rightarrow> (int \<times> int \<times> 's) option" where
  "recv_loop api sd flags s =
     (case sys_recv api sd flags s of
        None \<Rightarrow> None
      | Some (res, errno, s') \<Rightarrow>
          if res < 0 \<and> errno = EINTR then recv_loop api sd flags s' else Some (res, errno, s'))"

declare recv_loop.simps [code]

definition Wait :: "'s socket_api \<Rightarrow> MulticastUdpNotification \<Rightarrow> 's \<Rightarrow> (unit result \<times> 's) option" where
  "Wait api n s =
     map_option (\<lambda>(res, errno, s'). (if res < 0 then Inl (Thrown ''Error read '') else Inr (), s'))
       (recv_loop api (udp_sd n) 0 s)"

definition Peek :: "'s socket_api \<Rightarrow> MulticastUdpNotification \<Rightarrow> 's \<Rightarrow> (bool \<times> 's) option" where
  "Peek api n s =
     map_option (\<lambda>(res, errno, s'). (res = 0 \<or> (res < 0 \<and> errno \<noteq> EAGAIN), s'))
       (recv_loop api (udp_sd n) (MSG_DONTWAIT OR MSG_PEEK) s)"

definition GetSd :: "MulticastUdpNotification \<Rightarrow> int" where
  "GetSd n = udp_sd n"

definition udp_destroy :: "'s socket_api \<Rightarrow> MulticastUdpNotification \<Rightarrow> 's \<Rightarrow> 's" where
  "udp_destroy api n s = sys_closesocket api (udp_sd n) s"

section \<open>The documented behaviour of the socket calls\<close>

text \<open>
  The settings of an open socket. The number of datagrams that wait at a socket is kept apart,
  since it may grow at any time; so is the number of signals still to be delivered, each of
  which interrupts at most one call.
\<close>

record socket_settings =
  so_reuse :: bool
  so_name :: "sockaddr_in option"
  so_groups :: "(u32 \<times> u32) list"
  so_interface :: "u32 option"

definition fresh_socket :: socket_settings where
  "fresh_socket = \<lparr> so_reuse = False, so_name = None, so_groups = [], so_interface = None \<rparr>"

fun set_option :: "sockopt \<Rightarrow> socket_settings \<Rightarrow> socket_settings" where
  "set_option (SO_REUSEADDR v) so = so\<lparr>so_reuse := v \<noteq> 0\<rparr>"
| "set_option (IP_ADD_MEMBERSHIP g i) so = so\<lparr>so_groups := (g, i) # so_groups so\<rparr>"
| "set_option (IP_MULTICAST_IF i) so = so\<lparr>so_interface := Some i\<rparr>"

text \<open>
  A failure of \<open>recv\<close> that no signal explains: from a state that is like \<open>s\<close> but for signals
  already taken and datagrams that have arrived, one call of it fails with another errno.
\<close>

definition recv_failed ::
    "'s socket_api \<Rightarrow> ('s \<Rightarrow> int \<Rightarrow> socket_settings option) \<Rightarrow> ('s \<Rightarrow> int \<Rightarrow> nat) \<Rightarrow> int \<Rightarrow> int \<Rightarrow> 's \<Rightarrow> int \<Rightarrow> 's \<Rightarrow> bool" where
  "recv_failed api settings waiting sd flags s errno s' \<longleftrightarrow> errno \<noteq> EINTR \<and>
     (\<exists>s0 res. settings s0 = settings s \<and> waiting s sd \<le> waiting s0 sd \<and>
        sys_recv api sd flags s0 = Some (res, errno, s') \<and> res < 0)"

locale udp_sockets =
  fixes api :: "'s socket_api" and settings :: "'s \<Rightarrow> int \<Rightarrow> socket_settings option"
    and waiting :: "'s \<Rightarrow> int \<Rightarrow> nat" and signals :: "'s \<Rightarrow> nat"
  assumes socket_opens: "sys_socket api s = (sd, s') \<Longrightarrow>
      sd < 0 \<and> settings s' = settings s \<or>
      0 \<le> sd \<and> settings s sd = None \<and> settings s' = (settings s)(sd \<mapsto> fresh_socket)"
    and setsockopt_sets: "settings s sd = Some so \<Longrightarrow> sys_setsockopt api sd opt s = (r, s') \<Longrightarrow>
      r < 0 \<and> settings s' = settings s \<or> r = 0 \<and> settings s' = (settings s)(sd \<mapsto> set_option opt so)"
    and bind_names: "settings s sd = Some so \<Longrightarrow> sys_bind api sd addr s = (r, s') \<Longrightarrow>
      r < 0 \<and> settings s' = settings s \<or> r = 0 \<and> settings s' = (settings s)(sd \<mapsto> so\<lparr>so_name := Some addr\<rparr>)"
    and close_frees: "settings (sys_closesocket api sd s) = (settings s)(sd := None)"
    and recv_keeps: "sys_recv api sd flags s = Some (res, errno, s') \<Longrightarrow> settings s' = settings s"
    and recv_size: "sys_recv api sd flags s = Some (res, errno, s') \<Longrightarrow> res \<le> 0"
    and recv_interrupted: "sys_recv api sd flags s = Some (res, errno, s') \<Longrightarrow> res < 0 \<Longrightarrow> errno = EINTR \<Longrightarrow>
      signals s' < signals s \<and> waiting s sd \<le> waiting s' sd"
    and recv_takes: "sys_recv api sd 0 s = Some (res, errno, s') \<Longrightarrow> 0 \<le> res \<Longrightarrow> waiting s sd \<le> Suc (waiting s' sd)"
    and recv_blocks: "sys_recv api sd 0 s = None \<Longrightarrow> waiting s sd = 0"
    and peek_returns: "sys_recv api sd (MSG_DONTWAIT OR MSG_PEEK) s \<noteq> None"
    and peek_keeps: "sys_recv api sd (MSG_DONTWAIT OR MSG_PEEK) s = Some (res, errno, s') \<Longrightarrow> waiting s sd \<le> waiting s' sd"
    and peek_finds: "sys_recv api sd (MSG_DONTWAIT OR MSG_PEEK) s = Some (res, errno, s') \<Longrightarrow> 0 \<le> res \<Longrightarrow> 0 < waiting s' sd"
    and peek_misses: "sys_recv api sd (MSG_DONTWAIT OR MSG_PEEK) s = Some (res, errno, s') \<Longrightarrow> res < 0 \<Longrightarrow> errno = EAGAIN \<Longrightarrow>
      waiting s sd = 0"
begin

lemma setsockopt_cases:
  assumes "settings s = v(sd \<mapsto> so)" "sys_setsockopt api sd opt s = (r, s')"
  obtains "r < 0" "settings s' = v(sd \<mapsto> so)" | "r = 0" "settings s' = v(sd \<mapsto> set_option opt so)"
  using setsockopt_sets [of s sd so opt r s'] assms by auto

lemma bind_cases:
  assumes "settings s = v(sd \<mapsto> so)" "sys_bind api sd addr s = (r, s')"
  obtains "r < 0" "settings s' = v(sd \<mapsto> so)" | "r = 0" "settings s' = v(sd \<mapsto> so\<lparr>so_name := Some addr\<rparr>)"
  using bind_names [of s sd so addr r s'] assms by auto

lemma close_new: "settings s = v(sd \<mapsto> so) \<Longrightarrow> v sd = None \<Longrightarrow> settings (sys_closesocket api sd s) = v"
  by (simp add: close_frees fun_upd_idem)

lemma constructor_outcome:
  assumes mk: "mk_MulticastUdpNotification api mcastIp port localIf s = (r, s')"
  shows "case r of
      Inl e \<Rightarrow> settings s' = settings s
    | Inr n \<Rightarrow> settings s (udp_sd n) = None \<and> 0 \<le> udp_sd n
        \<and> udp_sendSockAddr n = \<lparr> sin_family = AF_INET, sin_port = htons port, sin_addr = sys_inet_addr api mcastIp \<rparr>
        \<and> settings s' = (settings s)(udp_sd n \<mapsto>
            \<lparr> so_reuse = True, so_name = Some \<lparr> sin_family = AF_INET, sin_port = htons port, sin_addr = INADDR_ANY \<rparr>,
              so_groups = [(sys_inet_addr api mcastIp, sys_inet_addr api localIf)],
              so_interface = Some (sys_inet_addr api localIf) \<rparr>)"
proof -
  let ?v = "settings s"
  obtain sd s1 where c1: "sys_socket api s = (sd, s1)" by fastforce
  obtain r1 s2 where c2: "sys_setsockopt api sd (SO_REUSEADDR 1) s1 = (r1, s2)" by fastforce
  obtain r2 s3 where c3: "sys_bind api sd \<lparr> sin_family = AF_INET, sin_port = htons port, sin_addr = INADDR_ANY \<rparr> s2 = (r2, s3)"
    by fastforce
  obtain r3 s4 where c4: "sys_setsockopt api sd (IP_ADD_MEMBERSHIP (sys_inet_addr api mcastIp) (sys_inet_addr api localIf)) s3 = (r3, s4)"
    by fastforce
  obtain r4 s5 where c5: "sys_setsockopt api sd (IP_MULTICAST_IF (sys_inet_addr api localIf)) s4 = (r4, s5)" by fastforce
  note def = mk_MulticastUdpNotification_def c1 c2 c3 c4 c5
  from socket_opens [OF c1] show ?thesis
  proof (elim disjE conjE)
    assume "sd < 0" "settings s1 = ?v"
    then show ?thesis using mk by (auto simp: def)
  next
    assume sd: "0 \<le> sd" "?v sd = None" and v1: "settings s1 = ?v(sd \<mapsto> fresh_socket)"
    have closed: "settings (sys_closesocket api sd t) = ?v" if "settings t = ?v(sd \<mapsto> so)" for t so
      using close_new [OF that] sd(2) by simp
    from v1 c2 show ?thesis
    proof (cases rule: setsockopt_cases)
      case 1
      then show ?thesis using mk sd(1) closed [OF 1(2)] by (auto simp: def)
    next
      case ok1: 2
      from ok1(2) c3 show ?thesis
      proof (cases rule: bind_cases)
        case 1
        then show ?thesis using mk sd(1) ok1(1) closed [OF 1(2)] by (auto simp: def)
      next
        case ok2: 2
        from ok2(2) c4 show ?thesis
        proof (cases rule: setsockopt_cases)
          case 1
          then show ?thesis using mk sd(1) ok1(1) ok2(1) closed [OF 1(2)] by (auto simp: def)
        next
          case ok3: 2
          from ok3(2) c5 show ?thesis
          proof (cases rule: setsockopt_cases)
            case 1
            then show ?thesis using mk sd(1) ok1(1) ok2(1) ok3(1) closed [OF 1(2)] by (auto simp: def)
          next
            case 2
            then show ?thesis using mk sd ok1(1) ok2(1) ok3(1) by (auto simp: def fresh_socket_def)
          qed
        qed
      qed
    qed
  qed
qed

text \<open>The loops end since every interruption uses up a signal.\<close>

lemma recv_failed_later:
  assumes "recv_failed api settings waiting sd flags s1 errno s'"
    and "settings s1 = settings s" "waiting s sd \<le> waiting s1 sd"
  shows "recv_failed api settings waiting sd flags s errno s'"
  using assms unfolding recv_failed_def by (metis order_trans)

lemma recv_failed_now:
  assumes "sys_recv api sd flags s = Some (res, errno, s')" "res < 0" "errno \<noteq> EINTR"
  shows "recv_failed api settings waiting sd flags s errno s'"
  using assms unfolding recv_failed_def by blast

lemma recv_loop_again:
  assumes "sys_recv api sd flags s = Some (res, errno, s1)" "res < 0" "errno = EINTR"
  shows "recv_loop api sd flags s = recv_loop api sd flags s1"
  using assms by (subst recv_loop.simps) simp

lemma recv_loop_ends:
  assumes "sys_recv api sd flags s = Some (res, errno, s1)" "\<not> (res < 0 \<and> errno = EINTR)"
  shows "recv_loop api sd flags s = Some (res, errno, s1)"
  using assms by (subst recv_loop.simps) auto

lemma recv_loop_peek:
  "\<exists>res errno s'. recv_loop api sd (MSG_DONTWAIT OR MSG_PEEK) s = Some (res, errno, s') \<and> settings s' = settings s
    \<and> waiting s sd \<le> waiting s' sd \<and> res \<le> 0 \<and> (res = 0 \<longrightarrow> 0 < waiting s' sd)
    \<and> (res < 0 \<longrightarrow> recv_failed api settings waiting sd (MSG_DONTWAIT OR MSG_PEEK) s errno s')
    \<and> (res < 0 \<longrightarrow> errno = EAGAIN \<longrightarrow> waiting s sd = 0)"
proof (induction "signals s" arbitrary: s rule: less_induct)
  case less
  obtain res errno s1 where c: "sys_recv api sd (MSG_DONTWAIT OR MSG_PEEK) s = Some (res, errno, s1)"
    using peek_returns [of sd s] by auto
  note keeps = recv_keeps [OF c] recv_size [OF c] peek_keeps [OF c]
  show ?case
  proof (cases "res < 0 \<and> errno = EINTR")
    case True
    then have again: "recv_loop api sd (MSG_DONTWAIT OR MSG_PEEK) s = recv_loop api sd (MSG_DONTWAIT OR MSG_PEEK) s1"
      using recv_loop_again [OF c] by simp
    from True have "signals s1 < signals s" using recv_interrupted [OF c] by simp
    from less [OF this] obtain res errno s' where
      "recv_loop api sd (MSG_DONTWAIT OR MSG_PEEK) s1 = Some (res, errno, s')" "settings s' = settings s1"
      "waiting s1 sd \<le> waiting s' sd" "res \<le> 0" "res = 0 \<longrightarrow> 0 < waiting s' sd"
      "res < 0 \<longrightarrow> recv_failed api settings waiting sd (MSG_DONTWAIT OR MSG_PEEK) s1 errno s'"
      "res < 0 \<longrightarrow> errno = EAGAIN \<longrightarrow> waiting s1 sd = 0" by blast
    with keeps recv_failed_later [OF _ keeps(1,3)] show ?thesis unfolding again by auto
  next
    case False
    then show ?thesis using recv_loop_ends [OF c] keeps peek_finds [OF c] peek_misses [OF c] recv_failed_now [OF c] by auto
  qed
qed

lemma recv_loop_wait:
  assumes "0 < waiting s sd"
  shows "\<exists>res errno s'. recv_loop api sd 0 s = Some (res, errno, s') \<and> settings s' = settings s
    \<and> res \<le> 0 \<and> (res = 0 \<longrightarrow> waiting s sd \<le> Suc (waiting s' sd))
    \<and> (res < 0 \<longrightarrow> recv_failed api settings waiting sd 0 s errno s')"
  using assms
proof (induction "signals s" arbitrary: s rule: less_induct)
  case less
  obtain res errno s1 where c: "sys_recv api sd 0 s = Some (res, errno, s1)"
    using recv_blocks [of sd s] less.prems by (cases "sys_recv api sd 0 s") auto
  note keeps = recv_keeps [OF c] recv_size [OF c]
  show ?case
  proof (cases "res < 0 \<and> errno = EINTR")
    case True
    then have again: "recv_loop api sd 0 s = recv_loop api sd 0 s1" using recv_loop_again [OF c] by simp
    from True have fewer: "signals s1 < signals s" "waiting s sd \<le> waiting s1 sd" using recv_interrupted [OF c] by simp_all
    from less.hyps [OF fewer(1)] less.prems fewer(2) obtain res errno s' where
      "recv_loop api sd 0 s1 = Some (res, errno, s')" "settings s' = settings s1" "res \<le> 0"
      "res = 0 \<longrightarrow> waiting s1 sd \<le> Suc (waiting s' sd)" "res < 0 \<longrightarrow> recv_failed api settings waiting sd 0 s1 errno s'"
      by auto
    with keeps fewer(2) recv_failed_later [OF _ keeps(1) fewer(2)] show ?thesis unfolding again by auto
  next
    case False
    then show ?thesis using recv_loop_ends [OF c] keeps recv_takes [OF c] recv_failed_now [OF c] by auto
  qed
qed

end

section \<open>A machine with sockets\<close>

text \<open>
  The sockets ever opened with their settings and waiting datagrams, and the signals that are
  still to come. A datagram to a group reaches every socket of the port that has joined it.
\<close>

record udp_net =
  net_sockets :: "(socket_settings \<times> nat) option list"
  net_signals :: nat

definition net_socket :: "udp_net \<Rightarrow> int \<Rightarrow> (socket_settings \<times> nat) option" where
  "net_socket s sd = (if 0 \<le> sd \<and> nat sd < length (net_sockets s) then net_sockets s ! nat sd else None)"

definition net_put :: "int \<Rightarrow> (socket_settings \<times> nat) option \<Rightarrow> udp_net \<Rightarrow> udp_net" where
  "net_put sd x s = (if 0 \<le> sd then s\<lparr>net_sockets := (net_sockets s)[nat sd := x]\<rparr> else s)"

definition net_settings :: "udp_net \<Rightarrow> int \<Rightarrow> socket_settings option" where
  "net_settings s sd = map_option fst (net_socket s sd)"

definition net_waiting :: "udp_net \<Rightarrow> int \<Rightarrow> nat" where
  "net_waiting s sd = (case net_socket s sd of None \<Rightarrow> 0 | Some (so, n) \<Rightarrow> n)"

text \<open>A group address begins with 224 to 239, which is the low byte of its network order.\<close>

fun option_allowed :: "sockopt \<Rightarrow> bool" where
  "option_allowed (IP_ADD_MEMBERSHIP g i) = (g AND 0xF0 = 0xE0)"
| "option_allowed _ = True"

definition net_setsockopt :: "int \<Rightarrow> sockopt \<Rightarrow> udp_net \<Rightarrow> int \<times> udp_net" where
  "net_setsockopt sd opt s =
     (case net_socket s sd of
        Some (so, n) \<Rightarrow> if option_allowed opt then (0, net_put sd (Some (set_option opt so, n)) s) else (-1, s)
      | None \<Rightarrow> (-1, s))"

definition net_bind :: "int \<Rightarrow> sockaddr_in \<Rightarrow> udp_net \<Rightarrow> int \<times> udp_net" where
  "net_bind sd addr s =
     (case net_socket s sd of
        Some (so, n) \<Rightarrow>
          if list_ex (\<lambda>x. case x of None \<Rightarrow> False | Some (so', _) \<Rightarrow>
                so_name so' = Some addr \<and> \<not> (so_reuse so \<and> so_reuse so')) (net_sockets s)
          then (-1, s) else (0, net_put sd (Some (so\<lparr>so_name := Some addr\<rparr>, n)) s)
      | None \<Rightarrow> (-1, s))"

definition net_sendto :: "int \<Rightarrow> bytes \<Rightarrow> int \<Rightarrow> sockaddr_in \<Rightarrow> udp_net \<Rightarrow> int \<times> int \<times> udp_net" where
  "net_sendto sd payload flags addr s =
     (if net_socket s sd = None then (-1, 9, s)
      else (int (length payload), 0, s\<lparr>net_sockets := map (map_option (\<lambda>(so, n).
        (so, if map_option sin_port (so_name so) = Some (sin_port addr) \<and> sin_addr addr \<in> set (map fst (so_groups so))
             then Suc n else n))) (net_sockets s)\<rparr>))"

definition net_recv :: "int \<Rightarrow> int \<Rightarrow> udp_net \<Rightarrow> (int \<times> int \<times> udp_net) option" where
  "net_recv sd flags s =
     (if 0 < net_signals s then Some (-1, EINTR, s\<lparr>net_signals := net_signals s - 1\<rparr>)
      else case net_socket s sd of
        None \<Rightarrow> Some (-1, 9, s)
      | Some (so, 0) \<Rightarrow> if flags = MSG_DONTWAIT OR MSG_PEEK then Some (-1, EAGAIN, s) else None
      | Some (so, Suc n) \<Rightarrow>
          if flags = MSG_DONTWAIT OR MSG_PEEK then Some (0, 0, s) else Some (0, 0, net_put sd (Some (so, n)) s))"

definition net_api :: "udp_net socket_api" where
  "net_api = \<lparr> sys_socket = (\<lambda>s. (int (length (net_sockets s)), s\<lparr>net_sockets := net_sockets s @ [Some (fresh_socket, 0)]\<rparr>)),
     sys_setsockopt = net_setsockopt, sys_bind = net_bind, sys_sendto = net_sendto, sys_recv = net_recv,
     sys_closesocket = (\<lambda>sd. net_put sd None),
     sys_inet_addr = (\<lambda>a. if a = ''224.1.1.1'' then 0x010101E0 else if a = ''226.1.1.1'' then 0x010101E2
       else if a = ''127.0.0.1'' then 0x0100007F else 0xFFFFFFFF) \<rparr>"

lemma net_socket_put: "net_socket s sd \<noteq> None \<Longrightarrow> net_socket (net_put sd x s) = (net_socket s)(sd := x)"
  by (auto simp: net_socket_def net_put_def fun_eq_iff nth_list_update split: if_splits)

lemma net_socket_put_None: "net_socket (net_put sd None s) = (net_socket s)(sd := None)"
  by (auto simp: net_socket_def net_put_def fun_eq_iff nth_list_update split: if_splits)

lemma net_settings_put: "net_socket s sd \<noteq> None \<Longrightarrow> net_settings (net_put sd x s) = (net_settings s)(sd := map_option fst x)"
  by (auto simp: net_settings_def fun_eq_iff net_socket_put)

lemma net_settings_Some: "net_socket s sd = Some (so, n) \<Longrightarrow> net_settings s sd = Some so"
  by (simp add: net_settings_def)

lemma net_socket_signals [simp]: "net_socket (s\<lparr>net_signals := m\<rparr>) = net_socket s"
  by (simp add: net_socket_def fun_eq_iff)

lemma recv_simps:
  "sys_recv net_api = net_recv" "EINTR = 4" "EAGAIN = 11" "MSG_DONTWAIT OR MSG_PEEK = 66"
  "net_settings (s\<lparr>net_signals := m\<rparr>) = net_settings s" "net_waiting (s\<lparr>net_signals := m\<rparr>) = net_waiting s"
  "net_recv sd flags s =
     (if 0 < net_signals s then Some (-1, EINTR, s\<lparr>net_signals := net_signals s - 1\<rparr>)
      else case net_socket s sd of
        None \<Rightarrow> Some (-1, 9, s)
      | Some (so, n) \<Rightarrow>
          if n = 0 then (if flags = 66 then Some (-1, EAGAIN, s) else None)
          else if flags = 66 then Some (0, 0, s) else Some (0, 0, net_put sd (Some (so, n - 1)) s))"
  "net_waiting s sd = (case net_socket s sd of None \<Rightarrow> 0 | Some (so, n) \<Rightarrow> n)"
  "net_socket s sd \<noteq> None \<Longrightarrow> net_socket (net_put sd x s) = (net_socket s)(sd := x)"
  by (auto simp: net_api_def net_recv_def EINTR_def EAGAIN_def MSG_DONTWAIT_def MSG_PEEK_def net_settings_def fun_eq_iff
      net_waiting_def net_socket_put split: option.splits nat.splits)

interpretation net: udp_sockets net_api net_settings net_waiting net_signals
proof unfold_locales
  fix s s' sd assume "sys_socket net_api s = (sd, s')"
  then show "sd < 0 \<and> net_settings s' = net_settings s \<or>
      0 \<le> sd \<and> net_settings s sd = None \<and> net_settings s' = (net_settings s)(sd \<mapsto> fresh_socket)"
    by (auto simp: net_api_def net_settings_def net_socket_def fun_eq_iff nth_append)
next
  fix s s' sd so opt r assume "net_settings s sd = Some so" "sys_setsockopt net_api sd opt s = (r, s')"
  then show "r < 0 \<and> net_settings s' = net_settings s \<or> r = 0 \<and> net_settings s' = (net_settings s)(sd \<mapsto> set_option opt so)"
    by (auto simp: net_api_def net_setsockopt_def net_settings_def net_socket_put fun_eq_iff split: if_splits)
next
  fix s s' sd so addr r assume "net_settings s sd = Some so" "sys_bind net_api sd addr s = (r, s')"
  then show "r < 0 \<and> net_settings s' = net_settings s \<or> r = 0 \<and> net_settings s' = (net_settings s)(sd \<mapsto> so\<lparr>so_name := Some addr\<rparr>)"
    by (auto simp: net_api_def net_bind_def net_settings_def net_socket_put fun_eq_iff split: if_splits)
next
  fix s sd show "net_settings (sys_closesocket net_api sd s) = (net_settings s)(sd := None)"
    by (auto simp: net_api_def net_settings_def net_socket_put_None fun_eq_iff)
qed (auto simp: recv_simps net_settings_put net_settings_Some fun_eq_iff split: if_splits option.splits nat.splits)

section \<open>Properties\<close>

text \<open>
  C29: Setting up a notification. On every machine whose socket calls behave as documented, the
  constructor either throws and leaves exactly the sockets open that were open before, or
  returns an object that owns one new socket, shared, named with the port, member of the
  group and sending on the local interface; the destructor gives that socket back.
\<close>

theorem notification_setup:
  assumes "udp_sockets api settings waiting signals"
    and "mk_MulticastUdpNotification api mcastIp port localIf s = (r, s')"
  shows "case r of
      Inl e \<Rightarrow> settings s' = settings s
    | Inr n \<Rightarrow> settings s (GetSd n) = None \<and> 0 \<le> GetSd n
        \<and> udp_sendSockAddr n = \<lparr> sin_family = AF_INET, sin_port = htons port, sin_addr = sys_inet_addr api mcastIp \<rparr>
        \<and> settings s' = (settings s)(GetSd n \<mapsto>
            \<lparr> so_reuse = True, so_name = Some \<lparr> sin_family = AF_INET, sin_port = htons port, sin_addr = INADDR_ANY \<rparr>,
              so_groups = [(sys_inet_addr api mcastIp, sys_inet_addr api localIf)],
              so_interface = Some (sys_inet_addr api localIf) \<rparr>)
        \<and> settings (udp_destroy api n s') = settings s"
  using udp_sockets.constructor_outcome [OF assms] udp_sockets.close_new [OF assms(1)]
  by (auto simp: GetSd_def udp_destroy_def split: sum.splits)

definition quiet_net :: udp_net where
  "quiet_net = \<lparr> net_sockets = [], net_signals = 0 \<rparr>"

theorem notification_setup_witness:
  "fst (mk_MulticastUdpNotification net_api ''10.0.0.1'' 3334 ''127.0.0.1'' quiet_net)
      = Inl (Thrown ''Adding multicast group error'')
   \<and> net_settings (snd (mk_MulticastUdpNotification net_api ''10.0.0.1'' 3334 ''127.0.0.1'' quiet_net)) = net_settings quiet_net
   \<and> (\<exists>n s'. mk_MulticastUdpNotification net_api ''224.1.1.1'' 3334 ''127.0.0.1'' quiet_net = (Inr n, s')
        \<and> net_settings (udp_destroy net_api n s') = net_settings quiet_net)"
proof -
  have bad: "fst (mk_MulticastUdpNotification net_api ''10.0.0.1'' 3334 ''127.0.0.1'' quiet_net)
      = Inl (Thrown ''Adding multicast group error'')"
    by code_simp
  have "\<not> isl (fst (mk_MulticastUdpNotification net_api ''224.1.1.1'' 3334 ''127.0.0.1'' quiet_net))"
    by code_simp
  then obtain n s' where good: "mk_MulticastUdpNotification net_api ''224.1.1.1'' 3334 ''127.0.0.1'' quiet_net = (Inr n, s')"
    by (metis prod.collapse sum.collapse(2))
  show ?thesis
    using bad notification_setup [OF net.udp_sockets_axioms good]
      notification_setup [OF net.udp_sockets_axioms prod.collapse [symmetric],
        of "''10.0.0.1''" 3334 "''127.0.0.1''" quiet_net] good
    by simp
qed

text \<open>
  C28: No notification is missed and no signal is taken for one. Whatever signals interrupt the
  calls, Peek returns and keeps every waiting notification; it answers False only if none was
  waiting when it was called, and True only if one is waiting or the recv itself failed, with
  an errno that is neither EINTR nor EAGAIN. If a notification is waiting, Wait returns too: it
  has taken one notification at most, or it throws because the recv itself failed, with an
  errno that is not EINTR.
\<close>

theorem notification_not_missed:
  assumes "udp_sockets api settings waiting signals"
  shows "(\<exists>found s'. Peek api n s = Some (found, s') \<and> settings s' = settings s
      \<and> waiting s (GetSd n) \<le> waiting s' (GetSd n) \<and> (\<not> found \<longrightarrow> waiting s (GetSd n) = 0)
      \<and> (found \<longrightarrow> 0 < waiting s' (GetSd n)
          \<or> (\<exists>errno. errno \<noteq> EAGAIN \<and> recv_failed api settings waiting (GetSd n) (MSG_DONTWAIT OR MSG_PEEK) s errno s')))
    \<and> (0 < waiting s (GetSd n) \<longrightarrow> (\<exists>r s'. Wait api n s = Some (r, s') \<and> settings s' = settings s
      \<and> (r = Inr () \<and> waiting s (GetSd n) \<le> Suc (waiting s' (GetSd n))
        \<or> r = Inl (Thrown ''Error read '') \<and> (\<exists>errno. recv_failed api settings waiting (GetSd n) 0 s errno s'))))"
proof (intro conjI impI)
  obtain res errno s' where "recv_loop api (udp_sd n) (MSG_DONTWAIT OR MSG_PEEK) s = Some (res, errno, s')"
      "settings s' = settings s" "waiting s (udp_sd n) \<le> waiting s' (udp_sd n)"
      "res = 0 \<and> 0 < waiting s' (udp_sd n) \<or>
       res < 0 \<and> recv_failed api settings waiting (udp_sd n) (MSG_DONTWAIT OR MSG_PEEK) s errno s' \<and>
       (errno = EAGAIN \<longrightarrow> waiting s (udp_sd n) = 0)"
    using udp_sockets.recv_loop_peek [OF assms, of "udp_sd n" s] by force
  then show "\<exists>found s'. Peek api n s = Some (found, s') \<and> settings s' = settings s
      \<and> waiting s (GetSd n) \<le> waiting s' (GetSd n) \<and> (\<not> found \<longrightarrow> waiting s (GetSd n) = 0)
      \<and> (found \<longrightarrow> 0 < waiting s' (GetSd n)
          \<or> (\<exists>errno. errno \<noteq> EAGAIN \<and> recv_failed api settings waiting (GetSd n) (MSG_DONTWAIT OR MSG_PEEK) s errno s'))"
    by (auto simp: Peek_def GetSd_def)
next
  assume "0 < waiting s (GetSd n)"
  then obtain res errno s' where "recv_loop api (udp_sd n) 0 s = Some (res, errno, s')" "settings s' = settings s"
      "res = 0 \<and> waiting s (udp_sd n) \<le> Suc (waiting s' (udp_sd n)) \<or>
       res < 0 \<and> recv_failed api settings waiting (udp_sd n) 0 s errno s'"
    using udp_sockets.recv_loop_wait [OF assms, of s "udp_sd n"] unfolding GetSd_def by force
  then show "\<exists>r s'. Wait api n s = Some (r, s') \<and> settings s' = settings s
      \<and> (r = Inr () \<and> waiting s (GetSd n) \<le> Suc (waiting s' (GetSd n))
        \<or> r = Inl (Thrown ''Error read '') \<and> (\<exists>errno. recv_failed api settings waiting (GetSd n) 0 s errno s'))"
    by (auto simp: Wait_def GetSd_def)
qed

text \<open>A second process that has sent twice, and three signals on their way.\<close>

definition notified_net :: udp_net where
  "notified_net =
     (let (n1, s1) = mk_MulticastUdpNotification net_api ''224.1.1.1'' 3334 ''127.0.0.1'' quiet_net;
          (n2, s2) = mk_MulticastUdpNotification net_api ''224.1.1.1'' 3334 ''127.0.0.1'' s1;
          send = (\<lambda>s. case n2 of Inl e \<Rightarrow> s | Inr n \<Rightarrow> snd (Send net_api n s))
      in (send (send s2))\<lparr>net_signals := 3\<rparr>)"

lemma net_open_recv:
  assumes "net_settings s sd \<noteq> None" "net_waiting s sd \<noteq> 0"
  shows "\<not> recv_failed net_api net_settings net_waiting sd flags s errno s'"
  using assms by (auto simp: recv_failed_def recv_simps net_settings_def split: option.splits if_splits)

theorem notification_not_missed_witness:
  "\<exists>n s1 s2. udp_sd n = 0 \<and> net_signals notified_net = 3 \<and> net_waiting notified_net 0 = 2
    \<and> Peek net_api n notified_net = Some (True, s1) \<and> net_waiting s1 0 \<noteq> 0
    \<and> Wait net_api n notified_net = Some (Inr (), s2) \<and> net_waiting s2 0 \<noteq> 0"
proof -
  let ?n = "\<lparr> udp_sd = 0, udp_sendSockAddr = \<lparr> sin_family = AF_INET, sin_port = htons 3334, sin_addr = 0x010101E0 \<rparr> \<rparr>"
  have two: "net_waiting notified_net 0 = 2" "net_settings notified_net 0 \<noteq> None" "net_signals notified_net = 3"
    by code_simp+
  then have "\<not> recv_failed net_api net_settings net_waiting 0 flags notified_net errno s'" for flags errno s'
    by (intro net_open_recv) simp_all
  with notification_not_missed [OF net.udp_sockets_axioms, of ?n notified_net] two show ?thesis
    by (intro exI [of _ ?n]) (auto simp: GetSd_def)
qed

end
