(* ===== verification/MappedMemory.thy ===== *)
theory MappedMemory
  imports SharedMemory
begin

text \<open>
  What the mapped memory of traits/posix/sharedMemory.hpp is for: the bytes of the objects behind
  the pointers. The documentation of the system calls is extended by what POSIX says of mappings
  and of accesses through them; an access that ends in a signal has no result.
\<close>

section \<open>Mappings\<close>

record mapping =
  mp_obj :: nat
  mp_length :: nat
  mp_prot :: u32

definition resized :: "nat \<Rightarrow> bytes \<Rightarrow> bytes" where
  "resized n b = take n b @ replicate (n - length b) 0"

lemma length_resized [simp]: "length (resized n b) = n"
  by (simp add: resized_def)

lemma resized_same [simp]: "resized (length b) b = b"
  by (simp add: resized_def)

text \<open>
  \<open>maps\<close> gives the mapping that starts at an address, \<open>obj_bytes\<close> the contents of an object.
  POSIX promises neither that a mapping without PROT\_READ can be read nor the contrary.
\<close>

locale mapped_shm = posix_shm api view
  for api :: "'s shm_api" and view :: "'s \<Rightarrow> shm_view" +
  fixes maps :: "'s \<Rightarrow> u64 \<Rightarrow> mapping option" and obj_bytes :: "'s \<Rightarrow> nat \<Rightarrow> bytes"
    and load :: "'s \<Rightarrow> u64 \<Rightarrow> nat \<Rightarrow> bytes option" and store :: "'s \<Rightarrow> u64 \<Rightarrow> bytes \<Rightarrow> 's option"
  assumes bytes_size: "sv_sizes (view s) obj = Some n \<Longrightarrow> length (obj_bytes s obj) = n"
    and open_memory: "sys_shm_open api name oflag mode s = (fd, errno, s') \<Longrightarrow>
      maps s' = maps s \<and> (\<forall>obj. sv_sizes (view s) obj \<noteq> None \<longrightarrow> obj_bytes s' obj = obj_bytes s obj)"
    and truncate_memory: "sv_fds (view s) fd = Some (obj, w) \<Longrightarrow> sys_ftruncate api fd len s = (0, s') \<Longrightarrow>
      maps s' = maps s \<and> obj_bytes s' = (obj_bytes s)(obj := resized (unat len) (obj_bytes s obj))"
    and mmap_memory: "sys_mmap api len prot fd s = (Some p, s') \<Longrightarrow> sv_fds (view s) fd = Some (obj, w) \<Longrightarrow>
      maps s p = None \<and> maps s' = (maps s)(p \<mapsto> \<lparr> mp_obj = obj, mp_length = unat len, mp_prot = prot \<rparr>)
      \<and> obj_bytes s' = obj_bytes s"
    and close_memory: "maps (sys_close api fd s) = maps s" "obj_bytes (sys_close api fd s) = obj_bytes s"
    and store_mapped: "maps s p = Some m \<Longrightarrow> mp_prot m AND PROT_WRITE \<noteq> 0 \<Longrightarrow> i + length d \<le> mp_length m \<Longrightarrow>
      i + length d \<le> length (obj_bytes s (mp_obj m)) \<Longrightarrow>
      \<exists>s'. store s (p + of_nat i) d = Some s' \<and> view s' = view s \<and> maps s' = maps s
        \<and> obj_bytes s' = (obj_bytes s)(mp_obj m := patch i d (obj_bytes s (mp_obj m)))"
    and store_protected: "maps s p = Some m \<Longrightarrow> mp_prot m AND PROT_WRITE = 0 \<Longrightarrow> i < mp_length m \<Longrightarrow> d \<noteq> [] \<Longrightarrow>
      store s (p + of_nat i) d = None"
    and load_mapped: "maps s p = Some m \<Longrightarrow> mp_prot m AND PROT_READ \<noteq> 0 \<Longrightarrow> i + n \<le> mp_length m \<Longrightarrow>
      i + n \<le> length (obj_bytes s (mp_obj m)) \<Longrightarrow>
      load s (p + of_nat i) n = Some (take n (drop i (obj_bytes s (mp_obj m))))"
    and store_unmapped: "sys_munmap api p len s = (0, s') \<Longrightarrow> i < unat len \<Longrightarrow> d \<noteq> [] \<Longrightarrow>
      store s' (p + of_nat i) d = None"
begin

lemma closefd_memory: "maps (closefd api fd s) = maps s" "obj_bytes (closefd api fd s) = obj_bytes s"
  by (simp_all add: closefd_def close_memory)

lemma map_fd_memory:
  assumes "map_fd api name len prot isCreator fd s = (Inr shm, s')" "sv_fds (view s) fd = Some (obj, w)"
  shows "maps s (shm_ptr shm) = None \<and> shm_length shm = len \<and> obj_bytes s' = obj_bytes s
    \<and> maps s' = (maps s)(shm_ptr shm \<mapsto> \<lparr> mp_obj = obj, mp_length = unat len, mp_prot = prot \<rparr>)"
proof -
  obtain p s1 where p: "sys_mmap api len prot fd s = (Some p, s1)"
      "shm = mk_SharedMemory name p len isCreator" "s' = closefd api fd s1"
    using assms(1) by (auto simp: map_fd_def split: prod.splits option.splits)
  then show ?thesis using mmap_memory [OF p(1) assms(2)] by (simp add: mk_SharedMemory_def closefd_memory)
qed

lemma Open_memory:
  assumes "Open_flags api name len oflag prot s = (Inr shm, s')" "access_mode oflag"
  shows "\<exists>obj. sv_names (view s) name = Some obj \<and> maps s (shm_ptr shm) = None \<and> shm_length shm = len
    \<and> maps s' = (maps s)(shm_ptr shm \<mapsto> \<lparr> mp_obj = obj, mp_length = unat len, mp_prot = prot \<rparr>)
    \<and> (\<forall>x. sv_sizes (view s) x \<noteq> None \<longrightarrow> obj_bytes s' x = obj_bytes s x)"
proof -
  obtain fd errno s1 where op: "sys_shm_open api name oflag 0 s = (fd, errno, s1)" by (metis prod_cases3)
  then have fd: "fd \<noteq> -1" "map_fd api name len prot False fd s1 = (Inr shm, s')"
    using assms(1) by (auto simp: Open_flags_def split: if_splits)
  obtain obj where obj: "sv_names (view s) name = Some obj" "view s1 = opened obj (oflag = O_RDWR) fd (view s)"
    using open_plain [OF assms(2) op] fd(1) by blast
  have "sv_fds (view s1) fd = Some (obj, oflag = O_RDWR)" using obj(2) by (simp add: opened_def)
  from map_fd_memory [OF fd(2) this] open_memory [OF op] obj(1) show ?thesis by auto
qed

lemma CreateOrOpen_memory:
  assumes "CreateOrOpen_flags api name len mode oflag prot s = (Inr shm, s')" "access_mode oflag"
  shows "\<exists>obj. sv_names (view s') name = Some obj \<and> shm_length shm = len
    \<and> maps s' (shm_ptr shm) = Some \<lparr> mp_obj = obj, mp_length = unat len, mp_prot = prot \<rparr>
    \<and> (shm_isCreator shm \<longrightarrow> sv_sizes (view s') obj = Some (unat len) \<and> obj_bytes s' obj = replicate (unat len) 0)"
proof (cases "sv_names (view s) name")
  case (Some obj)
  from open_excl_bound [OF assms(2) Some] obtain errno s1
    where op: "sys_shm_open api name (O_CREAT OR O_EXCL OR oflag) mode s = (-1, errno, s1)" "view s1 = view s" by blast
  then have o: "Open_flags api name len oflag prot s1 = (Inr shm, s')"
    using assms(1) by (auto simp: CreateOrOpen_flags_def closefd_def split: if_splits prod.splits)
  have v: "view s' = view s1" "\<not> shm_isCreator shm"
    using Open_outcome [OF o assms(2)] by (auto simp: mk_SharedMemory_def)
  obtain obj' where "sv_names (view s1) name = Some obj'" "shm_length shm = len"
      "maps s' (shm_ptr shm) = Some \<lparr> mp_obj = obj', mp_length = unat len, mp_prot = prot \<rparr>"
    using Open_memory [OF o assms(2)] by auto
  then show ?thesis using v by simp
next
  case None
  obtain fd errno s1 where op: "sys_shm_open api name (O_CREAT OR O_EXCL OR oflag) mode s = (fd, errno, s1)"
    by (metis prod_cases3)
  have "fd \<noteq> -1"
    using open_excl_new [OF assms(2) None op] assms(1) op by (auto simp: CreateOrOpen_flags_def)
  then obtain obj where o: "sv_sizes (view s) obj = None"
      "view s1 = opened obj (oflag = O_RDWR) fd (created name obj (view s))"
    using open_excl_new [OF assms(2) None op] by blast
  obtain tr s2 where tr: "sys_ftruncate api fd len s1 = (tr, s2)" by fastforce
  have fd: "sv_fds (view s1) fd = Some (obj, oflag = O_RDWR)" using o(2) by (simp add: opened_def)
  have m: "tr \<noteq> -1" "map_fd api name len prot True fd s2 = (Inr shm, s')"
    using assms(1) op tr \<open>fd \<noteq> -1\<close> by (auto simp: CreateOrOpen_flags_def split: if_splits prod.splits)
  have s2: "tr = 0" "view s2 = (view s1)\<lparr>sv_sizes := (sv_sizes (view s1))(obj \<mapsto> unat len)\<rparr>"
    using ftruncate_sets [OF fd tr] m(1) by blast+
  have "length (obj_bytes s1 obj) = 0" by (rule bytes_size) (simp add: o(2) opened_def created_def)
  then have z: "obj_bytes s2 obj = replicate (unat len) 0"
    using truncate_memory [OF fd tr [unfolded s2(1)]] by (simp add: resized_def)
  have "sv_fds (view s2) fd = Some (obj, oflag = O_RDWR)" using fd s2(2) by simp
  note mm = map_fd_memory [OF m(2) this]
  have "view s' = (view s2)\<lparr>sv_fds := (sv_fds (view s2))(fd := None)\<rparr>"
    using map_fd_outcome [OF m(2) \<open>fd \<noteq> -1\<close>] by blast
  then have "sv_names (view s') name = Some obj" "sv_sizes (view s') obj = Some (unat len)"
    by (simp_all add: s2(2) o(2) opened_def created_def)
  then show ?thesis using mm z by simp
qed

lemma two_handles:
  assumes "CreateOrOpen_flags api name len mode O_RDWR PROT_WRITE s = (Inr shm1, s1)"
    and "Open_flags api name len2 O_RDONLY PROT_READ s1 = (Inr shm2, s2)"
    and "sv_names (view s1) name = Some obj" "sv_sizes (view s1) obj = Some n"
    and "i + length d \<le> n" "i + length d \<le> unat len" "i + length d \<le> unat len2"
  shows "\<exists>s3. store s2 (shm_ptr shm1 + of_nat i) d = Some s3
    \<and> load s3 (shm_ptr shm2 + of_nat i) (length d) = Some d
    \<and> (shm_isCreator shm1 \<longrightarrow> load s2 (shm_ptr shm2 + of_nat i) (length d) = Some (replicate (length d) 0))
    \<and> (d \<noteq> [] \<longrightarrow> store s2 (shm_ptr shm2 + of_nat i) d = None)
    \<and> (d \<noteq> [] \<and> fst (Unmap api shm1 s3) = Inr () \<longrightarrow> store (snd (Unmap api shm1 s3)) (shm_ptr shm1 + of_nat i) d = None)"
proof -
  have acc: "access_mode O_RDWR" "access_mode O_RDONLY" by (simp_all add: access_mode_def)
  have prot: "PROT_WRITE AND PROT_WRITE \<noteq> 0" "PROT_READ AND PROT_READ \<noteq> 0" "PROT_READ AND PROT_WRITE = 0"
    by (simp_all add: PROT_READ_def PROT_WRITE_def)
  let ?m1 = "\<lparr> mp_obj = obj, mp_length = unat len, mp_prot = PROT_WRITE \<rparr>"
    and ?m2 = "\<lparr> mp_obj = obj, mp_length = unat len2, mp_prot = PROT_READ \<rparr>"
  have 1: "maps s1 (shm_ptr shm1) = Some ?m1" "shm_length shm1 = len"
      "shm_isCreator shm1 \<Longrightarrow> obj_bytes s1 obj = replicate (unat len) 0"
    using CreateOrOpen_memory [OF assms(1) acc(1)] assms(3) by auto
  have 2: "maps s1 (shm_ptr shm2) = None" "maps s2 = (maps s1)(shm_ptr shm2 \<mapsto> ?m2)" "obj_bytes s2 obj = obj_bytes s1 obj"
    using Open_memory [OF assms(2) acc(2)] assms(3,4) by auto
  have m: "maps s2 (shm_ptr shm1) = Some ?m1" "maps s2 (shm_ptr shm2) = Some ?m2" using 1(1) 2(1,2) by auto
  have size: "length (obj_bytes s2 obj) = n" using bytes_size [OF assms(4)] 2(3) by simp
  obtain s3 where s3: "store s2 (shm_ptr shm1 + of_nat i) d = Some s3" "maps s3 = maps s2"
      "obj_bytes s3 obj = patch i d (obj_bytes s2 obj)"
    using store_mapped [OF m(1), of i d] assms(5,6) size prot(1) by auto
  have "load s3 (shm_ptr shm2 + of_nat i) (length d) = Some d"
    using load_mapped [of s3 "shm_ptr shm2" ?m2 i "length d"] m(2) s3(2,3) assms(5,7) size prot(2)
    by simp
  moreover have "load s2 (shm_ptr shm2 + of_nat i) (length d) = Some (replicate (length d) 0)" if "shm_isCreator shm1"
    using load_mapped [OF m(2), of i "length d"] 1(3) [OF that] 2(3) assms(5-7) size prot(2) by simp
  moreover have "store s2 (shm_ptr shm2 + of_nat i) d = None" if "d \<noteq> []"
    using store_protected [OF m(2), of i d] prot(3) assms(7) that by (cases d) auto
  moreover have "store s4 (shm_ptr shm1 + of_nat i) d = None" if "d \<noteq> []" "Unmap api shm1 s3 = (Inr (), s4)" for s4
  proof (rule store_unmapped)
    show "sys_munmap api (shm_ptr shm1) (shm_length shm1) s3 = (0, s4)"
      using that(2) by (auto simp: Unmap_def split: prod.splits if_splits)
    show "i < unat (shm_length shm1)" using 1(2) assms(6) that(1) by (cases d) auto
  qed (rule that(1))
  ultimately show ?thesis using s3(1) by (metis prod.collapse)
qed

end

section \<open>A POSIX system with memory\<close>

text \<open>
  The system of SharedMemory with the bytes of its objects in place of their sizes. The mapping
  number \<open>k\<close> starts at \<open>2 ^ 40 * (k + 1)\<close>; longer ones are refused, and so are accesses behind the
  end of the object.
\<close>

record mem_system =
  mm_names :: "(string \<times> nat) list"
  mm_bytes :: "bytes list"
  mm_fds :: "(nat \<times> bool) option list"
  mm_maps :: "mapping option list"

definition mm_files :: "mem_system \<Rightarrow> posix_files" where
  "mm_files s = \<lparr> pf_names = mm_names s, pf_sizes = map length (mm_bytes s), pf_fds = mm_fds s \<rparr>"

text \<open>The system after a call that leaves the mappings alone.\<close>

definition with_files :: "mem_system \<Rightarrow> posix_files \<Rightarrow> mem_system" where
  "with_files s f = s\<lparr> mm_names := pf_names f, mm_fds := pf_fds f,
     mm_bytes := map2 resized (pf_sizes f) (mm_bytes s @ replicate (length (pf_sizes f) - length (mm_bytes s)) []) \<rparr>"

definition lookup_map :: "mem_system \<Rightarrow> u64 \<Rightarrow> mapping option" where
  "lookup_map s a = (let k = unat (drop_bit 40 a) in if 0 < k \<and> k \<le> length (mm_maps s) then mm_maps s ! (k - 1) else None)"

definition mm_view_maps :: "mem_system \<Rightarrow> u64 \<Rightarrow> mapping option" where
  "mm_view_maps s p = (if take_bit 40 p = 0 then
     (case lookup_map s p of Some m \<Rightarrow> if mp_length m < 2 ^ 40 then Some m else None | None \<Rightarrow> None) else None)"

definition mm_obj_bytes :: "mem_system \<Rightarrow> nat \<Rightarrow> bytes" where
  "mm_obj_bytes s obj = (if obj < length (mm_bytes s) then mm_bytes s ! obj else [])"

definition mm_load :: "mem_system \<Rightarrow> u64 \<Rightarrow> nat \<Rightarrow> bytes option" where
  "mm_load s a n =
     (let i = unat (take_bit 40 a) in
      case lookup_map s a of
        None \<Rightarrow> None
      | Some m \<Rightarrow>
          if mp_prot m AND PROT_READ \<noteq> 0 \<and> i + n \<le> mp_length m \<and> i + n \<le> length (mm_obj_bytes s (mp_obj m))
          then Some (take n (drop i (mm_obj_bytes s (mp_obj m)))) else None)"

definition mm_store :: "mem_system \<Rightarrow> u64 \<Rightarrow> bytes \<Rightarrow> mem_system option" where
  "mm_store s a d =
     (let i = unat (take_bit 40 a) in
      case lookup_map s a of
        None \<Rightarrow> None
      | Some m \<Rightarrow>
          if mp_prot m AND PROT_WRITE \<noteq> 0 \<and> i + length d \<le> mp_length m
             \<and> i + length d \<le> length (mm_obj_bytes s (mp_obj m))
          then Some (s\<lparr>mm_bytes := (mm_bytes s)[mp_obj m := patch i d (mm_obj_bytes s (mp_obj m))]\<rparr>) else None)"

definition mm_mmap :: "u64 \<Rightarrow> u32 \<Rightarrow> int \<Rightarrow> mem_system \<Rightarrow> u64 option \<times> mem_system" where
  "mm_mmap len prot fd s =
     (case sv_fds (files_view (mm_files s)) fd of
        Some (obj, writable) \<Rightarrow>
          if len = 0 \<or> 2 ^ 40 \<le> len \<or> 64 \<le> length (mm_maps s) \<or> (prot AND PROT_WRITE \<noteq> 0 \<and> \<not> writable) then (None, s)
          else (Some (push_bit 40 (of_nat (length (mm_maps s) + 1))),
                s\<lparr>mm_maps := mm_maps s @ [Some \<lparr> mp_obj = obj, mp_length = unat len, mp_prot = prot \<rparr>]\<rparr>)
      | None \<Rightarrow> (None, s))"

definition mm_munmap :: "u64 \<Rightarrow> u64 \<Rightarrow> mem_system \<Rightarrow> int \<times> mem_system" where
  "mm_munmap p len s =
     (if p = 0 \<or> take_bit 40 p \<noteq> 0 \<or> 2 ^ 40 \<le> len then (-1, s)
      else (0, s\<lparr>mm_maps := (mm_maps s)[unat (drop_bit 40 p) - 1 := None]\<rparr>))"

lemma address_parts [simp]:
  fixes a :: u64
  shows "unat (drop_bit 40 a) = unat a div 2 ^ 40" "unat (take_bit 40 a) = unat a mod 2 ^ 40"
    and "take_bit 40 a = 0 \<longleftrightarrow> 2 ^ 40 dvd unat a" "a < 0x10000000000 \<longleftrightarrow> unat a < 0x10000000000"
proof -
  show "unat (drop_bit 40 a) = unat a div 2 ^ 40" by (simp add: drop_bit_eq_div unat_div)
  show t: "unat (take_bit 40 a) = unat a mod 2 ^ 40" by (simp add: take_bit_eq_mod unat_mod)
  show "take_bit 40 a = 0 \<longleftrightarrow> 2 ^ 40 dvd unat a" using t by (simp only: word_unat_eq_iff unat_0 dvd_eq_mod_eq_0)
  show "a < 0x10000000000 \<longleftrightarrow> unat a < 0x10000000000" by (simp add: word_less_nat_alt)
qed

lemma map_address:
  assumes "k < 2 ^ 20"
  shows "unat (push_bit 40 (of_nat k) :: u64) = 2 ^ 40 * k"
proof -
  have "push_bit 40 (of_nat k) = (of_nat (2 ^ 40 * k) :: u64)" by (simp add: push_bit_eq_mult)
  then show ?thesis using assms by (simp only:) (rule unat_of_nat_small, simp)
qed

definition mem_api :: "mem_system shm_api" where
  "mem_api = \<lparr>
     sys_shm_open = (\<lambda>name oflag mode s. case files_open name oflag mode (mm_files s) of (fd, errno, f) \<Rightarrow> (fd, errno, with_files s f)),
     sys_ftruncate = (\<lambda>fd len s. case files_ftruncate fd len (mm_files s) of (r, f) \<Rightarrow> (r, with_files s f)),
     sys_mmap = mm_mmap, sys_munmap = mm_munmap,
     sys_close = (\<lambda>fd s. with_files s (sys_close files_api fd (mm_files s))),
     sys_shm_unlink = (\<lambda>name s. case sys_shm_unlink files_api name (mm_files s) of (r, f) \<Rightarrow> (r, with_files s f)) \<rparr>"

lemma with_files_files [simp]:
  assumes "length (mm_bytes s) \<le> length (pf_sizes f)"
  shows "mm_files (with_files s f) = f"
  using assms by (cases f) (simp add: mm_files_def with_files_def map2_map_map [symmetric] list_eq_iff_nth_eq)

lemma with_files_maps [simp]: "mm_view_maps (with_files s f) = mm_view_maps s" "lookup_map (with_files s f) = lookup_map s"
  by (simp_all add: mm_view_maps_def lookup_map_def with_files_def fun_eq_iff Let_def cong: if_cong)

lemma with_files_bytes:
  assumes "obj < length (mm_bytes s)" "length (mm_bytes s) \<le> length (pf_sizes f)"
  shows "mm_obj_bytes (with_files s f) obj = resized (pf_sizes f ! obj) (mm_obj_bytes s obj)"
  using assms by (simp add: mm_obj_bytes_def with_files_def nth_append)

lemma files_calls_grow:
  "files_open name oflag mode s = (fd, errno, s') \<Longrightarrow> length (pf_sizes s) \<le> length (pf_sizes s')
     \<and> (\<forall>obj < length (pf_sizes s). pf_sizes s' ! obj = pf_sizes s ! obj)"
  "files_ftruncate fd len s = (r, s') \<Longrightarrow> length (pf_sizes s) = length (pf_sizes s')"
  "pf_sizes (sys_close files_api fd s) = pf_sizes s"
  "sys_shm_unlink files_api name s = (r, s') \<Longrightarrow> pf_sizes s' = pf_sizes s"
  by (auto simp: files_open_def files_ftruncate_def files_api_def Let_def nth_append
      split: option.splits if_splits bool.splits)

text \<open>Each call is the call of SharedMemory's system on the files, and \<open>resized\<close> on the bytes.\<close>

lemma mem_open_files:
  assumes "sys_shm_open mem_api name oflag mode s = (fd, errno, s')"
  shows "sys_shm_open files_api name oflag mode (mm_files s) = (fd, errno, mm_files s') \<and> s' = with_files s (mm_files s')
    \<and> length (mm_bytes s) \<le> length (pf_sizes (mm_files s'))
    \<and> (\<forall>obj < length (mm_bytes s). pf_sizes (mm_files s') ! obj = length (mm_bytes s ! obj))"
proof -
  obtain f where f: "files_open name oflag mode (mm_files s) = (fd, errno, f)" "s' = with_files s f"
    using assms by (auto simp: mem_api_def split: prod.splits)
  then show ?thesis using files_calls_grow(1) [OF f(1)] by (simp add: files_api_def mm_files_def [of s])
qed

lemma mem_ftruncate_files:
  assumes "sys_ftruncate mem_api fd len s = (r, s')"
  shows "sys_ftruncate files_api fd len (mm_files s) = (r, mm_files s') \<and> s' = with_files s (mm_files s')
    \<and> length (mm_bytes s) = length (pf_sizes (mm_files s'))"
proof -
  obtain f where f: "files_ftruncate fd len (mm_files s) = (r, f)" "s' = with_files s f"
    using assms by (auto simp: mem_api_def split: prod.splits)
  then show ?thesis using files_calls_grow(2) [OF f(1)] by (simp add: files_api_def mm_files_def [of s])
qed

lemma mem_close_files:
  "mm_files (sys_close mem_api fd s) = sys_close files_api fd (mm_files s)"
  "sys_close mem_api fd s = with_files s (sys_close files_api fd (mm_files s))"
  using files_calls_grow(3) [of fd "mm_files s"] by (simp_all add: mem_api_def mm_files_def [of s])

lemma mem_unlink_files:
  assumes "sys_shm_unlink mem_api name s = (r, s')"
  shows "sys_shm_unlink files_api name (mm_files s) = (r, mm_files s')"
proof -
  obtain f where f: "sys_shm_unlink files_api name (mm_files s) = (r, f)" "s' = with_files s f"
    using assms by (auto simp: mem_api_def split: prod.splits)
  then show ?thesis using files_calls_grow(4) [OF f(1)] by (simp add: mm_files_def [of s])
qed

lemma mem_map_files:
  "sys_mmap mem_api len prot fd s = (p, s') \<Longrightarrow> mm_files s' = mm_files s"
  "sys_munmap mem_api ptr len s = (r, s') \<Longrightarrow> mm_files s' = mm_files s"
  by (auto simp: mem_api_def mm_mmap_def mm_munmap_def mm_files_def split: option.splits if_splits)

interpretation memory_files: posix_shm mem_api "\<lambda>s. files_view (mm_files s)"
proof
  fix f name obj mode and s :: mem_system
  assume "access_mode f" "sv_names (files_view (mm_files s)) name = Some obj"
  then obtain errno f' where o: "sys_shm_open files_api name (O_CREAT OR O_EXCL OR f) mode (mm_files s) = (-1, errno, f')"
      "files_view f' = files_view (mm_files s)"
    using files.open_excl_bound by blast
  obtain fd errno' s' where m: "sys_shm_open mem_api name (O_CREAT OR O_EXCL OR f) mode s = (fd, errno', s')"
    by (metis prod_cases3)
  then show "\<exists>errno s'. sys_shm_open mem_api name (O_CREAT OR O_EXCL OR f) mode s = (-1, errno, s')
      \<and> files_view (mm_files s') = files_view (mm_files s)"
    using mem_open_files [OF m] o by auto
next
  fix f name mode fd errno and s s' :: mem_system
  assume a: "access_mode f" "sv_names (files_view (mm_files s)) name = None"
    "sys_shm_open mem_api name (O_CREAT OR O_EXCL OR f) mode s = (fd, errno, s')"
  show "fd = -1 \<and> errno \<noteq> EEXIST \<and> files_view (mm_files s') = files_view (mm_files s) \<or>
      0 \<le> fd \<and> sv_fds (files_view (mm_files s)) fd = None \<and>
        (\<exists>obj. sv_sizes (files_view (mm_files s)) obj = None \<and>
          files_view (mm_files s') = opened obj (f = O_RDWR) fd (created name obj (files_view (mm_files s))))"
    using files.open_excl_new [OF a(1,2)] mem_open_files [OF a(3)] by blast
next
  fix f name mode fd errno and s s' :: mem_system
  assume a: "access_mode f" "sys_shm_open mem_api name f mode s = (fd, errno, s')"
  show "fd = -1 \<and> files_view (mm_files s') = files_view (mm_files s) \<or>
      0 \<le> fd \<and> sv_fds (files_view (mm_files s)) fd = None \<and>
        (\<exists>obj. sv_names (files_view (mm_files s)) name = Some obj \<and>
          files_view (mm_files s') = opened obj (f = O_RDWR) fd (files_view (mm_files s)))"
    using files.open_plain [OF a(1)] mem_open_files [OF a(2)] by blast
next
  fix fd obj writable len r and s s' :: mem_system
  assume a: "sv_fds (files_view (mm_files s)) fd = Some (obj, writable)" "sys_ftruncate mem_api fd len s = (r, s')"
  show "r = -1 \<and> files_view (mm_files s') = files_view (mm_files s) \<or>
      r = 0 \<and> writable \<and> files_view (mm_files s') =
        (files_view (mm_files s))\<lparr>sv_sizes := (sv_sizes (files_view (mm_files s)))(obj \<mapsto> unat len)\<rparr>"
    using files.ftruncate_sets [OF a(1)] mem_ftruncate_files [OF a(2)] by blast
next
  fix fd len r and s s' :: mem_system
  assume "sys_ftruncate mem_api fd len s = (r, s')"
  then show "sv_names (files_view (mm_files s')) = sv_names (files_view (mm_files s))"
    using files.ftruncate_names mem_ftruncate_files by blast
next
  fix len prot fd p and s s' :: mem_system
  assume "sys_mmap mem_api len prot fd s = (p, s')"
  then show "files_view (mm_files s') = files_view (mm_files s)" using mem_map_files(1) by simp
next
  fix prot fd and s :: mem_system
  show "fst (sys_mmap mem_api 0 prot fd s) = None" by (simp add: mem_api_def mm_mmap_def split: option.splits)
next
  fix ptr len r and s s' :: mem_system
  assume "sys_munmap mem_api ptr len s = (r, s')"
  then show "files_view (mm_files s') = files_view (mm_files s)" using mem_map_files(2) by simp
next
  fix fd and s :: mem_system
  show "files_view (mm_files (sys_close mem_api fd s)) =
      (files_view (mm_files s))\<lparr>sv_fds := (sv_fds (files_view (mm_files s)))(fd := None)\<rparr>"
    using files.close_closes [of fd "mm_files s"] by (simp add: mem_close_files(1))
next
  fix name r and s s' :: mem_system
  assume "sys_shm_unlink mem_api name s = (r, s')"
  then show "r = -1 \<and> files_view (mm_files s') = files_view (mm_files s) \<or>
      r = 0 \<and> sv_names (files_view (mm_files s)) name \<noteq> None \<and> files_view (mm_files s') =
        (files_view (mm_files s))\<lparr>sv_names := (sv_names (files_view (mm_files s)))(name := None)\<rparr>"
    using files.unlink_unbinds mem_unlink_files by blast
qed

text \<open>Where an address inside a mapping is.\<close>

lemma address_in_map:
  fixes p :: u64
  assumes "2 ^ 40 dvd unat p" "i < 2 ^ 40"
  shows "unat (p + of_nat i) div 2 ^ 40 = unat p div 2 ^ 40" "unat (p + of_nat i) mod 2 ^ 40 = i"
proof -
  obtain k where k: "unat p = 2 ^ 40 * k" using assms(1) by (rule dvdE)
  have "unat p < 2 ^ LENGTH(64)" by (rule unsigned_less)
  then have "k < 2 ^ 24" using k by simp
  then have "unat (p + of_nat i) = 2 ^ 40 * k + i"
    using assms(2) k by (simp add: unat_word_ariths unat_of_nat)
  then show "unat (p + of_nat i) div 2 ^ 40 = unat p div 2 ^ 40" "unat (p + of_nat i) mod 2 ^ 40 = i"
    using assms(2) k by simp_all
qed

lemma lookup_map_at: "2 ^ 40 dvd unat p \<Longrightarrow> i < 2 ^ 40 \<Longrightarrow> lookup_map s (p + of_nat i) = lookup_map s p"
  using address_in_map(1) [of p i] by (simp add: lookup_map_def)

lemma lookup_map_start:
  assumes "mm_view_maps s p = Some m" "i \<le> mp_length m"
  shows "lookup_map s (p + of_nat i) = Some m" "unat (p + of_nat i) mod 2 ^ 40 = i"
proof -
  have p: "2 ^ 40 dvd unat p" "lookup_map s p = Some m" "mp_length m < 2 ^ 40"
    using assms(1) by (auto simp: mm_view_maps_def split: if_splits option.splits)
  moreover have "i < 2 ^ 40" using assms(2) p(3) by simp
  ultimately show "lookup_map s (p + of_nat i) = Some m" "unat (p + of_nat i) mod 2 ^ 40 = i"
    using lookup_map_at [OF p(1), of i s] address_in_map(2) [OF p(1), of i] by simp_all
qed

lemma mm_mmap_memory:
  assumes "mm_mmap len prot fd s = (Some p, s')" "sv_fds (files_view (mm_files s)) fd = Some (obj, w)"
  shows "mm_view_maps s p = None"
    and "mm_view_maps s' = (mm_view_maps s)(p \<mapsto> \<lparr> mp_obj = obj, mp_length = unat len, mp_prot = prot \<rparr>)"
    and "mm_obj_bytes s' = mm_obj_bytes s"
proof -
  let ?n = "length (mm_maps s)" and ?m = "\<lparr> mp_obj = obj, mp_length = unat len, mp_prot = prot \<rparr>"
  have s': "p = push_bit 40 (of_nat (?n + 1))" "s' = s\<lparr>mm_maps := mm_maps s @ [Some ?m]\<rparr>" "unat len < 2 ^ 40" "?n < 64"
    using assms by (auto simp: mm_mmap_def not_le split: if_splits)
  have p: "unat p = 2 ^ 40 * (?n + 1)" unfolding s'(1) by (rule map_address) (use s'(4) in simp)
  show "mm_view_maps s p = None" by (simp add: mm_view_maps_def lookup_map_def p)
  show "mm_view_maps s' = (mm_view_maps s)(p \<mapsto> ?m)"
  proof
    fix q
    show "mm_view_maps s' q = ((mm_view_maps s)(p \<mapsto> ?m)) q"
    proof (cases "q = p")
      case True
      then show ?thesis using s'(3) by (simp add: mm_view_maps_def lookup_map_def p s'(2))
    next
      case False
      then have "unat q div 2 ^ 40 \<noteq> ?n + 1" if "2 ^ 40 dvd unat q"
        using that p dvd_mult_div_cancel [OF that] by (auto simp: word_unat_eq_iff)
      then show ?thesis
        using False by (auto simp: mm_view_maps_def lookup_map_def s'(2) nth_append Let_def split: option.splits)
    qed
  qed
  show "mm_obj_bytes s' = mm_obj_bytes s" by (simp add: s'(2) mm_obj_bytes_def fun_eq_iff)
qed

interpretation memory: mapped_shm mem_api "\<lambda>s. files_view (mm_files s)" mm_view_maps mm_obj_bytes mm_load mm_store
proof
  fix s obj n
  assume "sv_sizes (files_view (mm_files s)) obj = Some n"
  then show "length (mm_obj_bytes s obj) = n"
    by (auto simp: files_view_def mm_files_def mm_obj_bytes_def split: if_splits)
next
  fix name oflag mode fd errno and s s' :: mem_system
  assume o: "sys_shm_open mem_api name oflag mode s = (fd, errno, s')"
  note f = mem_open_files [OF o]
  have "mm_view_maps s' = mm_view_maps s" using f with_files_maps(1) by metis
  moreover have "mm_obj_bytes s' obj = mm_obj_bytes s obj" if "sv_sizes (files_view (mm_files s)) obj \<noteq> None" for obj
  proof -
    have obj: "obj < length (mm_bytes s)" using that by (auto simp: files_view_def mm_files_def split: if_splits)
    then have "mm_obj_bytes s' obj = resized (length (mm_bytes s ! obj)) (mm_obj_bytes s obj)"
      using with_files_bytes [OF obj, of "mm_files s'"] f by metis
    then show ?thesis using obj by (simp add: mm_obj_bytes_def)
  qed
  ultimately show "mm_view_maps s' = mm_view_maps s \<and> (\<forall>obj. sv_sizes (files_view (mm_files s)) obj \<noteq> None \<longrightarrow>
      mm_obj_bytes s' obj = mm_obj_bytes s obj)" by blast
next
  fix fd obj w len and s s' :: mem_system
  assume a: "sv_fds (files_view (mm_files s)) fd = Some (obj, w)" "sys_ftruncate mem_api fd len s = (0, s')"
  note f = mem_ftruncate_files [OF a(2)]
  have "files_ftruncate fd len (mm_files s) = (0, mm_files s')" using f by (simp add: files_api_def)
  then have obj: "obj < length (mm_bytes s)" "pf_sizes (mm_files s') = (map length (mm_bytes s))[obj := unat len]"
    using a(1) by (auto simp: files_ftruncate_def mm_files_def [of s] split: if_splits bool.splits dest: arg_cong [of _ _ pf_sizes])
  have "mm_obj_bytes s' x = ((mm_obj_bytes s)(obj := resized (unat len) (mm_obj_bytes s obj))) x" for x
  proof (cases "x < length (mm_bytes s)")
    case True
    then have "mm_obj_bytes s' x = resized (pf_sizes (mm_files s') ! x) (mm_obj_bytes s x)"
      using with_files_bytes [OF True, of "mm_files s'"] f by (metis order_refl)
    then show ?thesis using True by (simp add: obj(2) nth_list_update mm_obj_bytes_def)
  next
    case False
    moreover have "length (mm_bytes s') = length (mm_bytes s)" using f by (simp add: mm_files_def [of s'])
    ultimately show ?thesis using obj(1) by (auto simp: mm_obj_bytes_def)
  qed
  moreover have "mm_view_maps s' = mm_view_maps s" using f with_files_maps(1) by metis
  ultimately show "mm_view_maps s' = mm_view_maps s \<and>
      mm_obj_bytes s' = (mm_obj_bytes s)(obj := resized (unat len) (mm_obj_bytes s obj))" by blast
next
  fix len prot fd p obj w and s s' :: mem_system
  assume "sys_mmap mem_api len prot fd s = (Some p, s')" "sv_fds (files_view (mm_files s)) fd = Some (obj, w)"
  then show "mm_view_maps s p = None \<and>
      mm_view_maps s' = (mm_view_maps s)(p \<mapsto> \<lparr> mp_obj = obj, mp_length = unat len, mp_prot = prot \<rparr>) \<and>
      mm_obj_bytes s' = mm_obj_bytes s"
    using mm_mmap_memory by (simp add: mem_api_def)
next
  fix fd and s :: mem_system
  show "mm_view_maps (sys_close mem_api fd s) = mm_view_maps s" by (simp add: mem_close_files(2))
  have "mm_obj_bytes (sys_close mem_api fd s) x = mm_obj_bytes s x" for x
  proof (cases "x < length (mm_bytes s)")
    case True
    then show ?thesis
      using with_files_bytes [OF True, of "sys_close files_api fd (mm_files s)"] files_calls_grow(3) [of fd "mm_files s"]
      by (simp add: mem_close_files(2) mm_files_def [of s] mm_obj_bytes_def [of s])
  next
    case False
    then show ?thesis
      using files_calls_grow(3) [of fd "mm_files s"]
      by (simp add: mem_close_files(2) with_files_def mm_files_def [of s] mm_obj_bytes_def)
  qed
  then show "mm_obj_bytes (sys_close mem_api fd s) = mm_obj_bytes s" by blast
next
  fix p m i and d :: bytes and s :: mem_system
  assume a: "mm_view_maps s p = Some m" "mp_prot m AND PROT_WRITE \<noteq> 0" "i + length d \<le> mp_length m"
    "i + length d \<le> length (mm_obj_bytes s (mp_obj m))"
  let ?s = "s\<lparr>mm_bytes := (mm_bytes s)[mp_obj m := patch i d (mm_obj_bytes s (mp_obj m))]\<rparr>"
  have "mm_store s (p + of_nat i) d = Some ?s"
    using lookup_map_start [OF a(1), of i] a(2-4) by (simp add: mm_store_def)
  moreover have "mm_obj_bytes ?s = (mm_obj_bytes s)(mp_obj m := patch i d (mm_obj_bytes s (mp_obj m)))"
    using a(4) by (auto simp: mm_obj_bytes_def fun_eq_iff patch_def split: if_splits)
  moreover have "mm_files ?s = mm_files s"
  proof (cases "mp_obj m < length (mm_bytes s)")
    case True
    then have "length (patch i d (mm_obj_bytes s (mp_obj m))) = map length (mm_bytes s) ! mp_obj m"
      using a(4) by (simp add: mm_obj_bytes_def)
    then show ?thesis by (simp add: mm_files_def map_update)
  qed (simp add: mm_files_def list_update_beyond)
  moreover have "mm_view_maps ?s = mm_view_maps s"
    by (simp add: mm_view_maps_def lookup_map_def fun_eq_iff Let_def cong: if_cong)
  ultimately show "\<exists>s'. mm_store s (p + of_nat i) d = Some s' \<and> files_view (mm_files s') = files_view (mm_files s) \<and>
      mm_view_maps s' = mm_view_maps s \<and>
      mm_obj_bytes s' = (mm_obj_bytes s)(mp_obj m := patch i d (mm_obj_bytes s (mp_obj m)))"
    by auto
next
  fix p m i and d :: bytes and s :: mem_system
  assume "mm_view_maps s p = Some m" "mp_prot m AND PROT_WRITE = 0" "i < mp_length m" "d \<noteq> []"
  then show "mm_store s (p + of_nat i) d = None"
    using lookup_map_start [of s p m i] by (simp add: mm_store_def)
next
  fix p m i n and s :: mem_system
  assume "mm_view_maps s p = Some m" "mp_prot m AND PROT_READ \<noteq> 0" "i + n \<le> mp_length m"
    "i + n \<le> length (mm_obj_bytes s (mp_obj m))"
  then show "mm_load s (p + of_nat i) n = Some (take n (drop i (mm_obj_bytes s (mp_obj m))))"
    using lookup_map_start [of s p m i] by (simp add: mm_load_def)
next
  fix p len i and d :: bytes and s s' :: mem_system
  assume a: "sys_munmap mem_api p len s = (0, s')" "i < unat len" "d \<noteq> []"
  then have p: "p \<noteq> 0" "2 ^ 40 dvd unat p" "unat len < 2 ^ 40" "s' = s\<lparr>mm_maps := (mm_maps s)[unat p div 2 ^ 40 - 1 := None]\<rparr>"
    by (auto simp: mem_api_def mm_munmap_def not_le split: if_splits)
  have "lookup_map s' p = None"
    by (cases "unat p div 2 ^ 40") (auto simp: p(4) lookup_map_def nth_list_update)
  then have "lookup_map s' (p + of_nat i) = None"
    using a(2) p(2,3) lookup_map_at [of p i s'] by simp
  then show "mm_store s' (p + of_nat i) d = None" by (simp add: mm_store_def)
qed

section \<open>Properties\<close>

text \<open>
  C31: Shared memory is shared. If a process gets a handle from CreateOrOpen and another one a
  read-only handle for the same name, bytes stored through the first pointer are what is loaded at
  the same offset of the second one; a newly created object reads as null bytes; storing through
  the read-only handle ends in a signal, and so does storing through the first one after Unmap.
\<close>

theorem handles_share_bytes:
  assumes "mapped_shm api view maps obj_bytes load store"
    and "CreateOrOpen api name len mode s = (Inr shm1, s1)" "OpenReadOnly api name len2 s1 = (Inr shm2, s2)"
    and "sv_names (view s1) name = Some obj" "sv_sizes (view s1) obj = Some n"
    and "i + length d \<le> n" "i + length d \<le> unat len" "i + length d \<le> unat len2" "d \<noteq> []"
  shows "\<exists>s3. store s2 (shm_ptr shm1 + of_nat i) d = Some s3
    \<and> load s3 (shm_ptr shm2 + of_nat i) (length d) = Some d
    \<and> (shm_isCreator shm1 \<longrightarrow> load s2 (shm_ptr shm2 + of_nat i) (length d) = Some (replicate (length d) 0))
    \<and> store s2 (shm_ptr shm2 + of_nat i) d = None
    \<and> (fst (Unmap api shm1 s3) = Inr () \<longrightarrow> store (snd (Unmap api shm1 s3)) (shm_ptr shm1 + of_nat i) d = None)"
  using mapped_shm.two_handles [OF assms(1) assms(2) [unfolded CreateOrOpen_def] assms(3) [unfolded OpenReadOnly_def]
      assms(4-8)] assms(9) by blast

definition no_memory :: mem_system where
  "no_memory = \<lparr> mm_names = [], mm_bytes = [], mm_fds = [], mm_maps = [] \<rparr>"

theorem handles_share_bytes_witness:
  "\<exists>shm1 s1 shm2 s2 s3. CreateOrOpen mem_api ''m'' 16 384 no_memory = (Inr shm1, s1)
    \<and> OpenReadOnly mem_api ''m'' 16 s1 = (Inr shm2, s2)
    \<and> mm_store s2 (shm_ptr shm1 + 3) [1, 2] = Some s3 \<and> mm_load s3 (shm_ptr shm2 + 3) 2 = Some [1, 2]
    \<and> mm_load s2 (shm_ptr shm2 + 3) 2 = Some [0, 0] \<and> mm_store s2 (shm_ptr shm2 + 3) [1, 2] = None"
proof -
  obtain shm1 s1 shm2 s2 where h: "CreateOrOpen mem_api ''m'' 16 384 no_memory = (Inr shm1, s1)"
      "OpenReadOnly mem_api ''m'' 16 s1 = (Inr shm2, s2)" "shm_isCreator shm1"
      "map_of (mm_names s1) ''m'' = Some 0" "map length (mm_bytes s1) = [16]"
  proof -
    have "case CreateOrOpen mem_api ''m'' 16 384 no_memory of (Inr shm1, s1) \<Rightarrow>
        \<not> isl (fst (OpenReadOnly mem_api ''m'' 16 s1)) \<and> shm_isCreator shm1 \<and> map_of (mm_names s1) ''m'' = Some 0
        \<and> map length (mm_bytes s1) = [16] | _ \<Rightarrow> False"
      by code_simp
    then obtain shm1 s1 where 1: "CreateOrOpen mem_api ''m'' 16 384 no_memory = (Inr shm1, s1)"
        "\<not> isl (fst (OpenReadOnly mem_api ''m'' 16 s1))" "shm_isCreator shm1" "map_of (mm_names s1) ''m'' = Some 0"
        "map length (mm_bytes s1) = [16]"
      by (auto split: prod.splits sum.splits)
    moreover obtain shm2 s2 where "OpenReadOnly mem_api ''m'' 16 s1 = (Inr shm2, s2)"
      using 1(2) by (cases "OpenReadOnly mem_api ''m'' 16 s1"; cases "fst (OpenReadOnly mem_api ''m'' 16 s1)") auto
    ultimately show thesis by (intro that) auto
  qed
  moreover have two: "length [1, 2 :: u8] = 2" "replicate 2 (0 :: u8) = [0, 0]" by (simp_all add: numeral_2_eq_2)
  ultimately show ?thesis
    using handles_share_bytes [OF memory.mapped_shm_axioms h(1,2), of 0 16 3 "[1, 2]", unfolded two]
    by (auto simp: files_view_def mm_files_def)
qed

end
