(* ===== verification/UnitTests.thy ===== *)
theory UnitTests
  imports ReliableStream UdpNotification MappedMemory TpReader AsyncWriter "HOL-Library.Monad_Syntax"
begin

text \<open>
  unit_tests: the tests of the repository as programs over the model, run on the executable
  readings of the system calls. A test is \<open>Some ()\<close> if it passes and \<open>None\<close> if an expectation
  does not hold or a call fails that the test does not expect to fail. Thread 0 is the main
  thread of the test. The statements of a thread that the test joins at once stand in its place.
\<close>

section \<open>Expectations\<close>

definition expect :: "bool \<Rightarrow> unit option" where
  "expect b = (if b then Some () else None)"

text \<open>A call that the test takes for granted, one that must throw or die, and their variants on a state.\<close>

definition returned :: "'a result \<Rightarrow> 'a option" where
  "returned r = (case r of Inl e \<Rightarrow> None | Inr x \<Rightarrow> Some x)"

definition fails :: "'a result \<Rightarrow> unit option" where
  "fails r = expect (isl r)"

definition returned_st :: "'a result \<times> 's \<Rightarrow> ('a \<times> 's) option" where
  "returned_st rs = map_option (\<lambda>x. (x, snd rs)) (returned (fst rs))"

definition fails_st :: "'a result \<times> 's \<Rightarrow> 's option" where
  "fails_st rs = map_option (\<lambda>_. snd rs) (fails (fst rs))"

definition bytes_of :: "string \<Rightarrow> bytes" where
  "bytes_of s = map of_char s"

section \<open>rmp/readerInfoTest\<close>

definition ReaderInfoTest :: "u16 \<Rightarrow> mutex_view ReaderInfo option" where
  "ReaderInfoTest slots = returned (mk_ReaderInfo posix_pthread slots)"

definition empty_range :: "mutex_view ReaderInfo \<Rightarrow> bool" where
  "empty_range ri = (case GetActiveRange ri of (mn, mx) \<Rightarrow> mx \<le> mn)"

definition ReaderInfoTest_Initialization :: "unit option" where
  "ReaderInfoTest_Initialization = do {
     ri \<leftarrow> ReaderInfoTest 3;
     expect (ri_initialized ri);
     expect (expiredReaders ri = 0);
     expect (empty_range ri)
   }"

fun activate_slots :: "nat list \<Rightarrow> mutex_view ReaderInfo \<Rightarrow> mutex_view ReaderInfo option" where
  "activate_slots [] ri = Some ri"
| "activate_slots (i # is) ri = do {
     ri \<leftarrow> returned (Activate (int i) (of_nat (i + 1)) ri);
     info \<leftarrow> returned (Get ri (int i));
     expect (slot_active info);
     expect (info_position info = of_nat (i + 1));
     expect (GetActiveRange ri = (0, of_nat (i + 1)));
     activate_slots is ri
   }"

definition ReaderInfoTest_ActivateDeactivateRange :: "unit option" where
  "ReaderInfoTest_ActivateDeactivateRange = do {
     ri \<leftarrow> ReaderInfoTest 3;
     ri \<leftarrow> activate_slots [0, 1, 2] ri;
     ri \<leftarrow> returned (Deactivate 1 ri);
     expect (GetActiveRange ri = (0, 3));
     ri \<leftarrow> returned (Deactivate 0 ri);
     expect (GetActiveRange ri = (2, 3));
     ri \<leftarrow> returned (Deactivate 2 ri);
     expect (empty_range ri)
   }"

text \<open>
  The threads of AllocFreeNoFree wait for each other between their Alloc and their Free: the
  list is the order in which they do the one, and then the other.
\<close>

fun alloc_all :: "tid list \<Rightarrow> mutex_view ReaderInfo \<Rightarrow> ((tid \<times> reader_id) list \<times> mutex_view ReaderInfo) option" where
  "alloc_all [] ri = Some ([], ri)"
| "alloc_all (t # ts) ri = do {
     (rid, ri) \<leftarrow> returned (Alloc posix_pthread t ri);
     (rids, ri) \<leftarrow> alloc_all ts ri;
     Some ((t, rid) # rids, ri)
   }"

fun free_all :: "(tid \<times> reader_id) list \<Rightarrow> mutex_view ReaderInfo \<Rightarrow> mutex_view ReaderInfo option" where
  "free_all [] ri = Some ri"
| "free_all ((t, rid) # rids) ri = do {
     ri \<leftarrow> returned (Free_slot posix_pthread t rid ri);
     free_all rids ri
   }"

definition ReaderInfoTest_AllocFreeNoFree :: "tid list \<Rightarrow> unit option" where
  "ReaderInfoTest_AllocFreeNoFree readers = do {
     ri \<leftarrow> ReaderInfoTest 3;
     (rids, ri) \<leftarrow> alloc_all readers ri;
     ri \<leftarrow> free_all (filter (\<lambda>(t, rid). rid \<noteq> -1) rids) ri;
     expect (length (filter (\<lambda>(t, rid). rid \<noteq> -1) rids) = 3);
     expect (length (filter (\<lambda>(t, rid). rid = -1) rids) = length readers - 3);
     expect (empty_range ri);
     (rid, ri) \<leftarrow> returned (Alloc posix_pthread 0 ri);
     expect (rid = 0)
   }"

text \<open>A thread of AllocDead ends without freeing its slot.\<close>

fun alloc_and_die :: "tid list \<Rightarrow> mutex_view ReaderInfo \<Rightarrow> unit option" where
  "alloc_and_die [] ri = Some ()"
| "alloc_and_die (t # ts) ri = do {
     (rid, ri) \<leftarrow> returned (Alloc posix_pthread t ri);
     ri \<leftarrow> returned (Activate rid 0 ri);
     expect (rid \<noteq> INVALID_READER_ID);
     info \<leftarrow> returned (Get ri rid);
     expect (slot_active info);
     alloc_and_die ts (release_dead thread_death t (nat rid) ri)
   }"

definition ReaderInfoTest_AllocDead :: "unit option" where
  "ReaderInfoTest_AllocDead = do {
     ri \<leftarrow> ReaderInfoTest 3;
     alloc_and_die [1 ..< 10] ri
   }"

definition SingleReaderInfoTest_Alloc :: "unit option" where
  "SingleReaderInfoTest_Alloc = do {
     ri \<leftarrow> ReaderInfoTest 1;
     (rid, ri) \<leftarrow> returned (Alloc posix_pthread 0 ri);
     ri \<leftarrow> returned (Activate rid 0 ri);
     expect (rid \<noteq> INVALID_READER_ID)
   }"

definition NoReaderInfoTest_Alloc :: "unit option" where
  "NoReaderInfoTest_Alloc = do {
     ri \<leftarrow> ReaderInfoTest 0;
     (rid, ri) \<leftarrow> returned (Alloc posix_pthread 0 ri);
     ri \<leftarrow> returned (Activate rid 0 ri);
     expect (rid = INVALID_READER_ID)
   }"

lemma reader_info_tests:
  "ReaderInfoTest_Initialization = Some ()" "ReaderInfoTest_ActivateDeactivateRange = Some ()"
  "ReaderInfoTest_AllocFreeNoFree [1, 2, 3, 4, 5] = Some ()" "ReaderInfoTest_AllocDead = Some ()"
  "SingleReaderInfoTest_Alloc = Some ()" "NoReaderInfoTest_Alloc = Some ()"
  by code_simp+

section \<open>traits/posix/robustProcMutexTest\<close>

definition RobustProcMutex_TryLockUnlocked :: "unit option" where
  "RobustProcMutex_TryLockUnlocked = do {
     mtx \<leftarrow> returned (mk_RobustProcMutex posix_pthread);
     mtx \<leftarrow> returned (Lock posix_pthread 1 mtx);
     mtx \<leftarrow> returned (Unlock posix_pthread 1 mtx);
     (locked, mtx) \<leftarrow> returned (TryLock posix_pthread 0 (thread_death 1 mtx));
     expect locked
   }"

definition RobustProcMutex_TryLockDead :: "unit option" where
  "RobustProcMutex_TryLockDead = do {
     mtx \<leftarrow> returned (mk_RobustProcMutex posix_pthread);
     mtx \<leftarrow> returned (Lock posix_pthread 1 mtx);
     (locked, mtx) \<leftarrow> returned (TryLock posix_pthread 0 (thread_death 1 mtx));
     expect locked
   }"

definition RobustProcMutex_TryLockLocked :: "unit option" where
  "RobustProcMutex_TryLockLocked = do {
     mtx \<leftarrow> returned (mk_RobustProcMutex posix_pthread);
     mtx \<leftarrow> returned (Lock posix_pthread 1 mtx);
     (locked, mtx) \<leftarrow> returned (TryLock posix_pthread 0 mtx);
     expect (\<not> locked)
   }"

text \<open>The second thread blocks until the first one has died.\<close>

definition RobustProcMutex_LockLocked :: "unit option" where
  "RobustProcMutex_LockLocked = do {
     mtx \<leftarrow> returned (mk_RobustProcMutex posix_pthread);
     mtx \<leftarrow> returned (Lock posix_pthread 1 mtx);
     expect (Lock posix_pthread 2 mtx = Inl Blocked);
     mtx \<leftarrow> returned (Lock posix_pthread 2 (thread_death 1 mtx));
     Some ()
   }"

lemma mutex_tests:
  "RobustProcMutex_TryLockUnlocked = Some ()" "RobustProcMutex_TryLockDead = Some ()"
  "RobustProcMutex_TryLockLocked = Some ()" "RobustProcMutex_LockLocked = Some ()"
  by code_simp+

section \<open>traits/concurrent/mpscMessageQueueTest\<close>

definition MPSCMessageQueueTest_EnqueueSingleDrainer :: "unit option" where
  "MPSCMessageQueueTest_EnqueueSingleDrainer = do {
     let (start1, mq) = Enqueue (1 :: int) new_MPSCMessageQueue;
     let (start2, mq) = Enqueue 1 mq;
     let (start3, mq) = Enqueue 1 mq;
     expect start1;
     expect (\<not> start2);
     expect (\<not> start3)
   }"

definition MPSCMessageQueueTest_DrainEmpty :: "unit option" where
  "MPSCMessageQueueTest_DrainEmpty = do {
     let (msgs1, mq) = Drain (new_MPSCMessageQueue :: int MPSCMessageQueue);
     let (msgs2, mq) = Drain mq;
     expect (msgs1 = []);
     expect (msgs2 = [])
   }"

definition MPSCMessageQueueTest_EnqueueDrainControlAndData :: "unit option" where
  "MPSCMessageQueueTest_EnqueueDrainControlAndData = do {
     let (start1, mq) = Enqueue (1 :: int) new_MPSCMessageQueue;
     expect start1;
     let (start2, mq) = Enqueue 2 mq;
     expect (\<not> start2);
     let (msgs, mq) = Drain mq;
     expect (msgs = [1, 2]);
     let (start3, mq) = Enqueue 3 mq;
     expect (\<not> start3);
     let (msgs, mq) = Drain mq;
     expect (msgs = [3]);
     let (msgs, mq) = Drain mq;
     expect (msgs = []);
     let (start4, mq) = Enqueue 4 mq;
     expect start4
   }"

lemma queue_tests:
  "MPSCMessageQueueTest_EnqueueSingleDrainer = Some ()" "MPSCMessageQueueTest_DrainEmpty = Some ()"
  "MPSCMessageQueueTest_EnqueueDrainControlAndData = Some ()"
  by code_simp+

section \<open>tp/detail/topicMsgTest\<close>

definition topic_matches :: "string \<Rightarrow> bool \<Rightarrow> string \<Rightarrow> bool \<Rightarrow> bool" where
  "topic_matches readerChannel handleDescendents writerChannel postToDescendents =
     TopicMatches (bytes_of readerChannel) handleDescendents (bytes_of writerChannel @ [0])
       (length writerChannel) postToDescendents"

definition TopicMsg_Match :: "unit option" where
  "TopicMsg_Match = do {
     expect (topic_matches ''/'' False ''/'' False);
     expect (topic_matches ''/'' False ''/'' True);
     expect (\<not> topic_matches ''/'' False ''/a/b1'' False);
     expect (\<not> topic_matches ''/'' False ''/a'' False);
     expect (\<not> topic_matches ''/a/b1'' False ''/'' False);
     expect (topic_matches ''/a/b1'' False ''/'' True);
     expect (topic_matches ''/a/b1'' False ''/a/b1'' False);
     expect (topic_matches ''/a/b1'' False ''/a'' True);
     expect (\<not> topic_matches ''/a'' True ''/'' False);
     expect (topic_matches ''/a'' True ''/'' True);
     expect (topic_matches ''/a'' True ''/a/b1'' False);
     expect (topic_matches ''/a'' True ''/a'' False);
     expect (\<not> topic_matches ''/a/b2'' False ''/'' False);
     expect (topic_matches ''/a/b2'' False ''/'' True);
     expect (\<not> topic_matches ''/a/b2'' False ''/a/b1'' False);
     expect (topic_matches ''/a/b2'' False ''/a'' True)
   }"

text \<open>What the tests of the serializer begin with.\<close>

definition serialized :: "reader_gen \<Rightarrow> bool \<Rightarrow> string \<Rightarrow> string \<Rightarrow> bytes option" where
  "serialized gen postToDescendants topic data =
     (let size = of_nat (length data) in
      returned (Serialize (replicate (unat (SizeOf (bytes_of topic) size)) 0) gen postToDescendants
        (bytes_of topic) (bytes_of data) size))"

definition deserialized :: "bytes \<Rightarrow> reader_gen \<Rightarrow> string \<Rightarrow> (bytes \<times> u32) option result" where
  "deserialized binary gen channel = DeserializeAndFilter binary (of_nat (length binary)) gen (bytes_of channel) True"

definition TopicMsg_SerializeDeserializeHappyCase :: "unit option" where
  "TopicMsg_SerializeDeserializeHappyCase = do {
     binary \<leftarrow> serialized 5 True ''topic'' ''ab'';
     answer \<leftarrow> returned (deserialized binary 5 ''topic'');
     (outData, outDataLen) \<leftarrow> answer;
     expect (take 2 outData = bytes_of ''ab'');
     expect (outDataLen = 2)
   }"

definition TopicMsg_SerializeDeserializeGenEarlier :: "unit option" where
  "TopicMsg_SerializeDeserializeGenEarlier = do {
     binary \<leftarrow> serialized 5 True ''topic'' ''ab'';
     answer \<leftarrow> returned (deserialized binary 7 ''topic'');
     expect (answer = None)
   }"

definition TopicMsg_SerializeDeserializeTopicDoesNotMatch :: "unit option" where
  "TopicMsg_SerializeDeserializeTopicDoesNotMatch = do {
     binary \<leftarrow> serialized 5 False ''topic'' ''ab'';
     answer \<leftarrow> returned (deserialized binary 5 ''topicA'');
     expect (answer = None)
   }"

definition TopicMsg_EmptyAll :: "unit option" where
  "TopicMsg_EmptyAll = do {
     binary \<leftarrow> serialized 5 False [] [];
     answer \<leftarrow> returned (deserialized binary 5 []);
     expect (answer \<noteq> None)
   }"

definition TopicMsg_AssertOnInvalid :: "unit option" where
  "TopicMsg_AssertOnInvalid = fails (deserialized (bytes_of ''x'') 5 [])"

lemma topic_tests:
  "TopicMsg_Match = Some ()" "TopicMsg_SerializeDeserializeHappyCase = Some ()"
  "TopicMsg_SerializeDeserializeGenEarlier = Some ()" "TopicMsg_SerializeDeserializeTopicDoesNotMatch = Some ()"
  "TopicMsg_EmptyAll = Some ()" "TopicMsg_AssertOnInvalid = Some ()"
  by code_simp+

section \<open>traits/posix/sharedMemoryTest\<close>

text \<open>
  Each test starts with no name bound. What must die is an access in a forked process, so the test
  goes on with the state before it.
\<close>

definition SharedMemory_OpenNonExistingThrows :: "unit option" where
  "SharedMemory_OpenNonExistingThrows = do {
     s \<leftarrow> fails_st (Open files_api ''OpenNonExistingThrows'' 10 no_files);
     s \<leftarrow> fails_st (OpenReadOnly files_api ''OpenNonExistingThrows'' 10 s);
     Some ()
   }"

definition SharedMemory_CreateOrOpenReadOnlyThrows :: "unit option" where
  "SharedMemory_CreateOrOpenReadOnlyThrows = do {
     s \<leftarrow> fails_st (CreateOrOpenReadOnly files_api ''OpenOrCreateReadOnlyThrows'' 16 384 no_files);
     Some ()
   }"

definition SharedMemory_CreateOrOpenUnlinkDoesNotThrow :: "unit option" where
  "SharedMemory_CreateOrOpenUnlinkDoesNotThrow = do {
     (shm, s) \<leftarrow> returned_st (CreateOrOpen files_api ''OpenOrCreateReadOnlyThrows'' 16 384 no_files);
     (_, s) \<leftarrow> returned_st (Unlink files_api shm s);
     Some ()
   }"

definition SharedMemory_CreateOrOpenOpenUnlinkOpen :: "unit option" where
  "SharedMemory_CreateOrOpenOpenUnlinkOpen = do {
     (shm, s) \<leftarrow> returned_st (CreateOrOpen files_api ''CreateOrOpenOpenUnlinkOpen'' 16 384 no_files);
     (_, s) \<leftarrow> returned_st (Open files_api ''CreateOrOpenOpenUnlinkOpen'' 10 s);
     (_, s) \<leftarrow> returned_st (Unlink files_api shm s);
     s \<leftarrow> fails_st (Open files_api ''CreateOrOpenOpenUnlinkOpen'' 10 s);
     Some ()
   }"

definition SharedMemory_TransferData :: "unit option" where
  "SharedMemory_TransferData = do {
     (shm1, s) \<leftarrow> returned_st (CreateOrOpen mem_api ''TransferData'' 16 384 no_memory);
     (shm2, s) \<leftarrow> returned_st (CreateOrOpenReadOnly mem_api ''TransferData'' 16 384 s);
     s \<leftarrow> mm_store s (shm_ptr shm1) (le_bytes 4 (20 :: u32));
     read \<leftarrow> mm_load s (shm_ptr shm2) 4;
     expect (le_word read = (20 :: u32));
     (_, s) \<leftarrow> returned_st (Unlink mem_api shm1 s);
     s \<leftarrow> fails_st (Unlink mem_api shm2 s);
     Some ()
   }"

definition SharedMemory_WriteToReadOnlyDies :: "unit option" where
  "SharedMemory_WriteToReadOnlyDies = do {
     (shm1, s) \<leftarrow> returned_st (CreateOrOpen mem_api ''WriteToReadOnlyDies'' 16 384 no_memory);
     (shm2, s) \<leftarrow> returned_st (CreateOrOpenReadOnly mem_api ''WriteToReadOnlyDies'' 16 384 s);
     expect (mm_store s (shm_ptr shm2) (le_bytes 4 (20 :: u32)) = None);
     (_, s) \<leftarrow> returned_st (Unlink mem_api shm1 s);
     Some ()
   }"

definition SharedMemory_WriteToUnmappedDies :: "unit option" where
  "SharedMemory_WriteToUnmappedDies = do {
     (shm, s) \<leftarrow> returned_st (CreateOrOpen mem_api ''WriteToUnmappedDies'' 16 384 no_memory);
     (_, s) \<leftarrow> returned_st (Unmap mem_api shm s);
     expect (mm_store s (shm_ptr shm) (le_bytes 4 (42 :: u32)) = None);
     (_, s) \<leftarrow> returned_st (Unlink mem_api shm s);
     Some ()
   }"

definition SharedMemory_WriteBiggerSizeDies :: "unit option" where
  "SharedMemory_WriteBiggerSizeDies = do {
     (shm, s) \<leftarrow> returned_st (CreateOrOpen mem_api ''WriteBiggerSizeDies'' 16 384 no_memory);
     s \<leftarrow> mm_store s (shm_ptr shm) (replicate 16 42);
     (_, s) \<leftarrow> returned_st (Unlink mem_api shm s);
     Some ()
   }"

definition SharedMemory_IsCreator :: "unit option" where
  "SharedMemory_IsCreator = do {
     (shm1, s) \<leftarrow> returned_st (CreateOrOpen files_api ''IsCreator'' 16 384 no_files);
     (shm2, s) \<leftarrow> returned_st (CreateOrOpen files_api ''IsCreator'' 16 384 s);
     (shm3, s) \<leftarrow> returned_st (CreateOrOpen files_api ''IsCreator'' 16 384 s);
     expect (shm_isCreator shm1);
     expect (\<not> shm_isCreator shm2);
     expect (\<not> shm_isCreator shm3);
     (_, s) \<leftarrow> returned_st (Unlink files_api shm1 s);
     Some ()
   }"

lemma shared_memory_tests:
  "SharedMemory_OpenNonExistingThrows = Some ()" "SharedMemory_CreateOrOpenReadOnlyThrows = Some ()"
  "SharedMemory_CreateOrOpenUnlinkDoesNotThrow = Some ()" "SharedMemory_CreateOrOpenOpenUnlinkOpen = Some ()"
  "SharedMemory_TransferData = Some ()" "SharedMemory_WriteToReadOnlyDies = Some ()"
  "SharedMemory_WriteToUnmappedDies = Some ()" "SharedMemory_WriteBiggerSizeDies = Some ()"
  "SharedMemory_IsCreator = Some ()"
  by code_simp+

section \<open>traits/posix/multicastUdpNotificationTest\<close>

definition MulticastUdpNotificationTest :: "(MulticastUdpNotification \<times> udp_net) option" where
  "MulticastUdpNotificationTest =
     returned_st (mk_MulticastUdpNotification net_api ''226.1.1.1'' 3334 ''127.0.0.1'' quiet_net)"

definition MulticastUdpNotificationTest_NotifyPeekWaitPeek :: "unit option" where
  "MulticastUdpNotificationTest_NotifyPeekWaitPeek = do {
     (un, s) \<leftarrow> MulticastUdpNotificationTest;
     (found, s) \<leftarrow> Peek net_api un s;
     expect (\<not> found);
     (_, s) \<leftarrow> returned_st (Send net_api un s);
     (found, s) \<leftarrow> Peek net_api un s;
     expect found;
     (found, s) \<leftarrow> Peek net_api un s;
     expect found;
     waited \<leftarrow> Wait net_api un s;
     (_, s) \<leftarrow> returned_st waited;
     (found, s) \<leftarrow> Peek net_api un s;
     expect (\<not> found);
     (found, s) \<leftarrow> Peek net_api un s;
     expect (\<not> found)
   }"

definition MulticastUdpNotificationTest_MatchNotifications :: "unit option" where
  "MulticastUdpNotificationTest_MatchNotifications = do {
     (un, s) \<leftarrow> MulticastUdpNotificationTest;
     (_, s) \<leftarrow> returned_st (Send net_api un s);
     (_, s) \<leftarrow> returned_st (Send net_api un s);
     waited \<leftarrow> Wait net_api un s;
     (_, s) \<leftarrow> returned_st waited;
     waited \<leftarrow> Wait net_api un s;
     (_, s) \<leftarrow> returned_st waited;
     Some ()
   }"

text \<open>A Wait of another thread that does not return, and then, after the Send, returns.\<close>

fun wait_rounds :: "nat \<Rightarrow> MulticastUdpNotification \<Rightarrow> udp_net \<Rightarrow> unit option" where
  "wait_rounds 0 un s = Some ()"
| "wait_rounds (Suc i) un s = do {
     expect (Wait net_api un s = None);
     (_, s) \<leftarrow> returned_st (Send net_api un s);
     waited \<leftarrow> Wait net_api un s;
     (_, s) \<leftarrow> returned_st waited;
     wait_rounds i un s
   }"

definition MulticastUdpNotificationTest_WaitBlocks :: "unit option" where
  "MulticastUdpNotificationTest_WaitBlocks = do {
     (un, s) \<leftarrow> MulticastUdpNotificationTest;
     wait_rounds 5 un s
   }"

lemma notification_tests:
  "MulticastUdpNotificationTest_NotifyPeekWaitPeek = Some ()" "MulticastUdpNotificationTest_MatchNotifications = Some ()"
  "MulticastUdpNotificationTest_WaitBlocks = Some ()"
  by code_simp+

section \<open>rmp/byteRingBufferTest\<close>

definition ByteRingBufferTest :: "mutex_view ByteRingBuffer option" where
  "ByteRingBufferTest = returned (mk_ByteRingBuffer posix_pthread (replicate 1024 0) 1024)"

definition ByteRingBufferTest_Initialized :: "unit option" where
  "ByteRingBufferTest_Initialized = do {
     rb \<leftarrow> ByteRingBufferTest;
     expect (rb_initialized rb);
     expect (configBufSizeBytes rb = 1024);
     expect (backPressureCount rb = 0);
     expect (notificationCount rb = 0)
   }"

fun ring_fill :: "nat list \<Rightarrow> 'm ByteRingBuffer \<Rightarrow> 'm ByteRingBuffer option" where
  "ring_fill [] rb = Some rb"
| "ring_fill (i # is) rb = do {
     rb \<leftarrow> returned (ring_set rb (int i) (of_nat (i mod 256)));
     ring_fill is rb
   }"

fun ring_check :: "nat list \<Rightarrow> 'm ByteRingBuffer \<Rightarrow> unit option" where
  "ring_check [] rb = Some ()"
| "ring_check (i # is) rb = do {
     v \<leftarrow> returned (ring_get rb (int i));
     expect (v = of_nat (i mod 256));
     ring_check is rb
   }"

definition ByteRingBufferTest_SetGet :: "unit option" where
  "ByteRingBufferTest_SetGet = do {
     rb \<leftarrow> ByteRingBufferTest;
     rb \<leftarrow> ring_fill [0 ..< 1024] rb;
     ring_check [0 ..< 1024] rb
   }"

lemma ring_fill_spec:
  assumes "\<And>i. i \<in> set is \<Longrightarrow> i < length (rb_data rb)"
  shows "\<exists>rb'. ring_fill is rb = Some rb' \<and> length (rb_data rb') = length (rb_data rb)
    \<and> (\<forall>i < length (rb_data rb). rb_data rb' ! i = (if i \<in> set is then of_nat (i mod 256) else rb_data rb ! i))"
  using assms
proof (induction "is" arbitrary: rb)
  case Nil
  then show ?case by simp
next
  case (Cons i "is")
  let ?rb = "rb\<lparr>rb_data := (rb_data rb)[i := of_nat (i mod 256)]\<rparr>"
  have "ring_set rb (int i) (of_nat (i mod 256)) = Inr ?rb" using Cons.prems by (simp add: ring_set_def)
  moreover obtain rb' where "ring_fill is ?rb = Some rb'" "length (rb_data rb') = length (rb_data ?rb)"
      "\<forall>j < length (rb_data ?rb). rb_data rb' ! j = (if j \<in> set is then of_nat (j mod 256) else rb_data ?rb ! j)"
    using Cons.IH [of ?rb] Cons.prems by auto
  ultimately show ?case by (auto simp: returned_def nth_list_update)
qed

lemma ring_check_spec:
  "(\<And>i. i \<in> set is \<Longrightarrow> i < length (rb_data rb) \<and> rb_data rb ! i = of_nat (i mod 256)) \<Longrightarrow> ring_check is rb = Some ()"
  by (induction "is") (auto simp: returned_def expect_def ring_get_def)

lemma ring_buffer_tests:
  "ByteRingBufferTest_Initialized = Some ()" "ByteRingBufferTest_SetGet = Some ()"
proof -
  obtain rb where rb: "ByteRingBufferTest = Some rb" "rb_initialized rb" "configBufSizeBytes rb = 1024"
      "backPressureCount rb = 0" "notificationCount rb = 0" "length (rb_data rb) = 1024"
    by (simp add: ByteRingBufferTest_def mk_ByteRingBuffer_def mk_RobustProcMutex_def posix_pthread_def returned_def)
  then show "ByteRingBufferTest_Initialized = Some ()" by (simp add: ByteRingBufferTest_Initialized_def expect_def rb)
  obtain rb' where rb': "ring_fill [0 ..< 1024] rb = Some rb'" "length (rb_data rb') = 1024"
      "\<forall>i < 1024. rb_data rb' ! i = of_nat (i mod 256)"
    using ring_fill_spec [of "[0 ..< 1024]" rb] rb(6) by (auto simp del: upt_rec_numeral)
  then show "ByteRingBufferTest_SetGet = Some ()"
    using ring_check_spec [of "[0 ..< 1024]" rb'] by (simp add: ByteRingBufferTest_SetGet_def rb rb' del: upt_rec_numeral)
qed

end
