(* ===== verification/SteadyWrites.thy ===== *)
theory SteadyWrites
  imports PublishSubscribe
begin

text \<open>
  A writer whose backpressure handler always declines: each call of WriteEx writes its message
  and asks the handler at most once. And the path of the stream end when all messages have one
  length: it comes back to the start of the buffer with every lap.
\<close>

section \<open>A handler that always declines\<close>

text \<open>Is there a reader that holds back the write of \<open>msg\<close>?\<close>

definition holds_back :: "Writer \<Rightarrow> 'm ByteRingBuffer \<Rightarrow> 'm ReaderInfo \<Rightarrow> u32 \<Rightarrow> bool" where
  "holds_back w rb ri n \<longleftrightarrow> DetectReaderBackpressure
     (plan_bytesToWrite (Write_plan (writer_indexMask w) (configBufSizeBytes rb) (freePos rb) n)) EMPTY_POSITION rb ri
     \<noteq> Inr None"

lemma Write_checked_cases:
  assumes w: "writer_ok w rb" and n: "ucast n \<le> GetMaxMessageSize rb" "unat n \<le> length data" and ri: "ri_inv ri"
  shows "if holds_back w rb ri n then \<exists>r. Write w data n True EMPTY_POSITION ri rb = Inr (Some r, rb)
    else \<exists>rb'. Write w data n True EMPTY_POSITION ri rb = Inr (None, rb') \<and> stored_write rb (take (unat n) data) rb'"
proof -
  obtain r where D: "DetectReaderBackpressure
      (plan_bytesToWrite (Write_plan (writer_indexMask w) (configBufSizeBytes rb) (freePos rb) n)) EMPTY_POSITION rb ri = Inr r"
    using Detect_total [OF ri] by blast
  show ?thesis
  proof (cases r)
    case None
    then show ?thesis using Write_stores [OF w n, of True EMPTY_POSITION ri] D by (simp add: holds_back_def)
  next
    case (Some p)
    then show ?thesis using D n(1) by (simp add: holds_back_def Write_def Let_def not_less)
  qed
qed

lemma WriteLoop_declined:
  assumes h: "\<And>p f. h p f (ri, c) = (False, ri, g c)"
    and w: "writer_ok w rb" and n: "ucast n \<le> GetMaxMessageSize rb" "unat n \<le> length data" and ri: "ri_inv ri"
  shows "\<exists>rb'. WriteLoop h w data n (rb, ri, c) = Some (Inr (rb', ri, if holds_back w rb ri n then g c else c))
    \<and> stored_write (rb\<lparr>backPressureCount := backPressureCount rb + (if holds_back w rb ri n then 1 else 0)\<rparr>)
        (take (unat n) data) rb'"
proof (cases "holds_back w rb ri n")
  case False
  have "rb\<lparr>backPressureCount := backPressureCount rb\<rparr> = rb" by simp
  then show ?thesis using False Write_checked_cases [OF w n ri] by (subst WriteLoop.simps) auto
next
  case True
  let ?rb = "rb\<lparr>backPressureCount := backPressureCount rb + 1\<rparr>"
  obtain r where bp: "Write w data n True EMPTY_POSITION ri rb = Inr (Some r, rb)"
    using True Write_checked_cases [OF w n ri] by auto
  obtain rb' where "Write w data n False EMPTY_POSITION ri ?rb = Inr (None, rb')" "stored_write ?rb (take (unat n) data) rb'"
    using Write_forced [of w ?rb n data EMPTY_POSITION ri] w n by auto
  then show ?thesis using True bp h by (subst WriteLoop.simps) (simp add: Let_def)
qed

context robust_pthread
begin

lemma WriteEx_declined:
  assumes h: "\<And>p f. h p f (ri, c) = (False, ri, g c)"
    and w: "writer_ok w rb" and msg: "message_fits (configBufSizeBytes rb) msg" and ri: "ri_inv ri"
    and mtx: "settled (view (writerMtx rb))" "holder_of (view (writerMtx rb)) = None"
  defines "bp \<equiv> holds_back w rb ri (of_nat (length msg))"
  shows "\<exists>rb'. WriteEx pt t h w msg (of_nat (length msg)) (rb, ri, c) = Some (Inr (rb', ri, if bp then g c else c))
    \<and> backPressureCount rb' = backPressureCount rb + (if bp then 1 else 0)
    \<and> batch_stored rb [msg] rb' \<and> writer_ok w rb' \<and> view (writerMtx rb') = Free"
proof -
  let ?n = "of_nat (length msg) :: u32"
  obtain m where m: "Lock pt t (writerMtx rb) = Inr m" "view m = Held t"
    using Lock_acquires [OF mtx] by blast
  let ?rb = "rb\<lparr>writerMtx := m\<rparr>" and ?k = "backPressureCount rb + (if bp then 1 else 0)"
  have ok: "rb_ok rb" using w by (simp add: writer_ok_def)
  have len: "unat ?n = length msg"
    using msg good_size_bounds(2) [OF rb_ok_good_size [OF ok]]
    by (intro unat_of_nat_small) (simp add: message_fits_def)
  have max: "ucast ?n \<le> GetMaxMessageSize ?rb"
    using msg unat_GetMaxMessageSize [OF ok] by (simp add: word_le_nat_alt len message_fits_def)
  have bp: "holds_back w ?rb ri ?n = bp"
    by (simp add: bp_def holds_back_def DetectReaderBackpressure_def)
  have "writer_ok w ?rb" using w by simp
  from WriteLoop_declined [where h = h and c = c and g = g, OF h this max _ ri, of msg] obtain rb1
    where loop: "WriteLoop h w msg ?n (?rb, ri, c) = Some (Inr (rb1, ri, if bp then g c else c))"
      and st: "stored_write (rb\<lparr>writerMtx := m, backPressureCount := ?k\<rparr>) msg rb1"
    unfolding bp by (auto simp: len)
  note frame = stored_write_frame [OF st]
  obtain m' where m': "Unlock pt t m = Inr m'" "view m' = Free" using Unlock_releases [OF m(2)] by blast
  have "WriteEx pt t h w msg ?n (rb, ri, c) = Some (Inr (rb1\<lparr>writerMtx := m'\<rparr>, ri, if bp then g c else c))"
    using loop m m' frame(4) by (simp add: WriteEx_def)
  moreover have "written_free view rb msg (rb1\<lparr>writerMtx := m'\<rparr>)"
    unfolding written_free_def
  proof (intro exI conjI)
    have "rb1\<lparr>writerMtx := m\<rparr> = rb1" using frame(4) by (cases rb1) simp
    then show "stored_write (rb\<lparr>writerMtx := m, backPressureCount := ?k\<rparr>) msg (rb1\<lparr>writerMtx := m', writerMtx := m\<rparr>)"
      using st by simp
  qed (use m'(2) in simp_all)
  moreover have "writer_ok w (rb1\<lparr>writerMtx := m'\<rparr>)" using frame(8) [of w] w by simp
  ultimately show ?thesis
    using m'(2) frame(6) by (intro exI [of _ "rb1\<lparr>writerMtx := m'\<rparr>"]) (simp add: written_free_batch)
qed

end

text \<open>When no active reader lies within the last lap, or none would be overtaken, nobody holds back.\<close>

lemma holds_back_plan:
  assumes "writer_ok w rb" "ri_inv ri" "unat n + 5 \<le> unat (configBufSizeBytes rb)"
    and d: "\<And>k. active_at ri k \<Longrightarrow> dist (info_position (ri_slots ri ! k)) (freePos rb) < 2 ^ 62"
  defines "B \<equiv> unat (configBufSizeBytes rb)"
  shows "holds_back w rb ri n \<longleftrightarrow> (\<exists>k. active_at ri k \<and>
    dist (info_position (ri_slots ri ! k)) (freePos rb) < B \<and>
    B \<le> dist (info_position (ri_slots ri ! k)) (freePos rb)
      + (total (filler (configBufSizeBytes rb) (freePos rb) (unat n)) + 5 + unat n))"
proof -
  let ?B = "configBufSizeBytes rb" and ?f = "freePos rb"
  let ?p = "Write_plan (writer_indexMask w) ?B ?f n"
  have good: "good_size ?B" and mask: "writer_indexMask w = ?B - 1"
    using assms(1) by (simp_all add: writer_ok_def rb_ok_def)
  have T: "unat (plan_bytesToWrite ?p) = total (filler ?B ?f (unat n)) + 5 + unat n"
    using Write_plan_eq [OF good assms(3), of ?f] by (auto simp: mask)
  have "unat (plan_bytesToWrite ?p) \<le> 2 ^ 33"
    using T total_filler_le [of ?B ?f "unat n"] good_size_bounds(2) [OF good] assms(3) by simp
  then have chk: "bp_check ?B ?f (plan_bytesToWrite ?p) None (ri_slots ri ! k) = None \<longleftrightarrow>
      \<not> (dist (info_position (ri_slots ri ! k)) ?f < B \<and>
         B \<le> dist (info_position (ri_slots ri ! k)) ?f + unat (plan_bytesToWrite ?p))" if k: "active_at ri k" for k
    using d [OF k] k by (subst bp_check_dist [OF good]) (auto simp: active_at_def B_def)
  show ?thesis
    unfolding holds_back_def EMPTY_POSITION_def Detect_None_iff [OF assms(2)] using chk by (auto simp: T)
qed

section \<open>Messages of one length\<close>

text \<open>
  The stream end at a multiple of the room of one message from the start of the buffer. This is
  kept, and such a message is readable unless the lap leaves exactly five bytes.
\<close>

lemma lap_index:
  assumes good: "good_size B" and fits: "5 + length d \<le> unat B" and at: "(5 + length d) dvd index_of B f"
  shows "(5 + length d) dvd index_of B (f + of_nat (total (write_segments B f d)))"
proof -
  let ?L = "5 + length d" and ?rest = "unat B - index_of B f"
  have idx: "index_of B f < unat B" by (rule index_of_less [OF good])
  have L: "unat (of_nat ?L :: u64) = ?L"
    using fits good_size_bounds(2) [OF good] by (intro unat_of_nat_small) simp
  show ?thesis
  proof (cases "?rest < ?L")
    case True
    have "total (write_segments B f d) = ?rest + ?L"
      using True by (auto simp: write_segments_def filler_def Let_def)
    then have "f + of_nat (total (write_segments B f d)) = (f + of_nat ?rest) + of_nat ?L" by simp
    then have "index_of B (f + of_nat (total (write_segments B f d))) = (0 + ?L) mod unat B"
      using index_of_add [OF good, of "f + of_nat ?rest" "of_nat ?L"] L index_of_wrap [OF good, of f]
      by (simp only:)
    then show ?thesis using fits by (cases "?L = unat B") simp_all
  next
    case False
    then have "total (write_segments B f d) = ?L" by (auto simp: write_segments_def filler_def Let_def)
    then have i: "index_of B (f + of_nat (total (write_segments B f d))) = (index_of B f + ?L) mod unat B"
      using index_of_add [OF good, of f "of_nat ?L"] L by simp
    show ?thesis
    proof (cases "?rest = ?L")
      case True
      then have "index_of B f + ?L = unat B" using idx by linarith
      then show ?thesis using i by simp
    next
      case ne: False
      then have "index_of B f + ?L < unat B" using False idx by linarith
      then show ?thesis using i at by simp
    qed
  qed
qed

lemma lap_valid:
  assumes "good_size B" "5 + length d \<le> unat B" "(5 + length d) dvd index_of B f" "d \<noteq> []"
    and "unat B mod (5 + length d) \<noteq> 5"
  shows "list_all seg_valid (write_segments B f d)"
proof -
  let ?L = "5 + length d" and ?rest = "unat B - index_of B f"
  have "?rest \<noteq> 5"
  proof
    assume five: "?rest = 5"
    obtain k where "index_of B f = ?L * k" using assms(3) by (rule dvdE)
    then have "unat B = 5 + ?L * k" using five index_of_less [OF assms(1), of f] by simp
    then have "unat B mod ?L = 5 mod ?L" by (simp del: mod_mult_self1_is_0)
    moreover have "5 mod ?L = 5" using assms(4) by (cases d) simp_all
    ultimately show False using assms(5) by simp
  qed
  then show ?thesis using assms(4) by (auto simp: write_segments_def filler_def Let_def)
qed

lemma lap_room: "total (write_segments B f d) < 2 * (5 + length d)"
  by (auto simp: write_segments_def filler_def Let_def)

lemma lap_progress: "5 + length d \<le> total (write_segments B f d)"
  by (auto simp: write_segments_def filler_def Let_def)

end
