(* ===== verification/RingBench.thy ===== *)
theory RingBench
  imports UnitTests SteadyWrites
begin

text \<open>
  benchmark_tests/rmp/inMemory.hpp and rmpBench.cpp, and the benchmarks of the robust mutex: ring
  and reader table in the memory of one process, and the loops whose time is measured. How often
  the benchmark library runs the body of such a loop is a parameter, as are the sizes that the ABI
  gives the headers. A benchmark has a result only if nothing throws and every call returns.
\<close>

section \<open>rmp/inMemory.hpp\<close>

definition InMemoryRingBuf :: "'m pthread_api \<Rightarrow> u64 \<Rightarrow> int \<Rightarrow> 'm ByteRingBuffer result" where
  "InMemoryRingBuf pt sizeof_self bufSizeBytes =
     (let ringBufMem = replicate (unat (ByteRingBuffer_Size sizeof_self (of_int bufSizeBytes))) 0
      in mk_ByteRingBuffer pt (drop (unat sizeof_self) ringBufMem) (of_int bufSizeBytes))"

definition InMemoryReaderInfo :: "'m pthread_api \<Rightarrow> int \<Rightarrow> 'm ReaderInfo result" where
  "InMemoryReaderInfo pt readerInfoSlots = mk_ReaderInfo pt (of_int readerInfoSlots)"

text \<open>\<open>for (auto _ : state)\<close>, for \<open>n\<close> iterations.\<close>

primrec KeepRunning :: "nat \<Rightarrow> ('s \<Rightarrow> 's option) \<Rightarrow> 's \<Rightarrow> 's option" where
  "KeepRunning 0 body s = Some s"
| "KeepRunning (Suc n) body s = Option.bind (body s) (KeepRunning n body)"

lemma KeepRunning_invariant:
  assumes "P 0 s" "\<And>i s. P i s \<Longrightarrow> i < n \<Longrightarrow> \<exists>s'. body s = Some s' \<and> P (Suc i) s'"
  shows "\<exists>s'. KeepRunning n body s = Some s' \<and> P n s'"
proof -
  have "\<exists>s'. KeepRunning k body s = Some s' \<and> P (i + k) s'" if "P i s" "i + k \<le> n" for i k s
    using that
  proof (induction k arbitrary: i s)
    case (Suc k)
    obtain s1 where "body s = Some s1" "P (Suc i) s1" using assms(2) Suc.prems by fastforce
    then show ?case using Suc.IH [of "Suc i" s1] Suc.prems(2) by simp
  qed simp
  from this [of 0 s n] assms(1) show ?thesis by simp
qed

section \<open>rmp/rmpBench.cpp\<close>

definition bench_msg :: bytes where
  "bench_msg = replicate 64 0"

text \<open>The handler that the benchmarks pass, and an empty \<open>std::function\<close> in its place.\<close>

definition giveUp :: "('m, unit) bp_handler" where
  "giveUp p f s = (False, fst s, ())"

definition empty_handler :: "('m, failure option) bp_handler" where
  "empty_handler p f s = (False, fst s, Some (Thrown ''bad_function_call''))"

definition write_bench ::
    "'m pthread_api \<Rightarrow> tid \<Rightarrow> Writer \<Rightarrow> 'm ByteRingBuffer \<times> 'm ReaderInfo \<Rightarrow> ('m ByteRingBuffer \<times> 'm ReaderInfo) option" where
  "write_bench pt t writer s = do {
     r \<leftarrow> WriteEx pt t giveUp writer bench_msg (of_nat (length bench_msg)) (fst s, snd s, ());
     (rb, ri, _) \<leftarrow> returned r;
     Some (rb, ri)
   }"

primrec activate_first :: "nat \<Rightarrow> 'm ReaderInfo \<Rightarrow> 'm ReaderInfo option" where
  "activate_first 0 ri = Some ri"
| "activate_first (Suc i) ri = do {
     ri \<leftarrow> activate_first i ri;
     returned (Activate (int i) 0 ri)
   }"

definition RmpWriteWithActiveReaders ::
    "'m pthread_api \<Rightarrow> tid \<Rightarrow> u64 \<Rightarrow> nat \<Rightarrow> nat \<Rightarrow> ('m ByteRingBuffer \<times> 'm ReaderInfo) option" where
  "RmpWriteWithActiveReaders pt t sizeof_self readers n = do {
     rb \<leftarrow> returned (InMemoryRingBuf pt sizeof_self (4 * 1024 * 1024));
     ri \<leftarrow> returned (InMemoryReaderInfo pt 256);
     writer \<leftarrow> returned (mk_Writer rb);
     ri \<leftarrow> activate_first readers ri;
     KeepRunning n (write_bench pt t writer) (rb, ri)
   }"

definition RmpWriteWithBufSizeMB ::
    "'m pthread_api \<Rightarrow> tid \<Rightarrow> u64 \<Rightarrow> int \<Rightarrow> nat \<Rightarrow> ('m ByteRingBuffer \<times> 'm ReaderInfo) option" where
  "RmpWriteWithBufSizeMB pt t sizeof_self mb n = do {
     rb \<leftarrow> returned (InMemoryRingBuf pt sizeof_self (mb * 1024 * 1024));
     ri \<leftarrow> returned (InMemoryReaderInfo pt 256);
     writer \<leftarrow> returned (mk_Writer rb);
     KeepRunning n (write_bench pt t writer) (rb, ri)
   }"

text \<open>
  The read callback of the benchmarks does nothing; it is an argument here, with a state of its
  own, so that what it is handed can be seen. \<open>pos2\<close> is not initialised.
\<close>

type_synonym ('m, 'e) sweep_state =
  "('m ByteRingBuffer \<times> 'm ReaderInfo) \<times> 'e CopyConfirmHandler read_state"

definition sweep_iteration ::
    "'m pthread_api \<Rightarrow> tid \<Rightarrow> Writer \<Rightarrow> Reader \<Rightarrow> (bytes \<Rightarrow> 'e \<Rightarrow> 'e) \<Rightarrow> ('m, 'e) sweep_state \<Rightarrow> ('m, 'e) sweep_state option" where
  "sweep_iteration pt t writer reader cb s = do {
     (rb, ri) \<leftarrow> write_bench pt t writer (fst s);
     r \<leftarrow> ReadEx reader (CopyConfirm cb) rb (snd s);
     (_, rs) \<leftarrow> returned r;
     Some ((rb, ri), rs)
   }"

definition RmpSweepingWriteReadWithBufSizeMB ::
    "'m pthread_api \<Rightarrow> tid \<Rightarrow> u64 \<Rightarrow> int \<Rightarrow> position \<Rightarrow> (bytes \<Rightarrow> 'e \<Rightarrow> 'e) \<Rightarrow> 'e \<Rightarrow> nat \<Rightarrow> ('m, 'e) sweep_state option" where
  "RmpSweepingWriteReadWithBufSizeMB pt t sizeof_self mb pos2 cb env n = do {
     rb \<leftarrow> returned (InMemoryRingBuf pt sizeof_self (mb * 1024 * 1024));
     ri \<leftarrow> returned (InMemoryReaderInfo pt 256);
     writer \<leftarrow> returned (mk_Writer rb);
     reader \<leftarrow> returned (mk_Reader rb);
     KeepRunning n (sweep_iteration pt t writer reader cb)
       ((rb, ri), \<lparr> rs_pos = 0, rs_bpos = pos2, rs_handler = \<lparr> cch_data = [], cch_env = env \<rparr> \<rparr>)
   }"

text \<open>One iteration for each of the values that \<open>pos2\<close> happens to have.\<close>

fun read_rounds ::
    "Reader \<Rightarrow> (bytes \<Rightarrow> 'e \<Rightarrow> 'e) \<Rightarrow> 'm ByteRingBuffer \<Rightarrow> position list \<Rightarrow> 'e CopyConfirmHandler
     \<Rightarrow> 'e CopyConfirmHandler option" where
  "read_rounds reader cb rb [] cch = Some cch"
| "read_rounds reader cb rb (pos2 # rest) cch = do {
     r \<leftarrow> ReadEx reader (CopyConfirm cb) rb \<lparr> rs_pos = 0, rs_bpos = pos2, rs_handler = cch \<rparr>;
     (_, rs) \<leftarrow> returned r;
     read_rounds reader cb rb rest (rs_handler rs)
   }"

definition RmpRead ::
    "'m pthread_api \<Rightarrow> tid \<Rightarrow> u64 \<Rightarrow> (bytes \<Rightarrow> 'e \<Rightarrow> 'e) \<Rightarrow> 'e \<Rightarrow> position list \<Rightarrow> 'e CopyConfirmHandler option" where
  "RmpRead pt t sizeof_self cb env garbage = do {
     rb \<leftarrow> returned (InMemoryRingBuf pt sizeof_self (4 * 1024 * 1024));
     ri \<leftarrow> returned (InMemoryReaderInfo pt 256);
     writer \<leftarrow> returned (mk_Writer rb);
     reader \<leftarrow> returned (mk_Reader rb);
     r \<leftarrow> WriteEx pt t empty_handler writer bench_msg (of_nat (length bench_msg)) (rb, ri, None);
     (rb, ri, thrown) \<leftarrow> returned r;
     if thrown \<noteq> None then None
     else read_rounds reader cb rb garbage \<lparr> cch_data = [], cch_env = env \<rparr>
   }"

section \<open>traits/posix/robustFutexBench.cpp\<close>

definition RobustFutexLockUnlock :: "'m pthread_api \<Rightarrow> tid \<Rightarrow> u64 \<Rightarrow> nat \<Rightarrow> 'm option" where
  "RobustFutexLockUnlock pt t sizeof_self n = do {
     rb \<leftarrow> returned (InMemoryRingBuf pt sizeof_self (4 * 1024 * 1024));
     KeepRunning n (\<lambda>m. do { m \<leftarrow> returned (Lock pt t m); returned (Unlock pt t m) }) (writerMtx rb)
   }"

text \<open>The answers of TryLock are what the loop leaves unused.\<close>

definition RobustFutexTryLock :: "'m pthread_api \<Rightarrow> tid \<Rightarrow> u64 \<Rightarrow> nat \<Rightarrow> (bool list \<times> 'm) option" where
  "RobustFutexTryLock pt t sizeof_self n = do {
     rb \<leftarrow> returned (InMemoryRingBuf pt sizeof_self (4 * 1024 * 1024));
     KeepRunning n (\<lambda>(answers, m). do { (a, m) \<leftarrow> returned (TryLock pt t m); Some (answers @ [a], m) }) ([], writerMtx rb)
   }"

section \<open>The objects of a benchmark\<close>

lemma returned_Inr [simp]: "returned (Inr x) = Some x"
  by (simp add: returned_def)

lemma bench_msg_frame [simp]: "length bench_msg = 64" "bench_msg \<noteq> []"
  by (simp_all add: bench_msg_def)

definition bench_size :: "u64 \<Rightarrow> bool" where
  "bench_size B \<longleftrightarrow> B \<in> {0x100000, 0x400000, 0x1000000, 0x10000000}"

lemma bench_size_good:
  assumes "bench_size B"
  shows "good_size B" "2 ^ 20 \<le> unat B" "unat B \<le> 2 ^ 28" "unat B mod 69 \<noteq> 5"
  using assms by (auto simp: bench_size_def good_size_def IsZeroOrPowerOfTwo_def)

lemma bench_size_mb: "mb \<in> {1, 4, 16, 256} \<Longrightarrow> bench_size (of_int (mb * 1024 * 1024))"
  by (auto simp: bench_size_def)

text \<open>A writer between two writes of a benchmark.\<close>

definition bench_ready :: "('m \<Rightarrow> mutex_view) \<Rightarrow> Writer \<Rightarrow> u64 \<Rightarrow> 'm ByteRingBuffer \<times> 'm ReaderInfo \<Rightarrow> bool" where
  "bench_ready view w B s \<longleftrightarrow> writer_ok w (fst s) \<and> configBufSizeBytes (fst s) = B \<and> view (writerMtx (fst s)) = Free
    \<and> ri_inv (snd s) \<and> (5 + 64) dvd index_of B (freePos (fst s))"

context robust_pthread
begin

lemma InMemoryRingBuf_made:
  assumes "bench_size (of_int bufSize)" "0 \<le> bufSize" "bufSize < 2 ^ 32" "unat sizeof_self \<le> 2 ^ 31"
  shows "\<exists>rb. InMemoryRingBuf pt sizeof_self bufSize = Inr rb \<and> rb_ok rb \<and> rb_initialized rb
    \<and> configBufSizeBytes rb = of_int bufSize \<and> freePos rb = 0 \<and> backPressureCount rb = 0 \<and> view (writerMtx rb) = Free"
proof -
  obtain m where m: "mk_RobustProcMutex pt = Inr m" "view m = Free"
    using init_free by (cases "pthread_init pt") (simp add: mk_RobustProcMutex_def)
  let ?n = "of_int bufSize :: u64"
  note good = bench_size_good [OF assms(1)]
  have n: "unat (ucast (of_int bufSize :: u32) :: u64) = unat ?n"
  proof -
    have "unat (of_int bufSize :: u32) = nat bufSize" "unat ?n = nat bufSize"
      using assms(2,3) by (simp_all add: unat_eq_nat_uint uint_word_of_int take_bit_eq_mod)
    then show ?thesis by simp
  qed
  have "unat (sizeof_self + ucast (of_int bufSize :: u32)) = unat sizeof_self + unat ?n"
    using assms(4) good(3) n by (simp add: unat_add_small)
  then have "unat (ByteRingBuffer_Size sizeof_self (of_int bufSize)) = unat sizeof_self + unat ?n"
    using assms(4) good(3) by (simp add: ByteRingBuffer_Size_def unsigned_ucast_eq take_bit_eq_mod)
  then show ?thesis
    using m good(1) by (simp add: InMemoryRingBuf_def Let_def mk_ByteRingBuffer_def rb_ok_def)
qed


lemma bench_written:
  assumes "bench_ready view w B s" "batch_stored (fst s) [bench_msg] rb" "writer_ok w rb" "view (writerMtx rb) = Free" "bench_size B"
  shows "bench_ready view w B (rb, snd s)"
  using assms lap_index [of B bench_msg "freePos (fst s)"] bench_size_good [OF assms(5)]
  by (simp add: bench_ready_def batch_stored_def)

lemma write_bench_declined:
  assumes "bench_ready view w B s" "bench_size B"
  shows "\<exists>rb. write_bench pt t w s = Some (rb, snd s) \<and> bench_ready view w B (rb, snd s) \<and> batch_stored (fst s) [bench_msg] rb
    \<and> backPressureCount rb = backPressureCount (fst s) + (if holds_back w (fst s) (snd s) 64 then 1 else 0)"
proof -
  have "giveUp p f (snd s, ()) = (False, snd s, ())" for p f by (simp add: giveUp_def)
  from WriteEx_declined [where h = giveUp and c = "()" and g = "\<lambda>c. c" and w = w and rb = "fst s" and ri = "snd s"
      and msg = bench_msg and t = t, OF this]
  obtain rb where w: "WriteEx pt t giveUp w bench_msg 64 (fst s, snd s, ()) = Some (Inr (rb, snd s, ()))"
      and rb: "backPressureCount rb = backPressureCount (fst s) + (if holds_back w (fst s) (snd s) 64 then 1 else 0)"
        "batch_stored (fst s) [bench_msg] rb" "writer_ok w rb" "view (writerMtx rb) = Free"
    using assms bench_size_good(2) [OF assms(2)] by (auto simp: bench_ready_def message_fits_def)
  then show ?thesis using bench_written [OF assms(1) rb(2-4) assms(2)] by (simp add: write_bench_def)
qed

lemma bench_ready_fresh:
  assumes "rb_ok rb" "configBufSizeBytes rb = B" "freePos rb = 0" "view (writerMtx rb) = Free" "ri_inv ri"
  shows "bench_ready view \<lparr> writer_indexMask = B - 1 \<rparr> B (rb, ri)"
  using assms by (simp add: bench_ready_def writer_ok_def index_of_def)

text \<open>The total room of one message.\<close>

lemma bench_room: "69 \<le> total (write_segments B f bench_msg) \<and> total (write_segments B f bench_msg) < 138"
  using lap_progress [of bench_msg B f] lap_room [of B f bench_msg] by simp

end

section \<open>Readers that never read\<close>

text \<open>The first \<open>k\<close> slots active at position 0, and no others.\<close>

definition active_below :: "nat \<Rightarrow> 'm ReaderInfo \<Rightarrow> bool" where
  "active_below k ri \<longleftrightarrow> ri_inv ri \<and> (\<forall>i. active_at ri i \<longleftrightarrow> i < k) \<and> (\<forall>i < k. info_position (ri_slots ri ! i) = 0)"

lemma activate_first_below:
  assumes "active_below 0 ri" "k \<le> length (ri_slots ri)"
  shows "\<exists>ri'. activate_first k ri = Some ri' \<and> active_below k ri' \<and> length (ri_slots ri') = length (ri_slots ri)"
  using assms(2)
proof (induction k)
  case 0
  then show ?case using assms(1) by simp
next
  case (Suc k)
  then obtain ri1 where ri1: "activate_first k ri = Some ri1" "active_below k ri1" "length (ri_slots ri1) = length (ri_slots ri)"
    by auto
  then have ok: "slots_ok ri1" "k < length (ri_slots ri1)" using Suc.prems by (simp_all add: active_below_def ri_inv_def)
  then obtain ri2 where ri2: "Activate (int k) 0 ri1 = Inr ri2" "ri_inv ri2"
      "ri_slots ri2 = (ri_slots ri1)[k := (ri_slots ri1 ! k)\<lparr>info_position := 0, info_isActive := 1\<rparr>]"
    using Activate_spec [OF ok(1), of "int k" 0] by auto
  have "active_at ri2 i \<longleftrightarrow> i < Suc k" for i
    using ri1(2) ri2(3) ok(2)
    by (cases "i = k") (auto simp: active_below_def active_at_def slot_active_def)
  moreover have "info_position (ri_slots ri2 ! i) = 0" if "i < Suc k" for i
    using that ri1(2) ri2(3) ok(2) by (cases "i = k") (simp_all add: active_below_def)
  ultimately show ?case using ri1 ri2 by (simp add: active_below_def)
qed

lemma holds_back_below:
  assumes "writer_ok w rb" "active_below k ri" "unat (freePos rb) < 2 ^ 62" "configBufSizeBytes rb = B" "bench_size B"
  shows "holds_back w rb ri 64 \<longleftrightarrow> 0 < k \<and> unat (freePos rb) < unat B
    \<and> unat B \<le> unat (freePos rb) + total (write_segments B (freePos rb) bench_msg)"
proof -
  have pos: "info_position (ri_slots ri ! i) = 0" if "active_at ri i" for i
    using that assms(2) by (auto simp: active_below_def)
  have "holds_back w rb ri 64 \<longleftrightarrow> (\<exists>i. active_at ri i \<and> dist (info_position (ri_slots ri ! i)) (freePos rb) < unat B \<and>
      unat B \<le> dist (info_position (ri_slots ri ! i)) (freePos rb) + (total (filler B (freePos rb) 64) + 5 + 64))"
    using assms bench_size_good(2) [OF assms(5)]
    by (subst holds_back_plan) (auto simp: pos dist_def active_below_def)
  also have "\<dots> \<longleftrightarrow> 0 < k \<and> unat (freePos rb) < unat B \<and> unat B \<le> unat (freePos rb) + (total (filler B (freePos rb) 64) + 5 + 64)"
    using assms(2) by (auto simp: pos dist_def active_below_def)
  finally show ?thesis by (simp add: write_segments_def add.assoc)
qed

context robust_pthread
begin

lemma bench_objects:
  assumes "bench_size (of_int bufSize)" "0 \<le> bufSize" "bufSize < 2 ^ 32" "unat sizeof_self \<le> 2 ^ 31"
  shows "\<exists>rb ri. InMemoryRingBuf pt sizeof_self bufSize = Inr rb \<and> InMemoryReaderInfo pt 256 = Inr ri
    \<and> mk_Writer rb = Inr \<lparr> writer_indexMask = of_int bufSize - 1 \<rparr>
    \<and> bench_ready view \<lparr> writer_indexMask = of_int bufSize - 1 \<rparr> (of_int bufSize) (rb, ri)
    \<and> freePos rb = 0 \<and> backPressureCount rb = 0 \<and> active_below 0 ri \<and> length (ri_slots ri) = 256
    \<and> rb_ok rb \<and> rb_initialized rb"
proof -
  obtain rb where rb: "InMemoryRingBuf pt sizeof_self bufSize = Inr rb" "rb_ok rb" "rb_initialized rb"
      "configBufSizeBytes rb = of_int bufSize" "freePos rb = 0" "backPressureCount rb = 0" "view (writerMtx rb) = Free"
    using InMemoryRingBuf_made [OF assms] by blast
  obtain m where "mk_RobustProcMutex pt = Inr m"
    using init_free by (cases "pthread_init pt") (simp add: mk_RobustProcMutex_def)
  then obtain ri where ri: "InMemoryReaderInfo pt 256 = Inr ri" "length (ri_slots ri) = 256"
    by (auto simp: InMemoryReaderInfo_def mk_ReaderInfo_def)
  have "ri_inv ri \<and> (\<forall>i. \<not> active_at ri i)"
    using ReaderInfo_inv ri(1) by (auto simp: InMemoryReaderInfo_def)
  then show ?thesis
    using rb ri mk_Writer_ok(1) [OF rb(2,3)] bench_ready_fresh [OF rb(2,4,5,7), of ri] by (simp add: active_below_def)
qed

lemma write_bench_counts:
  assumes "bench_ready view w B (rb, ri)" "bench_size B" "active_below k ri"
    and "backPressureCount rb = (if 0 < k \<and> unat B \<le> unat (freePos rb) then 1 else 0)"
    and "69 * i \<le> unat (freePos rb)" "unat (freePos rb) \<le> 138 * i" "i < 2 ^ 54"
  shows "\<exists>rb'. write_bench pt t w (rb, ri) = Some (rb', ri) \<and> bench_ready view w B (rb', ri)
    \<and> backPressureCount rb' = (if 0 < k \<and> unat B \<le> unat (freePos rb') then 1 else 0)
    \<and> 69 * Suc i \<le> unat (freePos rb') \<and> unat (freePos rb') \<le> 138 * Suc i"
proof -
  let ?T = "total (write_segments B (freePos rb) bench_msg)"
  obtain rb' where w: "write_bench pt t w (rb, ri) = Some (rb', ri)" "bench_ready view w B (rb', ri)"
      "batch_stored rb [bench_msg] rb'"
      "backPressureCount rb' = backPressureCount rb + (if holds_back w rb ri 64 then 1 else 0)"
    using write_bench_declined [OF assms(1,2), of t] by auto
  have small: "unat (freePos rb) + ?T < 2 ^ 62"
    using assms(6,7) bench_room [of B "freePos rb"] by simp
  then have T: "unat (of_nat ?T :: u64) = ?T" by (intro unat_of_nat_small) simp
  have "freePos rb' = freePos rb + of_nat ?T" using w(3) assms(1) by (simp add: batch_stored_def bench_ready_def)
  then have f: "unat (freePos rb') = unat (freePos rb) + ?T" using small by (simp add: unat_add_small T)
  have bp: "holds_back w rb ri 64 \<longleftrightarrow> 0 < k \<and> unat (freePos rb) < unat B \<and> unat B \<le> unat (freePos rb')"
    unfolding f using assms(1-3) small by (intro holds_back_below) (simp_all add: bench_ready_def)
  show ?thesis
    using w(1,2,4) assms(4-6) bench_room [of B "freePos rb"] by (auto simp: bp f)
qed

lemma RmpWriteWithActiveReaders_counts:
  assumes "readers \<le> 256" "n < 2 ^ 54" "unat sizeof_self \<le> 2 ^ 31"
  shows "\<exists>rb ri. RmpWriteWithActiveReaders pt t sizeof_self readers n = Some (rb, ri)
    \<and> backPressureCount rb = (if 0 < readers \<and> 4 * 1024 * 1024 \<le> unat (freePos rb) then 1 else 0)
    \<and> 69 * n \<le> unat (freePos rb) \<and> unat (freePos rb) \<le> 138 * n
    \<and> (0 < readers \<and> 60788 \<le> n \<longrightarrow> backPressureCount rb = 1)"
proof -
  let ?B = "of_int (4 * 1024 * 1024) :: u64"
  let ?w = "\<lparr> writer_indexMask = ?B - 1 \<rparr>"
  have B: "bench_size ?B" by (rule bench_size_mb) simp
  obtain rb ri where o: "InMemoryRingBuf pt sizeof_self (4 * 1024 * 1024) = Inr rb" "InMemoryReaderInfo pt 256 = Inr ri"
      "mk_Writer rb = Inr ?w" "bench_ready view ?w ?B (rb, ri)" "freePos rb = 0" "backPressureCount rb = 0"
      "active_below 0 ri" "length (ri_slots ri) = 256"
    using bench_objects [OF B _ _ assms(3)] by auto
  obtain ri' where ri': "activate_first readers ri = Some ri'" "active_below readers ri'"
    using activate_first_below [OF o(7)] assms(1) o(8) by auto
  have start: "bench_ready view ?w ?B (rb, ri')"
    using o(4) ri'(2) by (simp add: bench_ready_def active_below_def)
  let ?P = "\<lambda>i s. bench_ready view ?w ?B s \<and> active_below readers (snd s)
    \<and> backPressureCount (fst s) = (if 0 < readers \<and> unat ?B \<le> unat (freePos (fst s)) then 1 else 0)
    \<and> 69 * i \<le> unat (freePos (fst s)) \<and> unat (freePos (fst s)) \<le> 138 * i"
  have "\<exists>s. KeepRunning n (write_bench pt t ?w) (rb, ri') = Some s \<and> ?P n s"
  proof (rule KeepRunning_invariant)
    show "?P 0 (rb, ri')" using start ri'(2) o(5,6) by simp
    fix i s assume s: "?P i s" "i < n"
    then obtain rb' where "write_bench pt t ?w s = Some (rb', snd s)" "?P (Suc i) (rb', snd s)"
      using write_bench_counts [of ?w ?B "fst s" "snd s" readers i t, OF _ B] assms(2) by auto
    then show "\<exists>s'. write_bench pt t ?w s = Some s' \<and> ?P (Suc i) s'" by blast
  qed
  then show ?thesis using o(1-3) ri'(1) by (auto simp: RmpWriteWithActiveReaders_def)
qed

end

section \<open>A reader that keeps up\<close>

text \<open>Where the bench reader stands after an iteration: at the end of the stream, having called \<open>cb\<close> \<open>i\<close> times.\<close>

definition swept :: "(bytes \<Rightarrow> 'e \<Rightarrow> 'e) \<Rightarrow> 'e \<Rightarrow> nat \<Rightarrow> ('m, 'e) sweep_state \<Rightarrow> bool" where
  "swept cb env i s \<longleftrightarrow> rs_pos (snd s) = freePos (fst (fst s))
     \<and> cch_env (rs_handler (snd s)) = (cb bench_msg ^^ i) env"

lemma deliver_one: "cch_env (deliver (CopyConfirm cb) [d] h) = cb d (cch_env h)"
  by (simp add: CopyConfirm_def cch_Copy_def cch_Confirm_def)

lemma bench_pending:
  assumes "bench_size B" "configBufSizeBytes rb = B" "69 dvd index_of B (freePos rb)" "batch_stored rb [bench_msg] rb'"
  shows "pending rb' (freePos rb) (write_segments B (freePos rb) bench_msg)"
proof -
  note good = bench_size_good [OF assms(1)]
  have "list_all seg_valid (write_segments B (freePos rb) bench_msg)"
    using good assms(3) by (intro lap_valid) simp_all
  moreover have "total (write_segments B (freePos rb) bench_msg) < unat B"
    using lap_room [of B "freePos rb" bench_msg] good(2) by simp
  ultimately show ?thesis using batch_stored_pending [OF assms(4)] assms(2) by simp
qed

context robust_pthread
begin

lemma sweep_iteration_delivers:
  fixes s :: "('m, 'e) sweep_state"
  assumes "bench_ready view w B (fst s)" "bench_size B" "active_below 0 (snd (fst s))"
    and "reader_ok r (fst (fst s))" "swept cb env i s"
  shows "\<exists>rb rs. sweep_iteration pt t w r cb s = Some ((rb, snd (fst s)), rs)
    \<and> bench_ready view w B (rb, snd (fst s)) \<and> reader_ok r rb \<and> swept cb env (Suc i) ((rb, snd (fst s)), rs)
    \<and> backPressureCount rb = backPressureCount (fst (fst s))"
proof -
  obtain rb ri rs where s: "s = ((rb, ri), rs)" by (metis surj_pair)
  obtain rb' where w: "write_bench pt t w (rb, ri) = Some (rb', ri)" "bench_ready view w B (rb', ri)"
      "batch_stored rb [bench_msg] rb'"
      "backPressureCount rb' = backPressureCount rb + (if holds_back w rb ri 64 then 1 else 0)"
    using write_bench_declined [OF assms(1,2), of t] s by auto
  have "\<not> holds_back w rb ri 64"
    using assms(1-3) bench_size_good(2) [OF assms(2)] s
    by (subst holds_back_plan) (auto simp: bench_ready_def active_below_def)
  moreover have "pending rb' (rs_pos rs) (write_segments B (freePos rb) bench_msg)"
    using bench_pending [OF assms(2) _ _ w(3)] assms(1,5) s by (simp add: bench_ready_def swept_def)
  moreover have r: "reader_ok r rb'" using batch_stored_reader_ok [OF w(3)] assms(4) s by simp
  ultimately show ?thesis
    using w(1,2,4) ReadEx_pending [OF r, of rs _ "CopyConfirm cb"] assms(5) s deliver_one [of cb bench_msg]
    by (simp add: sweep_iteration_def swept_def del: deliver.simps)
qed

lemma RmpSweeping_delivers:
  assumes "mb \<in> {1, 4, 16, 256}" "unat sizeof_self \<le> 2 ^ 31"
  shows "\<exists>rb ri rs. RmpSweepingWriteReadWithBufSizeMB pt t sizeof_self mb pos2 cb env n = Some ((rb, ri), rs)
    \<and> swept cb env n ((rb, ri), rs) \<and> backPressureCount rb = 0"
proof -
  let ?B = "of_int (mb * 1024 * 1024) :: u64"
  let ?w = "\<lparr> writer_indexMask = ?B - 1 \<rparr>"
  have B: "bench_size ?B" by (rule bench_size_mb [OF assms(1)])
  have "0 \<le> mb * 1024 * 1024" "mb * 1024 * 1024 < 2 ^ 32" using assms(1) by auto
  from bench_objects [OF B this assms(2)] obtain rb ri
    where o: "InMemoryRingBuf pt sizeof_self (mb * 1024 * 1024) = Inr rb" "InMemoryReaderInfo pt 256 = Inr ri"
      "mk_Writer rb = Inr ?w" "bench_ready view ?w ?B (rb, ri)" "freePos rb = 0" "backPressureCount rb = 0"
      "active_below 0 ri" "rb_ok rb" "rb_initialized rb"
    by auto
  obtain r where r: "mk_Reader rb = Inr r" "reader_ok r rb" using mk_Reader_ok [OF o(8,9)] by blast
  let ?s = "((rb, ri), \<lparr> rs_pos = 0, rs_bpos = pos2, rs_handler = \<lparr> cch_data = [], cch_env = env \<rparr> \<rparr>)"
  let ?P = "\<lambda>i s. bench_ready view ?w ?B (fst s) \<and> active_below 0 (snd (fst s)) \<and> reader_ok r (fst (fst s))
    \<and> swept cb env i s \<and> backPressureCount (fst (fst s)) = 0"
  have "\<exists>s. KeepRunning n (sweep_iteration pt t ?w r cb) ?s = Some s \<and> ?P n s"
  proof (rule KeepRunning_invariant)
    show "?P 0 ?s" using o(4-7) r(2) by (simp add: swept_def)
    fix i s assume s: "?P i s" "i < n"
    then obtain rb' rs where "sweep_iteration pt t ?w r cb s = Some ((rb', snd (fst s)), rs)"
        "?P (Suc i) ((rb', snd (fst s)), rs)"
      using sweep_iteration_delivers [of ?w ?B s r cb env i t, OF _ B] by auto
    then show "\<exists>s'. sweep_iteration pt t ?w r cb s = Some s' \<and> ?P (Suc i) s'" by blast
  qed
  then show ?thesis using o(1-3) r(1) by (auto simp: RmpSweepingWriteReadWithBufSizeMB_def)
qed

end

section \<open>The other loops\<close>

context robust_pthread
begin

lemma RmpWriteWithBufSizeMB_free:
  assumes "mb \<in> {1, 4, 16, 256}" "unat sizeof_self \<le> 2 ^ 31"
  shows "\<exists>rb ri. RmpWriteWithBufSizeMB pt t sizeof_self mb n = Some (rb, ri) \<and> backPressureCount rb = 0"
proof -
  let ?B = "of_int (mb * 1024 * 1024) :: u64"
  let ?w = "\<lparr> writer_indexMask = ?B - 1 \<rparr>"
  have B: "bench_size ?B" by (rule bench_size_mb [OF assms(1)])
  have "0 \<le> mb * 1024 * 1024" "mb * 1024 * 1024 < 2 ^ 32" using assms(1) by auto
  from bench_objects [OF B this assms(2)] obtain rb ri
    where o: "InMemoryRingBuf pt sizeof_self (mb * 1024 * 1024) = Inr rb" "InMemoryReaderInfo pt 256 = Inr ri"
      "mk_Writer rb = Inr ?w" "bench_ready view ?w ?B (rb, ri)" "backPressureCount rb = 0" "active_below 0 ri"
    by auto
  let ?P = "\<lambda>i s. bench_ready view ?w ?B s \<and> active_below 0 (snd s) \<and> backPressureCount (fst s) = 0"
  have "\<exists>s. KeepRunning n (write_bench pt t ?w) (rb, ri) = Some s \<and> ?P n s"
  proof (rule KeepRunning_invariant)
    show "?P 0 (rb, ri)" using o(4-6) by simp
    fix i :: nat and s assume s: "?P i s"
    then have "\<not> holds_back ?w (fst s) (snd s) 64"
      using bench_size_good(2) [OF B] by (subst holds_back_plan) (auto simp: bench_ready_def active_below_def)
    then show "\<exists>s'. write_bench pt t ?w s = Some s' \<and> ?P (Suc i) s'"
      using write_bench_declined [of ?w ?B s t, OF _ B] s by auto
  qed
  then show ?thesis using o(1-3) by (auto simp: RmpWriteWithBufSizeMB_def)
qed

lemma read_rounds_repeat:
  assumes "reader_ok r rb" "pending rb 0 ss" "messages ss = [d]"
  shows "\<exists>cch'. read_rounds r cb rb garbage cch = Some cch' \<and> cch_env cch' = (cb d ^^ length garbage) (cch_env cch)"
proof (induction garbage arbitrary: cch)
  case (Cons pos2 rest)
  let ?cch = "deliver (CopyConfirm cb) [d] cch"
  have "ReadEx r (CopyConfirm cb) rb \<lparr> rs_pos = 0, rs_bpos = pos2, rs_handler = cch \<rparr>
      = Some (Inr (SUCCESS, \<lparr> rs_pos = freePos rb, rs_bpos = freePos rb, rs_handler = ?cch \<rparr>))"
    using ReadEx_pending [OF assms(1), of "\<lparr> rs_pos = 0, rs_bpos = pos2, rs_handler = cch \<rparr>" ss] assms(2,3) by simp
  then show ?case
    using Cons.IH [of ?cch] deliver_one [of cb d cch] by (simp add: funpow_swap1 del: deliver.simps)
qed simp

lemma RmpRead_repeats:
  assumes "unat sizeof_self \<le> 2 ^ 31"
  shows "\<exists>cch. RmpRead pt t sizeof_self cb env garbage = Some cch \<and> cch_env cch = (cb bench_msg ^^ length garbage) env"
proof -
  let ?B = "of_int (4 * 1024 * 1024) :: u64"
  let ?w = "\<lparr> writer_indexMask = ?B - 1 \<rparr>"
  have B: "bench_size ?B" by (rule bench_size_mb) simp
  obtain rb ri where o: "InMemoryRingBuf pt sizeof_self (4 * 1024 * 1024) = Inr rb" "InMemoryReaderInfo pt 256 = Inr ri"
      "mk_Writer rb = Inr ?w" "bench_ready view ?w ?B (rb, ri)" "freePos rb = 0" "active_below 0 ri" "rb_ok rb" "rb_initialized rb"
    using bench_objects [OF B _ _ assms] by auto
  obtain r where r: "mk_Reader rb = Inr r" "reader_ok r rb" using mk_Reader_ok [OF o(7,8)] by blast
  have "empty_handler p f (ri, None) = (False, ri, Some (Thrown ''bad_function_call''))" for p f
    by (simp add: empty_handler_def)
  moreover have "\<not> holds_back ?w rb ri 64"
    using o(4,6) bench_size_good(2) [OF B] by (subst holds_back_plan) (auto simp: bench_ready_def active_below_def)
  ultimately obtain rb' where w: "WriteEx pt t empty_handler ?w bench_msg 64 (rb, ri, None) = Some (Inr (rb', ri, None))"
      "batch_stored rb [bench_msg] rb'"
    using WriteEx_declined [where h = empty_handler and c = None and g = "\<lambda>_. Some (Thrown ''bad_function_call'')"
        and w = ?w and rb = rb and ri = ri and msg = bench_msg and t = t]
      o(4) bench_size_good(2) [OF B] by (auto simp: bench_ready_def message_fits_def)
  have "pending rb' 0 (write_segments ?B 0 bench_msg)"
    using bench_pending [OF B _ _ w(2)] o(4,5) by (simp add: bench_ready_def)
  moreover have "reader_ok r rb'" using batch_stored_reader_ok [OF w(2)] r(2) by simp
  ultimately obtain cch where "read_rounds r cb rb' garbage \<lparr> cch_data = [], cch_env = env \<rparr> = Some cch"
      "cch_env cch = (cb bench_msg ^^ length garbage) env"
    using read_rounds_repeat [of r rb' "write_segments ?B 0 bench_msg" bench_msg cb garbage "\<lparr> cch_data = [], cch_env = env \<rparr>"]
    by auto
  then show ?thesis using o(1-3) r(1) w(1) by (simp add: RmpRead_def)
qed

lemma RobustFutexLockUnlock_free:
  assumes "unat sizeof_self \<le> 2 ^ 31"
  shows "\<exists>m. RobustFutexLockUnlock pt t sizeof_self n = Some m \<and> view m = Free"
proof -
  have B: "bench_size (of_int (4 * 1024 * 1024))" by (rule bench_size_mb) simp
  obtain rb where rb: "InMemoryRingBuf pt sizeof_self (4 * 1024 * 1024) = Inr rb" "view (writerMtx rb) = Free"
    using InMemoryRingBuf_made [OF B _ _ assms] by auto
  let ?body = "\<lambda>m. do { m \<leftarrow> returned (Lock pt t m); returned (Unlock pt t m) }"
  have "\<exists>m. KeepRunning n ?body (writerMtx rb) = Some m \<and> view m = Free"
  proof (rule KeepRunning_invariant)
    fix m assume "view m = Free"
    then obtain m1 where m1: "Lock pt t m = Inr m1" "view m1 = Held t" using Lock_acquires [of m t] by auto
    then obtain m2 where "Unlock pt t m1 = Inr m2" "view m2 = Free" using Unlock_releases by blast
    then show "\<exists>m'. ?body m = Some m' \<and> view m' = Free" using m1(1) by simp
  qed (rule rb(2))
  then show ?thesis using rb(1) by (simp add: RobustFutexLockUnlock_def)
qed

text \<open>Only the first TryLock finds the mutex free: nobody unlocks it.\<close>

lemma RobustFutexTryLock_first:
  assumes "unat sizeof_self \<le> 2 ^ 31"
  shows "\<exists>m. RobustFutexTryLock pt t sizeof_self (Suc n) = Some (True # replicate n False, m) \<and> view m = Held t"
proof -
  have B: "bench_size (of_int (4 * 1024 * 1024))" by (rule bench_size_mb) simp
  obtain rb where rb: "InMemoryRingBuf pt sizeof_self (4 * 1024 * 1024) = Inr rb" "view (writerMtx rb) = Free"
    using InMemoryRingBuf_made [OF B _ _ assms] by auto
  let ?body = "\<lambda>(answers, m). do { (a, m) \<leftarrow> returned (TryLock pt t m); Some (answers @ [a], m) }"
  obtain m where m: "TryLock pt t (writerMtx rb) = Inr (True, m)" "view m = Held t"
    using TryLock_acquires [of "writerMtx rb" t] rb(2) by auto
  have "\<exists>s. KeepRunning n ?body ([True], m) = Some s \<and> s = (True # replicate n False, m)"
    by (rule KeepRunning_invariant) (auto simp: TryLock_busy [OF m(2)] replicate_append_same)
  then show ?thesis using rb(1) m by (simp add: RobustFutexTryLock_def)
qed

end

section \<open>Properties\<close>



text \<open>
  C36: Sweeping write and read. For every buffer size that the benchmark is run with, and however
  often its loop runs, each iteration hands the callback exactly the one message that it wrote and
  leaves the reader at the end of the stream: no position expires at the end of a lap, and the
  backpressure handler is never asked.
\<close>

theorem RmpSweeping_exact:
  fixes pt :: "'m pthread_api"
  assumes "robust_pthread pt view" "mb \<in> {1, 4, 16, 256}" "unat sizeof_self \<le> 2 ^ 31"
  shows "\<exists>rb ri rs. RmpSweepingWriteReadWithBufSizeMB pt t sizeof_self mb pos2 cb env n = Some ((rb, ri), rs)
    \<and> rs_pos rs = freePos rb \<and> cch_env (rs_handler rs) = (cb (replicate 64 0) ^^ n) env \<and> backPressureCount rb = 0"
  using robust_pthread.RmpSweeping_delivers [OF assms, of t pos2 cb env n] by (auto simp: swept_def bench_msg_def)

theorem RmpSweeping_exact_witness:
  "\<exists>rb ri rs. RmpSweepingWriteReadWithBufSizeMB posix_pthread 0 104 4 7 (\<lambda>d k. k + length d) 0 1000000 = Some ((rb, ri), rs)
    \<and> cch_env (rs_handler rs) = 64000000"
proof -
  have "((\<lambda>k. k + length (replicate 64 (0 :: u8))) ^^ n) 0 = n * 64" for n
    by (induction n) simp_all
  from this [of 1000000] show ?thesis
    using RmpSweeping_exact [OF posix.robust_pthread_axioms, of 4 104 0 7 "\<lambda>d k. k + length d" 0 1000000]
    by auto
qed

end
