(* ===== verification/TopicBench.thy ===== *)
theory TopicBench
  imports RingBench BurstRuns
begin

text \<open>
  benchmark_tests/tp/inMemory.hpp and tpBench.cpp: the topic writer and the topic reader in the
  memory of one process, with queues that run what they are given at once.
\<close>

section \<open>tp/inMemory.hpp and the fixture\<close>

definition tp_InMemoryReaderInfo :: "'m pthread_api \<Rightarrow> int \<Rightarrow> 'm TpReaderInfo result" where
  "tp_InMemoryReaderInfo pt readerInfoSlots = mk_TpReaderInfo pt (of_int readerInfoSlots)"

text \<open>The message queue is a vector; a message always finds nobody at work.\<close>

definition push_message :: "bytes \<Rightarrow> bytes list \<Rightarrow> bool \<times> bytes list" where
  "push_message msg msgQueue = (True, msgQueue @ [msg])"

definition swap_messages :: "bytes list \<Rightarrow> bytes list \<times> bytes list" where
  "swap_messages msgQueue = (msgQueue, [])"

definition tp_channel :: bytes where
  "tp_channel = bytes_of ''/channel/foo/bar''"

text \<open>\<open>vector<char> msg{64}\<close> is the vector of the one element 64.\<close>

definition tp_msg :: bytes where
  "tp_msg = [64]"

record 'm Tp =
  tp_readerInfo :: "'m TpReaderInfo"
  tp_writer :: "('m, bytes list, failure option) AsyncWriter"
  tp_world :: "('m, bytes list, failure option) writer_world"
  tp_tpMsg :: bytes

definition mk_Tp :: "'m pthread_api \<Rightarrow> u64 \<Rightarrow> 'm Tp option" where
  "mk_Tp pt sizeof_self = do {
     rb \<leftarrow> returned (InMemoryRingBuf pt sizeof_self (4 * 1024 * 1024));
     ri \<leftarrow> returned (tp_InMemoryReaderInfo pt 1);
     writer \<leftarrow> returned (mk_AsyncWriter rb push_message swap_messages empty_handler id);
     tpMsg \<leftarrow> returned (CreateMessage rb (readerGen ri) tp_channel tp_msg (of_nat (length tp_msg)) True);
     Some \<lparr> tp_readerInfo = ri, tp_writer = writer,
       tp_world = \<lparr> ww_queue = [], ww_rb = rb, ww_ri = rmpReaderInfo ri, ww_env = None \<rparr>, tp_tpMsg = tpMsg \<rparr>
   }"

section \<open>tp/tpBench.cpp\<close>

definition Tp_CreateMessage :: "'m pthread_api \<Rightarrow> u64 \<Rightarrow> nat \<Rightarrow> unit option" where
  "Tp_CreateMessage pt sizeof_self n = do {
     tp \<leftarrow> mk_Tp pt sizeof_self;
     KeepRunning n (\<lambda>_. map_option (\<lambda>_. ()) (returned (CreateMessage (ww_rb (tp_world tp)) (readerGen (tp_readerInfo tp))
       tp_channel tp_msg (of_nat (length tp_msg)) True))) ()
   }"

text \<open>The writer's work function runs inside Post. A handler that throws ends the benchmark.\<close>

definition post_at_once :: "'m pthread_api \<Rightarrow> tid \<Rightarrow> 'm Tp \<Rightarrow> 'm Tp option" where
  "post_at_once pt t tp = do {
     (start, w) \<leftarrow> returned (Post (tp_writer tp) (tp_tpMsg tp) (tp_world tp));
     if start then do {
       r \<leftarrow> ProcWriter pt t (tp_writer tp) w;
       w \<leftarrow> returned r;
       (if ww_env w = None then Some (tp\<lparr>tp_world := w\<rparr>) else None)
     } else Some (tp\<lparr>tp_world := w\<rparr>)
   }"

definition Tp_PostProcWriter :: "'m pthread_api \<Rightarrow> tid \<Rightarrow> u64 \<Rightarrow> nat \<Rightarrow> 'm Tp option" where
  "Tp_PostProcWriter pt t sizeof_self n = do {
     tp \<leftarrow> mk_Tp pt sizeof_self;
     KeepRunning n (post_at_once pt t) tp
   }"

text \<open>
  The channel reader's handler does nothing; it is an argument here, with a state of its own. The
  shared structures pass from the writer to the reader and back.
\<close>

definition sweep_post_read ::
    "'m pthread_api \<Rightarrow> tid \<Rightarrow> 'm Tp \<times> ('m, 'e) reader_world \<Rightarrow> ('m Tp \<times> ('m, 'e) reader_world) option" where
  "sweep_post_read pt t s = do {
     let (tp, rd) = s;
     tp \<leftarrow> post_at_once pt t (tp\<lparr>tp_world := (tp_world tp)\<lparr>ww_ri := rw_rmp_ri rd\<rparr>\<rparr>);
     r \<leftarrow> run_at_once (Run (rd\<lparr>rw_rb := ww_rb (tp_world tp), rw_ri := (rw_ri rd)\<lparr>rmpReaderInfo := ww_ri (tp_world tp)\<rparr>\<rparr>));
     rd \<leftarrow> returned r;
     Some (tp, rd)
   }"

definition Tp_SweepPostRead ::
    "'m pthread_api \<Rightarrow> tid \<Rightarrow> u64 \<Rightarrow> position \<Rightarrow> nat \<Rightarrow> (bytes \<Rightarrow> u32 \<Rightarrow> 'e \<Rightarrow> 'e) \<Rightarrow> 'e \<Rightarrow> nat
     \<Rightarrow> ('m Tp \<times> ('m, 'e) reader_world) option" where
  "Tp_SweepPostRead pt t sizeof_self pos0 addr handler env n = do {
     tp \<leftarrow> mk_Tp pt sizeof_self;
     (reader, ri) \<leftarrow> returned (mk_TpReader pt t pos0 (ww_rb (tp_world tp)) (tp_readerInfo tp) (\<lambda>_ e. e));
     r \<leftarrow> run_at_once (snd (CreateChannelReader addr tp_channel handler False
            (new_reader_world reader (ww_rb (tp_world tp)) ri env)));
     rd \<leftarrow> returned r;
     KeepRunning n (sweep_post_read pt t) (tp, rd)
   }"

section \<open>A post between two reads\<close>

definition tp_message :: topic_msg where
  "tp_message = \<lparr> tm_gen = 0, tm_desc = True, tm_channel = tp_channel, tm_data = tp_msg \<rparr>"

lemma tp_message_frame:
  "length (tm_image tp_message) = 27" "tm_ok tp_message"
  by (simp_all add: tm_image_def tp_message_def tm_ok_def tp_channel_def tp_msg_def bytes_of_def)

text \<open>The fixture between two iterations: everything written, nobody behind.\<close>

definition tp_ready :: "('m \<Rightarrow> mutex_view) \<Rightarrow> 'm Tp \<Rightarrow> bool" where
  "tp_ready view tp \<longleftrightarrow>
     (let aw = tp_writer tp; w = tp_world tp; rb = ww_rb w in
      aw_enqueueMsgFn aw = push_message \<and> aw_drainMsgFn aw = swap_messages \<and>
      aw_backpressureFn aw = empty_handler \<and> aw_notifyAllReaders aw = id \<and> tp_tpMsg tp = tm_image tp_message \<and>
      writer_ok (aw_rbWriter aw) rb \<and> configBufSizeBytes rb = 4 * 1024 * 1024 \<and> view (writerMtx rb) = Free \<and>
      32 dvd index_of (4 * 1024 * 1024) (freePos rb) \<and> ww_queue w = [] \<and> ww_env w = None)"

text \<open>Every active reader stands at the end of the stream.\<close>

definition nobody_behind :: "'m ByteRingBuffer \<Rightarrow> 'm ReaderInfo \<Rightarrow> bool" where
  "nobody_behind rb ri \<longleftrightarrow> ri_inv ri \<and> (\<forall>k. active_at ri k \<longrightarrow> info_position (ri_slots ri ! k) = freePos rb)"

lemma tp_size: "bench_size (4 * 1024 * 1024)" "unat (4 * 1024 * 1024 :: u64) = 2 ^ 22"
  by (simp_all add: bench_size_def)

lemma nobody_holds_back:
  assumes "writer_ok w rb" "configBufSizeBytes rb = 4 * 1024 * 1024" "nobody_behind rb ri"
  shows "\<not> holds_back w rb ri 27"
proof -
  have "total (filler (4 * 1024 * 1024) (freePos rb) 27) < 32" by (auto simp: filler_def Let_def)
  then show ?thesis
    using assms by (subst holds_back_plan) (auto simp: nobody_behind_def)
qed

text \<open>Reader and writer after \<open>i\<close> iterations of the sweep: all read, the handler called \<open>i\<close> times.\<close>

definition tp_swept :: "nat \<Rightarrow> (bytes \<Rightarrow> u32 \<Rightarrow> 'e \<Rightarrow> 'e) \<Rightarrow> 'e \<Rightarrow> nat \<Rightarrow> 'm Tp \<times> ('m, 'e) reader_world \<Rightarrow> bool" where
  "tp_swept addr handler env i s \<longleftrightarrow> (case s of (tp, rd) \<Rightarrow>
     reader_inv 0 rd \<and> rw_serial rd = [] \<and> rw_rmp rd = [] \<and> length (ri_slots (rw_rmp_ri rd)) = 1 \<and>
     rw_rb rd = ww_rb (tp_world tp) \<and> rwb_Pos (tr_rmpReaderBP (rw_reader rd)) = freePos (rw_rb rd) \<and>
     info_position (ri_slots (rw_rmp_ri rd) ! 0) = freePos (rw_rb rd) \<and>
     tr_channelReaders (rw_reader rd) = [mk_ChannelReader addr tp_channel handler False 0] \<and>
     rw_env rd = (handler tp_msg 1 ^^ i) env)"

context robust_pthread
begin

lemma post_at_once_writes:
  assumes tp: "tp_ready view tp" and nb: "nobody_behind (ww_rb (tp_world tp)) (ww_ri (tp_world tp))"
  defines "rb \<equiv> ww_rb (tp_world tp)"
  shows "\<exists>rb'. post_at_once pt t tp = Some (tp\<lparr>tp_world := (tp_world tp)\<lparr>ww_rb := rb'\<rparr>\<rparr>)
    \<and> tp_ready view (tp\<lparr>tp_world := (tp_world tp)\<lparr>ww_rb := rb'\<rparr>\<rparr>)
    \<and> batch_stored rb [tm_image tp_message] rb'
    \<and> notificationCount rb' = notificationCount rb + 1 \<and> backPressureCount rb' = backPressureCount rb"
proof -
  let ?aw = "tp_writer tp" and ?w = "tp_world tp" and ?m = "tm_image tp_message" and ?B = "4 * 1024 * 1024 :: u64"
  have f: "aw_enqueueMsgFn ?aw = push_message" "aw_drainMsgFn ?aw = swap_messages" "aw_backpressureFn ?aw = empty_handler"
      "aw_notifyAllReaders ?aw = id" "tp_tpMsg tp = ?m" "writer_ok (aw_rbWriter ?aw) rb" "configBufSizeBytes rb = ?B"
      "view (writerMtx rb) = Free" "32 dvd index_of ?B (freePos rb)" "ww_queue ?w = []" "ww_env ?w = None"
    using tp by (simp_all add: tp_ready_def rb_def Let_def)
  have ri: "ri_inv (ww_ri ?w)" using nb by (simp add: nobody_behind_def)
  have len: "length ?m = 27" by (rule tp_message_frame)
  have post: "Post ?aw ?m ?w = Inr (True, ?w\<lparr>ww_queue := [?m]\<rparr>)"
    using f by (simp add: Post_def len GetMaxMessageSize_def rb_def push_message_def sizeof_MsgHeader_def)
  let ?g = "\<lambda>(env, count). (Some (Thrown ''bad_function_call''), count + 1)"
  have h: "bpWrapper ?aw p e (ww_ri ?w, None, notificationCount rb) = (False, ww_ri ?w, ?g (None, notificationCount rb))" for p e
    by (simp add: bpWrapper_def f empty_handler_def)
  have "\<not> holds_back (aw_rbWriter ?aw) rb (ww_ri ?w) 27"
    using nobody_holds_back f(6,7) nb by (simp add: rb_def)
  moreover have "message_fits (configBufSizeBytes rb) ?m" by (simp add: message_fits_def len f(7))
  ultimately obtain rb1 where w1: "WriteEx pt t (bpWrapper ?aw) (aw_rbWriter ?aw) ?m 27
        (rb, ww_ri ?w, None, notificationCount rb) = Some (Inr (rb1, ww_ri ?w, None, notificationCount rb))"
      and rb1: "backPressureCount rb1 = backPressureCount rb" "batch_stored rb [?m] rb1"
        "writer_ok (aw_rbWriter ?aw) rb1" "view (writerMtx rb1) = Free"
    using WriteEx_declined [where h = "bpWrapper ?aw" and c = "(None, notificationCount rb)" and g = ?g
        and w = "aw_rbWriter ?aw" and msg = ?m and t = t, OF h f(6) _ ri] f(8) by (auto simp: len)
  let ?rb = "rb1\<lparr>notificationCount := notificationCount rb + 1\<rparr>"
  have idle: "ProcWriter pt t ?aw v = Some (Inr (notify_end ?aw v))" if "ww_queue v = []" for v
    using that by (subst ProcWriter.simps) (cases v, simp add: f(2) swap_messages_def)
  let ?v = "?w\<lparr>ww_rb := rb1\<lparr>notificationCount := notificationCount rb\<rparr>\<rparr>"
  have "write_batch pt t ?aw [?m] (?w\<lparr>ww_queue := []\<rparr>) = Some (Inr ?v)"
    using w1 f(10,11) by (cases ?w) (simp add: len rb_def)
  then have "ProcWriter pt t ?aw (?w\<lparr>ww_queue := [?m]\<rparr>) = ProcWriter pt t ?aw ?v"
    by (subst ProcWriter.simps) (simp add: f(2) swap_messages_def Let_def del: write_batch.simps)
  also have "\<dots> = Some (Inr (?w\<lparr>ww_rb := ?rb\<rparr>))"
    using idle [of ?v] f(4,10,11) by (cases ?w) (simp add: notify_end_def)
  finally have "ProcWriter pt t ?aw (?w\<lparr>ww_queue := [?m]\<rparr>) = Some (Inr (?w\<lparr>ww_rb := ?rb\<rparr>))" .
  then have "post_at_once pt t tp = Some (tp\<lparr>tp_world := ?w\<lparr>ww_rb := ?rb\<rparr>\<rparr>)"
    using post f(5,11) by (simp add: post_at_once_def)
  moreover have "32 dvd index_of ?B (freePos ?rb)"
    using lap_index [of ?B ?m "freePos rb"] bench_size_good(1) [OF tp_size(1)] tp_size(2) f(7,9) rb1(2)
    by (simp add: batch_stored_def len)
  ultimately show ?thesis
    using f rb1 by (intro exI [of _ ?rb]) (simp add: tp_ready_def Let_def writer_ok_def rb_ok_def batch_stored_def)
qed


lemma mk_Tp_ready:
  assumes "unat sizeof_self \<le> 2 ^ 31"
  shows "\<exists>tp. mk_Tp pt sizeof_self = Some tp \<and> tp_ready view tp
    \<and> rmpReaderInfo (tp_readerInfo tp) = ww_ri (tp_world tp) \<and> active_below 0 (ww_ri (tp_world tp))
    \<and> readerGen (tp_readerInfo tp) = 0 \<and> tp_initialized (tp_readerInfo tp) \<and> ri_initialized (ww_ri (tp_world tp))
    \<and> locks_settled view (ww_ri (tp_world tp)) \<and> slot_holder view (ww_ri (tp_world tp)) 0 = None
    \<and> length (ri_slots (ww_ri (tp_world tp))) = 1 \<and> rb_ok (ww_rb (tp_world tp)) \<and> rb_initialized (ww_rb (tp_world tp))
    \<and> notificationCount (ww_rb (tp_world tp)) = 0 \<and> backPressureCount (ww_rb (tp_world tp)) = 0"
proof -
  have B: "bench_size (of_int (4 * 1024 * 1024))" using tp_size(1) by simp
  obtain rb where rb: "InMemoryRingBuf pt sizeof_self (4 * 1024 * 1024) = Inr rb" "rb_ok rb" "rb_initialized rb"
      "configBufSizeBytes rb = 4 * 1024 * 1024" "freePos rb = 0" "backPressureCount rb = 0" "view (writerMtx rb) = Free"
    using InMemoryRingBuf_made [OF B _ _ assms] by auto
  have n0: "notificationCount rb = 0"
    using rb(1) by (auto simp: InMemoryRingBuf_def mk_ByteRingBuffer_def Let_def split: sum.splits)
  obtain m where m: "mk_RobustProcMutex pt = Inr m" "view m = Free"
    using init_free by (cases "pthread_init pt") (simp add: mk_RobustProcMutex_def)
  obtain ri where ri: "mk_ReaderInfo pt 1 = Inr ri" "ri_slots ri = [new_info m]"
    using m(1) by (auto simp: mk_ReaderInfo_def)
  note inv = ReaderInfo_inv [OF ri(1)]
  have ri_ok: "active_below 0 ri" "locks_settled view ri" "slot_holder view ri 0 = None"
    using inv ri(2) m(2) by (auto simp: active_below_def locks_settled_def slot_holder_def new_info_def)
  let ?tpri = "\<lparr> readerGen = 0, tp_initialized = True, rmpReaderInfo = ri \<rparr>"
  have tpri: "tp_InMemoryReaderInfo pt 1 = Inr ?tpri" using ri(1) by (simp add: tp_InMemoryReaderInfo_def mk_TpReaderInfo_def)
  have name: "0 \<notin> set tp_channel" "length tp_channel = 16" by (simp_all add: tp_channel_def bytes_of_def)
  have msg: "CreateMessage rb 0 tp_channel tp_msg 1 True = Inr (tm_image tp_message)"
    using CreateMessage_image [OF rb(2) name(1), of 1 tp_msg 0 True] name(2)
    by (simp add: tp_msg_def rb(4) tm_image_def tp_message_def)
  let ?aw = "\<lparr> aw_rbWriter = \<lparr> writer_indexMask = 4 * 1024 * 1024 - 1 \<rparr>, aw_enqueueMsgFn = push_message,
    aw_drainMsgFn = swap_messages, aw_backpressureFn = empty_handler, aw_notifyAllReaders = id \<rparr>
    :: ('m, bytes list, failure option) AsyncWriter"
  have aw: "mk_AsyncWriter rb push_message swap_messages empty_handler id = Inr ?aw"
      "writer_ok (aw_rbWriter ?aw) rb"
    using mk_Writer_ok [OF rb(2,3)] rb(4) by (simp_all add: mk_AsyncWriter_def)
  let ?tp = "\<lparr> tp_readerInfo = ?tpri, tp_writer = ?aw, tp_world = \<lparr> ww_queue = [], ww_rb = rb, ww_ri = ri, ww_env = None \<rparr>,
    tp_tpMsg = tm_image tp_message \<rparr>"
  have "mk_Tp pt sizeof_self = Some ?tp"
    using rb(1) tpri aw(1) msg by (simp add: mk_Tp_def tp_msg_def)
  moreover have "tp_ready view ?tp" using rb aw(2) by (simp add: tp_ready_def index_of_def)
  ultimately show ?thesis using inv ri ri_ok rb n0 by (intro exI [of _ ?tp]) simp
qed

lemma Tp_PostProcWriter_notifies:
  assumes "unat sizeof_self \<le> 2 ^ 31"
  shows "\<exists>tp. Tp_PostProcWriter pt t sizeof_self n = Some tp \<and> ww_queue (tp_world tp) = []
    \<and> notificationCount (ww_rb (tp_world tp)) = of_nat n \<and> backPressureCount (ww_rb (tp_world tp)) = 0"
proof -
  obtain tp0 where tp0: "mk_Tp pt sizeof_self = Some tp0" "tp_ready view tp0" "active_below 0 (ww_ri (tp_world tp0))"
      "notificationCount (ww_rb (tp_world tp0)) = 0" "backPressureCount (ww_rb (tp_world tp0)) = 0"
    using mk_Tp_ready [OF assms] by blast
  let ?P = "\<lambda>i tp. tp_ready view tp \<and> active_below 0 (ww_ri (tp_world tp))
    \<and> notificationCount (ww_rb (tp_world tp)) = of_nat i \<and> backPressureCount (ww_rb (tp_world tp)) = 0"
  have "\<exists>tp. KeepRunning n (post_at_once pt t) tp0 = Some tp \<and> ?P n tp"
  proof (rule KeepRunning_invariant)
    show "?P 0 tp0" using tp0 by simp
    fix i tp assume P: "?P i tp"
    then have "nobody_behind (ww_rb (tp_world tp)) (ww_ri (tp_world tp))"
      by (simp add: nobody_behind_def active_below_def)
    from post_at_once_writes [OF _ this, of t] P show "\<exists>tp'. post_at_once pt t tp = Some tp' \<and> ?P (Suc i) tp'"
      by (auto simp: add.commute)
  qed
  then show ?thesis using tp0(1) by (auto simp: Tp_PostProcWriter_def tp_ready_def Let_def)
qed

lemma sweep_post_read_delivers:
  assumes "tp_ready view (fst s)" "tp_swept addr handler env i s"
  shows "\<exists>s'. sweep_post_read pt t s = Some s' \<and> tp_ready view (fst s') \<and> tp_swept addr handler env (Suc i) s'
    \<and> notificationCount (ww_rb (tp_world (fst s'))) = notificationCount (ww_rb (tp_world (fst s))) + 1
    \<and> backPressureCount (ww_rb (tp_world (fst s'))) = backPressureCount (ww_rb (tp_world (fst s)))"
proof -
  obtain tp rd where s: "s = (tp, rd)" by (cases s)
  let ?cr = "mk_ChannelReader addr tp_channel handler False 0" and ?m = "tm_image tp_message" and ?B = "4 * 1024 * 1024 :: u64"
  have rd: "reader_inv 0 rd" "rw_serial rd = []" "rw_rmp rd = []" "length (ri_slots (rw_rmp_ri rd)) = 1"
      "rw_rb rd = ww_rb (tp_world tp)" "rwb_Pos (tr_rmpReaderBP (rw_reader rd)) = freePos (rw_rb rd)"
      "info_position (ri_slots (rw_rmp_ri rd) ! 0) = freePos (rw_rb rd)" "tr_channelReaders (rw_reader rd) = [?cr]"
      "rw_env rd = (handler tp_msg 1 ^^ i) env"
    using assms(2) by (simp_all add: tp_swept_def s)
  let ?tp = "tp\<lparr>tp_world := (tp_world tp)\<lparr>ww_ri := rw_rmp_ri rd\<rparr>\<rparr>"
  have ready: "tp_ready view ?tp" using assms(1) by (simp add: s tp_ready_def Let_def)
  have "nobody_behind (ww_rb (tp_world ?tp)) (ww_ri (tp_world ?tp))"
    using rd(1,4,5,7) by (auto simp: nobody_behind_def reader_inv_def active_at_def)
  from post_at_once_writes [OF ready this, of t] obtain rb'
    where post: "post_at_once pt t ?tp = Some (?tp\<lparr>tp_world := (tp_world ?tp)\<lparr>ww_rb := rb'\<rparr>\<rparr>)"
      and rb': "tp_ready view (?tp\<lparr>tp_world := (tp_world ?tp)\<lparr>ww_rb := rb'\<rparr>\<rparr>)" "batch_stored (rw_rb rd) [?m] rb'"
        "notificationCount rb' = notificationCount (rw_rb rd) + 1" "backPressureCount rb' = backPressureCount (rw_rb rd)"
    by (auto simp: rd(5))
  let ?tp' = "?tp\<lparr>tp_world := (tp_world ?tp)\<lparr>ww_rb := rb'\<rparr>\<rparr>"
  have cfg: "configBufSizeBytes (rw_rb rd) = ?B" "32 dvd index_of ?B (freePos (rw_rb rd))"
    using assms(1) by (simp_all add: s rd(5) tp_ready_def Let_def)
  let ?ss = "write_segments ?B (freePos (rw_rb rd)) ?m" and ?rd = "rd\<lparr>rw_rb := rb'\<rparr>"
  have "list_all seg_valid ?ss"
    using cfg bench_size_good(1) [OF tp_size(1)] tp_size(2) tp_message_frame(1) by (intro lap_valid) auto
  moreover have "total ?ss < unat ?B"
    using lap_room [of ?B "freePos (rw_rb rd)" ?m] tp_size(2) by (simp add: tp_message_frame(1))
  ultimately have "pending rb' (freePos (rw_rb rd)) ?ss" using batch_stored_pending [OF rb'(2)] cfg(1) by simp
  moreover have inv: "reader_inv 0 ?rd" using rd(1) batch_stored_reader_ok [OF rb'(2)] by (simp add: reader_inv_def)
  ultimately have read: "ReadRmp [?cr] ?rd = Some (Inr (caught_up 0 (offer_all [?cr] [tp_message] (rw_env ?rd)) ?rd))"
    using rd(6,8) tp_message_frame(2) by (intro ReadRmp_stream [of 0 ?rd _ ?ss]) simp_all
  have offer: "offer_all [?cr] [tp_message] e = handler tp_msg 1 e" for e
    by (simp add: offer_all_def offer_def accepts_def mk_ChannelReader_def tp_message_def tp_msg_def)
  let ?rd' = "caught_up 0 ((handler tp_msg 1 ^^ Suc i) env) ?rd"
  have "run_at_once (Run ?rd) = Some (Inr ?rd')"
    using run_at_once_Run [of rd "[?cr]" rb' ?rd'] rd(2,3,8,9) read offer by simp
  then have "sweep_post_read pt t s = Some (?tp', ?rd')" using post by (simp add: s sweep_post_read_def)
  moreover have "tp_swept addr handler env (Suc i) (?tp', ?rd')"
    using caught_up_inv [OF inv] rd by (simp add: tp_swept_def caught_up_def Let_def rwb_Pos_def)
  ultimately show ?thesis using rb'(1,3,4) by (intro exI [of _ "(?tp', ?rd')"]) (simp add: s rd(5))
qed

lemma Tp_SweepPostRead_delivers:
  assumes "unat sizeof_self \<le> 2 ^ 31"
  shows "\<exists>tp rd. Tp_SweepPostRead pt t sizeof_self pos0 addr handler env n = Some (tp, rd)
    \<and> tp_swept addr handler env n (tp, rd)
    \<and> notificationCount (ww_rb (tp_world tp)) = of_nat n \<and> backPressureCount (ww_rb (tp_world tp)) = 0"
proof -
  obtain tp where tp: "mk_Tp pt sizeof_self = Some tp" "tp_ready view tp" "rmpReaderInfo (tp_readerInfo tp) = ww_ri (tp_world tp)"
      "active_below 0 (ww_ri (tp_world tp))" "readerGen (tp_readerInfo tp) = 0" "tp_initialized (tp_readerInfo tp)"
      "ri_initialized (ww_ri (tp_world tp))" "locks_settled view (ww_ri (tp_world tp))"
      "slot_holder view (ww_ri (tp_world tp)) 0 = None" "length (ri_slots (ww_ri (tp_world tp))) = 1"
      "rb_ok (ww_rb (tp_world tp))" "rb_initialized (ww_rb (tp_world tp))"
      "notificationCount (ww_rb (tp_world tp)) = 0" "backPressureCount (ww_rb (tp_world tp)) = 0"
    using mk_Tp_ready [OF assms] by blast
  have inv: "ri_inv (ww_ri (tp_world tp))" using tp(4) by (simp add: active_below_def)
  let ?rb = "ww_rb (tp_world tp)"
  from first_channel_reader [where rb = ?rb and tpri = "tp_readerInfo tp" and ev = "\<lambda>_ e. e" and env = env and ?k0.0 = 0
      and t = t and ?pos0.0 = pos0 and addr = addr and name = tp_channel and f = handler and desc = False]
  obtain r ri rd k where rd: "mk_TpReader pt t pos0 ?rb (tp_readerInfo tp) (\<lambda>_ e. e) = Inr (r, ri)"
      "run_at_once (snd (CreateChannelReader addr tp_channel handler False (new_reader_world r ?rb ri env))) = Some (Inr rd)"
      "reader_joined view t k (mk_ChannelReader addr tp_channel handler False 0) ?rb rd" "rw_env rd = env"
      "length (ri_slots (rw_rmp_ri rd)) = 1"
    using tp inv by auto
  then have "k = 0" by (simp add: reader_joined_def reader_inv_def)
  then have start: "tp_swept addr handler env 0 (tp, rd)"
    using rd(3-5) by (simp add: tp_swept_def reader_joined_def)
  let ?P = "\<lambda>i s. tp_ready view (fst s) \<and> tp_swept addr handler env i s
    \<and> notificationCount (ww_rb (tp_world (fst s))) = of_nat i \<and> backPressureCount (ww_rb (tp_world (fst s))) = 0"
  have "\<exists>s. KeepRunning n (sweep_post_read pt t) (tp, rd) = Some s \<and> ?P n s"
  proof (rule KeepRunning_invariant)
    show "?P 0 (tp, rd)" using tp(2,13,14) start by simp
    fix i s assume P: "?P i s"
    then obtain s' where "sweep_post_read pt t s = Some s'" "?P (Suc i) s'"
      using sweep_post_read_delivers [of s addr handler env i t] by (auto simp: add.commute)
    then show "\<exists>s'. sweep_post_read pt t s = Some s' \<and> ?P (Suc i) s'" by blast
  qed
  then show ?thesis using tp(1) rd(1,2) by (auto simp: Tp_SweepPostRead_def)
qed

end

section \<open>Properties\<close>

text \<open>
  Sweeping post and read. However often its loop runs, each iteration of the benchmark writes
  the posted message inside Post, notifies once, and hands it to the channel reader exactly once;
  the backpressure handler, an empty function whose call would throw, is never called.
\<close>

lemma Tp_SweepPostRead_exact:
  fixes pt :: "'m pthread_api"
  assumes "robust_pthread pt view" "unat sizeof_self \<le> 2 ^ 31"
  shows "\<exists>tp rd. Tp_SweepPostRead pt t sizeof_self pos0 addr handler env n = Some (tp, rd)
    \<and> rw_env rd = (handler [64] 1 ^^ n) env
    \<and> rwb_Pos (tr_rmpReaderBP (rw_reader rd)) = freePos (ww_rb (tp_world tp))
    \<and> notificationCount (ww_rb (tp_world tp)) = of_nat n \<and> backPressureCount (ww_rb (tp_world tp)) = 0"
  using robust_pthread.Tp_SweepPostRead_delivers [OF assms, of t pos0 addr handler env n]
  by (auto simp: tp_swept_def tp_msg_def)

lemma Tp_SweepPostRead_exact_witness:
  "\<exists>tp rd. Tp_SweepPostRead posix_pthread 0 104 9 1 (\<lambda>d size k. k + length d) 0 1000000 = Some (tp, rd)
    \<and> rw_env rd = 1000000 \<and> notificationCount (ww_rb (tp_world tp)) = 1000000"
proof -
  have "((\<lambda>k. k + length [64 :: u8]) ^^ n) 0 = n" for n by (induction n) simp_all
  from this [of 1000000] show ?thesis
    using Tp_SweepPostRead_exact [OF posix.robust_pthread_axioms, of 104 0 9 1 "\<lambda>d size k. k + length d" 0 1000000]
    by auto
qed

end
