(* ===== verification/NotificationBench.thy ===== *)
theory NotificationBench
  imports RingBench
begin

text \<open>
  The benchmarks around the notification. benchmark_tests/traits/posix/multicastUdpNotificationBench.cpp
  runs on the socket calls. benchmark_tests/rmp/notificationBench.cpp and tp/systemBench.cpp
  transfer messages between threads that wait for each other; what they have in common is the main
  thread's part with the mutex and the condition variable, which is here, with the threads of
  notificationBench.

  The ring is seen through what it answers: for each write, in the order of writing, whether there
  is backpressure, and whether the write, done nevertheless, laps the reader. These answers are
  parameters without any law, since they depend on where the stream is in the buffer and on how far
  the position of the slot lags behind the reader; a run with any buffer is a run with some
  answers, which is shown in BenchRing. A reader that is not lapped reads message by message up to the end of the stream, and
  one that is lapped finds its position expired. Every datagram that is sent arrives. Spurious
  wakeups are left out, so what is shown to end does not need them.
\<close>

section \<open>traits/posix/multicastUdpNotificationBench.cpp\<close>

definition UdpBench :: "'s socket_api \<Rightarrow> 's \<Rightarrow> (MulticastUdpNotification \<times> 's) option" where
  "UdpBench api s = returned_st (mk_MulticastUdpNotification api ''226.1.1.1'' 3334 ''127.0.0.1'' s)"

definition UdpBench_Send :: "'s socket_api \<Rightarrow> nat \<Rightarrow> 's \<Rightarrow> 's option" where
  "UdpBench_Send api n s = do {
     (un, s) \<leftarrow> UdpBench api s;
     KeepRunning n (\<lambda>s. map_option snd (returned_st (Send api un s))) s
   }"

definition UdpBench_SendWait :: "'s socket_api \<Rightarrow> nat \<Rightarrow> 's \<Rightarrow> 's option" where
  "UdpBench_SendWait api n s = do {
     (un, s) \<leftarrow> UdpBench api s;
     KeepRunning n (\<lambda>s. do {
       (_, s) \<leftarrow> returned_st (Send api un s);
       waited \<leftarrow> Wait api un s;
       map_option snd (returned_st waited)
     }) s
   }"

definition UdpBench_Peek :: "'s socket_api \<Rightarrow> nat \<Rightarrow> 's \<Rightarrow> 's option" where
  "UdpBench_Peek api n s = do {
     (un, s) \<leftarrow> UdpBench api s;
     KeepRunning n (\<lambda>s. map_option snd (Peek api un s)) s
   }"

text \<open>On a machine with no other socket and no signal: nothing is left over but what nobody waited for.\<close>

definition lone_socket :: "nat \<Rightarrow> udp_net" where
  "lone_socket k = \<lparr> net_sockets = [Some (\<lparr> so_reuse = True,
       so_name = Some \<lparr> sin_family = AF_INET, sin_port = htons 3334, sin_addr = INADDR_ANY \<rparr>,
       so_groups = [(0x010101E2, 0x0100007F)], so_interface = Some 0x0100007F \<rparr>, k)], net_signals = 0 \<rparr>"

definition lone_notification :: MulticastUdpNotification where
  "lone_notification = \<lparr> udp_sd = 0,
     udp_sendSockAddr = \<lparr> sin_family = AF_INET, sin_port = htons 3334, sin_addr = 0x010101E2 \<rparr> \<rparr>"

lemma UdpBench_net: "UdpBench net_api quiet_net = Some (lone_notification, lone_socket 0)"
  by code_simp

lemma lone_socket_steps:
  "Send net_api lone_notification (lone_socket k) = (Inr (), lone_socket (Suc k))"
  "Wait net_api lone_notification (lone_socket (Suc k)) = Some (Inr (), lone_socket k)"
  "Peek net_api lone_notification (lone_socket k) = Some (0 < k, lone_socket k)"
proof -
  have s: "net_socket (lone_socket k) 0 = Some (fst (the (net_sockets (lone_socket k) ! 0)), k)" for k
    by (simp add: net_socket_def lone_socket_def)
  show "Send net_api lone_notification (lone_socket k) = (Inr (), lone_socket (Suc k))"
    by (simp add: Send_def net_api_def net_sendto_def lone_notification_def s) (simp add: lone_socket_def)
  show "Wait net_api lone_notification (lone_socket (Suc k)) = Some (Inr (), lone_socket k)"
    unfolding Wait_def
    by (subst recv_loop.simps) (simp add: net_api_def net_recv_def lone_notification_def s MSG_DONTWAIT_def MSG_PEEK_def,
        simp add: lone_socket_def net_put_def)
  show "Peek net_api lone_notification (lone_socket k) = Some (0 < k, lone_socket k)"
    unfolding Peek_def
    by (subst recv_loop.simps) (cases k, simp_all add: net_api_def net_recv_def lone_notification_def s EAGAIN_def EINTR_def,
        simp_all add: lone_socket_def)
qed

lemma udp_benchmarks:
  "UdpBench_Send net_api n quiet_net = Some (lone_socket n)"
  "UdpBench_SendWait net_api n quiet_net = Some (lone_socket 0)"
  "UdpBench_Peek net_api n quiet_net = Some (lone_socket 0)"
proof -
  have "\<exists>s. KeepRunning n (\<lambda>s. map_option snd (returned_st (Send net_api lone_notification s))) (lone_socket 0) = Some s
      \<and> s = lone_socket n"
    by (rule KeepRunning_invariant) (auto simp: lone_socket_steps returned_st_def)
  then show "UdpBench_Send net_api n quiet_net = Some (lone_socket n)"
    by (simp add: UdpBench_Send_def UdpBench_net)
  have "\<exists>s. KeepRunning n (\<lambda>s. do {
       (_, s) \<leftarrow> returned_st (Send net_api lone_notification s);
       waited \<leftarrow> Wait net_api lone_notification s;
       map_option snd (returned_st waited)
     }) (lone_socket 0) = Some s \<and> s = lone_socket 0"
    by (rule KeepRunning_invariant [where P = "\<lambda>_ s. s = lone_socket 0"]) (auto simp: lone_socket_steps returned_st_def)
  then show "UdpBench_SendWait net_api n quiet_net = Some (lone_socket 0)"
    by (simp add: UdpBench_SendWait_def UdpBench_net)
  have "\<exists>s. KeepRunning n (\<lambda>s. map_option snd (Peek net_api lone_notification s)) (lone_socket 0) = Some s \<and> s = lone_socket 0"
    by (rule KeepRunning_invariant [where P = "\<lambda>_ s. s = lone_socket 0"]) (auto simp: lone_socket_steps)
  then show "UdpBench_Peek net_api n quiet_net = Some (lone_socket 0)"
    by (simp add: UdpBench_Peek_def UdpBench_net)
qed

section \<open>The main thread of a transfer\<close>

datatype main_pc =
    MHead | MSend | MSlept | MNotify | MLock | MTest | MAsleep | MWoken | MAfter | MStop | MSendStop | MJoin | MDone

datatype bench_thread = MainThread | ReaderThread

text \<open>
  What the threads share: iterations left to run and messages left to send in this one, the owner of
  the mutex, the variables of the benchmark, and the contract of ring and notification.
\<close>

record transfer =
  tf_main :: main_pc
  tf_left :: nat
  tf_toSend :: nat
  tf_holder :: "bench_thread option"
  tf_rcvCount :: nat
  tf_readerExpired :: bool
  tf_stopReader :: bool
  tf_error :: bool
  tf_datagrams :: nat
  tf_written :: nat
  tf_unread :: nat
  tf_lapped :: bool

text \<open>
  The part both benchmarks have: lock, \<open>cv.wait\<close> with its predicate, what follows it, and the
  end of the reader thread up to the join.
\<close>

definition wait_step :: "nat \<Rightarrow> 'z transfer_scheme \<Rightarrow> 'z transfer_scheme option" where
  "wait_step msgCount s =
     (case tf_main s of
        MLock \<Rightarrow> if tf_holder s = None then Some (s\<lparr>tf_holder := Some MainThread, tf_main := MTest\<rparr>) else None
      | MTest \<Rightarrow> if tf_rcvCount s = msgCount \<or> tf_readerExpired s then Some (s\<lparr>tf_main := MAfter\<rparr>)
          else Some (s\<lparr>tf_holder := None, tf_main := MAsleep\<rparr>)
      | MWoken \<Rightarrow> if tf_holder s = None then Some (s\<lparr>tf_holder := Some MainThread, tf_main := MTest\<rparr>) else None
      | MAfter \<Rightarrow> if tf_readerExpired s then Some (s\<lparr>tf_error := True, tf_holder := None, tf_main := MStop\<rparr>)
          else Some (s\<lparr>tf_holder := None, tf_main := MHead\<rparr>)
      | MStop \<Rightarrow> Some (s\<lparr>tf_stopReader := True, tf_main := MSendStop\<rparr>)
      | MSendStop \<Rightarrow> Some (s\<lparr>tf_datagrams := tf_datagrams s + 1, tf_main := MJoin\<rparr>)
      | _ \<Rightarrow> None)"

text \<open>\<open>notify_one\<close> is lost if nobody sleeps.\<close>

definition cv_notify_one :: "'z transfer_scheme \<Rightarrow> 'z transfer_scheme" where
  "cv_notify_one s = (if tf_main s = MAsleep then s\<lparr>tf_main := MWoken\<rparr> else s)"

record ring_answers =
  ra_backpressure :: "nat \<Rightarrow> bool"
  ra_laps :: "nat \<Rightarrow> bool"

definition ring_full :: "ring_answers \<Rightarrow> 'z transfer_scheme \<Rightarrow> bool" where
  "ring_full ring s \<longleftrightarrow> ra_backpressure ring (tf_written s)"

definition ring_write :: "ring_answers \<Rightarrow> 'z transfer_scheme \<Rightarrow> 'z transfer_scheme" where
  "ring_write ring s =
     (if tf_lapped s \<or> ra_laps ring (tf_written s) then s\<lparr>tf_written := tf_written s + 1, tf_lapped := True\<rparr>
      else s\<lparr>tf_written := tf_written s + 1, tf_unread := tf_unread s + 1\<rparr>)"

text \<open>A reader that does not read, and a ring with room for \<open>c\<close> messages.\<close>

definition room_for :: "nat \<Rightarrow> ring_answers" where
  "room_for c = \<lparr> ra_backpressure = (\<lambda>i. i = c), ra_laps = (\<lambda>i. c \<le> i) \<rparr>"

definition new_iteration :: "nat \<Rightarrow> 'z transfer_scheme \<Rightarrow> 'z transfer_scheme" where
  "new_iteration msgCount s = s\<lparr>tf_left := tf_left s - 1, tf_rcvCount := 0, tf_toSend := msgCount, tf_main := MSend\<rparr>"

section \<open>rmp/notificationBench.cpp\<close>

datatype bench_reader_pc = RHead | RWait | RRead | RLock | RNotify | RExpLock | RExpNotify | RExpSet | RDone

record notification_bench = transfer +
  nb_reader :: bench_reader_pc

definition nb_start :: "nat \<Rightarrow> notification_bench" where
  "nb_start iterations = \<lparr> tf_main = MHead, tf_left = iterations, tf_toSend = 0, tf_holder = None, tf_rcvCount = 0,
     tf_readerExpired = False, tf_stopReader = False, tf_error = False, tf_datagrams = 0, tf_written = 0, tf_unread = 0, tf_lapped = False,
     nb_reader = RHead \<rparr>"

text \<open>Writing with the backpressure function, which sends a notification and sleeps, and the last notification.\<close>

definition nb_main_step :: "ring_answers \<Rightarrow> nat \<Rightarrow> notification_bench \<Rightarrow> notification_bench option" where
  "nb_main_step ring msgCount s =
     (case tf_main s of
        MHead \<Rightarrow> Some (if tf_left s = 0 then s\<lparr>tf_main := MStop\<rparr> else new_iteration msgCount s)
      | MSend \<Rightarrow>
          Some (if tf_toSend s = 0 then s\<lparr>tf_main := MNotify\<rparr>
                else if ring_full ring s then s\<lparr>tf_datagrams := tf_datagrams s + 1, tf_main := MSlept\<rparr>
                else (ring_write ring s)\<lparr>tf_toSend := tf_toSend s - 1\<rparr>)
      | MSlept \<Rightarrow> Some ((ring_write ring s)\<lparr>tf_toSend := tf_toSend s - 1, tf_main := MSend\<rparr>)
      | MNotify \<Rightarrow> Some (s\<lparr>tf_datagrams := tf_datagrams s + 1, tf_main := MLock\<rparr>)
      | MJoin \<Rightarrow> if nb_reader s = RDone then Some (s\<lparr>tf_main := MDone\<rparr>) else None
      | _ \<Rightarrow> wait_step msgCount s)"

text \<open>\<open>RRead\<close> is one round of the loop of ReadEx: the end of the stream, an expired position, or a message.\<close>

definition nb_reader_step :: "nat \<Rightarrow> notification_bench \<Rightarrow> notification_bench option" where
  "nb_reader_step msgCount s =
     (case nb_reader s of
        RHead \<Rightarrow> Some (s\<lparr>nb_reader := (if tf_stopReader s then RDone else RWait)\<rparr>)
      | RWait \<Rightarrow> if tf_datagrams s = 0 then None
          else Some (s\<lparr>tf_datagrams := tf_datagrams s - 1, nb_reader := RRead\<rparr>)
      | RRead \<Rightarrow>
          Some (if tf_lapped s then s\<lparr>nb_reader := RExpLock\<rparr>
                else if tf_unread s = 0 then s\<lparr>nb_reader := RHead\<rparr>
                else s\<lparr>tf_unread := tf_unread s - 1, tf_rcvCount := tf_rcvCount s + 1,
                       nb_reader := (if tf_rcvCount s + 1 = msgCount then RLock else RRead)\<rparr>)
      | RLock \<Rightarrow> if tf_holder s = None then Some (s\<lparr>tf_holder := Some ReaderThread, nb_reader := RNotify\<rparr>) else None
      | RNotify \<Rightarrow> Some ((cv_notify_one s)\<lparr>tf_holder := None, nb_reader := RRead\<rparr>)
      | RExpLock \<Rightarrow> if tf_holder s = None then Some (s\<lparr>tf_holder := Some ReaderThread, nb_reader := RExpNotify\<rparr>) else None
      | RExpNotify \<Rightarrow> Some ((cv_notify_one s)\<lparr>nb_reader := RExpSet\<rparr>)
      | RExpSet \<Rightarrow> Some (s\<lparr>tf_readerExpired := True, tf_holder := None, nb_reader := RDone\<rparr>)
      | RDone \<Rightarrow> None)"

inductive nb_step :: "ring_answers \<Rightarrow> nat \<Rightarrow> notification_bench \<Rightarrow> notification_bench \<Rightarrow> bool" for ring msgCount where
  nb_main: "nb_main_step ring msgCount s = Some s' \<Longrightarrow> nb_step ring msgCount s s'"
| nb_reader: "nb_reader_step msgCount s = Some s' \<Longrightarrow> nb_step ring msgCount s s'"

section \<open>Nobody sleeps forever\<close>

definition waits :: "main_pc \<Rightarrow> bool" where
  "waits m \<longleftrightarrow> m \<in> {MLock, MTest, MAsleep, MWoken}"

text \<open>Who holds the mutex, and what has been decided about the end of the reader.\<close>

definition nb_control :: "notification_bench \<Rightarrow> bool" where
  "nb_control s \<longleftrightarrow>
     (tf_holder s = Some MainThread \<longleftrightarrow> tf_main s \<in> {MTest, MAfter}) \<and>
     (tf_holder s = Some ReaderThread \<longleftrightarrow> nb_reader s \<in> {RNotify, RExpNotify, RExpSet}) \<and>
     (tf_stopReader s \<longleftrightarrow> tf_main s \<in> {MSendStop, MJoin, MDone}) \<and>
     (nb_reader s = RDone \<longrightarrow> tf_stopReader s \<or> tf_readerExpired s) \<and>
     (tf_main s = MAsleep \<longrightarrow> \<not> tf_readerExpired s \<and> nb_reader s \<noteq> RExpSet) \<and>
     (tf_readerExpired s \<or> nb_reader s \<in> {RExpLock, RExpNotify, RExpSet} \<longrightarrow> tf_lapped s) \<and>
     (tf_error s \<longrightarrow> tf_readerExpired s) \<and>
     (tf_main s \<in> {MStop, MSendStop, MJoin, MDone} \<longrightarrow> tf_error s \<or> tf_left s = 0)"

text \<open>Where the messages of an iteration are.\<close>

definition nb_count :: "nat \<Rightarrow> notification_bench \<Rightarrow> bool" where
  "nb_count msgCount s \<longleftrightarrow>
     (tf_main s = MSlept \<longrightarrow> 0 < tf_toSend s) \<and>
     (waits (tf_main s) \<or> tf_main s \<in> {MNotify, MAfter} \<longrightarrow> tf_toSend s = 0) \<and>
     (\<not> tf_lapped s \<and> (waits (tf_main s) \<or> tf_main s \<in> {MSend, MSlept, MNotify, MAfter}) \<longrightarrow>
        tf_rcvCount s + tf_unread s + tf_toSend s = msgCount) \<and>
     (\<not> tf_lapped s \<and> tf_main s \<in> {MAfter, MHead} \<longrightarrow> tf_unread s = 0)"

text \<open>Who will wake whom.\<close>

definition nb_wake :: "nat \<Rightarrow> notification_bench \<Rightarrow> bool" where
  "nb_wake msgCount s \<longleftrightarrow>
     (waits (tf_main s) \<and> (0 < tf_unread s \<or> tf_lapped s) \<and> \<not> tf_readerExpired s \<longrightarrow>
        0 < tf_datagrams s \<or> nb_reader s \<notin> {RHead, RWait}) \<and>
     (tf_main s = MAsleep \<and> \<not> tf_lapped s \<and> tf_rcvCount s = msgCount \<longrightarrow> nb_reader s \<in> {RLock, RNotify}) \<and>
     (tf_main s = MJoin \<and> nb_reader s = RWait \<longrightarrow> 0 < tf_datagrams s)"

lemmas transfer_steps = wait_step_def cv_notify_one_def ring_full_def ring_write_def new_iteration_def

lemma nb_main_control:
  "nb_main_step ring msgCount s = Some s' \<Longrightarrow> nb_control s \<Longrightarrow> nb_control s'"
  by (cases "tf_main s"; simp add: nb_main_step_def transfer_steps split: if_splits; clarsimp simp: nb_control_def)

lemma nb_reader_control:
  "nb_reader_step msgCount s = Some s' \<Longrightarrow> nb_control s \<Longrightarrow> nb_control s'"
  by (cases "nb_reader s"; simp add: nb_reader_step_def transfer_steps split: if_splits; clarsimp simp: nb_control_def)

lemma nb_main_count:
  "nb_main_step ring msgCount s = Some s' \<Longrightarrow> nb_control s \<Longrightarrow> nb_count msgCount s \<Longrightarrow> nb_count msgCount s'"
  by (cases "tf_main s"; simp add: nb_main_step_def transfer_steps split: if_splits;
      clarsimp simp: nb_count_def nb_control_def waits_def)

lemma nb_reader_count:
  "nb_reader_step msgCount s = Some s' \<Longrightarrow> nb_control s \<Longrightarrow> nb_count msgCount s \<Longrightarrow> nb_count msgCount s'"
  by (cases "nb_reader s"; simp add: nb_reader_step_def transfer_steps split: if_splits;
      clarsimp simp: nb_count_def nb_control_def waits_def)

lemma nb_main_wake:
  "nb_main_step ring msgCount s = Some s' \<Longrightarrow> nb_control s \<Longrightarrow> nb_wake msgCount s \<Longrightarrow> nb_wake msgCount s'"
  by (cases "tf_main s"; simp add: nb_main_step_def transfer_steps split: if_splits;
      clarsimp simp: nb_wake_def nb_control_def waits_def)

lemma nb_reader_wake:
  "nb_reader_step msgCount s = Some s' \<Longrightarrow> nb_control s \<Longrightarrow> nb_wake msgCount s \<Longrightarrow> nb_wake msgCount s'"
  by (cases "nb_reader s"; simp add: nb_reader_step_def transfer_steps split: if_splits;
      clarsimp simp: nb_wake_def nb_control_def waits_def)

definition nb_inv :: "nat \<Rightarrow> notification_bench \<Rightarrow> bool" where
  "nb_inv msgCount s \<longleftrightarrow> nb_control s \<and> nb_count msgCount s \<and> nb_wake msgCount s"

lemma nb_start_inv: "nb_inv msgCount (nb_start iterations)"
  by (simp add: nb_inv_def nb_start_def nb_control_def nb_count_def nb_wake_def waits_def)

lemma nb_step_inv: "nb_step ring msgCount s s' \<Longrightarrow> nb_inv msgCount s \<Longrightarrow> nb_inv msgCount s'"
  by (induction rule: nb_step.induct)
    (auto simp: nb_inv_def intro: nb_main_control nb_reader_control nb_main_count nb_reader_count nb_main_wake nb_reader_wake)

lemma nb_steps_inv: "(nb_step ring msgCount)\<^sup>*\<^sup>* s s' \<Longrightarrow> nb_inv msgCount s \<Longrightarrow> nb_inv msgCount s'"
  by (induction rule: rtranclp_induct) (auto intro: nb_step_inv)

text \<open>Until the main thread is done, one of the two can go on.\<close>

lemma reader_enabled:
  assumes "nb_reader_step msgCount s = None"
  shows "nb_reader s = RDone \<or> nb_reader s = RWait \<and> tf_datagrams s = 0
    \<or> nb_reader s \<in> {RLock, RExpLock} \<and> tf_holder s \<noteq> None"
  using assms by (cases "nb_reader s") (auto simp: nb_reader_step_def split: if_splits)

lemma main_enabled:
  assumes "nb_main_step ring msgCount s = None"
  shows "tf_main s \<in> {MAsleep, MDone} \<or> tf_main s = MJoin \<and> nb_reader s \<noteq> RDone
    \<or> tf_main s \<in> {MLock, MWoken} \<and> tf_holder s \<noteq> None"
  using assms by (cases "tf_main s") (auto simp: nb_main_step_def wait_step_def split: if_splits)

lemma nb_progress:
  assumes "nb_inv msgCount s" "nb_main_step ring msgCount s = None" "nb_reader_step msgCount s = None"
  shows "tf_main s = MDone"
proof -
  have holder: "tf_holder s = Some ReaderThread \<longleftrightarrow> nb_reader s \<in> {RNotify, RExpNotify, RExpSet}"
      "tf_holder s = Some MainThread \<longleftrightarrow> tf_main s \<in> {MTest, MAfter}"
    using assms(1) by (simp_all add: nb_inv_def nb_control_def)
  have "tf_holder s \<noteq> Some ReaderThread" using reader_enabled [OF assms(3)] holder(1) by auto
  moreover have "tf_holder s \<noteq> Some MainThread" using main_enabled [OF assms(2)] holder(2) by auto
  ultimately have free: "tf_holder s = None" by (cases "tf_holder s"; cases "the (tf_holder s)") auto
  consider "nb_reader s = RDone" | "nb_reader s = RWait" "tf_datagrams s = 0"
    using reader_enabled [OF assms(3)] free by auto
  then show ?thesis
  proof cases
    case 1
    then show ?thesis using main_enabled [OF assms(2)] free assms(1) by (auto simp: nb_inv_def nb_control_def)
  next
    case 2
    then have "tf_main s \<noteq> MJoin" using assms(1) by (auto simp: nb_inv_def nb_wake_def)
    moreover have "tf_main s \<noteq> MAsleep"
    proof
      assume asleep: "tf_main s = MAsleep"
      then have "\<not> tf_readerExpired s" "tf_unread s = 0" "\<not> tf_lapped s" "tf_rcvCount s \<noteq> msgCount"
        using assms(1) 2 by (auto simp: nb_inv_def nb_control_def nb_wake_def waits_def)
      then show False using assms(1) asleep by (auto simp: nb_inv_def nb_count_def waits_def)
    qed
    ultimately show ?thesis using main_enabled [OF assms(2)] free by auto
  qed
qed

section \<open>Every run ends\<close>

fun main_rank :: "main_pc \<Rightarrow> nat" where
  "main_rank MDone = 0" | "main_rank MJoin = 1" | "main_rank MSendStop = 14" | "main_rank MStop = 15"
| "main_rank MHead = 16" | "main_rank MAfter = 17" | "main_rank MAsleep = 17" | "main_rank MTest = 18"
| "main_rank MWoken = 19" | "main_rank MLock = 20" | "main_rank MNotify = 40" | "main_rank MSlept = 46"
| "main_rank MSend = 60"

fun reader_rank :: "bench_reader_pc \<Rightarrow> nat" where
  "reader_rank RDone = 0" | "reader_rank RWait = 1" | "reader_rank RHead = 2" | "reader_rank RExpSet = 5"
| "reader_rank RExpNotify = 8" | "reader_rank RExpLock = 9" | "reader_rank RRead = 10" | "reader_rank RNotify = 13"
| "reader_rank RLock = 14"

text \<open>
  The steps that are left at most: an iteration costs what its messages cost, a message more than
  the notification it may cause and the round of reading it, a notification more than the wakeup.
\<close>

definition nb_weight :: "nat \<Rightarrow> notification_bench \<Rightarrow> nat" where
  "nb_weight msgCount s = tf_left s * (30 * msgCount + 100) + 30 * tf_toSend s + 12 * tf_datagrams s + 6 * tf_unread s
     + main_rank (tf_main s) + reader_rank (nb_reader s)"

lemma nb_main_weight:
  assumes "nb_main_step ring msgCount s = Some s'" "nb_inv msgCount s"
  shows "nb_weight msgCount s' < nb_weight msgCount s"
proof (cases "tf_main s")
  case MHead
  then show ?thesis
    using assms(1) by (cases "tf_left s") (auto simp: nb_main_step_def new_iteration_def nb_weight_def)
next
  case MSlept
  then have "0 < tf_toSend s" using assms(2) by (simp add: nb_inv_def nb_count_def)
  then show ?thesis
    using assms(1) MSlept by (cases "tf_toSend s") (auto simp: nb_main_step_def transfer_steps nb_weight_def)
next
  case MSend
  then show ?thesis
    using assms(1) by (cases "tf_toSend s") (auto simp: nb_main_step_def transfer_steps nb_weight_def)
qed (use assms(1) in \<open>auto simp: nb_main_step_def wait_step_def nb_weight_def split: if_splits\<close>)

lemma nb_reader_weight:
  assumes "nb_reader_step msgCount s = Some s'"
  shows "nb_weight msgCount s' < nb_weight msgCount s"
  using assms
  by (cases "nb_reader s") (auto simp: nb_reader_step_def cv_notify_one_def nb_weight_def split: if_splits)

lemma nb_step_weight: "nb_step ring msgCount s s' \<Longrightarrow> nb_inv msgCount s \<Longrightarrow> nb_weight msgCount s' < nb_weight msgCount s"
  by (induction rule: nb_step.induct) (auto intro: nb_main_weight nb_reader_weight)

lemma nb_no_infinite_run:
  assumes "nb_inv msgCount (f 0)"
  shows "\<exists>i. \<not> nb_step ring msgCount (f i) (f (Suc i))"
proof (rule ccontr)
  assume "\<nexists>i. \<not> nb_step ring msgCount (f i) (f (Suc i))"
  then have step: "nb_step ring msgCount (f i) (f (Suc i))" for i by blast
  have "nb_inv msgCount (f i) \<and> nb_weight msgCount (f i) + i \<le> nb_weight msgCount (f 0)" for i
  proof (induction i)
    case (Suc i)
    then show ?case using nb_step_inv [OF step [of i]] nb_step_weight [OF step [of i]] by auto
  qed (use assms in simp)
  from this [of "Suc (nb_weight msgCount (f 0))"] show False by simp
qed

text \<open>A run by a schedule: \<open>True\<close> lets the main thread go, \<open>False\<close> the reader thread.\<close>

fun nb_run :: "ring_answers \<Rightarrow> nat \<Rightarrow> bool list \<Rightarrow> notification_bench \<Rightarrow> notification_bench option" where
  "nb_run ring msgCount [] s = Some s"
| "nb_run ring msgCount (b # bs) s =
     Option.bind (if b then nb_main_step ring msgCount s else nb_reader_step msgCount s) (nb_run ring msgCount bs)"

lemma nb_run_steps: "nb_run ring msgCount bs s = Some s' \<Longrightarrow> (nb_step ring msgCount)\<^sup>*\<^sup>* s s'"
  by (induction bs arbitrary: s)
    (auto split: Option.bind_splits if_splits intro: nb_step.intros converse_rtranclp_into_rtranclp)

section \<open>Properties\<close>

text \<open>
  C39: The benchmark with notification on backpressure ends. However main thread and reader thread
  interleave, and whatever the ring answers and the number of messages and iterations are,
  no state is reached in which both wait for each other: as long as the main thread is not through,
  a step is possible, there is no infinite run, and at the end all iterations have run or the reader
  was reported as expired, which happens only if the writer has lapped it.
\<close>

theorem notification_bench_finishes:
  assumes "(nb_step ring msgCount)\<^sup>*\<^sup>* (nb_start iterations) s"
  shows "(tf_main s = MDone \<or> (\<exists>s'. nb_step ring msgCount s s'))
    \<and> (\<nexists>f. f 0 = s \<and> (\<forall>i. nb_step ring msgCount (f i) (f (Suc i))))
    \<and> (tf_main s = MDone \<longrightarrow> tf_left s = 0 \<or> tf_error s \<and> tf_lapped s)"
proof -
  have inv: "nb_inv msgCount s" using nb_steps_inv [OF assms nb_start_inv] .
  have "tf_main s = MDone \<or> (\<exists>s'. nb_step ring msgCount s s')"
    using nb_progress [OF inv, of ring] by (metis nb_main nb_reader not_None_eq)
  moreover have "\<nexists>f. f 0 = s \<and> (\<forall>i. nb_step ring msgCount (f i) (f (Suc i)))"
    using nb_no_infinite_run [of msgCount _ ring] inv by blast
  moreover have "tf_main s = MDone \<longrightarrow> tf_left s = 0 \<or> tf_error s \<and> tf_lapped s"
    using inv by (auto simp: nb_inv_def nb_control_def)
  ultimately show ?thesis by blast
qed

text \<open>Two messages into a ring with room for one: the main thread sleeps, the reader is about to expire.\<close>

theorem notification_bench_finishes_witness:
  "\<exists>s. nb_run (room_for 1) 2 (replicate 8 True @ [False, False]) (nb_start 1) = Some s \<and> tf_main s = MAsleep \<and> tf_lapped s
    \<and> (\<exists>s'. nb_step (room_for 1) 2 s s')"
proof -
  have "map_option (\<lambda>s. (tf_main s, tf_lapped s)) (nb_run (room_for 1) 2 (replicate 8 True @ [False, False]) (nb_start 1))
      = Some (MAsleep, True)"
    by code_simp
  then obtain s where s: "nb_run (room_for 1) 2 (replicate 8 True @ [False, False]) (nb_start 1) = Some s"
      "tf_main s = MAsleep" "tf_lapped s"
    by auto
  then show ?thesis using notification_bench_finishes [OF nb_run_steps [OF s(1)]] by auto
qed

end
