(* ===== verification/SystemBench.thy ===== *)
theory SystemBench
  imports NotificationBench
begin

text \<open>
  benchmark_tests/tp/systemBench.cpp: the topic writer and the topic reader with two work queues
  and a reader thread around them, in the manner of NotificationBench. The worker of the writer's
  queue runs ProcWriter; the reader thread waits for notifications and calls Run; the worker of the
  reader's queue adds the channel reader, takes the items of Run and reads. ProcWriter works on the
  message queue as in MpscQueue, reading as in TpReader.
\<close>

section \<open>The threads of the benchmark\<close>

datatype proc_pc = PIdle | PDrain | PWrite nat | PSlept nat | PNotify

datatype run_pc = THead | TWait | TRun | TDone

datatype system_item = CallAdd | CallRun | CallRead

datatype work_pc = KIdle | KRead | KLock | KNotify

text \<open>
  Messages in the queue, whether the next one starts a drainer, calls of ProcWriter that wait for
  their worker; the reader thread; the items that wait for the other worker, and whether the
  reader has joined the stream.
\<close>

record system_bench = transfer +
  sy_queue :: nat
  sy_idle :: bool
  sy_procs :: nat
  sy_writer :: proc_pc
  sy_thread :: run_pc
  sy_items :: "system_item list"
  sy_worker :: work_pc
  sy_joined :: bool

text \<open>The threads start after CreateChannelReader has put its item into the queue.\<close>

definition sy_start :: "nat \<Rightarrow> system_bench" where
  "sy_start iterations = \<lparr> tf_main = MHead, tf_left = iterations, tf_toSend = 0, tf_holder = None, tf_rcvCount = 0,
     tf_readerExpired = False, tf_stopReader = False, tf_error = False, tf_datagrams = 0, tf_written = 0, tf_unread = 0, tf_lapped = False,
     sy_queue = 0, sy_idle = True, sy_procs = 0, sy_writer = PIdle, sy_thread = THead, sy_items = [CallAdd],
     sy_worker = KIdle, sy_joined = False \<rparr>"

definition post_step :: "system_bench \<Rightarrow> system_bench" where
  "post_step s = s\<lparr>tf_toSend := tf_toSend s - 1, sy_queue := sy_queue s + 1,
     sy_procs := (if sy_idle s then sy_procs s + 1 else sy_procs s), sy_idle := False\<rparr>"

definition sy_main_step :: "nat \<Rightarrow> system_bench \<Rightarrow> system_bench option" where
  "sy_main_step msgCount s =
     (case tf_main s of
        MHead \<Rightarrow> Some (if tf_left s = 0 then s\<lparr>tf_main := MStop\<rparr> else new_iteration msgCount s)
      | MSend \<Rightarrow> Some (if tf_toSend s = 0 then s\<lparr>tf_main := MLock\<rparr> else post_step s)
      | MJoin \<Rightarrow> if sy_thread s = TDone then Some (s\<lparr>tf_main := MDone\<rparr>) else None
      | _ \<Rightarrow> wait_step msgCount s)"

text \<open>What is written before the reader has joined is not on its part of the stream.\<close>

definition sy_write :: "ring_answers \<Rightarrow> system_bench \<Rightarrow> system_bench" where
  "sy_write ring s = (if sy_joined s then ring_write ring s else s)"

definition sy_writer_step :: "ring_answers \<Rightarrow> system_bench \<Rightarrow> system_bench option" where
  "sy_writer_step ring s =
     (case sy_writer s of
        PIdle \<Rightarrow> if sy_procs s = 0 then None else Some (s\<lparr>sy_procs := sy_procs s - 1, sy_writer := PDrain\<rparr>)
      | PDrain \<Rightarrow>
          Some (if sy_queue s = 0 then s\<lparr>sy_idle := True, sy_writer := PNotify\<rparr>
                else s\<lparr>sy_queue := 0, sy_writer := PWrite (sy_queue s)\<rparr>)
      | PWrite n \<Rightarrow>
          Some (case n of
                  0 \<Rightarrow> s\<lparr>sy_writer := PDrain\<rparr>
                | Suc k \<Rightarrow>
                    if sy_joined s \<and> ring_full ring s then s\<lparr>tf_datagrams := tf_datagrams s + 1, sy_writer := PSlept k\<rparr>
                    else (sy_write ring s)\<lparr>sy_writer := PWrite k\<rparr>)
      | PSlept k \<Rightarrow> Some ((sy_write ring s)\<lparr>sy_writer := PWrite k\<rparr>)
      | PNotify \<Rightarrow> Some (s\<lparr>tf_datagrams := tf_datagrams s + 1, sy_writer := PIdle\<rparr>))"

definition sy_thread_step :: "system_bench \<Rightarrow> system_bench option" where
  "sy_thread_step s =
     (case sy_thread s of
        THead \<Rightarrow> Some (s\<lparr>sy_thread := (if tf_stopReader s then TDone else TWait)\<rparr>)
      | TWait \<Rightarrow> if tf_datagrams s = 0 then None
          else Some (s\<lparr>tf_datagrams := tf_datagrams s - 1, sy_thread := TRun\<rparr>)
      | TRun \<Rightarrow> Some (s\<lparr>sy_items := sy_items s @ [CallRun], sy_thread := THead\<rparr>)
      | TDone \<Rightarrow> None)"

text \<open>The expiry callback stores the flag; it neither takes the mutex nor notifies.\<close>

definition sy_worker_step :: "nat \<Rightarrow> system_bench \<Rightarrow> system_bench option" where
  "sy_worker_step msgCount s =
     (case sy_worker s of
        KIdle \<Rightarrow>
          (case sy_items s of
             [] \<Rightarrow> None
           | item # items \<Rightarrow>
               let s' = s\<lparr>sy_items := items\<rparr> in
               Some (case item of
                       CallAdd \<Rightarrow> s'\<lparr>sy_joined := True\<rparr>
                     | CallRun \<Rightarrow> s'\<lparr>sy_items := items @ [CallRead]\<rparr>
                     | CallRead \<Rightarrow> s'\<lparr>sy_worker := KRead\<rparr>))
      | KRead \<Rightarrow>
          Some (if tf_lapped s then s\<lparr>tf_readerExpired := True, sy_worker := KIdle\<rparr>
                else if tf_unread s = 0 then s\<lparr>sy_worker := KIdle\<rparr>
                else s\<lparr>tf_unread := tf_unread s - 1, tf_rcvCount := tf_rcvCount s + 1,
                       sy_worker := (if tf_rcvCount s + 1 = msgCount then KLock else KRead)\<rparr>)
      | KLock \<Rightarrow> if tf_holder s = None then Some (s\<lparr>tf_holder := Some ReaderThread, sy_worker := KNotify\<rparr>) else None
      | KNotify \<Rightarrow> Some ((cv_notify_one s)\<lparr>tf_holder := None, sy_worker := KRead\<rparr>))"

datatype bench_turn = MainTurn | WriterTurn | ThreadTurn | WorkerTurn

fun sy_turn :: "ring_answers \<Rightarrow> nat \<Rightarrow> bench_turn \<Rightarrow> system_bench \<Rightarrow> system_bench option" where
  "sy_turn ring msgCount MainTurn s = sy_main_step msgCount s"
| "sy_turn ring msgCount WriterTurn s = sy_writer_step ring s"
| "sy_turn ring msgCount ThreadTurn s = sy_thread_step s"
| "sy_turn ring msgCount WorkerTurn s = sy_worker_step msgCount s"

fun sy_run :: "ring_answers \<Rightarrow> nat \<Rightarrow> bench_turn list \<Rightarrow> system_bench \<Rightarrow> system_bench option" where
  "sy_run ring msgCount [] s = Some s"
| "sy_run ring msgCount (b # bs) s = Option.bind (sy_turn ring msgCount b s) (sy_run ring msgCount bs)"

definition sy_stuck :: "ring_answers \<Rightarrow> nat \<Rightarrow> system_bench \<Rightarrow> bool" where
  "sy_stuck ring msgCount s \<longleftrightarrow> (\<forall>b. sy_turn ring msgCount b s = None)"

lemma sy_run_append: "sy_run ring n (as @ bs) s = Option.bind (sy_run ring n as s) (sy_run ring n bs)"
  by (induction as arbitrary: s) (auto split: Option.bind_splits)

section \<open>Nobody sleeps forever if the reader has joined and is not lapped\<close>

definition in_batch :: "proc_pc \<Rightarrow> nat" where
  "in_batch p = (case p of PWrite k \<Rightarrow> k | PSlept k \<Rightarrow> Suc k | _ \<Rightarrow> 0)"

definition sy_control :: "system_bench \<Rightarrow> bool" where
  "sy_control s \<longleftrightarrow>
     sy_joined s \<and> tf_main s \<notin> {MSlept, MNotify} \<and> CallAdd \<notin> set (sy_items s) \<and>
     (tf_holder s = Some MainThread \<longleftrightarrow> tf_main s \<in> {MTest, MAfter}) \<and>
     (tf_holder s = Some ReaderThread \<longleftrightarrow> sy_worker s = KNotify) \<and>
     (tf_stopReader s \<longleftrightarrow> tf_main s \<in> {MSendStop, MJoin, MDone}) \<and>
     (sy_thread s = TDone \<longrightarrow> tf_stopReader s) \<and> (tf_readerExpired s \<longrightarrow> tf_lapped s)"

definition sy_drainer :: "system_bench \<Rightarrow> bool" where
  "sy_drainer s \<longleftrightarrow>
     (sy_idle s \<longrightarrow> sy_queue s = 0 \<and> sy_procs s = 0 \<and> sy_writer s \<in> {PIdle, PNotify}) \<and>
     (\<not> sy_idle s \<longrightarrow> sy_procs s = (if sy_writer s \<in> {PIdle, PNotify} then 1 else 0))"

definition sy_count :: "nat \<Rightarrow> system_bench \<Rightarrow> bool" where
  "sy_count msgCount s \<longleftrightarrow>
     (waits (tf_main s) \<longrightarrow> tf_toSend s = 0) \<and>
     (waits (tf_main s) \<or> tf_main s \<in> {MSend, MAfter} \<longrightarrow>
        tf_rcvCount s + tf_unread s + in_batch (sy_writer s) + sy_queue s + tf_toSend s = msgCount) \<and>
     (tf_main s \<in> {MAfter, MHead} \<longrightarrow> tf_unread s = 0 \<and> in_batch (sy_writer s) = 0 \<and> sy_queue s = 0)"

definition sy_wake :: "nat \<Rightarrow> system_bench \<Rightarrow> bool" where
  "sy_wake msgCount s \<longleftrightarrow>
     (0 < tf_unread s \<longrightarrow> sy_writer s \<noteq> PIdle \<or> 0 < sy_procs s \<or> 0 < tf_datagrams s \<or> sy_thread s = TRun
        \<or> sy_items s \<noteq> [] \<or> sy_worker s \<noteq> KIdle) \<and>
     (tf_main s = MAsleep \<and> tf_rcvCount s = msgCount \<longrightarrow> sy_worker s \<in> {KLock, KNotify}) \<and>
     (tf_main s = MJoin \<and> sy_thread s = TWait \<longrightarrow> 0 < tf_datagrams s)"

lemmas sy_steps = sy_main_step_def sy_writer_step_def sy_thread_step_def sy_worker_step_def transfer_steps
  post_step_def sy_write_def

lemma sy_turn_lapped: "sy_turn ring msgCount b s = Some s' \<Longrightarrow> tf_lapped s \<Longrightarrow> tf_lapped s'"
  by (cases b) (auto simp: sy_steps Let_def split: main_pc.splits proc_pc.splits run_pc.splits work_pc.splits
      system_item.splits list.splits nat.splits if_splits)

lemma sy_control_step:
  assumes "sy_turn ring msgCount b s = Some s'" "sy_control s"
  shows "sy_control s'"
proof (cases b)
  case MainTurn
  then show ?thesis
    using assms by (cases "tf_main s"; simp add: sy_main_step_def transfer_steps post_step_def split: if_splits;
      clarsimp simp: sy_control_def)
next
  case WriterTurn
  then show ?thesis
    using assms by (cases "sy_writer s"; simp add: sy_writer_step_def transfer_steps sy_write_def split: if_splits nat.splits;
      clarsimp simp: sy_control_def)
next
  case ThreadTurn
  then show ?thesis
    using assms by (cases "sy_thread s"; simp add: sy_thread_step_def split: if_splits; clarsimp simp: sy_control_def)
next
  case WorkerTurn
  then show ?thesis
    using assms by (cases "sy_worker s"; simp add: sy_worker_step_def transfer_steps Let_def
        split: if_splits list.splits system_item.splits; clarsimp simp: sy_control_def)
qed

lemma sy_drainer_step:
  assumes "sy_turn ring msgCount b s = Some s'" "sy_drainer s"
  shows "sy_drainer s'"
proof (cases b)
  case MainTurn
  then show ?thesis
    using assms by (cases "tf_main s"; simp add: sy_main_step_def transfer_steps post_step_def split: if_splits;
      clarsimp simp: sy_drainer_def)
next
  case WriterTurn
  then show ?thesis
    using assms by (cases "sy_writer s"; simp add: sy_writer_step_def transfer_steps sy_write_def split: if_splits nat.splits;
      clarsimp simp: sy_drainer_def split: if_splits)
next
  case ThreadTurn
  then show ?thesis
    using assms by (cases "sy_thread s"; simp add: sy_thread_step_def split: if_splits; clarsimp simp: sy_drainer_def)
next
  case WorkerTurn
  then show ?thesis
    using assms by (cases "sy_worker s"; simp add: sy_worker_step_def transfer_steps Let_def
        split: if_splits list.splits system_item.splits; clarsimp simp: sy_drainer_def)
qed

lemma sy_count_step:
  assumes "sy_turn ring msgCount b s = Some s'" "sy_count msgCount s" "sy_control s" "\<not> tf_lapped s'"
  shows "sy_count msgCount s'"
proof (cases b)
  case MainTurn
  then show ?thesis
    using assms by (cases "tf_main s"; simp add: sy_main_step_def transfer_steps post_step_def split: if_splits;
      clarsimp simp: sy_count_def sy_control_def waits_def)
next
  case WriterTurn
  then show ?thesis
    using assms by (cases "sy_writer s"; simp add: sy_writer_step_def transfer_steps sy_write_def split: if_splits nat.splits;
      clarsimp simp: sy_count_def sy_control_def waits_def in_batch_def)
next
  case ThreadTurn
  then show ?thesis
    using assms by (cases "sy_thread s"; simp add: sy_thread_step_def split: if_splits; clarsimp simp: sy_count_def)
next
  case WorkerTurn
  then show ?thesis
    using assms by (cases "sy_worker s"; simp add: sy_worker_step_def transfer_steps Let_def
        split: if_splits list.splits system_item.splits; clarsimp simp: sy_count_def waits_def)
qed

lemma sy_wake_step:
  assumes "sy_turn ring msgCount b s = Some s'" "sy_wake msgCount s" "sy_control s" "\<not> tf_lapped s'"
  shows "sy_wake msgCount s'"
proof (cases b)
  case MainTurn
  then show ?thesis
    using assms by (cases "tf_main s"; simp add: sy_main_step_def transfer_steps post_step_def split: if_splits;
      clarsimp simp: sy_wake_def sy_control_def)
next
  case WriterTurn
  then show ?thesis
    using assms by (cases "sy_writer s"; simp add: sy_writer_step_def transfer_steps sy_write_def split: if_splits nat.splits;
      clarsimp simp: sy_wake_def sy_control_def)
next
  case ThreadTurn
  then show ?thesis
    using assms by (cases "sy_thread s"; simp add: sy_thread_step_def split: if_splits;
      clarsimp simp: sy_wake_def sy_control_def)
next
  case WorkerTurn
  then show ?thesis
    using assms by (cases "sy_worker s"; simp add: sy_worker_step_def transfer_steps Let_def
        split: if_splits list.splits system_item.splits; clarsimp simp: sy_wake_def sy_control_def)
qed

definition sy_inv :: "nat \<Rightarrow> system_bench \<Rightarrow> bool" where
  "sy_inv msgCount s \<longleftrightarrow> sy_control s \<and> sy_drainer s \<and> sy_count msgCount s \<and> sy_wake msgCount s"

lemma sy_run_inv:
  "sy_run ring msgCount bs s = Some s' \<Longrightarrow> sy_inv msgCount s \<Longrightarrow> \<not> tf_lapped s' \<Longrightarrow> sy_inv msgCount s'"
proof (induction bs arbitrary: s)
  case (Cons b bs)
  then obtain s1 where s1: "sy_turn ring msgCount b s = Some s1" "sy_run ring msgCount bs s1 = Some s'"
    by (auto split: Option.bind_splits)
  have "tf_lapped s'" if "tf_lapped t" "sy_run ring msgCount bs' t = Some s'" for bs' t
    using that by (induction bs' arbitrary: t) (auto split: Option.bind_splits dest: sy_turn_lapped)
  then have "\<not> tf_lapped s1" using s1(2) Cons.prems(3) by blast
  then have "sy_inv msgCount s1"
    using Cons.prems(2) s1(1) by (auto simp: sy_inv_def intro: sy_control_step sy_drainer_step sy_count_step sy_wake_step)
  then show ?case using Cons.IH [OF s1(2)] Cons.prems(3) by blast
qed simp

text \<open>The start, once the worker has added the channel reader.\<close>

lemma sy_joined_inv: "sy_inv msgCount ((sy_start iterations)\<lparr>sy_items := [], sy_joined := True\<rparr>)"
  by (simp add: sy_inv_def sy_start_def sy_control_def sy_drainer_def sy_count_def sy_wake_def waits_def in_batch_def)

lemma sy_progress:
  assumes inv: "sy_inv msgCount s" "\<not> tf_lapped s" and stuck: "sy_stuck ring msgCount s"
  shows "tf_main s = MDone"
proof -
  have none: "sy_main_step msgCount s = None" "sy_writer_step ring s = None" "sy_thread_step s = None"
      "sy_worker_step msgCount s = None"
    using stuck [unfolded sy_stuck_def, THEN spec, of MainTurn] stuck [unfolded sy_stuck_def, THEN spec, of WriterTurn]
      stuck [unfolded sy_stuck_def, THEN spec, of ThreadTurn] stuck [unfolded sy_stuck_def, THEN spec, of WorkerTurn]
    by simp_all
  have writer: "sy_writer s = PIdle" "sy_procs s = 0"
    using none(2) by (cases "sy_writer s"; simp add: sy_writer_step_def split: if_splits)+
  have holder: "tf_holder s = Some MainThread \<longleftrightarrow> tf_main s \<in> {MTest, MAfter}"
      "tf_holder s = Some ReaderThread \<longleftrightarrow> sy_worker s = KNotify"
      "tf_main s \<notin> {MSlept, MNotify}" "\<not> tf_readerExpired s"
    using inv by (auto simp: sy_inv_def sy_control_def)
  have "sy_worker s \<noteq> KNotify" using none(4) by (auto simp: sy_worker_step_def)
  moreover have main: "tf_main s \<in> {MAsleep, MDone} \<or> tf_main s = MJoin \<and> sy_thread s \<noteq> TDone
      \<or> tf_main s \<in> {MLock, MWoken} \<and> tf_holder s \<noteq> None"
    using none(1) holder(3) by (cases "tf_main s") (auto simp: sy_main_step_def wait_step_def split: if_splits)
  ultimately have free: "tf_holder s = None"
    using holder(1,2) by (cases "tf_holder s"; cases "the (tf_holder s)") auto
  have worker: "sy_worker s = KIdle" "sy_items s = []"
    using none(4) free by (cases "sy_worker s"; simp add: sy_worker_step_def Let_def split: list.splits)+
  have thread: "sy_thread s = TDone \<or> sy_thread s = TWait \<and> tf_datagrams s = 0"
    using none(3) by (cases "sy_thread s") (auto simp: sy_thread_step_def split: if_splits)
  have "tf_main s \<noteq> MAsleep"
  proof
    assume asleep: "tf_main s = MAsleep"
    then have "sy_thread s = TWait" "tf_datagrams s = 0"
      using thread inv(1) by (auto simp: sy_inv_def sy_control_def)
    then have "tf_unread s = 0" using inv(1) writer worker by (auto simp: sy_inv_def sy_wake_def)
    moreover have "sy_queue s = 0" using inv(1) writer by (auto simp: sy_inv_def sy_drainer_def)
    ultimately have "tf_rcvCount s = msgCount"
      using inv(1) asleep writer(1) by (auto simp: sy_inv_def sy_count_def waits_def in_batch_def)
    then show False using inv(1) asleep worker(1) by (auto simp: sy_inv_def sy_wake_def)
  qed
  moreover have "tf_main s \<noteq> MJoin \<or> sy_thread s = TDone"
    using thread inv(1) by (auto simp: sy_inv_def sy_wake_def)
  ultimately show ?thesis using main free by auto
qed

section \<open>Two ways to sleep forever\<close>

text \<open>All of an iteration is posted before the writer's worker begins.\<close>

lemma run_posts:
  assumes "tf_main s = MSend" "tf_toSend s = k" "\<not> sy_idle s"
  shows "sy_run ring msgCount (replicate k MainTurn) s = Some (s\<lparr>tf_toSend := 0, sy_queue := sy_queue s + k\<rparr>)"
  using assms
proof (induction k arbitrary: s)
  case (Suc k)
  have "sy_main_step msgCount s = Some (s\<lparr>tf_toSend := k, sy_queue := sy_queue s + 1\<rparr>)"
    using Suc.prems by (simp add: sy_main_step_def post_step_def)
  then show ?case using Suc.IH [of "s\<lparr>tf_toSend := k, sy_queue := sy_queue s + 1\<rparr>"] Suc.prems by simp
qed simp

lemma run_posting:
  assumes "tf_main s = MHead" "tf_left s = Suc i" "sy_idle s" "sy_queue s = 0" "sy_procs s = 0" "0 < msgCount"
    and "tf_holder s = None" "\<not> tf_readerExpired s"
  shows "sy_run ring msgCount (replicate (msgCount + 4) MainTurn) s = Some (s\<lparr>tf_main := MAsleep, tf_left := i,
    tf_toSend := 0, tf_rcvCount := 0, sy_queue := msgCount, sy_idle := False, sy_procs := 1\<rparr>)"
proof -
  let ?s = "s\<lparr>tf_main := MSend, tf_left := i, tf_toSend := msgCount - 1, tf_rcvCount := 0, sy_queue := 1, sy_idle := False,
    sy_procs := 1\<rparr>"
  have turns: "replicate (msgCount + 4) MainTurn =
      [MainTurn, MainTurn] @ replicate (msgCount - 1) MainTurn @ [MainTurn, MainTurn, MainTurn]"
    using assms(6) by (cases msgCount) (simp_all add: replicate_append_same [symmetric] numeral_eq_Suc)
  have "sy_run ring msgCount [MainTurn, MainTurn] s = Some ?s"
    using assms by (cases s) (simp add: sy_main_step_def new_iteration_def post_step_def)
  moreover have "sy_run ring msgCount (replicate (msgCount - 1) MainTurn) ?s = Some (?s\<lparr>tf_toSend := 0, sy_queue := msgCount\<rparr>)"
    using run_posts [of ?s "msgCount - 1"] assms(6) by simp
  moreover have "sy_run ring msgCount [MainTurn, MainTurn, MainTurn] (?s\<lparr>tf_toSend := 0, sy_queue := msgCount\<rparr>) =
      Some (s\<lparr>tf_main := MAsleep, tf_left := i, tf_toSend := 0, tf_rcvCount := 0, sy_queue := msgCount, sy_idle := False,
        sy_procs := 1\<rparr>)"
    using assms(6-8) by (simp add: sy_main_step_def wait_step_def)
  ultimately show ?thesis unfolding turns sy_run_append by simp
qed

text \<open>Writing for nobody, for a reader with room, and past a reader that was lapped.\<close>

lemma run_writes:
  assumes "sy_writer s = PWrite (k + j)"
  shows "\<not> sy_joined s \<Longrightarrow>
      sy_run ring msgCount (replicate k WriterTurn) s = Some (s\<lparr>sy_writer := PWrite j\<rparr>)"
    and "sy_joined s \<Longrightarrow> tf_lapped s \<Longrightarrow> (\<And>i. i < k \<Longrightarrow> \<not> ra_backpressure ring (tf_written s + i)) \<Longrightarrow>
      sy_run ring msgCount (replicate k WriterTurn) s = Some (s\<lparr>sy_writer := PWrite j, tf_written := tf_written s + k\<rparr>)"
    and "sy_joined s \<Longrightarrow> \<not> tf_lapped s \<Longrightarrow> (\<And>i. i < k \<Longrightarrow> \<not> ra_backpressure ring (tf_written s + i)) \<Longrightarrow>
      (\<And>i. i < k \<Longrightarrow> \<not> ra_laps ring (tf_written s + i)) \<Longrightarrow> sy_run ring msgCount (replicate k WriterTurn) s =
        Some (s\<lparr>sy_writer := PWrite j, tf_written := tf_written s + k, tf_unread := tf_unread s + k\<rparr>)"
  using assms
proof (induction k arbitrary: s)
  case (Suc k)
  {
    case 1
    then have "sy_writer_step ring s = Some (s\<lparr>sy_writer := PWrite (k + j)\<rparr>)"
      by (simp add: sy_writer_step_def sy_write_def)
    then show ?case using Suc.IH(1) [of "s\<lparr>sy_writer := PWrite (k + j)\<rparr>"] 1 by simp
  next
    case 2
    let ?s = "s\<lparr>tf_written := tf_written s + 1, sy_writer := PWrite (k + j)\<rparr>"
    have "sy_writer_step ring s = Some ?s"
      using 2(1,2,4) 2(3) [of 0] by (cases s) (simp add: sy_writer_step_def sy_write_def ring_write_def ring_full_def)
    moreover have "\<not> ra_backpressure ring (tf_written ?s + i)" if "i < k" for i using 2(3) [of "Suc i"] that by simp
    ultimately show ?case using Suc.IH(2) [of ?s] 2(1,2,4) by simp
  next
    case 3
    let ?s = "s\<lparr>tf_written := tf_written s + 1, tf_unread := tf_unread s + 1, sy_writer := PWrite (k + j)\<rparr>"
    have "sy_writer_step ring s = Some ?s"
      using 3(1,2,5) 3(3) [of 0] 3(4) [of 0] by (simp add: sy_writer_step_def sy_write_def ring_write_def ring_full_def)
    moreover have "\<not> ra_backpressure ring (tf_written ?s + i)" "\<not> ra_laps ring (tf_written ?s + i)" if "i < k" for i
      using 3(3) [of "Suc i"] 3(4) [of "Suc i"] that by simp_all
    ultimately show ?case using Suc.IH(3) [of ?s] 3(1,2,5) by simp
  }
qed simp_all

lemma late_join_stuck:
  assumes "0 < msgCount"
  shows "\<exists>bs s. sy_run ring msgCount bs (sy_start (Suc i)) = Some s \<and> tf_main s = MAsleep \<and> tf_rcvCount s = 0
    \<and> \<not> tf_lapped s \<and> sy_stuck ring msgCount s"
proof -
  let ?s1 = "(sy_start (Suc i))\<lparr>tf_main := MAsleep, tf_left := i, tf_toSend := 0, tf_rcvCount := 0, sy_queue := msgCount,
    sy_idle := False, sy_procs := 1\<rparr>"
  let ?s2 = "?s1\<lparr>sy_queue := 0, sy_procs := 0, sy_writer := PWrite msgCount\<rparr>"
  let ?s3 = "?s2\<lparr>sy_writer := PIdle, sy_idle := True, tf_datagrams := 1\<rparr>"
  let ?s4 = "?s3\<lparr>tf_datagrams := 0, sy_joined := True, sy_items := [], sy_thread := TWait\<rparr>"
  have 1: "sy_run ring msgCount (replicate (msgCount + 4) MainTurn) (sy_start (Suc i)) = Some ?s1"
    using assms by (intro run_posting) (simp_all add: sy_start_def)
  have 2: "sy_run ring msgCount (replicate 2 WriterTurn) ?s1 = Some ?s2"
    using assms by (simp add: numeral_2_eq_2 sy_writer_step_def sy_start_def)
  have 3: "sy_run ring msgCount (replicate msgCount WriterTurn) ?s2 = Some (?s2\<lparr>sy_writer := PWrite 0\<rparr>)"
    using run_writes(1) [of ?s2 msgCount 0] by (simp add: sy_start_def)
  have 4: "sy_run ring msgCount (replicate 3 WriterTurn) (?s2\<lparr>sy_writer := PWrite 0\<rparr>) = Some ?s3"
    by (simp add: numeral_3_eq_3 sy_writer_step_def sy_start_def)
  have 5: "sy_run ring msgCount (WorkerTurn # replicate 4 ThreadTurn @ replicate 3 WorkerTurn) ?s3 = Some ?s4"
    by (simp add: eval_nat_numeral sy_thread_step_def sy_worker_step_def sy_start_def)
  have "sy_stuck ring msgCount ?s4"
    unfolding sy_stuck_def
  proof
    fix b show "sy_turn ring msgCount b ?s4 = None"
      by (cases b) (simp_all add: sy_start_def sy_main_step_def wait_step_def sy_writer_step_def sy_thread_step_def
        sy_worker_step_def)
  qed
  then show ?thesis
    using 1 2 3 4 5
    by (intro exI [of _ "replicate (msgCount + 4) MainTurn @ replicate 2 WriterTurn @ replicate msgCount WriterTurn
      @ replicate 3 WriterTurn @ WorkerTurn # replicate 4 ThreadTurn @ replicate 3 WorkerTurn"] exI [of _ ?s4])
      (simp add: sy_run_append sy_start_def del: replicate.simps)
qed

lemma lapped_stuck:
  assumes "cap < msgCount"
  shows "\<exists>bs s. sy_run (room_for cap) msgCount bs (sy_start (Suc i)) = Some s \<and> tf_main s = MAsleep \<and> tf_rcvCount s = 0
    \<and> tf_readerExpired s \<and> sy_stuck (room_for cap) msgCount s"
proof -
  obtain r where r: "msgCount = cap + Suc r" using assms(1) by (metis add_Suc_right less_imp_Suc_add)
  let ?s0 = "(sy_start (Suc i))\<lparr>sy_items := [], sy_joined := True\<rparr>"
  let ?s1 = "?s0\<lparr>tf_main := MAsleep, tf_left := i, tf_toSend := 0, tf_rcvCount := 0, sy_queue := msgCount,
    sy_idle := False, sy_procs := 1\<rparr>"
  let ?s2 = "?s1\<lparr>sy_queue := 0, sy_procs := 0, sy_writer := PWrite msgCount\<rparr>"
  let ?s3 = "?s2\<lparr>tf_written := cap, tf_unread := cap, sy_writer := PWrite (Suc r)\<rparr>"
  let ?s4 = "?s3\<lparr>tf_written := Suc cap, tf_lapped := True, tf_datagrams := 1, sy_writer := PWrite r\<rparr>"
  let ?s5 = "?s4\<lparr>tf_written := Suc cap + r, sy_writer := PIdle, sy_idle := True, tf_datagrams := 2\<rparr>"
  let ?s6 = "?s5\<lparr>tf_datagrams := 0, sy_thread := TWait, tf_readerExpired := True\<rparr>"
  have 0: "sy_run (room_for cap) msgCount [WorkerTurn] (sy_start (Suc i)) = Some ?s0"
    by (simp add: sy_worker_step_def sy_start_def)
  have 1: "sy_run (room_for cap) msgCount (replicate (msgCount + 4) MainTurn) ?s0 = Some ?s1"
    using assms by (intro run_posting) (simp_all add: sy_start_def)
  have 2: "sy_run (room_for cap) msgCount (replicate 2 WriterTurn) ?s1 = Some ?s2"
    using assms by (simp add: numeral_2_eq_2 sy_writer_step_def sy_start_def)
  have 3: "sy_run (room_for cap) msgCount (replicate cap WriterTurn) ?s2 = Some ?s3"
    using run_writes(3) [of ?s2 cap "Suc r" "room_for cap" msgCount] by (simp add: r sy_start_def room_for_def)
  have 4: "sy_run (room_for cap) msgCount (replicate 2 WriterTurn) ?s3 = Some ?s4"
    by (simp add: room_for_def numeral_2_eq_2 sy_writer_step_def sy_write_def ring_full_def ring_write_def sy_start_def)
  have 5: "sy_run (room_for cap) msgCount (replicate r WriterTurn) ?s4 = Some (?s4\<lparr>tf_written := Suc cap + r, sy_writer := PWrite 0\<rparr>)"
    using run_writes(2) [of ?s4 r 0 "room_for cap"] by (simp add: sy_start_def room_for_def)
  have 6: "sy_run (room_for cap) msgCount (replicate 3 WriterTurn) (?s4\<lparr>tf_written := Suc cap + r, sy_writer := PWrite 0\<rparr>) = Some ?s5"
    by (simp add: numeral_3_eq_3 sy_writer_step_def sy_start_def)
  let ?s5' = "?s5\<lparr>tf_datagrams := 0, sy_thread := TWait, sy_items := [CallRun, CallRun]\<rparr>"
  have 7: "sy_run (room_for cap) msgCount (replicate 7 ThreadTurn) ?s5 = Some ?s5'"
    by (simp add: eval_nat_numeral sy_thread_step_def sy_start_def)
  have 8: "sy_run (room_for cap) msgCount (replicate 6 WorkerTurn) ?s5' = Some ?s6"
    by (simp add: eval_nat_numeral sy_worker_step_def sy_start_def)
  have "sy_stuck (room_for cap) msgCount ?s6"
    unfolding sy_stuck_def
  proof
    fix b show "sy_turn (room_for cap) msgCount b ?s6 = None"
      by (cases b) (simp_all add: sy_start_def sy_main_step_def wait_step_def sy_writer_step_def sy_thread_step_def
        sy_worker_step_def)
  qed
  then show ?thesis
    by (intro exI [of _ "[WorkerTurn] @ replicate (msgCount + 4) MainTurn @ replicate 2 WriterTurn @ replicate cap WriterTurn
      @ replicate 2 WriterTurn @ replicate r WriterTurn @ replicate 3 WriterTurn
      @ replicate 7 ThreadTurn @ replicate 6 WorkerTurn"] exI [of _ ?s6])
      (simp only: sy_run_append 0 1 2 3 4 5 6 7 8 Option.bind.simps, simp add: sy_start_def)
qed

section \<open>Properties\<close>

text \<open>
  The system benchmark can sleep forever. For every number of messages there is a schedule in
  which the writer has written all of them before the worker of the reader's queue adds the channel
  reader, which joins behind them; and if the messages do not all fit the ring there is one in which
  the writer, whose handler gives up after two milliseconds, laps the reader, and the callback stores
  readerExpired without notifying. Both end with the main thread asleep, no message received in the
  iteration, and no thread able to take a step.
\<close>

lemma system_bench_hangs:
  assumes "0 < msgCount"
  shows "(\<exists>bs s. sy_run ring msgCount bs (sy_start (Suc i)) = Some s \<and> tf_main s = MAsleep \<and> tf_rcvCount s = 0
      \<and> \<not> tf_lapped s \<and> sy_stuck ring msgCount s)
    \<and> (cap < msgCount \<longrightarrow> (\<exists>bs s. sy_run (room_for cap) msgCount bs (sy_start (Suc i)) = Some s \<and> tf_main s = MAsleep
      \<and> tf_rcvCount s = 0 \<and> tf_readerExpired s \<and> sy_stuck (room_for cap) msgCount s))"
  using late_join_stuck [OF assms] lapped_stuck by blast

text \<open>The latency run of the benchmark, one message, and its run of a million messages of 50 bytes in one megabyte.\<close>

lemma system_bench_hangs_witness:
  "(\<exists>bs s. sy_run (room_for 100) 1 bs (sy_start 1) = Some s \<and> tf_main s = MAsleep
      \<and> \<not> tf_lapped s \<and> sy_stuck (room_for 100) 1 s)
    \<and> (\<exists>bs s. sy_run (room_for 14563) 1000000 bs (sy_start 1) = Some s \<and> tf_main s = MAsleep \<and> tf_readerExpired s
      \<and> sy_stuck (room_for 14563) 1000000 s)"
  using system_bench_hangs [of 1 "room_for 100" 0 0]
    system_bench_hangs [of 1000000 "room_for 14563" 0 14563] by auto

text \<open>
  Otherwise it does not. Once the channel reader has been added, and as long as the writer has
  not lapped the reader, no schedule of main thread, both workers and reader thread leads to a state
  in which all of them wait: the main thread is through, or a step is possible.
\<close>

lemma system_bench_goes_on:
  assumes "sy_run ring msgCount bs ((sy_start iterations)\<lparr>sy_items := [], sy_joined := True\<rparr>) = Some s"
    and "\<not> tf_lapped s" "tf_main s \<noteq> MDone"
  shows "\<exists>b s'. sy_turn ring msgCount b s = Some s'"
proof (rule ccontr)
  assume "\<nexists>b s'. sy_turn ring msgCount b s = Some s'"
  then have "sy_stuck ring msgCount s" by (simp add: sy_stuck_def)
  with sy_progress [OF sy_run_inv [OF assms(1) sy_joined_inv assms(2)] assms(2)] assms(3) show False by blast
qed

lemma system_bench_goes_on_witness:
  "\<exists>s b s'. sy_run (room_for 100) 1 (replicate 5 MainTurn) ((sy_start 1)\<lparr>sy_items := [], sy_joined := True\<rparr>) = Some s
    \<and> tf_main s = MAsleep \<and> sy_turn (room_for 100) 1 b s = Some s'"
proof -
  have "map_option (\<lambda>s. (tf_main s, tf_lapped s)) (sy_run (room_for 100) 1 (replicate 5 MainTurn)
      ((sy_start 1)\<lparr>sy_items := [], sy_joined := True\<rparr>)) = Some (MAsleep, False)"
    by code_simp
  then obtain s where s: "sy_run (room_for 100) 1 (replicate 5 MainTurn) ((sy_start 1)\<lparr>sy_items := [], sy_joined := True\<rparr>) = Some s"
      "tf_main s = MAsleep" "\<not> tf_lapped s"
    by auto
  then show ?thesis using system_bench_goes_on [OF s(1,3)] by auto
qed

end
