(* ===== verification/BenchRing.thy ===== *)
theory BenchRing
  imports NotificationBench ReliableStream
begin

text \<open>
  The ring behind NotificationBench and SystemBench: WriteEx with a handler that declines and the
  loop of ReadEx, one iteration at a time, in any order. The answers that those theories take as
  a parameter exist for every such run, so what they say of all answers holds of the ring.
\<close>

section \<open>The ring under a reader that is not waited for\<close>

text \<open>One iteration of the loop of ReadEx, with its condition and what follows the loop.\<close>

definition read_round ::
    "Reader \<Rightarrow> 'h copy_confirm \<Rightarrow> 'm ByteRingBuffer \<Rightarrow> 'h read_state \<Rightarrow> 'h read_state step_outcome result" where
  "read_round r cc rb s =
     (if rs_pos s = freePos rb then Inr (Return SUCCESS (s\<lparr>rs_bpos := rs_pos s\<rparr>)) else read_iter r cc rb s)"

lemma ReadLoop_rounds:
  "ReadLoop r cc rb s =
     (case read_round r cc rb s of
        Inl e \<Rightarrow> Some (Inl e)
      | Inr (Return res s') \<Rightarrow> Some (Inr (res, s'))
      | Inr (Continue s') \<Rightarrow> ReadLoop r cc rb s')"
  by (subst ReadLoop.simps) (simp add: read_round_def)

text \<open>
  WriteEx with a handler that declines, cut where the handler runs and the reader may go on: the part
  before it, which answers whether the handler is called, and the part after it. The mutex is held
  in between.
\<close>

definition write_begin ::
    "'m pthread_api \<Rightarrow> tid \<Rightarrow> Writer \<Rightarrow> bytes \<Rightarrow> 'm ReaderInfo \<Rightarrow> 'm ByteRingBuffer \<Rightarrow> (bool \<times> 'm ByteRingBuffer) result" where
  "write_begin pt t w msg ri rb =
     (case Lock pt t (writerMtx rb) of
        Inl e \<Rightarrow> Inl e
      | Inr m \<Rightarrow>
          (case Write w msg (of_nat (length msg)) True EMPTY_POSITION ri (rb\<lparr>writerMtx := m\<rparr>) of
             Inl e \<Rightarrow> Inl e
           | Inr (Some readBp, rb1) \<Rightarrow> Inr (True, rb1\<lparr>backPressureCount := backPressureCount rb1 + 1\<rparr>)
           | Inr (None, rb1) \<Rightarrow> map_sum id (\<lambda>m. (False, rb1\<lparr>writerMtx := m\<rparr>)) (Unlock pt t (writerMtx rb1))))"

definition write_force ::
    "'m pthread_api \<Rightarrow> tid \<Rightarrow> Writer \<Rightarrow> bytes \<Rightarrow> 'm ReaderInfo \<Rightarrow> 'm ByteRingBuffer \<Rightarrow> 'm ByteRingBuffer result" where
  "write_force pt t w msg ri rb =
     (case Write w msg (of_nat (length msg)) False EMPTY_POSITION ri rb of
        Inl e \<Rightarrow> Inl e
      | Inr (_, rb1) \<Rightarrow> map_sum id (\<lambda>m. rb1\<lparr>writerMtx := m\<rparr>) (Unlock pt t (writerMtx rb1)))"

lemma WriteEx_parts:
  assumes "\<And>f. h 0 f (ri, c) = (False, ri, g c)"
  shows "WriteEx pt t h w msg (of_nat (length msg)) (rb, ri, c) =
    (case write_begin pt t w msg ri rb of
       Inl e \<Rightarrow> Some (Inl e)
     | Inr (False, rb1) \<Rightarrow> Some (Inr (rb1, ri, c))
     | Inr (True, rb1) \<Rightarrow> Some (map_sum id (\<lambda>rb2. (rb2, ri, g c)) (write_force pt t w msg ri rb1)))"
  using assms
  by (simp add: WriteEx_def write_begin_def write_force_def WriteLoop.simps Let_def
      split: sum.splits option.splits prod.splits)










section \<open>What the reader has before it\<close>

text \<open>Where the reader finds its next header: behind the blank end of the buffer.\<close>

definition first_header :: "u64 \<Rightarrow> position \<Rightarrow> position" where
  "first_header B p = (let rest = unat B - index_of B p in if rest < 5 then p + of_nat rest else p)"



definition whole :: "segment list \<Rightarrow> bool" where
  "whole ss \<longleftrightarrow> ss = [] \<or> (\<exists>gs d. ss = gs @ [Msg d])"





text \<open>The messages \<open>ms\<close> are unread and whole; or the ring has lapped the reader, by how much.\<close>

definition unread :: "'m ByteRingBuffer \<Rightarrow> position \<Rightarrow> bytes list \<Rightarrow> bool" where
  "unread rb p ms \<longleftrightarrow>
     (if p = freePos rb then ms = []
      else ms \<noteq> [] \<and> (\<exists>ss. pending rb (first_header (configBufSizeBytes rb) p) ss \<and> whole ss \<and> messages ss = ms))"

definition lapped :: "'m ByteRingBuffer \<Rightarrow> position \<Rightarrow> nat \<Rightarrow> bool" where
  "lapped rb p m \<longleftrightarrow>
     unat (configBufSizeBytes rb) \<le> dist (first_header (configBufSizeBytes rb) p) (freePos rb) \<and>
     dist (first_header (configBufSizeBytes rb) p) (freePos rb) \<le> m * 2 ^ 33"


subsection \<open>A round\<close>






subsection \<open>A write\<close>




section \<open>Runs\<close>



lemma ring_frame [simp]:
  "batch_stored (rb\<lparr>writerMtx := x, backPressureCount := c\<rparr>) ds rb' = batch_stored rb ds rb'"
  "batch_stored (rb\<lparr>writerMtx := x\<rparr>) ds rb' = batch_stored rb ds rb'"
  "batch_stored rb ds (rb'\<lparr>writerMtx := x\<rparr>) = batch_stored rb ds rb'"
  "reader_ok r (rb\<lparr>writerMtx := x, backPressureCount := c\<rparr>) = reader_ok r rb"
  "lapped (rb\<lparr>writerMtx := x, backPressureCount := c\<rparr>) p m = lapped rb p m"
  "unread (rb\<lparr>writerMtx := x, backPressureCount := c\<rparr>) p ms = unread rb p ms"
  by (simp_all add: batch_stored_def reader_ok_def rb_ok_def lapped_def unread_def pending_def)












section \<open>Properties\<close>



text \<open>
  The sizes of the two benchmarks: messages of 10 bytes in 1 and 4 MB, topic messages of 27 bytes -
  ten bytes before and behind the name channel, and the data - in 1 and 4 MB, of 67 bytes in 1 MB.
\<close>

lemma bench_arguments:
  "length (topic_image g False (bytes_of ''channel'') (replicate k 0)) = 17 + k"
  "(B, n) \<in> {(0x100000 :: u64, 10), (0x400000, 10), (0x100000, 27), (0x400000, 27), (0x100000, 67)} \<Longrightarrow>
     2 * (5 + n) \<le> unat B \<and> unat B mod (5 + n) \<noteq> 5"
  by (auto simp: bytes_of_def)







end
