(* ===== verification/RingTests.thy ===== *)
theory RingTests
  imports UnitTests SteadyWrites
begin

text \<open>
  unit_tests/rmp/readerWriterTest over the model. The tests that write the buffer full are
  proved from the lemmas of the writer and the reader, the small ones evaluate.
\<close>

section \<open>rmp/readerWriterTest\<close>

text \<open>The copy and confirm handler of the tests, and the state of a test: \<open>rt_bpCalls\<close> counts the calls of the mock.\<close>

record ReadIntCopyConfirmHandler =
  rh_Data :: "u64 list"
  rh_tmpData :: u64

definition ReadInt :: "ReadIntCopyConfirmHandler copy_confirm" where
  "ReadInt = \<lparr> cc_copy = (\<lambda>data h. (True, h\<lparr>rh_tmpData := le_word (take 8 data)\<rparr>)),
     cc_confirm = (\<lambda>h. h\<lparr>rh_Data := rh_Data h @ [rh_tmpData h]\<rparr>) \<rparr>"

record ReaderWriterTest =
  rt_rb :: "mutex_view ByteRingBuffer"
  rt_ri :: "mutex_view ReaderInfo"
  rt_writer :: Writer
  rt_readerBP :: ReaderWithBackpressure
  rt_readHandler :: ReadIntCopyConfirmHandler
  rt_bpCalls :: nat

definition new_ReaderWriterTest :: "ReaderWriterTest option" where
  "new_ReaderWriterTest = do {
     rb \<leftarrow> ByteRingBufferTest;
     ri \<leftarrow> ReaderInfoTest 3;
     writer \<leftarrow> returned (mk_Writer rb);
     (readerBP, ri) \<leftarrow> returned (mk_ReaderWithBackpressure posix_pthread 0 0 rb ri);
     Some \<lparr> rt_rb = rb, rt_ri = ri, rt_writer = writer, rt_readerBP = readerBP,
       rt_readHandler = \<lparr> rh_Data = [], rh_tmpData = 0 \<rparr>, rt_bpCalls = 0 \<rparr>
   }"

definition noBPHandler :: "(mutex_view, nat) bp_handler" where
  "noBPHandler p f s = (False, s)"

definition mockBPHandler :: "(mutex_view, nat) bp_handler" where
  "mockBPHandler p f s = (False, fst s, Suc (snd s))"

definition test_write :: "(mutex_view, nat) bp_handler \<Rightarrow> bytes \<Rightarrow> ReaderWriterTest \<Rightarrow> ReaderWriterTest option" where
  "test_write bp msg t = do {
     r \<leftarrow> WriteEx posix_pthread 0 bp (rt_writer t) msg (of_nat (length msg)) (rt_rb t, rt_ri t, rt_bpCalls t);
     (rb, ri, n) \<leftarrow> returned r;
     Some (t\<lparr>rt_rb := rb, rt_ri := ri, rt_bpCalls := n\<rparr>)
   }"

definition WriteInt :: "u64 \<Rightarrow> ReaderWriterTest \<Rightarrow> ReaderWriterTest option" where
  "WriteInt v t = test_write noBPHandler (le_bytes 8 v) t"

definition WriteBigData :: "(mutex_view, nat) bp_handler \<Rightarrow> ReaderWriterTest \<Rightarrow> ReaderWriterTest option" where
  "WriteBigData bp t = test_write bp (replicate (1024 - 5 - 1) 0) t"

definition test_activate :: "ReaderWriterTest \<Rightarrow> ReaderWriterTest option" where
  "test_activate t = do {
     (rwb, ri) \<leftarrow> returned (rwb_Activate (rt_readerBP t) (rt_rb t) (rt_ri t));
     Some (t\<lparr>rt_readerBP := rwb, rt_ri := ri\<rparr>)
   }"

definition test_read :: "ReaderWriterTest \<Rightarrow> (read_result \<times> ReaderWriterTest) option" where
  "test_read t = do {
     r \<leftarrow> rwb_ReadEx ReadInt (rt_rb t) (rt_readerBP t, rt_ri t, rt_readHandler t);
     (res, rwb, ri, h) \<leftarrow> returned r;
     Some (res, t\<lparr>rt_readerBP := rwb, rt_ri := ri, rt_readHandler := h\<rparr>)
   }"

definition ReaderWriterTest_ScratchReaderBPReadEmpty :: "unit option" where
  "ReaderWriterTest_ScratchReaderBPReadEmpty = do {
     t \<leftarrow> new_ReaderWriterTest;
     t \<leftarrow> test_activate t;
     (res, t) \<leftarrow> test_read t;
     expect (rh_Data (rt_readHandler t) = [])
   }"

definition ReaderWriterTest_ScratchWrite2Read2ReadEmpty :: "unit option" where
  "ReaderWriterTest_ScratchWrite2Read2ReadEmpty = do {
     t \<leftarrow> new_ReaderWriterTest;
     t \<leftarrow> test_activate t;
     t \<leftarrow> WriteInt 1 t;
     t \<leftarrow> WriteInt 2 t;
     (res, t) \<leftarrow> test_read t;
     expect (res = SUCCESS);
     expect (rh_Data (rt_readHandler t) = [1, 2]);
     (res, t) \<leftarrow> test_read (t\<lparr>rt_readHandler := (rt_readHandler t)\<lparr>rh_Data := []\<rparr>\<rparr>);
     expect (res = SUCCESS);
     expect (rh_Data (rt_readHandler t) = [])
   }"

definition ReaderWriterTest_WriteReadNoSpaceForHeader :: "unit option" where
  "ReaderWriterTest_WriteReadNoSpaceForHeader = do {
     t \<leftarrow> new_ReaderWriterTest;
     t \<leftarrow> WriteBigData noBPHandler t;
     t \<leftarrow> test_activate t;
     t \<leftarrow> WriteInt 10 t;
     (res, t) \<leftarrow> test_read t;
     expect (res = SUCCESS);
     expect (rh_Data (rt_readHandler t) = [10])
   }"

definition ReaderWriterTest_WriteBackpressure :: "unit option" where
  "ReaderWriterTest_WriteBackpressure = do {
     t \<leftarrow> new_ReaderWriterTest;
     t \<leftarrow> test_activate t;
     t \<leftarrow> WriteBigData noBPHandler t;
     t \<leftarrow> WriteBigData mockBPHandler t;
     expect (backPressureCount (rt_rb t) = 1);
     t \<leftarrow> WriteBigData mockBPHandler t;
     expect (backPressureCount (rt_rb t) = 1);
     expect (rt_bpCalls t = 1)
   }"

definition ReaderWriterTest_WriteNoActiveReaderNoBackpressure :: "unit option" where
  "ReaderWriterTest_WriteNoActiveReaderNoBackpressure = do {
     t \<leftarrow> new_ReaderWriterTest;
     t \<leftarrow> WriteBigData mockBPHandler t;
     t \<leftarrow> WriteBigData mockBPHandler t;
     expect (rt_bpCalls t = 0);
     expect (backPressureCount (rt_rb t) = 0)
   }"

text \<open>The handler that denies: the bytes it was offered, and its confirmations.\<close>

definition DenyCopyConfirmHandler :: "(nat \<times> nat) copy_confirm" where
  "DenyCopyConfirmHandler = \<lparr> cc_copy = (\<lambda>data (copyCount, confirmCount). (False, copyCount + length data, confirmCount)),
     cc_confirm = (\<lambda>(copyCount, confirmCount). (copyCount, confirmCount + 1)) \<rparr>"

definition ReaderWriterTest_ReadDenyCopyConfirm :: "unit option" where
  "ReaderWriterTest_ReadDenyCopyConfirm = do {
     t \<leftarrow> new_ReaderWriterTest;
     t \<leftarrow> test_activate t;
     t \<leftarrow> WriteBigData noBPHandler t;
     r \<leftarrow> rwb_ReadEx DenyCopyConfirmHandler (rt_rb t) (rt_readerBP t, rt_ri t, 0, 0);
     (res, rwb, ri, copyCount, confirmCount) \<leftarrow> returned r;
     expect (res = SUCCESS);
     expect (copyCount = 1018);
     expect (rwb_Pos rwb = freePos (rt_rb t));
     expect (confirmCount = 0)
   }"

definition ReaderWriterTest_TooManyBytesToWrite :: "unit option" where
  "ReaderWriterTest_TooManyBytesToWrite = do {
     t \<leftarrow> new_ReaderWriterTest;
     t \<leftarrow> WriteInt 10 t;
     t \<leftarrow> WriteBigData noBPHandler t;
     Some ()
   }"

text \<open>
  The block of the death test runs in a forked child, and the ring buffer of the test is its
  private memory: the parent sees nothing of the write, and its mutex was not held by the
  process that died.
\<close>

definition ReaderWriterTest_WriteDieWriteDeathTest :: "unit option" where
  "ReaderWriterTest_WriteDieWriteDeathTest = do {
     t \<leftarrow> new_ReaderWriterTest;
     t \<leftarrow> test_activate t;
     t \<leftarrow> WriteInt 20 t;
     child \<leftarrow> WriteBigData mockBPHandler t;
     expect (0 < rt_bpCalls child);
     t \<leftarrow> WriteInt 30 t;
     (res, t) \<leftarrow> test_read t;
     expect (res = SUCCESS);
     expect (rh_Data (rt_readHandler t) = [20, 30])
   }"

definition ReaderWriterTest_ReadInactiveDeathTest :: "unit option" where
  "ReaderWriterTest_ReadInactiveDeathTest = do {
     t \<leftarrow> new_ReaderWriterTest;
     r \<leftarrow> rwb_ReadEx ReadInt (rt_rb t) (rt_readerBP t, rt_ri t, rt_readHandler t);
     fails r
   }"

definition ReaderWriterTest_WriteBiggerMessageDeathTest :: "unit option" where
  "ReaderWriterTest_WriteBiggerMessageDeathTest = do {
     t \<leftarrow> new_ReaderWriterTest;
     let msg = replicate (unat (GetMaxMessageSize (rt_rb t)) + 1) 0;
     r \<leftarrow> WriteEx posix_pthread 0 noBPHandler (rt_writer t) msg (of_nat (length msg)) (rt_rb t, rt_ri t, 0);
     fails r
   }"

lemma ring_tests_evaluate:
  "ReaderWriterTest_ScratchReaderBPReadEmpty = Some ()" "ReaderWriterTest_ScratchWrite2Read2ReadEmpty = Some ()"
  "ReaderWriterTest_ReadInactiveDeathTest = Some ()" "ReaderWriterTest_WriteBiggerMessageDeathTest = Some ()"
  by code_simp+

section \<open>The tests that fill the buffer\<close>

fun WriteInts :: "u64 list \<Rightarrow> ReaderWriterTest \<Rightarrow> ReaderWriterTest option" where
  "WriteInts [] t = Some t"
| "WriteInts (v # vs) t = do { t \<leftarrow> WriteInt v t; WriteInts vs t }"

definition maxIntMsg :: nat where
  "maxIntMsg = 1024 div (5 + 8)"

definition ReaderWriterTest_ScratchReadBufLen :: "unit option" where
  "ReaderWriterTest_ScratchReadBufLen = do {
     t \<leftarrow> new_ReaderWriterTest;
     t \<leftarrow> test_activate t;
     t \<leftarrow> WriteInts (map of_nat [1 ..< maxIntMsg + 1]) t;
     (res, t) \<leftarrow> test_read t;
     expect (res = SUCCESS);
     expect (length (rh_Data (rt_readHandler t)) = maxIntMsg)
   }"

definition ReaderWriterTest_ScratchReadExpired :: "unit option" where
  "ReaderWriterTest_ScratchReadExpired = do {
     t \<leftarrow> new_ReaderWriterTest;
     t \<leftarrow> test_activate t;
     t \<leftarrow> WriteInts (map of_nat [1 ..< maxIntMsg + 2]) t;
     (res, t) \<leftarrow> test_read t;
     expect (res = EXPIRED_POSITION);
     expect (length (rh_Data (rt_readHandler t)) = 0);
     expect (expiredReaders (rt_ri t) = 1)
   }"

definition ReaderWriterTest_SomeReadBufLen :: "unit option" where
  "ReaderWriterTest_SomeReadBufLen = do {
     t \<leftarrow> new_ReaderWriterTest;
     t \<leftarrow> WriteInt 0 t;
     t \<leftarrow> test_activate t;
     t \<leftarrow> WriteInts (map of_nat [1 ..< maxIntMsg]) t;
     (res, t) \<leftarrow> test_read t;
     expect (res = SUCCESS);
     expect (length (rh_Data (rt_readHandler t)) = maxIntMsg - 1)
   }"

text \<open>A test in which the writer and the reader of the fixture can work.\<close>

definition test_ok :: "ReaderWriterTest \<Rightarrow> bool" where
  "test_ok t \<longleftrightarrow>
     writer_ok (rt_writer t) (rt_rb t) \<and> configBufSizeBytes (rt_rb t) = 1024 \<and> writerMtx (rt_rb t) = Free \<and>
     ri_inv (rt_ri t) \<and> rwb_procReaderId (rt_readerBP t) = 0 \<and> 0 < length (ri_slots (rt_ri t)) \<and>
     reader_ok (rwb_reader (rt_readerBP t)) (rt_rb t)"

definition fresh_test :: ReaderWriterTest where
  "fresh_test = \<lparr>
     rt_rb = \<lparr> configBufSizeBytes = 1024, writerMtx = Free, freePos = 0, backPressureCount = 0, notificationCount = 0,
       rb_initialized = True, rb_data = replicate 1024 0 \<rparr>,
     rt_ri = \<lparr> expiredReaders = 0, ri_initialized = True, configMaxReaders = 3, readersMinMax = 0x30001,
       ri_slots = [new_info (Held 0), new_info Free, new_info Free] \<rparr>,
     rt_writer = \<lparr> writer_indexMask = 1023 \<rparr>,
     rt_readerBP = \<lparr> rwb_reader = \<lparr> reader_indexMask = 1023 \<rparr>, rwb_procReaderId = 0, rwb_readerPos = 0 \<rparr>,
     rt_readHandler = \<lparr> rh_Data = [], rh_tmpData = 0 \<rparr>, rt_bpCalls = 0 \<rparr>"

lemma new_test: "new_ReaderWriterTest = Some fresh_test"
  by code_simp

lemma fresh_test_ok: "test_ok fresh_test"
  by (auto simp: test_ok_def fresh_test_def writer_ok_def reader_ok_def rb_ok_def good_size_def IsZeroOrPowerOfTwo_def
      ri_inv_def slots_ok_def range_covers_def active_at_def slot_active_def new_info_def less_Suc_eq
      GetActiveRange_def range_min_def range_max_def)

lemma good_size_1024: "good_size 1024"
  by (simp add: good_size_def IsZeroOrPowerOfTwo_def)

text \<open>Does a write of \<open>n\<close> bytes find a reader that holds it back?\<close>

definition held_back :: "ReaderWriterTest \<Rightarrow> u32 \<Rightarrow> bool" where
  "held_back t n \<longleftrightarrow> holds_back \<lparr> writer_indexMask = 1023 \<rparr> (rt_rb t) (rt_ri t) n"

lemma test_write_spec:
  assumes t: "test_ok t" and h: "\<And>p f s. h p f s = (False, fst s, g (snd s))" and n: "length msg + 5 \<le> 1024"
  shows "\<exists>rb. test_write h msg t = Some (t\<lparr>rt_rb := rb,
        rt_bpCalls := (if held_back t (of_nat (length msg)) then g (rt_bpCalls t) else rt_bpCalls t)\<rparr>)
    \<and> backPressureCount rb = backPressureCount (rt_rb t) + (if held_back t (of_nat (length msg)) then 1 else 0)
    \<and> batch_stored (rt_rb t) [msg] rb \<and> (\<forall>c. test_ok (t\<lparr>rt_rb := rb, rt_bpCalls := c\<rparr>))"
proof -
  let ?rb = "rt_rb t" and ?n = "of_nat (length msg) :: u32" and ?w = "rt_writer t"
  have ok: "writer_ok ?w ?rb" "ri_inv (rt_ri t)" "configBufSizeBytes ?rb = 1024" "writerMtx ?rb = Free"
      "?w = \<lparr> writer_indexMask = 1023 \<rparr>"
    using t by (cases ?w, auto simp: test_ok_def writer_ok_def)
  have bp: "holds_back ?w ?rb (rt_ri t) ?n = held_back t ?n" by (simp add: held_back_def ok(5))
  have "h p f (rt_ri t, rt_bpCalls t) = (False, rt_ri t, g (rt_bpCalls t))" for p f by (simp add: h)
  from posix.WriteEx_declined [where h = h and c = "rt_bpCalls t" and g = g and t = 0 and msg = msg, OF this ok(1) _ ok(2)]
  obtain rb where w: "WriteEx posix_pthread 0 h ?w msg ?n (?rb, rt_ri t, rt_bpCalls t)
        = Some (Inr (rb, rt_ri t, if held_back t ?n then g (rt_bpCalls t) else rt_bpCalls t))"
      and rb: "backPressureCount rb = backPressureCount ?rb + (if held_back t ?n then 1 else 0)"
        "batch_stored ?rb [msg] rb" "writer_ok ?w rb" "writerMtx rb = Free"
    unfolding bp using n ok(3,4) by (auto simp: message_fits_def)
  have "test_ok (t\<lparr>rt_rb := rb, rt_bpCalls := c\<rparr>)" for c
    using t rb(2,3,4) batch_stored_reader_ok [OF rb(2)] by (simp add: test_ok_def batch_stored_def)
  moreover have "test_write h msg t = Some (t\<lparr>rt_rb := rb, rt_bpCalls := (if held_back t ?n then g (rt_bpCalls t) else rt_bpCalls t)\<rparr>)"
    using w by (cases t) (simp add: test_write_def returned_def)
  ultimately show ?thesis using rb(1,2) by auto
qed

lemma WriteInt_spec:
  assumes "test_ok t"
  shows "\<exists>rb. WriteInt v t = Some (t\<lparr>rt_rb := rb\<rparr>) \<and> batch_stored (rt_rb t) [le_bytes 8 v] rb \<and> test_ok (t\<lparr>rt_rb := rb\<rparr>)"
proof -
  have "t\<lparr>rt_rb := rb, rt_bpCalls := rt_bpCalls t\<rparr> = t\<lparr>rt_rb := rb\<rparr>" for rb by (cases t) simp
  then have "(\<forall>c. test_ok (t\<lparr>rt_rb := rb, rt_bpCalls := c\<rparr>)) \<Longrightarrow> test_ok (t\<lparr>rt_rb := rb\<rparr>)" for rb by metis
  then show ?thesis
    using test_write_spec [OF assms, of noBPHandler "\<lambda>c. c" "le_bytes 8 v"] by (auto simp: WriteInt_def noBPHandler_def)
qed

lemma WriteInts_spec:
  "test_ok t \<Longrightarrow> \<exists>rb. WriteInts vs t = Some (t\<lparr>rt_rb := rb\<rparr>) \<and> batch_stored (rt_rb t) (map (le_bytes 8) vs) rb
    \<and> test_ok (t\<lparr>rt_rb := rb\<rparr>)"
proof (induction vs arbitrary: t)
  case Nil
  then show ?case by (intro exI [of _ "rt_rb t"]) (simp add: batch_stored_Nil)
next
  case (Cons v vs)
  obtain rb1 where w: "WriteInt v t = Some (t\<lparr>rt_rb := rb1\<rparr>)" "batch_stored (rt_rb t) [le_bytes 8 v] rb1"
      "test_ok (t\<lparr>rt_rb := rb1\<rparr>)"
    using WriteInt_spec [OF Cons.prems] by blast
  obtain rb2 where ws: "WriteInts vs (t\<lparr>rt_rb := rb1\<rparr>) = Some (t\<lparr>rt_rb := rb2\<rparr>)"
      "batch_stored rb1 (map (le_bytes 8) vs) rb2" "test_ok (t\<lparr>rt_rb := rb2\<rparr>)"
    using Cons.IH [OF w(3)] by auto
  then show ?case using w batch_stored_append [OF w(2) ws(2)] by auto
qed

lemma test_activate_spec:
  assumes "test_ok t"
  shows "\<exists>t'. test_activate t = Some t' \<and> test_ok t' \<and> rt_rb t' = rt_rb t \<and> active_at (rt_ri t') 0
    \<and> rwb_readerPos (rt_readerBP t') = freePos (rt_rb t) \<and> rt_readHandler t' = rt_readHandler t
    \<and> expiredReaders (rt_ri t') = expiredReaders (rt_ri t)"
proof -
  have ok: "slots_ok (rt_ri t)" "rwb_procReaderId (rt_readerBP t) = int 0" "0 < length (ri_slots (rt_ri t))"
    using assms by (auto simp: test_ok_def ri_inv_def)
  obtain ri where ri: "rwb_Activate (rt_readerBP t) (rt_rb t) (rt_ri t)
        = Inr ((rt_readerBP t)\<lparr>rwb_readerPos := freePos (rt_rb t)\<rparr>, ri)" "ri_inv ri"
      "ri_slots ri = (ri_slots (rt_ri t))[0 := (ri_slots (rt_ri t) ! 0)\<lparr>info_position := freePos (rt_rb t), info_isActive := 1\<rparr>]"
    using rwb_Activate_spec [OF ok, of "rt_rb t"] by blast
  have "expiredReaders ri = expiredReaders (rt_ri t)"
    using ri(1) ok(2,3)
    by (auto simp: rwb_Activate_def Activate_def update_slot_def UpdateActiveRange_def Let_def INVALID_READER_ID_def)
  moreover have "active_at ri 0" using ok(3) ri(3) by (simp add: active_at_def slot_active_def)
  ultimately show ?thesis
    using assms ri ok(3) by (simp add: test_activate_def returned_def test_ok_def)
qed

lemma le_bytes_nonempty: "le_bytes 8 v \<noteq> []"
  using length_le_bytes [of 8 v] by force

lemma deliver_ReadInt: "rh_Data (deliver ReadInt (map (le_bytes 8) vs) h) = rh_Data h @ vs"
proof (induction vs arbitrary: h)
  case Nil
  then show ?case by simp
next
  case (Cons v vs)
  have "le_word (le_bytes 8 v) = v" by (rule le_word_le_bytes) simp
  then show ?case using Cons.IH by (simp add: ReadInt_def)
qed

text \<open>A read of what was written behind the position of the reader.\<close>

lemma read_batch:
  assumes t: "test_ok t" "active_at (rt_ri t) 0" "batch_stored rb msgs (rt_rb t)"
    and pos: "rwb_readerPos (rt_readerBP t) = freePos rb" "configBufSizeBytes rb = 1024"
    and room: "total (batch_segments 1024 (freePos rb) msgs) < 1024" "list_all seg_valid (batch_segments 1024 (freePos rb) msgs)"
  shows "\<exists>rwb ri. rwb_ReadEx cc (rt_rb t) (rt_readerBP t, rt_ri t, h) = Some (Inr (SUCCESS, rwb, ri, deliver cc msgs h))
    \<and> rwb_Pos rwb = freePos (rt_rb t)"
proof -
  have k: "ri_inv (rt_ri t)" "rwb_procReaderId (rt_readerBP t) = int 0" "reader_ok (rwb_reader (rt_readerBP t)) (rt_rb t)"
    using t(1) by (simp_all add: test_ok_def)
  have pd: "pending (rt_rb t) (freePos rb) (batch_segments 1024 (freePos rb) msgs)"
    using batch_stored_pending [OF t(3)] pos(2) room by simp
  have "rwb_ReadEx cc (rt_rb t) (rt_readerBP t, rt_ri t, h) = Some (Inr (SUCCESS,
      (rt_readerBP t)\<lparr>rwb_readerPos := freePos (rt_rb t)\<rparr>,
      (rt_ri t)\<lparr>ri_slots := (ri_slots (rt_ri t))[0 := set_position (freePos (rt_rb t)) (ri_slots (rt_ri t) ! 0)]\<rparr>,
      deliver cc (messages (batch_segments 1024 (freePos rb) msgs)) h))"
    using pd pos(1) by (intro rwb_ReadEx_stream [OF k(1,2) t(2) k(3)]) (auto simp: pending_def list_all_iff)
  then show ?thesis by (simp add: rwb_Pos_def)
qed

lemma test_read_batch:
  assumes "test_ok t" "active_at (rt_ri t) 0" "batch_stored rb (map (le_bytes 8) vs) (rt_rb t)"
    and "rwb_readerPos (rt_readerBP t) = freePos rb" "configBufSizeBytes rb = 1024"
    and "total (batch_segments 1024 (freePos rb) (map (le_bytes 8) vs)) < 1024"
      "list_all seg_valid (batch_segments 1024 (freePos rb) (map (le_bytes 8) vs))"
  shows "\<exists>t'. test_read t = Some (SUCCESS, t') \<and> rh_Data (rt_readHandler t') = rh_Data (rt_readHandler t) @ vs"
  using read_batch [OF assms, of ReadInt "rt_readHandler t"] by (auto simp: test_read_def returned_def deliver_ReadInt)

lemma test_read_spec:
  assumes "test_ok t" "active_at (rt_ri t) 0" "batch_stored rb (map (le_bytes 8) vs) (rt_rb t)"
    and "rwb_readerPos (rt_readerBP t) = freePos rb" "configBufSizeBytes rb = 1024"
    and room: "index_of 1024 (freePos rb) + length vs * 13 \<le> 1024" "length vs * 13 < 1024"
  shows "\<exists>t'. test_read t = Some (SUCCESS, t') \<and> rh_Data (rt_readHandler t') = rh_Data (rt_readHandler t) @ vs"
proof -
  let ?msgs = "map (le_bytes 8) vs"
  have len: "\<And>m. m \<in> set ?msgs \<Longrightarrow> length m = 8" by auto
  have batch: "batch_segments 1024 (freePos rb) ?msgs = map Msg ?msgs"
    using room(1) by (intro batch_segments_equal [OF good_size_1024 _ len]) auto
  have "total (map Msg ?msgs) = length ?msgs * (5 + 8)" by (rule total_map_Msg) (rule len)
  then show ?thesis
    using room(2) by (intro test_read_batch [OF assms(1-5)]) (auto simp: batch list_all_iff le_bytes_nonempty)
qed

lemma length_ints [simp]: "length (map of_nat [a ..< b]) = b - a"
  by simp

lemma read_buf_len_test: "ReaderWriterTest_ScratchReadBufLen = Some ()"
proof -
  define vs :: "u64 list" where "vs = map of_nat [1 ..< maxIntMsg + 1]"
  have n: "length vs = maxIntMsg" "maxIntMsg = 78" by (simp_all add: vs_def maxIntMsg_def)
  obtain t where t: "test_activate fresh_test = Some t" "test_ok t" "rt_rb t = rt_rb fresh_test" "active_at (rt_ri t) 0"
      "rwb_readerPos (rt_readerBP t) = freePos (rt_rb fresh_test)" "rt_readHandler t = rt_readHandler fresh_test"
    using test_activate_spec [OF fresh_test_ok] by blast
  obtain rb where w: "WriteInts vs t = Some (t\<lparr>rt_rb := rb\<rparr>)" "batch_stored (rt_rb t) (map (le_bytes 8) vs) rb"
      "test_ok (t\<lparr>rt_rb := rb\<rparr>)"
    using WriteInts_spec [OF t(2)] by blast
  obtain t' where "test_read (t\<lparr>rt_rb := rb\<rparr>) = Some (SUCCESS, t')" "rh_Data (rt_readHandler t') = vs"
    using test_read_spec [of "t\<lparr>rt_rb := rb\<rparr>" "rt_rb t" vs] w t n by (auto simp: fresh_test_def index_of_def)
  then show ?thesis
    unfolding ReaderWriterTest_ScratchReadBufLen_def vs_def [symmetric] by (simp add: new_test t w(1) n(1) expect_def)
qed

lemma some_read_buf_len_test: "ReaderWriterTest_SomeReadBufLen = Some ()"
proof -
  define vs :: "u64 list" where "vs = map of_nat [1 ..< maxIntMsg]"
  have n: "length vs = maxIntMsg - 1" "maxIntMsg = 78" by (simp_all add: vs_def maxIntMsg_def)
  obtain rb0 where w0: "WriteInt 0 fresh_test = Some (fresh_test\<lparr>rt_rb := rb0\<rparr>)"
      "batch_stored (rt_rb fresh_test) [le_bytes 8 (0 :: u64)] rb0" and ok0: "test_ok (fresh_test\<lparr>rt_rb := rb0\<rparr>)"
    using WriteInt_spec [OF fresh_test_ok] by blast
  have "freePos rb0 = 13"
    using w0(2) by (simp add: batch_stored_def fresh_test_def write_segments_def filler_def index_of_def Let_def)
  then have idx: "index_of 1024 (freePos rb0) = 13" by (simp add: index_of_def)
  obtain t where t: "test_activate (fresh_test\<lparr>rt_rb := rb0\<rparr>) = Some t" "test_ok t" "rt_rb t = rb0" "active_at (rt_ri t) 0"
      "rwb_readerPos (rt_readerBP t) = freePos rb0" "rt_readHandler t = rt_readHandler fresh_test"
    using test_activate_spec [OF ok0] by auto
  obtain rb where w: "WriteInts vs t = Some (t\<lparr>rt_rb := rb\<rparr>)" "batch_stored (rt_rb t) (map (le_bytes 8) vs) rb"
      "test_ok (t\<lparr>rt_rb := rb\<rparr>)"
    using WriteInts_spec [OF t(2)] by blast
  have "configBufSizeBytes rb0 = 1024" using ok0 by (simp add: test_ok_def)
  then obtain t' where "test_read (t\<lparr>rt_rb := rb\<rparr>) = Some (SUCCESS, t')" "rh_Data (rt_readHandler t') = vs"
    using test_read_spec [of "t\<lparr>rt_rb := rb\<rparr>" "rt_rb t" vs] w t idx by (auto simp: fresh_test_def n)
  then show ?thesis
    unfolding ReaderWriterTest_SomeReadBufLen_def vs_def [symmetric] by (simp add: new_test w0(1) t w(1) n(1) expect_def)
qed

lemma read_expired_test: "ReaderWriterTest_ScratchReadExpired = Some ()"
proof -
  define vs :: "u64 list" where "vs = map of_nat [1 ..< maxIntMsg + 2]"
  let ?msgs = "map (le_bytes 8) vs"
  have n: "length vs = 79" by (simp add: vs_def maxIntMsg_def)
  obtain us v where vs: "vs = us @ [v]" "length us = 78"
    using n by (cases vs rule: rev_cases) auto
  have "batch_segments 1024 0 (map (le_bytes 8) us) = map Msg (map (le_bytes 8) us)"
    using vs(2) by (intro batch_segments_equal [OF good_size_1024, where n = 8]) (auto simp: index_of_def)
  moreover have "total (map Msg (map (le_bytes 8) us)) = length (map (le_bytes 8) us) * (5 + 8)"
    by (rule total_map_Msg) auto
  ultimately have total: "total (batch_segments 1024 0 ?msgs) = 1037"
    using vs by (simp add: batch_segments_append write_segments_def filler_def index_of_def Let_def)
  obtain t where t: "test_activate fresh_test = Some t" "test_ok t" "rt_rb t = rt_rb fresh_test" "active_at (rt_ri t) 0"
      "rwb_readerPos (rt_readerBP t) = freePos (rt_rb fresh_test)" "rt_readHandler t = rt_readHandler fresh_test"
      "expiredReaders (rt_ri t) = expiredReaders (rt_ri fresh_test)"
    using test_activate_spec [OF fresh_test_ok] by blast
  obtain rb where w: "WriteInts vs t = Some (t\<lparr>rt_rb := rb\<rparr>)" "batch_stored (rt_rb t) ?msgs rb"
      "test_ok (t\<lparr>rt_rb := rb\<rparr>)"
    using WriteInts_spec [OF t(2)] by blast
  let ?h = "rt_readHandler t" and ?info = "ri_slots (rt_ri t) ! 0"
  let ?s = "\<lparr> rs_pos = 0, rs_bpos = info_position ?info, rs_handler = ?h \<rparr>"
  have k: "ri_inv (rt_ri t)" "rwb_procReaderId (rt_readerBP t) = int 0" "reader_ok (rwb_reader (rt_readerBP t)) rb"
      "0 < length (ri_slots (rt_ri t))"
    using w(3) by (simp_all add: test_ok_def)
  have free: "freePos rb = 1037" "configBufSizeBytes rb = 1024"
    using w(2,3) total t(3) by (simp_all add: batch_stored_def test_ok_def fresh_test_def)
  obtain p where "ReadEx (rwb_reader (rt_readerBP t)) ReadInt rb ?s = Some (Inr (EXPIRED_POSITION, ?s\<lparr>rs_pos := p\<rparr>))"
    using ReadEx_expired [OF k(3), of ?s] free by (auto simp: dist_def)
  moreover have "Get (rt_ri t) (int 0) = Inr ?info"
    using k(1,4) by (intro Get_nat) (auto simp: ri_inv_def slots_ok_def)
  ultimately obtain t' where "test_read (t\<lparr>rt_rb := rb\<rparr>) = Some (EXPIRED_POSITION, t')" "rh_Data (rt_readHandler t') = []"
      "expiredReaders (rt_ri t') = 1"
    using t(4-7) k(2,4)
    by (auto simp: test_read_def rwb_ReadEx_def rwb_finish_def update_slot_def active_at_def returned_def fresh_test_def)
  then show ?thesis
    unfolding ReaderWriterTest_ScratchReadExpired_def vs_def [symmetric] by (simp add: new_test t(1) w(1) expect_def)
qed

section \<open>The tests with large messages\<close>

definition big :: bytes where
  "big = replicate 1018 0"

lemma WriteBigData_spec:
  assumes "test_ok t" "\<And>p f s. h p f s = (False, fst s, g (snd s))"
  shows "\<exists>rb. WriteBigData h t = Some (t\<lparr>rt_rb := rb, rt_bpCalls := (if held_back t 1018 then g (rt_bpCalls t) else rt_bpCalls t)\<rparr>)
    \<and> backPressureCount rb = backPressureCount (rt_rb t) + (if held_back t 1018 then 1 else 0)
    \<and> batch_stored (rt_rb t) [big] rb \<and> (\<forall>c. test_ok (t\<lparr>rt_rb := rb, rt_bpCalls := c\<rparr>))"
  using test_write_spec [OF assms, of big] by (simp add: WriteBigData_def big_def)

lemma big_segments:
  "write_segments 1024 0 big = [Msg big]" "write_segments 1024 13 big = [Pad 1006, Msg big]"
  "write_segments 1024 1023 big = [Blank 1, Msg big]"
  by (simp_all add: write_segments_def filler_def index_of_def big_def Let_def)

text \<open>The table of the fixture before and after its reader was activated at a position.\<close>

definition table_active :: "position \<Rightarrow> mutex_view ReaderInfo" where
  "table_active p = \<lparr> expiredReaders = 0, ri_initialized = True, configMaxReaders = 3, readersMinMax = 1,
     ri_slots = [\<lparr> info_lock = Held 0, info_position = p, info_isActive = 1 \<rparr>, new_info Free, new_info Free] \<rparr>"

lemma activate_fresh:
  assumes "rt_ri t = rt_ri fresh_test" "rt_readerBP t = rt_readerBP fresh_test"
  shows "test_activate t = Some (t\<lparr>rt_ri := table_active (freePos (rt_rb t)),
    rt_readerBP := (rt_readerBP fresh_test)\<lparr>rwb_readerPos := freePos (rt_rb t)\<rparr>\<rparr>)"
  using assms
  by (cases t) (simp add: test_activate_def returned_def rwb_Activate_def Activate_def update_slot_def UpdateActiveRange_def Let_def
      INVALID_READER_ID_def fresh_test_def table_active_def new_info_def active_flags_def slot_active_def scan_slot_def
      pack_range_def)

lemma held_back_table:
  assumes "configBufSizeBytes (rt_rb t) = 1024"
  shows "rt_ri t = table_active p \<Longrightarrow> held_back t n \<longleftrightarrow> \<not> Expired p (freePos (rt_rb t)) 1024
      \<and> Expired p (freePos (rt_rb t) + plan_bytesToWrite (Write_plan 1023 1024 (freePos (rt_rb t)) n)) 1024"
    and "rt_ri t = rt_ri fresh_test \<Longrightarrow> \<not> held_back t n"
  using assms
  by (auto simp: held_back_def holds_back_def DetectReaderBackpressure_def bp_check_def EMPTY_POSITION_def Let_def table_active_def
      GetActiveRange_def range_min_def range_max_def Get_def slot_active_def fresh_test_def)

lemma fresh_frame [simp]:
  "configBufSizeBytes (rt_rb fresh_test) = 1024" "freePos (rt_rb fresh_test) = 0" "backPressureCount (rt_rb fresh_test) = 0"
  "rt_bpCalls fresh_test = 0" "rh_Data (rt_readHandler fresh_test) = []"
  by (simp_all add: fresh_test_def)

definition active_test :: "ReaderWriterTest" where
  "active_test = fresh_test\<lparr>rt_ri := table_active 0, rt_readerBP := (rt_readerBP fresh_test)\<lparr>rwb_readerPos := 0\<rparr>\<rparr>"

lemma active_test:
  "test_activate fresh_test = Some active_test" "test_ok active_test" "active_at (rt_ri active_test) 0"
  "rt_rb active_test = rt_rb fresh_test" "rt_ri active_test = table_active 0" "rwb_readerPos (rt_readerBP active_test) = 0"
  "rt_bpCalls active_test = 0" "rt_readHandler active_test = rt_readHandler fresh_test"
  using activate_fresh [of fresh_test] test_activate_spec [OF fresh_test_ok] by (auto simp: active_test_def)

lemma batch_stored_freePos:
  "batch_stored rb msgs rb' \<Longrightarrow> configBufSizeBytes rb = 1024 \<Longrightarrow>
     configBufSizeBytes rb' = 1024 \<and> freePos rb' = freePos rb + of_nat (total (batch_segments 1024 (freePos rb) msgs))"
  by (simp add: batch_stored_def)

lemma length_big [simp]: "length big = 1018"
  by (simp add: big_def)

lemma big_write:
  assumes "test_ok t" "h = noBPHandler \<and> g = (\<lambda>c. c) \<or> h = mockBPHandler \<and> g = Suc"
  obtains t' where "WriteBigData h t = Some t'" "test_ok t'"
    "rt_ri t' = rt_ri t" "rt_readerBP t' = rt_readerBP t" "rt_readHandler t' = rt_readHandler t"
    "rt_bpCalls t' = (if held_back t 1018 then g (rt_bpCalls t) else rt_bpCalls t)"
    "backPressureCount (rt_rb t') = backPressureCount (rt_rb t) + (if held_back t 1018 then 1 else 0)"
    "configBufSizeBytes (rt_rb t') = 1024"
    "freePos (rt_rb t') = freePos (rt_rb t) + of_nat (total (write_segments 1024 (freePos (rt_rb t)) big))"
    "batch_stored (rt_rb t) [big] (rt_rb t')"
proof -
  have "h p f s = (False, fst s, g (snd s))" for p f s
    using assms(2) by (auto simp: noBPHandler_def mockBPHandler_def)
  from WriteBigData_spec [OF assms(1), of h, OF this] obtain rb where
      "WriteBigData h t = Some (t\<lparr>rt_rb := rb, rt_bpCalls := (if held_back t 1018 then g (rt_bpCalls t) else rt_bpCalls t)\<rparr>)"
      "backPressureCount rb = backPressureCount (rt_rb t) + (if held_back t 1018 then 1 else 0)"
      "batch_stored (rt_rb t) [big] rb" "\<And>c. test_ok (t\<lparr>rt_rb := rb, rt_bpCalls := c\<rparr>)"
    by blast
  moreover have "configBufSizeBytes (rt_rb t) = 1024" using assms(1) by (simp add: test_ok_def)
  ultimately show ?thesis
    using batch_stored_freePos [of "rt_rb t" "[big]" rb] by (intro that) (assumption | simp)+
qed

lemmas detection = held_back_table Expired_def Write_plan_def GreaterOrEqualThan_def sizeof_MsgHeader_def BufIndex_def Let_def

lemma WriteBackpressure_passes: "ReaderWriterTest_WriteBackpressure = Some ()"
proof -
  obtain t1 where t1: "WriteBigData noBPHandler active_test = Some t1" "test_ok t1" "rt_ri t1 = table_active 0"
      "backPressureCount (rt_rb t1) = 0" "freePos (rt_rb t1) = 1023" "configBufSizeBytes (rt_rb t1) = 1024" "rt_bpCalls t1 = 0"
    by (rule big_write [OF active_test(2), of noBPHandler "\<lambda>c. c"])
      (simp_all add: active_test big_segments detection)
  obtain t2 where t2: "WriteBigData mockBPHandler t1 = Some t2" "test_ok t2" "rt_ri t2 = table_active 0"
      "backPressureCount (rt_rb t2) = 1" "freePos (rt_rb t2) = 2047" "configBufSizeBytes (rt_rb t2) = 1024" "rt_bpCalls t2 = 1"
    by (rule big_write [OF t1(2), of mockBPHandler Suc]) (simp_all add: big_segments detection t1)
  obtain t3 where t3: "WriteBigData mockBPHandler t2 = Some t3" "backPressureCount (rt_rb t3) = 1" "rt_bpCalls t3 = 1"
    by (rule big_write [OF t2(2), of mockBPHandler Suc]) (simp_all add: detection t2)
  show ?thesis
    by (simp add: ReaderWriterTest_WriteBackpressure_def new_test active_test(1) t1 t2 t3 expect_def)
qed

lemma WriteNoActiveReader_passes: "ReaderWriterTest_WriteNoActiveReaderNoBackpressure = Some ()"
proof -
  obtain t1 where t1: "WriteBigData mockBPHandler fresh_test = Some t1" "test_ok t1" "rt_ri t1 = rt_ri fresh_test"
      "backPressureCount (rt_rb t1) = 0" "configBufSizeBytes (rt_rb t1) = 1024" "rt_bpCalls t1 = 0"
    by (rule big_write [OF fresh_test_ok, of mockBPHandler Suc]) (simp_all add: held_back_table(2))
  obtain t2 where t2: "WriteBigData mockBPHandler t1 = Some t2" "backPressureCount (rt_rb t2) = 0" "rt_bpCalls t2 = 0"
    by (rule big_write [OF t1(2), of mockBPHandler Suc]) (simp_all add: held_back_table(2) t1)
  show ?thesis
    by (simp add: ReaderWriterTest_WriteNoActiveReaderNoBackpressure_def new_test t1 t2 expect_def)
qed

lemma TooManyBytesToWrite_passes: "ReaderWriterTest_TooManyBytesToWrite = Some ()"
proof -
  obtain t1 where t1: "WriteInt 10 fresh_test = Some t1" "test_ok t1"
    using WriteInt_spec [OF fresh_test_ok, of 10] by auto
  obtain t2 where "WriteBigData noBPHandler t1 = Some t2"
    by (rule big_write [OF t1(2), of noBPHandler "\<lambda>c. c"]) simp_all
  then show ?thesis by (simp add: ReaderWriterTest_TooManyBytesToWrite_def new_test t1)
qed

lemma WriteReadNoSpaceForHeader_passes: "ReaderWriterTest_WriteReadNoSpaceForHeader = Some ()"
proof -
  obtain t1 where t1: "WriteBigData noBPHandler fresh_test = Some t1" "test_ok t1" "freePos (rt_rb t1) = 1023"
      "rt_readHandler t1 = rt_readHandler fresh_test"
    by (rule big_write [OF fresh_test_ok, of noBPHandler "\<lambda>c. c"]) (simp_all add: big_segments)
  obtain t2 where t2: "test_activate t1 = Some t2" "test_ok t2" "active_at (rt_ri t2) 0"
      "rwb_readerPos (rt_readerBP t2) = freePos (rt_rb t2)" "freePos (rt_rb t2) = 1023" "rt_readHandler t2 = rt_readHandler fresh_test"
    using test_activate_spec [OF t1(2)] t1(3,4) by auto
  obtain rb where t3: "WriteInt 10 t2 = Some (t2\<lparr>rt_rb := rb\<rparr>)" "batch_stored (rt_rb t2) (map (le_bytes 8) [10 :: u64]) rb"
      "test_ok (t2\<lparr>rt_rb := rb\<rparr>)"
    using WriteInt_spec [OF t2(2), of 10] by auto
  have "batch_segments 1024 1023 (map (le_bytes 8) [10 :: u64]) = [Blank 1, Msg (le_bytes 8 (10 :: u64))]"
    by (simp add: write_segments_def filler_def index_of_def Let_def)
  moreover have "configBufSizeBytes (rt_rb t2) = 1024" using t2(2) by (simp add: test_ok_def)
  ultimately obtain t4 where "test_read (t2\<lparr>rt_rb := rb\<rparr>) = Some (SUCCESS, t4)" "rh_Data (rt_readHandler t4) = [10]"
    using test_read_batch [OF t3(3), of "rt_rb t2" "[10]"] t2 t3(2) by (auto simp: le_bytes_nonempty)
  then show ?thesis
    by (simp add: ReaderWriterTest_WriteReadNoSpaceForHeader_def new_test t1(1) t2(1) t3(1) expect_def)
qed

lemma ReadDenyCopyConfirm_passes: "ReaderWriterTest_ReadDenyCopyConfirm = Some ()"
proof -
  obtain t1 where t1: "WriteBigData noBPHandler active_test = Some t1" "test_ok t1" "rt_ri t1 = table_active 0"
      "rt_readerBP t1 = rt_readerBP active_test" "batch_stored (rt_rb active_test) [big] (rt_rb t1)"
    by (rule big_write [OF active_test(2), of noBPHandler "\<lambda>c. c"]) (simp_all add: active_test)
  have "list_all seg_valid (batch_segments 1024 0 [big])" "total (batch_segments 1024 0 [big]) < 1024"
    by (simp_all add: big_segments) (simp add: big_def)
  then obtain rwb ri where "rwb_ReadEx DenyCopyConfirmHandler (rt_rb t1) (rt_readerBP t1, rt_ri t1, 0, 0) =
      Some (Inr (SUCCESS, rwb, ri, deliver DenyCopyConfirmHandler [big] (0, 0)))" "rwb_Pos rwb = freePos (rt_rb t1)"
    using read_batch [OF t1(2) _ t1(5), of DenyCopyConfirmHandler "(0, 0)"] t1 active_test by auto
  then show ?thesis
    by (simp add: ReaderWriterTest_ReadDenyCopyConfirm_def new_test active_test(1) t1(1) returned_def expect_def
        DenyCopyConfirmHandler_def)
qed

lemma WriteDieWriteDeathTest_passes: "ReaderWriterTest_WriteDieWriteDeathTest = Some ()"
proof -
  obtain rb1 where t1: "WriteInt 20 active_test = Some (active_test\<lparr>rt_rb := rb1\<rparr>)" (is "_ = Some ?t1")
      "batch_stored (rt_rb active_test) [le_bytes 8 (20 :: u64)] rb1" "test_ok (active_test\<lparr>rt_rb := rb1\<rparr>)"
    using WriteInt_spec [OF active_test(2), of 20] by auto
  have rb1: "freePos rb1 = 13" "configBufSizeBytes rb1 = 1024"
    using batch_stored_freePos [OF t1(2)] by (simp_all add: active_test write_segments_def filler_def index_of_def Let_def)
  obtain child where child: "WriteBigData mockBPHandler ?t1 = Some child" "rt_bpCalls child = 1"
    by (rule big_write [OF t1(3), of mockBPHandler Suc]) (simp_all add: active_test rb1 detection)
  obtain rb2 where t2: "WriteInt 30 ?t1 = Some (active_test\<lparr>rt_rb := rb2\<rparr>)" (is "_ = Some ?t2")
      "batch_stored rb1 [le_bytes 8 (30 :: u64)] rb2" "test_ok (active_test\<lparr>rt_rb := rb2\<rparr>)"
    using WriteInt_spec [OF t1(3), of 30] by auto
  have "batch_stored (rt_rb active_test) (map (le_bytes 8) [20, 30 :: u64]) rb2"
    using batch_stored_append [OF t1(2) t2(2)] by simp
  then obtain t3 where "test_read ?t2 = Some (SUCCESS, t3)" "rh_Data (rt_readHandler t3) = [20, 30]"
    using test_read_spec [OF t2(3), of "rt_rb active_test" "[20, 30]"] active_test by (auto simp: index_of_def)
  then show ?thesis
    by (simp add: ReaderWriterTest_WriteDieWriteDeathTest_def new_test active_test(1) t1(1) t2(1) child expect_def)
qed

lemmas ring_tests = ring_tests_evaluate read_buf_len_test some_read_buf_len_test read_expired_test
  WriteBackpressure_passes WriteNoActiveReader_passes TooManyBytesToWrite_passes WriteReadNoSpaceForHeader_passes
  ReadDenyCopyConfirm_passes WriteDieWriteDeathTest_passes

end
