(* ===== verification/TopicTests.thy ===== *)
theory TopicTests
  imports RingTests
begin

text \<open>
  unit_tests/tp/asyncWriterTest and readerTest over the model. What the tests expect of the
  order of the calls of different mocks is not expressed, only what each of them is asked and
  how often.
\<close>

section \<open>tp/asyncWriterTest\<close>

text \<open>
  The mocks of the queue answer from a script, and remember a call the script does not have;
  those of the two callbacks count their calls.
\<close>

record mock_queue =
  mock_enqueue :: "bool list"
  mock_drain :: "bytes list list"
  mock_unexpected :: bool

record mock_calls =
  notify_calls :: nat
  bp_calls :: nat

definition enqMsgFn :: "bytes \<Rightarrow> mock_queue \<Rightarrow> bool \<times> mock_queue" where
  "enqMsgFn msg q =
     (case mock_enqueue q of
        [] \<Rightarrow> (False, q\<lparr>mock_unexpected := True\<rparr>)
      | answer # answers \<Rightarrow> (answer, q\<lparr>mock_enqueue := answers\<rparr>))"

definition drainMsgFn :: "mock_queue \<Rightarrow> bytes list \<times> mock_queue" where
  "drainMsgFn q =
     (case mock_drain q of
        [] \<Rightarrow> ([], q\<lparr>mock_unexpected := True\<rparr>)
      | answer # answers \<Rightarrow> (answer, q\<lparr>mock_drain := answers\<rparr>))"

definition script_done :: "mock_queue \<Rightarrow> bool" where
  "script_done q \<longleftrightarrow> mock_enqueue q = [] \<and> mock_drain q = [] \<and> \<not> mock_unexpected q"

definition bpFn :: "('m, mock_calls) bp_handler" where
  "bpFn p f s = (case s of (ri, calls) \<Rightarrow> (False, ri, calls\<lparr>bp_calls := Suc (bp_calls calls)\<rparr>))"

definition notifyFn :: "'m ReaderInfo \<times> mock_calls \<Rightarrow> 'm ReaderInfo \<times> mock_calls" where
  "notifyFn s = (case s of (ri, calls) \<Rightarrow> (ri, calls\<lparr>notify_calls := Suc (notify_calls calls)\<rparr>))"

definition tp_ReaderInfoTest :: "mutex_view TpReaderInfo option" where
  "tp_ReaderInfoTest = returned (mk_TpReaderInfo posix_pthread 3)"

definition AsyncWriterTest :: "(mutex_view, mock_queue, mock_calls) AsyncWriter option" where
  "AsyncWriterTest = do {
     rb \<leftarrow> ByteRingBufferTest;
     returned (mk_AsyncWriter rb enqMsgFn drainMsgFn bpFn notifyFn)
   }"

definition scripted :: "bool list \<Rightarrow> bytes list list \<Rightarrow> mutex_view ByteRingBuffer \<Rightarrow> mutex_view TpReaderInfo
    \<Rightarrow> (mutex_view, mock_queue, mock_calls) writer_world" where
  "scripted enq drain rb tpri = \<lparr> ww_queue = \<lparr> mock_enqueue = enq, mock_drain = drain, mock_unexpected = False \<rparr>,
     ww_rb = rb, ww_ri = rmpReaderInfo tpri, ww_env = \<lparr> notify_calls = 0, bp_calls = 0 \<rparr> \<rparr>"

definition AsyncWriterTest_PostEnqueuesWhenToldTo :: "unit option" where
  "AsyncWriterTest_PostEnqueuesWhenToldTo = do {
     rb \<leftarrow> ByteRingBufferTest;
     tpri \<leftarrow> tp_ReaderInfoTest;
     writer \<leftarrow> AsyncWriterTest;
     msg \<leftarrow> returned (CreateMessage rb (readerGen tpri) (bytes_of ''1'') (bytes_of ''1'') 1 True);
     let w = scripted [True, True, False] [] rb tpri;
     (work1, w) \<leftarrow> returned (Post writer msg w);
     (work2, w) \<leftarrow> returned (Post writer msg w);
     (work3, w) \<leftarrow> returned (Post writer msg w);
     expect ([work1, work2, work3] = [True, True, False]);
     expect (script_done (ww_queue w));
     expect (notify_calls (ww_env w) = 0 \<and> bp_calls (ww_env w) = 0)
   }"

text \<open>\<open>[](auto fn) { fn(); }\<close> runs ProcWriter within the Post.\<close>

definition post_and_run ::
    "(mutex_view, mock_queue, mock_calls) AsyncWriter \<Rightarrow> bytes \<Rightarrow> (mutex_view, mock_queue, mock_calls) writer_world
     \<Rightarrow> (mutex_view, mock_queue, mock_calls) writer_world option" where
  "post_and_run writer msg w = do {
     (work, w) \<leftarrow> returned (Post writer msg w);
     if work then do { r \<leftarrow> ProcWriter posix_pthread 0 writer w; returned r } else Some w
   }"

definition AsyncWriterTest_PostDrainNotify :: "unit option" where
  "AsyncWriterTest_PostDrainNotify = do {
     rb \<leftarrow> ByteRingBufferTest;
     tpri \<leftarrow> tp_ReaderInfoTest;
     writer \<leftarrow> AsyncWriterTest;
     msg \<leftarrow> returned (CreateMessage rb (readerGen tpri) (bytes_of ''1'') (bytes_of ''1'') 1 True);
     w \<leftarrow> post_and_run writer msg (scripted [True] [[msg], []] rb tpri);
     expect (script_done (ww_queue w));
     expect (notify_calls (ww_env w) = 1 \<and> bp_calls (ww_env w) = 0);
     expect (freePos (ww_rb w) \<noteq> 0)
   }"

lemma async_writer_tests:
  "AsyncWriterTest_PostEnqueuesWhenToldTo = Some ()" "AsyncWriterTest_PostDrainNotify = Some ()"
  by code_simp+

section \<open>tp/readerTest\<close>

definition ReaderTest :: "(mutex_view, seen list) reader_world option" where
  "ReaderTest = do {
     rb \<leftarrow> ByteRingBufferTest;
     tpri \<leftarrow> tp_ReaderInfoTest;
     (reader, tpri) \<leftarrow> returned (mk_TpReader posix_pthread 0 0 rb tpri record_event);
     Some (new_reader_world reader rb tpri [])
   }"

definition RunQueue_sqReader :: "(mutex_view, seen list) reader_world \<Rightarrow> (mutex_view, seen list) reader_world option" where
  "RunQueue_sqReader w = returned (exec_all (rw_serial w) (w\<lparr>rw_serial := []\<rparr>))"

definition RunQueue_sqRmp :: "(mutex_view, seen list) reader_world \<Rightarrow> (mutex_view, seen list) reader_world option" where
  "RunQueue_sqRmp w = do { r \<leftarrow> read_all (rw_rmp w) (w\<lparr>rw_rmp := []\<rparr>); returned r }"

text \<open>Channel handler number \<open>h\<close> of a test.\<close>

definition mock_handler :: "nat \<Rightarrow> bytes \<Rightarrow> u32 \<Rightarrow> seen list \<Rightarrow> seen list" where
  "mock_handler h data len env = env @ [Got h (take (unat len) data)]"

definition create_channel :: "nat \<Rightarrow> string \<Rightarrow> bool \<Rightarrow> (mutex_view, seen list) reader_world \<Rightarrow> (mutex_view, seen list) reader_world" where
  "create_channel h name desc w = snd (CreateChannelReader h (bytes_of name) (mock_handler h) desc w)"

definition slot_0_active :: "(mutex_view, seen list) reader_world \<Rightarrow> bool option" where
  "slot_0_active w = map_option slot_active (returned (Get (rmpReaderInfo (rw_ri w)) 0))"

definition ReaderTest_FirstLastReader :: "unit option" where
  "ReaderTest_FirstLastReader = do {
     w \<leftarrow> ReaderTest;
     w \<leftarrow> RunQueue_sqReader (create_channel 1 ''ch'' True w);
     active \<leftarrow> slot_0_active w;
     expect active;
     w \<leftarrow> RunQueue_sqReader (CloseChannelReader 1 w);
     active \<leftarrow> slot_0_active w;
     expect (\<not> active);
     expect (rw_env w = [Event FIRST_CHANNEL_READER_CREATED, Event LAST_CHANNEL_READER_CLOSED])
   }"

definition PostMessage :: "string \<Rightarrow> string \<Rightarrow> bool \<Rightarrow> mutex_view ByteRingBuffer \<Rightarrow> mutex_view TpReaderInfo
    \<Rightarrow> (mutex_view ByteRingBuffer \<times> mutex_view ReaderInfo) option" where
  "PostMessage topic data postToDescendants rb tpri = do {
     writer \<leftarrow> returned (mk_AsyncWriter rb enqMsgFn drainMsgFn bpFn notifyFn);
     msg \<leftarrow> returned (CreateMessage rb (readerGen tpri) (bytes_of topic) (bytes_of data) (of_nat (length data))
       postToDescendants);
     w \<leftarrow> post_and_run writer msg (scripted [True] [[msg], []] rb tpri);
     expect (script_done (ww_queue w));
     expect (notify_calls (ww_env w) = 1 \<and> bp_calls (ww_env w) = 0);
     Some (ww_rb w, ww_ri w)
   }"

definition ReaderTest_TopicMatch :: "unit option" where
  "ReaderTest_TopicMatch = do {
     w \<leftarrow> ReaderTest;
     let w = CloseChannelReader 1 (create_channel 1 ''ch'' True w);
     let w = create_channel 2 ''ch'' False w;
     let w = create_channel 3 ''h'' False w;
     let w = create_channel 5 ''c'' True w;
     w \<leftarrow> RunQueue_sqReader w;
     (rb, ri) \<leftarrow> PostMessage ''ch'' ''data'' True (rw_rb w) (rw_ri w);
     let w = w\<lparr>rw_rb := rb, rw_ri := (rw_ri w)\<lparr>rmpReaderInfo := ri\<rparr>\<rparr>;
     let w = Run (create_channel 4 ''h4'' False w);
     w \<leftarrow> RunQueue_sqReader w;
     w \<leftarrow> RunQueue_sqRmp w;
     expect (filter (\<lambda>x. case x of Event e \<Rightarrow> False | Got h d \<Rightarrow> True) (rw_env w) =
       [Got 2 (bytes_of ''data''), Got 5 (bytes_of ''data'')])
   }"

definition ReaderTest_RunWithoutReaders :: "unit option" where
  "ReaderTest_RunWithoutReaders = do {
     w \<leftarrow> ReaderTest;
     let w = Run w;
     expect (length (rw_serial w) = 1);
     expect (length (rw_rmp w) = 0)
   }"

text \<open>The writer of the fixture of rmp/readerWriterTest has a reader table of its own.\<close>

definition ReaderTest_Expired :: "unit option" where
  "ReaderTest_Expired = do {
     w \<leftarrow> ReaderTest;
     t \<leftarrow> new_ReaderWriterTest;
     w \<leftarrow> RunQueue_sqReader (create_channel 2 ''ch'' False w);
     t \<leftarrow> WriteBigData noBPHandler (t\<lparr>rt_rb := rw_rb w\<rparr>);
     t \<leftarrow> WriteBigData noBPHandler t;
     w \<leftarrow> RunQueue_sqReader (Run (w\<lparr>rw_rb := rt_rb t\<rparr>));
     w \<leftarrow> RunQueue_sqRmp w;
     expect (length (filter (\<lambda>x. x = Event ALL_CHANNEL_READERS_EXPIRED) (rw_env w)) = 1);
     expect (list_all (\<lambda>x. case x of Event e \<Rightarrow> True | Got h d \<Rightarrow> False) (rw_env w))
   }"

lemma reader_tests:
  "ReaderTest_FirstLastReader = Some ()" "ReaderTest_TopicMatch = Some ()" "ReaderTest_RunWithoutReaders = Some ()"
  by code_simp+

lemma ReaderTest_world:
  obtains r rb tpri k where "ReaderTest = Some (new_reader_world r rb tpri [])" "reader_inv k (new_reader_world r rb tpri [])"
    "tr_channelReaders r = []" "tr_channelReaderEventCb r = record_event" "rb = rt_rb fresh_test"
proof -
  have "\<not> isl (mk_TpReader posix_pthread 0 0 (rt_rb fresh_test) (the tp_ReaderInfoTest) record_event)" by code_simp
  then obtain r tpri where mk: "mk_TpReader posix_pthread 0 0 (rt_rb fresh_test) (the tp_ReaderInfoTest) record_event = Inr (r, tpri)"
    by (cases "mk_TpReader posix_pthread 0 0 (rt_rb fresh_test) (the tp_ReaderInfoTest) record_event") auto
  have rb: "ByteRingBufferTest = Some (rt_rb fresh_test)"
    by (simp add: ByteRingBufferTest_def mk_ByteRingBuffer_def mk_RobustProcMutex_def posix_pthread_def returned_def fresh_test_def)
  obtain ri where ri: "mk_ReaderInfo posix_pthread 3 = Inr ri" "locks_settled id ri"
    by (simp add: mk_ReaderInfo_def mk_RobustProcMutex_def posix_pthread_def locks_settled_def new_info_def)
  then have tp: "tp_ReaderInfoTest = Some \<lparr> readerGen = 0, tp_initialized = True, rmpReaderInfo = ri \<rparr>"
    by (simp add: tp_ReaderInfoTest_def mk_TpReaderInfo_def returned_def)
  have "rb_ok (rt_rb fresh_test)" using fresh_test_ok by (simp add: test_ok_def writer_ok_def)
  then obtain k where "reader_inv k (new_reader_world r (rt_rb fresh_test) tpri [])"
    using posix.mk_TpReader_inv [OF mk] ReaderInfo_inv [OF ri(1)] ri(2) by (auto simp: tp)
  moreover have "ReaderTest = Some (new_reader_world r (rt_rb fresh_test) tpri [])"
    using mk by (simp add: ReaderTest_def rb tp returned_def)
  moreover have "tr_channelReaders r = []" "tr_channelReaderEventCb r = record_event"
    using mk by (auto simp: mk_TpReader_def split: sum.splits prod.splits if_splits)
  ultimately show ?thesis using that by blast
qed

lemma ReaderTest_Expired_passes: "ReaderTest_Expired = Some ()"
proof -
  obtain r rb tpri k where w: "ReaderTest = Some (new_reader_world r rb tpri [])" (is "_ = Some ?w")
      "reader_inv k (new_reader_world r rb tpri [])" "tr_channelReaders r = []"
      "tr_channelReaderEventCb r = record_event" and rb: "rb = rt_rb fresh_test"
    by (rule ReaderTest_world)
  define cr where "cr = mk_ChannelReader 2 (bytes_of ''ch'') (mock_handler 2) False (readerGen tpri)"
  obtain w1 where w1: "AddChannelReader cr ?w = Inr w1" "reader_inv k w1" "tr_channelReaders (rw_reader w1) = [cr]"
      "rw_env w1 = [Event FIRST_CHANNEL_READER_CREATED]" "tr_channelReaderEventCb (rw_reader w1) = record_event"
    using AddChannelReader_inv [OF w(2), of cr] w(3,4)
    by (auto simp: roster_sim_def new_reader_world_def record_event_def)
  have first: "rw_rb w1 = rb" "rw_serial w1 = []" "rw_rmp w1 = []" "rwb_Pos (tr_rmpReaderBP (rw_reader w1)) = 0"
    using AddChannelReader_first [OF w1(1)] w(3) by (simp_all add: new_reader_world_def rb)
  have add: "RunQueue_sqReader (create_channel 2 ''ch'' False ?w) = Some w1"
    using w1(1) by (simp add: RunQueue_sqReader_def create_channel_def CreateChannelReader_def new_reader_world_def Let_def
        cr_def returned_def)
  have fresh: "fresh_test\<lparr>rt_rb := rw_rb w1\<rparr> = fresh_test" by (simp add: first rb fresh_test_def)
  obtain t1 where t1: "WriteBigData noBPHandler fresh_test = Some t1" "test_ok t1" "freePos (rt_rb t1) = 1023"
    by (rule big_write [OF fresh_test_ok, of noBPHandler "\<lambda>c. c"]) (simp_all add: big_segments)
  obtain t2 where t2: "WriteBigData noBPHandler t1 = Some t2" "test_ok t2" "freePos (rt_rb t2) = 2047"
    by (rule big_write [OF t1(2), of noBPHandler "\<lambda>c. c"]) (simp_all add: big_segments t1)
  let ?w2 = "w1\<lparr>rw_rb := rt_rb t2\<rparr>"
  have ok: "configBufSizeBytes (rt_rb t2) = 1024" "rb_ok (rt_rb t2)" "configBufSizeBytes rb = 1024"
    using t2(2) by (simp_all add: test_ok_def writer_ok_def rb)
  have inv: "reader_inv k ?w2" using w1(2) ok first(1) by (simp add: reader_inv_def reader_ok_def)
  obtain w3 where w3: "ReadRmp [cr] ?w2 = Some (Inr w3)"
      "rw_env w3 = [Event FIRST_CHANNEL_READER_CREATED, Event ALL_CHANNEL_READERS_EXPIRED]"
    using ReadRmp_lapped [OF inv, of "[cr]"] w1 first ok t2(3) by (auto simp: dist_def record_event_def)
  have same: "?w2\<lparr>rw_serial := [], rw_rmp := []\<rparr> = ?w2" using first(2,3) by (cases w1) simp
  have "RunQueue_sqReader (Run ?w2) = Some (?w2\<lparr>rw_serial := [], rw_rmp := [[cr]]\<rparr>)"
    using w1(3) first(2,3) by (simp add: RunQueue_sqReader_def Run_def GetChannelReaders_def returned_def Let_def)
  moreover have "RunQueue_sqRmp (?w2\<lparr>rw_serial := [], rw_rmp := [[cr]]\<rparr>) = Some w3"
    using w3(1) same by (simp add: RunQueue_sqRmp_def returned_def)
  ultimately show ?thesis
    by (simp add: ReaderTest_Expired_def w(1) new_test add fresh t1(1) t2(1) w3(2) expect_def)
qed

section \<open>Properties\<close>

text \<open>
  The unit tests. Every modelled test of the reader table, the ring buffer, the writer and
  reader of RMP, the mutex, the message queue, the topic messages, shared memory, the
  notification, the asynchronous writer and the topic reader passes on the model: no
  expectation of a test is violated, every call that has to throw or die fails, and no other
  call does. A test of the table that starts five threads runs them in one order.
\<close>

lemma unit_tests_pass:
  "list_all (\<lambda>test. test = Some ())
    ([ReaderInfoTest_Initialization, ReaderInfoTest_ActivateDeactivateRange,
      ReaderInfoTest_AllocFreeNoFree [1, 2, 3, 4, 5], ReaderInfoTest_AllocDead, SingleReaderInfoTest_Alloc,
      NoReaderInfoTest_Alloc] @
     [ByteRingBufferTest_Initialized, ByteRingBufferTest_SetGet] @
     [ReaderWriterTest_ScratchReaderBPReadEmpty, ReaderWriterTest_ScratchWrite2Read2ReadEmpty,
      ReaderWriterTest_ScratchReadBufLen, ReaderWriterTest_ScratchReadExpired, ReaderWriterTest_SomeReadBufLen,
      ReaderWriterTest_WriteReadNoSpaceForHeader, ReaderWriterTest_WriteBackpressure,
      ReaderWriterTest_WriteNoActiveReaderNoBackpressure, ReaderWriterTest_ReadDenyCopyConfirm,
      ReaderWriterTest_TooManyBytesToWrite, ReaderWriterTest_WriteDieWriteDeathTest,
      ReaderWriterTest_ReadInactiveDeathTest, ReaderWriterTest_WriteBiggerMessageDeathTest] @
     [RobustProcMutex_TryLockUnlocked, RobustProcMutex_TryLockDead, RobustProcMutex_TryLockLocked,
      RobustProcMutex_LockLocked] @
     [MPSCMessageQueueTest_EnqueueSingleDrainer, MPSCMessageQueueTest_DrainEmpty,
      MPSCMessageQueueTest_EnqueueDrainControlAndData] @
     [TopicMsg_Match, TopicMsg_SerializeDeserializeHappyCase, TopicMsg_SerializeDeserializeGenEarlier,
      TopicMsg_SerializeDeserializeTopicDoesNotMatch, TopicMsg_EmptyAll, TopicMsg_AssertOnInvalid] @
     [SharedMemory_OpenNonExistingThrows, SharedMemory_CreateOrOpenReadOnlyThrows,
      SharedMemory_CreateOrOpenUnlinkDoesNotThrow, SharedMemory_CreateOrOpenOpenUnlinkOpen, SharedMemory_TransferData,
      SharedMemory_WriteToReadOnlyDies, SharedMemory_WriteToUnmappedDies, SharedMemory_WriteBiggerSizeDies,
      SharedMemory_IsCreator] @
     [MulticastUdpNotificationTest_NotifyPeekWaitPeek, MulticastUdpNotificationTest_MatchNotifications,
      MulticastUdpNotificationTest_WaitBlocks] @
     [AsyncWriterTest_PostEnqueuesWhenToldTo, AsyncWriterTest_PostDrainNotify] @
     [ReaderTest_FirstLastReader, ReaderTest_TopicMatch, ReaderTest_Expired, ReaderTest_RunWithoutReaders])"
  by (simp add: reader_info_tests ring_buffer_tests ring_tests mutex_tests queue_tests topic_tests
      shared_memory_tests notification_tests async_writer_tests reader_tests ReaderTest_Expired_passes
      del: One_nat_def)

end
