(* ===== verification/SerialWorkQueue.thy ===== *)
theory SerialWorkQueue
  imports Prelude "HOL-Library.Sublist"
begin

text \<open>
  traits/concurrent/serialWorkQueue.hpp: the worker thread with its mutex, condition variable
  and stop flags, as a step machine. A step is what a thread does between two points at which
  the others can interfere: a section under the mutex that does not wait, the test of the wait
  predicate, falling asleep, and each access to one of the two atomic flags. A work item is a
  function on the state of its clients that also says whether it ended with an exception.
\<close>

datatype StopPolicy = IF_EMPTY | ALWAYS

type_synonym 'e work_item = "'e \<Rightarrow> bool \<times> 'e"

text \<open>
  Where the worker is in Run: before it locks, about to test the predicate of the wait, about
  to sleep after a test that failed, asleep (the mutex released), woken and about to lock
  again, past the wait and about to read the stop flag, about to read the stop policy, in the
  loop over the batch, or returned. It holds the mutex in the states \<open>holds_mutex\<close>.
\<close>

datatype worker = WLock | WTest | WBlock | WSleep | WWoken | WStop | WPolicy | WRunning | WExited

fun holds_mutex :: "worker \<Rightarrow> bool" where
  "holds_mutex WTest = True"
| "holds_mutex WBlock = True"
| "holds_mutex WStop = True"
| "holds_mutex WPolicy = True"
| "holds_mutex _ = False"

text \<open>Where the thread is that has called Stop.\<close>

datatype stopper = NotStopping | StopPolicyNext StopPolicy | StopNotify | StopJoin | Stopped

text \<open>
  The members of the class, the two threads, the clients' state, and two logs, of the items
  enqueued and of the items executed.
\<close>

record 'e SerialWorkItemQueue =
  sq_queue :: "'e work_item list"
  sq_stop :: bool
  sq_policy :: StopPolicy
  sq_worker :: worker
  sq_batch :: "'e work_item list"
  sq_stopper :: stopper
  sq_env :: 'e
  sq_enqueued :: "'e work_item list"
  sq_executed :: "'e work_item list"

text \<open>The member \<open>_stopPolicy\<close> has no initial value: whatever it holds is a parameter.\<close>

definition Start :: "StopPolicy \<Rightarrow> 'e \<Rightarrow> 'e SerialWorkItemQueue" where
  "Start garbage env =
     \<lparr> sq_queue = [], sq_stop = False, sq_policy = garbage, sq_worker = WLock, sq_batch = [],
       sq_stopper = NotStopping, sq_env = env, sq_enqueued = [], sq_executed = [] \<rparr>"

text \<open>\<open>notify_one\<close> wakes the worker if it is asleep and is lost otherwise.\<close>

definition notify_one :: "'e SerialWorkItemQueue \<Rightarrow> 'e SerialWorkItemQueue" where
  "notify_one s = (if sq_worker s = WSleep then s\<lparr>sq_worker := WWoken\<rparr> else s)"

definition swq_Enqueue :: "'e work_item \<Rightarrow> 'e SerialWorkItemQueue \<Rightarrow> 'e SerialWorkItemQueue option" where
  "swq_Enqueue wi s =
     (if holds_mutex (sq_worker s) then None
      else Some (notify_one (s\<lparr>sq_queue := sq_queue s @ [wi], sq_enqueued := sq_enqueued s @ [wi]\<rparr>)))"

text \<open>
  Stop, from its first store to the join. The call itself needs a joinable thread; the
  destructor is a Stop with the default policy.
\<close>

definition swq_Stop :: "StopPolicy \<Rightarrow> 'e SerialWorkItemQueue \<Rightarrow> 'e SerialWorkItemQueue option" where
  "swq_Stop policy s =
     (case sq_stopper s of
        NotStopping \<Rightarrow> Some (s\<lparr>sq_stop := True, sq_stopper := StopPolicyNext policy\<rparr>)
      | _ \<Rightarrow> None)"

definition stop_step :: "'e SerialWorkItemQueue \<Rightarrow> 'e SerialWorkItemQueue option" where
  "stop_step s =
     (case sq_stopper s of
        StopPolicyNext policy \<Rightarrow> Some (s\<lparr>sq_policy := policy, sq_stopper := StopNotify\<rparr>)
      | StopNotify \<Rightarrow> Some (notify_one (s\<lparr>sq_stopper := StopJoin\<rparr>))
      | StopJoin \<Rightarrow> if sq_worker s = WExited then Some (s\<lparr>sq_stopper := Stopped\<rparr>) else None
      | _ \<Rightarrow> None)"

definition take_batch :: "'e SerialWorkItemQueue \<Rightarrow> 'e SerialWorkItemQueue" where
  "take_batch s = s\<lparr>sq_batch := sq_queue s, sq_queue := [], sq_worker := WRunning\<rparr>"

text \<open>One item of the batch; an exception leaves the loop and with it the rest of the batch.\<close>

definition run_item :: "'e work_item \<Rightarrow> 'e work_item list \<Rightarrow> 'e SerialWorkItemQueue \<Rightarrow> 'e SerialWorkItemQueue" where
  "run_item wi rest s =
     (case wi (sq_env s) of (threw, env) \<Rightarrow>
        s\<lparr>sq_env := env, sq_executed := sq_executed s @ [wi], sq_batch := (if threw then [] else rest)\<rparr>)"

definition worker_step :: "'e SerialWorkItemQueue \<Rightarrow> 'e SerialWorkItemQueue option" where
  "worker_step s =
     (case sq_worker s of
        WLock \<Rightarrow> Some (s\<lparr>sq_worker := WTest\<rparr>)
      | WTest \<Rightarrow> Some (s\<lparr>sq_worker := (if sq_queue s \<noteq> [] \<or> sq_stop s then WStop else WBlock)\<rparr>)
      | WBlock \<Rightarrow> Some (s\<lparr>sq_worker := WSleep\<rparr>)
      | WSleep \<Rightarrow> None
      | WWoken \<Rightarrow> Some (s\<lparr>sq_worker := WTest\<rparr>)
      | WStop \<Rightarrow> Some (if sq_stop s then s\<lparr>sq_worker := WPolicy\<rparr> else take_batch s)
      | WPolicy \<Rightarrow>
          Some (if sq_policy s = ALWAYS \<or> sq_queue s = [] then s\<lparr>sq_worker := WExited\<rparr> else take_batch s)
      | WRunning \<Rightarrow>
          (case sq_batch s of
             [] \<Rightarrow> Some (s\<lparr>sq_worker := WLock\<rparr>)
           | wi # rest \<Rightarrow> Some (run_item wi rest s))
      | WExited \<Rightarrow> None)"

datatype 'e swq_action = Put "'e work_item" | CallStop StopPolicy | StopNext | Work | Spurious

fun swq_step :: "'e swq_action \<Rightarrow> 'e SerialWorkItemQueue \<Rightarrow> 'e SerialWorkItemQueue option" where
  "swq_step (Put wi) s = swq_Enqueue wi s"
| "swq_step (CallStop policy) s = swq_Stop policy s"
| "swq_step StopNext s = stop_step s"
| "swq_step Work s = worker_step s"
| "swq_step Spurious s = (if sq_worker s = WSleep then Some (s\<lparr>sq_worker := WWoken\<rparr>) else None)"

fun swq_run :: "'e swq_action list \<Rightarrow> 'e SerialWorkItemQueue \<Rightarrow> 'e SerialWorkItemQueue option" where
  "swq_run [] s = Some s"
| "swq_run (a # as) s = (case swq_step a s of None \<Rightarrow> None | Some s' \<Rightarrow> swq_run as s')"

lemma swq_run_append:
  "swq_run (as @ bs) s = (case swq_run as s of None \<Rightarrow> None | Some s' \<Rightarrow> swq_run bs s')"
  by (induction as s rule: swq_run.induct) (auto split: option.splits)

section \<open>Serial execution in the order of the queue\<close>

definition throws :: "'e work_item \<Rightarrow> bool" where
  "throws wi \<longleftrightarrow> (\<exists>env. fst (wi env))"

definition swq_inv :: "'e \<Rightarrow> 'e SerialWorkItemQueue \<Rightarrow> bool" where
  "swq_inv env s \<longleftrightarrow>
     subseq (sq_executed s @ sq_batch s @ sq_queue s) (sq_enqueued s) \<and>
     ((\<forall>wi\<in>set (sq_enqueued s). \<not> throws wi) \<longrightarrow> sq_enqueued s = sq_executed s @ sq_batch s @ sq_queue s) \<and>
     sq_env s = fold (\<lambda>wi. snd \<circ> wi) (sq_executed s) env \<and>
     (sq_worker s \<noteq> WRunning \<longrightarrow> sq_batch s = [])"

lemma Start_inv: "swq_inv env (Start garbage env)"
  by (simp add: swq_inv_def Start_def)

lemma notify_one_frame [simp]:
  "sq_queue (notify_one s) = sq_queue s" "sq_batch (notify_one s) = sq_batch s"
  "sq_enqueued (notify_one s) = sq_enqueued s" "sq_executed (notify_one s) = sq_executed s"
  "sq_env (notify_one s) = sq_env s" "sq_stop (notify_one s) = sq_stop s" "sq_policy (notify_one s) = sq_policy s"
  "sq_stopper (notify_one s) = sq_stopper s"
  "sq_worker (notify_one s) = (if sq_worker s = WSleep then WWoken else sq_worker s)"
  by (simp_all add: notify_one_def)

lemma run_item_frame [simp]:
  "sq_queue (run_item wi rest s) = sq_queue s" "sq_enqueued (run_item wi rest s) = sq_enqueued s"
  "sq_executed (run_item wi rest s) = sq_executed s @ [wi]" "sq_worker (run_item wi rest s) = sq_worker s"
  "sq_stop (run_item wi rest s) = sq_stop s" "sq_policy (run_item wi rest s) = sq_policy s"
  "sq_env (run_item wi rest s) = snd (wi (sq_env s))"
  "sq_batch (run_item wi rest s) = (if fst (wi (sq_env s)) then [] else rest)"
  by (simp_all add: run_item_def split: prod.splits)

lemma Enqueue_inv: "swq_inv env s \<Longrightarrow> swq_Enqueue wi s = Some s' \<Longrightarrow> swq_inv env s'"
  by (auto simp: swq_inv_def swq_Enqueue_def list_emb_append_mono split: if_splits)
    (metis append.assoc list_emb_append_mono subseq_order.order_refl)+

lemma run_item_inv:
  assumes "swq_inv env s" "sq_worker s = WRunning" "sq_batch s = wi # rest"
  shows "swq_inv env (run_item wi rest s)"
proof -
  have "subseq (sq_executed s @ wi # rest @ sq_queue s) (sq_enqueued s)"
    using assms by (simp add: swq_inv_def)
  moreover from this have "wi \<in> set (sq_enqueued s)"
    by (auto elim: list_emb_set [where x = wi])
  moreover have "subseq (sq_executed s @ wi # sq_queue s) (sq_executed s @ wi # rest @ sq_queue s)"
    by (intro list_emb_append_mono) auto
  ultimately show ?thesis
    using assms by (auto simp: swq_inv_def throws_def intro: subseq_order.order_trans)
qed

lemma swq_step_inv:
  assumes "swq_inv env s" "swq_step a s = Some s'"
  shows "swq_inv env s'"
proof (cases a)
  case (Put wi)
  then show ?thesis using Enqueue_inv assms by simp
next
  case Work
  show ?thesis
  proof (cases "sq_worker s = WRunning \<and> sq_batch s \<noteq> []")
    case True
    then show ?thesis
      using assms run_item_inv [OF assms(1)] Work by (auto simp: worker_step_def neq_Nil_conv)
  next
    case False
    then show ?thesis
      using assms Work
      by (auto simp: worker_step_def swq_inv_def take_batch_def split: worker.splits list.splits if_splits)
  qed
qed (use assms in \<open>auto simp: swq_inv_def swq_Stop_def stop_step_def split: stopper.splits if_splits\<close>)

lemma swq_run_inv: "swq_run as s = Some s' \<Longrightarrow> swq_inv env s \<Longrightarrow> swq_inv env s'"
  by (induction as s rule: swq_run.induct) (auto split: option.splits intro: swq_step_inv)

section \<open>Stopping\<close>

text \<open>
  Once Stop is called the worker cannot fall asleep again, unless it had already found the
  predicate false, and while it sleeps the notification of Stop is still to come. The steps
  that the two threads have left are bounded by the items still to be executed.
\<close>

fun worker_rank :: "worker \<Rightarrow> nat" where
  "worker_rank WLock = 4"
| "worker_rank WTest = 3"
| "worker_rank WWoken = 4"
| "worker_rank WStop = 2"
| "worker_rank WPolicy = 1"
| "worker_rank WRunning = 5"
| "worker_rank _ = 0"

definition swq_left :: "'e SerialWorkItemQueue \<Rightarrow> nat" where
  "swq_left s = worker_rank (sq_worker s) + length (sq_batch s) + 6 * length (sq_queue s)"

fun stopper_rank :: "stopper \<Rightarrow> nat" where
  "stopper_rank (StopPolicyNext _) = 7"
| "stopper_rank StopNotify = 6"
| "stopper_rank StopJoin = 1"
| "stopper_rank _ = 0"

definition stop_left :: "'e SerialWorkItemQueue \<Rightarrow> nat" where
  "stop_left s = swq_left s + stopper_rank (sq_stopper s)"

text \<open>Before Stop is called, and after.\<close>

definition not_stopping :: "StopPolicy \<Rightarrow> 'e SerialWorkItemQueue \<Rightarrow> bool" where
  "not_stopping garbage s \<longleftrightarrow>
     (sq_stopper s = NotStopping \<longrightarrow>
        \<not> sq_stop s \<and> sq_policy s = garbage \<and> sq_worker s \<notin> {WPolicy, WExited})"

definition stop_safe :: "'e SerialWorkItemQueue \<Rightarrow> bool" where
  "stop_safe s \<longleftrightarrow> sq_stop s \<and> sq_worker s \<noteq> WBlock \<and> sq_stopper s \<noteq> NotStopping \<and>
     (sq_worker s = WSleep \<longrightarrow> sq_stopper s = StopNotify \<or> (\<exists>policy. sq_stopper s = StopPolicyNext policy)) \<and>
     (sq_stopper s = Stopped \<longrightarrow> sq_worker s = WExited)"

lemma not_stopping_step: "not_stopping garbage s \<Longrightarrow> swq_step a s = Some s' \<Longrightarrow> not_stopping garbage s'"
  by (cases a)
    (auto simp: not_stopping_def swq_Enqueue_def swq_Stop_def stop_step_def worker_step_def take_batch_def run_item_def
      split: if_splits stopper.splits worker.splits list.splits prod.splits)

lemma not_stopping_run: "swq_run as s = Some s' \<Longrightarrow> not_stopping garbage s \<Longrightarrow> not_stopping garbage s'"
  by (induction as s rule: swq_run.induct) (auto split: option.splits intro: not_stopping_step)

lemma stop_safe_step: "stop_safe s \<Longrightarrow> swq_step a s = Some s' \<Longrightarrow> stop_safe s'"
  by (cases a)
    (auto simp: stop_safe_def swq_Enqueue_def swq_Stop_def stop_step_def worker_step_def take_batch_def run_item_def
      split: if_splits stopper.splits worker.splits list.splits prod.splits)

lemma stop_safe_run: "swq_run as s = Some s' \<Longrightarrow> stop_safe s \<Longrightarrow> stop_safe s'"
  by (induction as s rule: swq_run.induct) (auto split: option.splits intro: stop_safe_step)

lemma stop_safe_moves:
  assumes "stop_safe s" "sq_stopper s \<noteq> Stopped"
  shows "swq_step Work s \<noteq> None \<or> swq_step StopNext s \<noteq> None"
  using assms
  by (auto simp: stop_safe_def stop_step_def worker_step_def split: stopper.splits worker.splits list.splits)

lemma stop_safe_left:
  assumes "stop_safe s" "swq_inv env s" "swq_step a s = Some s'" "a = Work \<or> a = StopNext"
  shows "stop_left s' < stop_left s"
  using assms(4)
proof
  assume "a = Work"
  then have "worker_step s = Some s'" using assms(3) by simp
  with assms(1,2) show ?thesis
    by (cases "sq_worker s"; cases "sq_batch s"; cases "sq_queue s")
      (auto simp: worker_step_def stop_safe_def stop_left_def swq_left_def take_batch_def swq_inv_def run_item_def
        split: prod.splits if_splits)
next
  assume "a = StopNext"
  then have "stop_step s = Some s'" using assms(3) by simp
  then show ?thesis
    by (cases "sq_stopper s") (auto simp: stop_step_def stop_left_def swq_left_def split: if_splits)
qed

lemma stop_safe_bound:
  assumes "stop_safe s" "swq_inv env s" "swq_run as s = Some s'" "set as \<subseteq> {Work, StopNext}"
  shows "length as \<le> stop_left s"
  using assms
proof (induction as arbitrary: s)
  case (Cons a as)
  then obtain s1 where s1: "swq_step a s = Some s1" "swq_run as s1 = Some s'" by (auto split: option.splits)
  have "length as \<le> stop_left s1"
    using Cons.prems(4) by (intro Cons.IH [OF stop_safe_step [OF Cons.prems(1) s1(1)] swq_step_inv [OF Cons.prems(2) s1(1)] s1(2)]) simp
  moreover have "stop_left s1 < stop_left s"
    using stop_safe_left [OF Cons.prems(1,2) s1(1)] Cons.prems(4) by auto
  ultimately show ?case by simp
qed simp

text \<open>When the worker returns under the policy IF_EMPTY the queue is empty.\<close>

lemma exit_step:
  assumes "worker_step s = Some s'" "sq_worker s \<noteq> WExited" "sq_worker s' = WExited" "sq_policy s = IF_EMPTY"
  shows "sq_queue s' = []"
  using assms by (auto simp: worker_step_def take_batch_def split: worker.splits list.splits if_splits)

text \<open>
  Under the policy IF_EMPTY, which the member must hold from the start, the worker returns
  only when it has executed what was enqueued before the call.
\<close>

definition serves :: "'e work_item list \<Rightarrow> 'e SerialWorkItemQueue \<Rightarrow> bool" where
  "serves before s \<longleftrightarrow> sq_policy s = IF_EMPTY \<and> (\<forall>policy. sq_stopper s = StopPolicyNext policy \<longrightarrow> policy = IF_EMPTY) \<and>
     prefix before (sq_enqueued s) \<and> (sq_worker s = WExited \<longrightarrow> prefix before (sq_executed s))"

lemma enqueued_grows: "swq_step a s = Some s' \<Longrightarrow> prefix (sq_enqueued s) (sq_enqueued s')"
  by (cases a)
    (auto simp: swq_Enqueue_def swq_Stop_def stop_step_def worker_step_def take_batch_def run_item_def
      split: if_splits stopper.splits worker.splits list.splits prod.splits)

lemma exit_serves:
  assumes "serves before s" "swq_inv env s" "\<forall>wi\<in>set (sq_enqueued s). \<not> throws wi"
    and "sq_worker s = WPolicy" "sq_queue s = []"
  shows "prefix before (sq_executed s)"
  using assms by (simp add: serves_def swq_inv_def)

lemma serves_step:
  assumes "serves before s" "stop_safe s" "swq_inv env s" "\<forall>wi\<in>set (sq_enqueued s). \<not> throws wi" "swq_step a s = Some s'"
  shows "serves before s'"
proof -
  have "prefix before (sq_enqueued s')"
    using assms(1) enqueued_grows [OF assms(5)] by (auto simp: serves_def intro: prefix_order.trans)
  then show ?thesis
    using assms(1,2,5) exit_serves [OF assms(1,3,4)]
    by (cases a)
      (auto simp: serves_def stop_safe_def swq_Enqueue_def swq_Stop_def stop_step_def worker_step_def take_batch_def
        run_item_def split: if_splits stopper.splits worker.splits list.splits prod.splits)
qed

lemma enqueued_run: "swq_run as s = Some s' \<Longrightarrow> prefix (sq_enqueued s) (sq_enqueued s')"
  by (induction as s rule: swq_run.induct)
    (auto split: option.splits intro: prefix_order.trans enqueued_grows)

lemma serves_run:
  assumes "swq_run as s = Some s'" "serves before s" "stop_safe s" "swq_inv env s"
    and "\<forall>wi\<in>set (sq_enqueued s'). \<not> throws wi"
  shows "serves before s'"
  using assms
proof (induction as arbitrary: s)
  case (Cons a as)
  then obtain s1 where s1: "swq_step a s = Some s1" "swq_run as s1 = Some s'" by (auto split: option.splits)
  have "set (sq_enqueued s) \<subseteq> set (sq_enqueued s')" using enqueued_run [OF Cons.prems(1)] by (rule set_mono_prefix)
  then have "\<forall>wi\<in>set (sq_enqueued s). \<not> throws wi" using Cons.prems(5) by blast
  from serves_step [OF Cons.prems(2-4) this s1(1)] show ?case
    by (rule Cons.IH [OF s1(2) _ stop_safe_step [OF Cons.prems(3) s1(1)] swq_step_inv [OF Cons.prems(4) s1(1)] Cons.prems(5)])
qed simp

text \<open>
  C27: Serial execution. In every run of the threads the state of the clients is that of the
  executed items alone, one after the other, and these with the batch in hand and the queue
  form a subsequence of the items enqueued. If no item throws they are exactly the items
  enqueued, in order: none is lost, run twice or overtaken.
\<close>

theorem work_queue_serial:
  assumes "swq_run as (Start garbage env) = Some s"
  shows "sq_env s = fold (\<lambda>wi. snd \<circ> wi) (sq_executed s) env
    \<and> subseq (sq_executed s @ sq_batch s @ sq_queue s) (sq_enqueued s)
    \<and> ((\<forall>wi\<in>set (sq_enqueued s). \<not> throws wi) \<longrightarrow> sq_enqueued s = sq_executed s @ sq_batch s @ sq_queue s)"
  using swq_run_inv [OF assms Start_inv] by (auto simp: swq_inv_def)

definition say :: "nat \<Rightarrow> nat list work_item" where
  "say n env = (False, env @ [n])"

theorem work_queue_serial_witness:
  "\<exists>s. swq_run [Put (say 1), Work, Work, Work, Put (say 2), Work, Put (say 3)] (Start ALWAYS []) = Some s
    \<and> sq_env s = [1] \<and> sq_enqueued s = sq_executed s @ sq_batch s @ sq_queue s"
proof -
  obtain s where s: "swq_run [Put (say 1), Work, Work, Work, Put (say 2), Work, Put (say 3)] (Start ALWAYS []) = Some s"
      "sq_executed s = [say 1]" "sq_enqueued s = [say 1, say 2, say 3]"
    by (simp add: Start_def swq_Enqueue_def worker_step_def take_batch_def run_item_def notify_one_def say_def)
  then show ?thesis using work_queue_serial [OF s(1)] by (simp add: throws_def say_def)
qed

text \<open>
  C30: Stopping ends. Stop is called while the worker is anywhere, asleep included, but at the
  one place where it has found the predicate of its wait false and not fallen asleep yet; the
  worker, the caller and other clients then run in any order. Until Stop has returned one of
  the two threads can take a step; the steps they have left without a new item are bounded by
  the items still to be executed; and once Stop has returned the worker has. If the policy is
  IF_EMPTY, the uninitialised member held that value before, and no enqueued item throws, the
  worker has executed everything enqueued before the call, in order.
\<close>

theorem Stop_finishes:
  assumes "swq_run as (Start garbage env) = Some s" "sq_worker s \<noteq> WBlock"
    and "swq_run (CallStop policy # bs) s = Some s'"
  shows "(sq_stopper s' \<noteq> Stopped \<longrightarrow> swq_step Work s' \<noteq> None \<or> swq_step StopNext s' \<noteq> None)
    \<and> (\<forall>cs s''. set cs \<subseteq> {Work, StopNext} \<longrightarrow> swq_run cs s' = Some s''
        \<longrightarrow> length cs \<le> 12 + length (sq_batch s') + 6 * length (sq_queue s'))
    \<and> (sq_stopper s' = Stopped \<longrightarrow> sq_worker s' = WExited
        \<and> (garbage = IF_EMPTY \<and> policy = IF_EMPTY \<and> (\<forall>wi\<in>set (sq_enqueued s'). \<not> throws wi)
           \<longrightarrow> prefix (sq_enqueued s) (sq_executed s')))"
proof (intro conjI impI allI)
  let ?s0 = "s\<lparr>sq_stop := True, sq_stopper := StopPolicyNext policy\<rparr>"
  have run: "sq_stopper s = NotStopping" "swq_run bs ?s0 = Some s'"
    using assms(3) by (auto simp: swq_Stop_def split: option.splits stopper.splits)
  have inv: "swq_inv env s" using swq_run_inv [OF assms(1) Start_inv] .
  then have inv0: "swq_inv env ?s0" by (simp add: swq_inv_def)
  have pre: "sq_policy s = garbage" "sq_worker s \<noteq> WExited"
    using not_stopping_run [OF assms(1), of garbage] run(1) by (auto simp: not_stopping_def Start_def)
  have safe0: "stop_safe ?s0" using assms(2) by (simp add: stop_safe_def)
  have safe: "stop_safe s'" and inv': "swq_inv env s'"
    using stop_safe_run [OF run(2) safe0] swq_run_inv [OF run(2) inv0] by blast+
  show "swq_step Work s' \<noteq> None \<or> swq_step StopNext s' \<noteq> None" if "sq_stopper s' \<noteq> Stopped"
    using stop_safe_moves [OF safe that] .
  show "length cs \<le> 12 + length (sq_batch s') + 6 * length (sq_queue s')"
    if "set cs \<subseteq> {Work, StopNext}" "swq_run cs s' = Some s''" for cs s''
  proof -
    have "worker_rank (sq_worker s') \<le> 5" "stopper_rank (sq_stopper s') \<le> 7"
      by (cases "sq_worker s'", simp_all) (cases "sq_stopper s'", simp_all)
    then show ?thesis using stop_safe_bound [OF safe inv' that(2,1)] by (simp add: stop_left_def swq_left_def)
  qed
  assume stopped: "sq_stopper s' = Stopped"
  then show exited: "sq_worker s' = WExited" using safe by (simp add: stop_safe_def)
  assume given: "garbage = IF_EMPTY \<and> policy = IF_EMPTY \<and> (\<forall>wi\<in>set (sq_enqueued s'). \<not> throws wi)"
  then have "serves (sq_enqueued s) ?s0" using pre by (simp add: serves_def)
  from serves_run [OF run(2) this safe0 inv0] given exited show "prefix (sq_enqueued s) (sq_executed s')"
    by (simp add: serves_def)
qed

theorem Stop_finishes_witness:
  "\<exists>s s1 s2. swq_run (Put (say 1) # replicate 8 Work) (Start IF_EMPTY []) = Some s \<and> sq_worker s = WSleep
    \<and> swq_run [CallStop IF_EMPTY, StopNext, StopNext] s = Some s1
    \<and> (swq_step Work s1 \<noteq> None \<or> swq_step StopNext s1 \<noteq> None)
    \<and> swq_run [CallStop IF_EMPTY, StopNext, StopNext, Work, Work, Work, Work, StopNext] s = Some s2
    \<and> sq_worker s2 = WExited \<and> prefix [say 1] (sq_executed s2)"
proof -
  note defs = Start_def swq_Enqueue_def swq_Stop_def stop_step_def worker_step_def take_batch_def run_item_def
    notify_one_def say_def numeral_eq_Suc
  obtain s where s: "swq_run (Put (say 1) # replicate 8 Work) (Start IF_EMPTY []) = Some s" "sq_worker s = WSleep"
      "sq_enqueued s = [say 1]" "sq_stopper s = NotStopping" "sq_queue s = []" "sq_policy s = IF_EMPTY"
    by (simp add: defs)
  obtain s1 where s1: "swq_run [CallStop IF_EMPTY, StopNext, StopNext] s = Some s1" "sq_stopper s1 = StopJoin"
    using s(2,4) by (simp add: defs)
  obtain s2 where s2: "swq_run [CallStop IF_EMPTY, StopNext, StopNext, Work, Work, Work, Work, StopNext] s = Some s2"
      "sq_stopper s2 = Stopped" "sq_enqueued s2 = [say 1]"
    using s by (simp add: defs)
  have awake: "sq_worker s \<noteq> WBlock" using s(2) by simp
  show ?thesis
    using s s1 s2 Stop_finishes [OF s(1) awake s1(1)] Stop_finishes [OF s(1) awake s2(1)]
    by (intro exI [of _ s] exI [of _ s1] exI [of _ s2]) (simp add: throws_def say_def)
qed

text \<open>
  Stopping can hang. Stop stores the flag and notifies without the mutex. If the worker
  has found the predicate false just before and falls asleep just after, the notification is
  lost: the worker sleeps and Stop waits in its join, and neither can take a step.
\<close>

lemma Stop_lost_wakeup:
  "\<exists>s. swq_run [Work, Work, CallStop policy, StopNext, StopNext, Work] (Start garbage env) = Some s
    \<and> sq_stop s \<and> sq_stopper s = StopJoin \<and> swq_step Work s = None \<and> swq_step StopNext s = None"
  by (simp add: Start_def swq_Stop_def stop_step_def worker_step_def notify_one_def)

text \<open>
  Stop with the policy IF_EMPTY can drop items. It sets the stop flag before the policy,
  and the policy has no initial value: if that value reads as ALWAYS, a worker that tests
  between the two stores returns with the items still in the queue, and Stop returns too.
\<close>

lemma Stop_drops_items:
  "\<exists>s. swq_run [Put wi, CallStop IF_EMPTY, Work, Work, Work, Work, StopNext, StopNext, StopNext] (Start ALWAYS env) = Some s
    \<and> sq_stopper s = Stopped \<and> sq_enqueued s = [wi] \<and> sq_executed s = []"
  by (simp add: Start_def swq_Enqueue_def swq_Stop_def stop_step_def worker_step_def notify_one_def)

end
