(* ===== verification/QueueTests.thy ===== *)
theory QueueTests
  imports UnitTests SerialWorkQueue "HOL-Library.Multiset"
begin

text \<open>
  unit_tests/traits/concurrent/serialWorkQueueTest: a client does its calls in the order of the
  test, and a schedule says when it, the worker, or a spurious wakeup takes the next step.
\<close>

datatype swq_turn = Client | Worker | Wakeup

fun interleave :: "swq_turn list \<Rightarrow> 'e swq_action list \<Rightarrow> 'e SerialWorkItemQueue \<Rightarrow> 'e SerialWorkItemQueue option" where
  "interleave [] calls s = (if calls = [] then Some s else None)"
| "interleave (Client # ts) calls s =
     (case calls of [] \<Rightarrow> None | a # calls \<Rightarrow> do { s \<leftarrow> swq_step a s; interleave ts calls s })"
| "interleave (Worker # ts) calls s = do { s \<leftarrow> swq_step Work s; interleave ts calls s }"
| "interleave (Wakeup # ts) calls s = do { s \<leftarrow> swq_step Spurious s; interleave ts calls s }"

definition push_back :: "nat \<Rightarrow> nat list work_item" where
  "push_back i vec = (False, vec @ [i])"

text \<open>The Stop of a test: its two stores, the notification and the join.\<close>

definition stop_calls :: "'e swq_action list" where
  "stop_calls = [CallStop IF_EMPTY, StopNext, StopNext, StopNext]"

definition SerialWorkQueue_OrderSingleProducer :: "StopPolicy \<Rightarrow> swq_turn list \<Rightarrow> nat list option" where
  "SerialWorkQueue_OrderSingleProducer garbage schedule = do {
     wq \<leftarrow> interleave schedule (map (Put \<circ> push_back) ([0 ..< 5] @ [5 ..< 10]) @ stop_calls) (Start garbage []);
     Some (sq_env wq)
   }"

text \<open>The threads of CountManyProducers enqueue in any order: \<open>pushers\<close> is this order.\<close>

definition SerialWorkQueue_CountManyProducers :: "StopPolicy \<Rightarrow> nat list \<Rightarrow> swq_turn list \<Rightarrow> nat option" where
  "SerialWorkQueue_CountManyProducers garbage pushers schedule = do {
     wq \<leftarrow> interleave schedule (map (Put \<circ> push_back) pushers @ stop_calls) (Start garbage []);
     Some (length (sq_env wq))
   }"

section \<open>What a stopped queue has executed\<close>

text \<open>
  Where the client is in a program that enqueues the items \<open>wis\<close> and then stops. The stop flag
  is set exactly after the call of Stop, which is after the last Enqueue; so the worker, which
  returns only after it has read the flag, returns with an empty queue.
\<close>

definition client_at :: "'e work_item list \<Rightarrow> 'e swq_action list \<Rightarrow> 'e SerialWorkItemQueue \<Rightarrow> bool" where
  "client_at wis calls s \<longleftrightarrow>
     (case sq_stopper s of
        NotStopping \<Rightarrow> \<not> sq_stop s \<and> (\<exists>ws. calls = map Put ws @ stop_calls \<and> sq_enqueued s @ ws = wis)
      | StopPolicyNext policy \<Rightarrow> sq_stop s \<and> policy = IF_EMPTY \<and> calls = [StopNext, StopNext, StopNext] \<and> sq_enqueued s = wis
      | StopNotify \<Rightarrow> sq_stop s \<and> calls = [StopNext, StopNext] \<and> sq_enqueued s = wis
      | StopJoin \<Rightarrow> sq_stop s \<and> calls = [StopNext] \<and> sq_enqueued s = wis
      | Stopped \<Rightarrow> sq_stop s \<and> sq_worker s = WExited \<and> calls = [] \<and> sq_enqueued s = wis)"

definition if_empty_inv :: "'e work_item list \<Rightarrow> 'e swq_action list \<Rightarrow> 'e SerialWorkItemQueue \<Rightarrow> bool" where
  "if_empty_inv wis calls s \<longleftrightarrow> client_at wis calls s \<and> sq_policy s = IF_EMPTY
     \<and> (sq_worker s \<in> {WPolicy, WExited} \<longrightarrow> sq_stop s) \<and> (sq_worker s = WExited \<longrightarrow> sq_queue s = [])"

lemma client_step:
  assumes "if_empty_inv wis (a # calls) s" "swq_step a s = Some s'"
  shows "if_empty_inv wis calls s'"
  using assms
  by (cases a; cases "sq_stopper s")
    (auto simp: if_empty_inv_def client_at_def stop_calls_def swq_Enqueue_def swq_Stop_def stop_step_def Cons_eq_append_conv
      split: if_splits)

lemma worker_turn:
  assumes "if_empty_inv wis calls s" "swq_step Work s = Some s'"
  shows "if_empty_inv wis calls s'"
proof -
  have frame: "sq_stop s' = sq_stop s" "sq_policy s' = sq_policy s" "sq_stopper s' = sq_stopper s"
      "sq_enqueued s' = sq_enqueued s" "sq_worker s \<noteq> WExited"
    using assms(2) by (auto simp: worker_step_def take_batch_def run_item_def
        split: worker.splits list.splits if_splits prod.splits)
  have "sq_worker s' = WExited \<longrightarrow> sq_queue s' = []"
    using exit_step [of s s'] assms frame(5) by (auto simp: if_empty_inv_def)
  moreover have "sq_worker s' \<in> {WPolicy, WExited} \<longrightarrow> sq_stop s"
    using assms by (auto simp: if_empty_inv_def worker_step_def take_batch_def
        split: worker.splits list.splits if_splits)
  ultimately show ?thesis
    using assms(1) frame by (auto simp: if_empty_inv_def client_at_def split: stopper.splits)
qed

lemma wakeup_turn:
  "if_empty_inv wis calls s \<Longrightarrow> swq_step Spurious s = Some s' \<Longrightarrow> if_empty_inv wis calls s'"
  by (auto simp: if_empty_inv_def client_at_def split: stopper.splits if_splits)

lemma interleave_inv:
  assumes "interleave ts calls s = Some s'" "if_empty_inv wis calls s" "swq_inv env s"
  shows "if_empty_inv wis [] s' \<and> swq_inv env s'"
  using assms
proof (induction ts arbitrary: calls s)
  case Nil
  then show ?case by (simp split: if_splits)
next
  case (Cons t ts)
  obtain a calls' s1 where s1: "swq_step a s = Some s1" "interleave ts calls' s1 = Some s'"
      "if_empty_inv wis calls' s1"
  proof (cases t)
    case Client
    then obtain a calls' s1 where "calls = a # calls'" "swq_step a s = Some s1" "interleave ts calls' s1 = Some s'"
      using Cons.prems(1) by (auto split: list.splits bind_splits)
    then show ?thesis using that client_step Cons.prems(2) by blast
  next
    case Worker
    then obtain s1 where "swq_step Work s = Some s1" "interleave ts calls s1 = Some s'"
      using Cons.prems(1) by (auto split: bind_splits)
    then show ?thesis using that worker_turn Cons.prems(2) by blast
  next
    case Wakeup
    then obtain s1 where "swq_step Spurious s = Some s1" "interleave ts calls s1 = Some s'"
      using Cons.prems(1) by (auto simp del: swq_step.simps split: bind_splits)
    then show ?thesis using that wakeup_turn Cons.prems(2) by blast
  qed
  then show ?case using Cons.IH [OF s1(2,3)] swq_step_inv [OF Cons.prems(3) s1(1)] by simp
qed

lemma stopped_queue_executed:
  assumes run: "interleave ts (map Put wis @ stop_calls) (Start IF_EMPTY env) = Some s"
    and "\<And>wi. wi \<in> set wis \<Longrightarrow> \<not> throws wi"
  shows "sq_env s = fold (\<lambda>wi. snd \<circ> wi) wis env"
proof -
  have "if_empty_inv wis (map Put wis @ stop_calls) (Start IF_EMPTY env)"
    by (simp add: if_empty_inv_def client_at_def Start_def)
  from interleave_inv [OF run this Start_inv] have inv: "if_empty_inv wis [] s" "swq_inv env s" by simp_all
  moreover from inv(1) have "sq_worker s = WExited" "sq_queue s = []" "sq_enqueued s = wis"
    by (cases "sq_stopper s"; simp add: if_empty_inv_def client_at_def stop_calls_def)+
  ultimately show ?thesis using assms(2) by (simp add: swq_inv_def)
qed

lemma push_all: "fold (\<lambda>wi. snd \<circ> wi) (map push_back ns) vec = vec @ ns"
  by (induction ns arbitrary: vec) (simp_all add: push_back_def)

lemma push_back_stopped:
  assumes "interleave ts (map (Put \<circ> push_back) ns @ stop_calls) (Start IF_EMPTY []) = Some s"
  shows "sq_env s = ns"
proof -
  have "interleave ts (map Put (map push_back ns) @ stop_calls) (Start IF_EMPTY []) = Some s" using assms by simp
  then have "sq_env s = fold (\<lambda>wi. snd \<circ> wi) (map push_back ns) []"
    by (rule stopped_queue_executed) (auto simp: throws_def push_back_def)
  then show ?thesis by (simp only: push_all append_Nil)
qed

text \<open>
  Both tests pass under every schedule in which they end, if the uninitialized stop policy does
  not happen to read as ALWAYS; if it does, a schedule lets each of them fail.
\<close>

lemma SerialWorkQueue_OrderSingleProducer_passes:
  assumes "SerialWorkQueue_OrderSingleProducer IF_EMPTY schedule = Some vec"
  shows "vec = [0, 1, 2, 3, 4, 5, 6, 7, 8, 9]"
proof -
  obtain wq where "interleave schedule (map (Put \<circ> push_back) ([0 ..< 5] @ [5 ..< 10]) @ stop_calls) (Start IF_EMPTY []) = Some wq"
      "vec = sq_env wq"
    using assms by (auto simp: SerialWorkQueue_OrderSingleProducer_def split: bind_splits)
  then have "vec = [0 ..< 5] @ [5 ..< 10]" using push_back_stopped by blast
  then show ?thesis by (simp add: upt_rec)
qed

lemma SerialWorkQueue_CountManyProducers_passes:
  assumes "SerialWorkQueue_CountManyProducers IF_EMPTY pushers schedule = Some n" "mset pushers = mset [0 ..< 25]"
  shows "n = 25"
proof -
  have "n = length pushers"
    using assms(1) push_back_stopped
    by (auto simp: SerialWorkQueue_CountManyProducers_def split: bind_splits)
  also have "\<dots> = 25" using mset_eq_length [OF assms(2)] by simp
  finally show ?thesis .
qed

text \<open>A schedule with which the first test ends, and one in which the policy was read as ALWAYS.\<close>

lemma SerialWorkQueue_OrderSingleProducer_ends:
  "SerialWorkQueue_OrderSingleProducer IF_EMPTY
     (replicate 5 Client @ replicate 9 Worker @ replicate 8 Client @ replicate 14 Worker @ [Client]) \<noteq> None"
  by code_simp

lemma SerialWorkQueue_OrderSingleProducer_fails:
  "SerialWorkQueue_OrderSingleProducer ALWAYS (replicate 11 Client @ replicate 4 Worker @ replicate 3 Client) = Some []"
  by code_simp

end
