(* ===== verification/Spec2Isabelle.thy ===== *)
theory Spec2Isabelle
  imports RmpRoundTrip ConcurrentRing ActiveRangeRace ManyPublishers BurstRobust BurstReport TopicBench SystemBench BenchRing TopicTests QueueTests
begin

text \<open>
  Toroni (the advanced same-machine interprocess communication protocol suite): a verification
  development of its C++ library under src/cpp/src/include/toroni.

  The program. Processes of one machine exchange messages through a ring buffer and a table of
  reader slots in shared memory. The reliable message protocol (RMP) lets any number of
  writers, serialized by a robust mutex, append to the stream, and any number of readers follow
  it; a slot of the table makes the position of a reader visible, and a writer that would
  overwrite the position of an active reader calls a backpressure handler. The topic protocol
  (TP) on top of it gives messages a channel name, writes them from a queue and dispatches
  them to channel readers. Traits supply the mutex, shared memory, notifications and queues.

  The theories, in the order of the code:

  \<^item> Prelude: machine integers, the failures (assertion, exception, access out of bounds, call
    that blocks) and the little-endian byte images of integers.
  \<^item> Positions: rmp/stream.hpp, rmp/detail/util.hpp, rmp/detail/positionOpt.hpp. Positions are
    64-bit words that wrap; the signed comparisons are related to the distance between
    positions.
  \<^item> MsgHeader: rmp/detail/msgHeader.hpp, the packed five-byte header and its image.
  \<^item> RobustProcMutex: traits/posix/robustProcMutex.hpp over a parameter for the pthread calls;
    the locale robust\_pthread states what POSIX documents of them, the locale robust\_mutex is
    what the rest of the library relies on, with a sublocale between them and an
    interpretation on an executable reading of the POSIX text.
  \<^item> ByteRingBuffer: rmp/byteRingBuffer.hpp.
  \<^item> SlotTable, RmpReaderInfo: the interface of the slot table for the writer (a locale), and
    rmp/readerInfo.hpp with every operation run without interference; the locale is interpreted
    on it. ActiveRangeRace takes Activate, Deactivate and UpdateActiveRange of the same file
    apart into the atomic accesses that interleave.
  \<^item> RingStream, RmpWriter, RmpReader: the abstract stream of segments with its representation
    in the buffer, rmp/writer.hpp, and rmp/reader.hpp with rmp/copyConfirmHandler.hpp.
    RmpRoundTrip has the properties that need both.
  \<^item> RingAccesses, ConcurrentRing: Write of rmp/writer.hpp and ReadEx of rmp/reader.hpp again,
    one memory access at a time; the first theory shows that either side alone does what the
    sequential definitions say, the second runs them interleaved.
  \<^item> ReaderWithBackpressure: rmp/readerWithBackpressure.hpp. ReliableStream puts readers and
    writers together as a step relation over sessions, with an invariant by rule induction.
  \<^item> TopicMsg: tp/detail/topicMsgBinarySerializer.hpp, topicMsgBinaryDeserializer.hpp.
  \<^item> MpscQueue: traits/concurrent/mpscMessageQueue.hpp and the contract drain\_queue (a locale)
    that the asynchronous writer relies on.
  \<^item> TpReaderInfo: tp/readerInfo.hpp and tp/channelReader.hpp. AsyncWriter: tp/asyncWriter.hpp;
    PostingProcesses: its Post and ProcWriter in several processes at once, cut at the calls they make.
    TpReader: tp/reader.hpp with its two work queues.
  \<^item> SerialWorkQueue: traits/concurrent/serialWorkQueue.hpp, its worker, clients and stopping
    thread as a step machine.
  \<^item> SharedMemory: traits/posix/sharedMemory.hpp over a parameter for the system calls; the
    locale posix\_shm states what POSIX documents of them and is interpreted on a system of
    names, sizes and descriptors. CreateOrOpen is also run one system call at a time.
    MappedMemory: the bytes behind the pointers, in the locale mapped\_shm that extends it.
  \<^item> UdpNotification: traits/posix/multicastUdpNotification.hpp over a parameter for the socket
    calls; the locale udp\_sockets states what their manual documents and is interpreted on a
    machine with sockets, waiting datagrams and signals.
  \<^item> PublishSubscribe: one asynchronous writer and one topic reader on a common ring buffer.
    ManyPublishers: the writers of several processes and one topic reader.
  \<^item> StdStrings: std::to\_string and std::stoi. BurstConfig, BurstAgent:
    system\_tests/burst/config.hpp and agent.cpp, the program that runs the library as the
    system tests do, with the clock, the network, and what happens while a process sleeps or
    waits as parameters. BurstRuns, BurstLatency: what its processes do together in the
    throughput and in the latency test, for one writer whose messages fit the ring together. BurstRobust: the two tests whose processes exit inside a
    callback. BurstReport: waiting for the readers and what is printed.
  \<^item> UnitTests, RingTests, TopicTests, QueueTests: unit\_tests, the tests of the repository as
    programs over the model, run on the executable instances of the parameters. RingTests has
    rmp/readerWriterTest, TopicTests the tests of tp, QueueTests those of the serial queue
    under every schedule, UnitTests the others. SteadyWrites: a writer whose handler declines,
    and streams of equal messages over the laps of the ring.
  \<^item> RingBench, TopicBench: benchmark\_tests, the fixtures in the memory of one process and the
    loops of rmp/rmpBench.cpp, tp/tpBench.cpp and traits/posix/robustFutexBench.cpp.
    NotificationBench, SystemBench: rmp/notificationBench.cpp and tp/systemBench.cpp, threads
    that wait for each other, as step machines, and the benchmark of the notification. They take
    what the ring answers as a parameter; BenchRing shows that the ring has such answers, under any
    interleaving of WriteEx, cut where its handler runs, and the iterations of ReadEx.
  \<^item> Samples: concrete structures for the witnesses.

  How state corresponds. A C++ object in shared memory is a record with the fields of the
  class; the bytes behind the header of the ring are the list rb\_data, the slots behind the
  header of the table the list ri\_slots. An operation takes the objects it touches and returns
  them updated, in a result type with failures; an operation that may not return is a
  partial\_function whose value None is not returning. Client callbacks are functions on a
  state of the client. Atomic variables are plain fields: the sequential theories describe
  operations that do not overlap, ReliableStream interleaves whole operations, ConcurrentRing
  the single accesses of one write and one read, ActiveRangeRace those of the range update, PostingProcesses the posts and the writes of processes,
  TpReader the items of its two queues and the two parts of a read, SerialWorkQueue the mutex
  sections and flag accesses of three threads, SharedMemory the system calls of several processes,
  NotificationBench and SystemBench the waiting of threads around whole operations, BenchRing writes
  that are not held back and the iterations of a read.

  What the lemmas show. Positions: comparisons and indexes mean what they should below half the
  position space. Table: the published range covers the active slots under every sequence of
  operations, allocation is exclusive and recovers slots of the dead; under interleaving the
  same holds for runs without ABA, and fails with it. Writer: backpressure is found exactly
  when it exists, a write changes exactly the bytes of the padding header, the message header and
  the message, and keeps every unread segment, the write loop returns if the handler gives up. Reader: it consumes exactly the segments of the stream, and
  refuses positions that were overwritten. Interleaved accesses: under backpressure a reader
  never sees an unfinished or torn message, without it the check after the copy can be fooled. A
  reader that nobody waits for gets the beginning of the stream, whole and in order, and then expires.
  Notifications: no socket leaks, no notification is missed, and no signal is taken for one. Sessions:
  every reader gets every message written since it joined, exactly once and in one order, up to
  the first write that no reader can get past (an empty message, or one that begins five bytes
  before the end of the buffer), where its reads end with EXPIRED\_POSITION. Posting: whatever posts and writes of the
  processes interleave, each process's messages reach the stream and the handlers complete and in
  order. Topics: serialization round
  trip, matching as a prefix relation, delivery to exactly the matching channel readers. Work queue: serial
  execution in order; stopping ends under every schedule unless it comes just before the worker
  falls asleep, and it can drop items. Shared memory: no descriptor
  is left open, at most one process is the creator, and what a failed or overtaken creation
  leaves behind; handles of one name share their bytes. Burst agent: a throughput run whose messages fit the ring counts every
  message, and records their number unless there is only one; a latency run adds up exactly the
  differences of its clocks; after a writer died with the mutex or a reader with its slot, new
  processes work as before; unlinking unbinds the three names. Benchmarks: over any number of laps
  every message that is written is read, backpressure comes exactly once when no reader reads, the
  transfer with notifications always ends, and the system transfer can wait forever in two ways
  and in no other. Unit tests: every test of the repository passes on the model, those of the
  serial queue under every schedule in which they end, provided the uninitialized stop policy does
  not read as ALWAYS.
  The property of this theory goes from CreateMessage in one process to the handlers in another.

  Bounds and fuel. Buffers are powers of two from 8 to 2 ^ 32 bytes, the range in which message
  lengths fit the 32 bits of the header. No definition uses fuel: loops are structural, have a
  termination measure or are partial functions whose returning is a theorem.

  Not modelled: the threads behind the two work queues of TpReader (its queues are lists of work
  items, in the order that SerialWorkQueue guarantees); memory orders weaker than sequential
  consistency; the trace output of the burst agent, the arithmetic of double and the layout that
  the ABI gives to shared objects, which are parameters where something is printed; main functions
  of the unit tests and benchmarks, which only start them, and the way the benchmark library
  chooses how often a loop runs, which is a parameter; the stopping of the work queues at the end
  of SystemBench, which SerialWorkQueue has; the Java binding, a separate implementation.
\<close>

section \<open>From publisher to subscriber\<close>

text \<open>
  C1: Publish and subscribe. Topic messages created by CreateMessage and posted to a fresh
  asynchronous writer reach the channel readers of another process: ProcWriter returns with
  all of them on the ring, and the next ReadRmp of a reader that was active and had caught up
  calls exactly the matching handlers, message by message in the order of posting. Required
  is that the messages together take less room than the ring and no padding run of length
  zero.
\<close>

theorem publish_subscribe:
  fixes aw :: "('m, bytes MPSCMessageQueue, 'e) AsyncWriter" and rd :: "('m, 'f) reader_world"
  assumes "robust_pthread pt view"
    and "notify_keeps notify" "handler_keeps bp" "gives_up aw \<mu>"
    and "mk_AsyncWriter (ww_rb w) Enqueue Drain bp notify = Inr aw"
    and "rb_ok (ww_rb w)" "ri_inv (ww_ri w)" "ww_queue w = new_MPSCMessageQueue"
    and "settled (view (writerMtx (ww_rb w)))" "holder_of (view (writerMtx (ww_rb w))) = None"
    and "tms \<noteq> []" "\<And>tm. tm \<in> set tms \<Longrightarrow> tm_ok tm \<and>
      CreateMessage (ww_rb w) (tm_gen tm) (tm_channel tm) (tm_data tm) (of_nat (length (tm_data tm))) (tm_desc tm)
        = Inr (m tm)"
    and "total (batch_segments (configBufSizeBytes (ww_rb w)) (freePos (ww_rb w)) (map m tms))
        < unat (configBufSizeBytes (ww_rb w))"
    and "list_all seg_valid (batch_segments (configBufSizeBytes (ww_rb w)) (freePos (ww_rb w)) (map m tms))"
    and "reader_inv k rd" "rw_rb rd = ww_rb w" "tr_channelReaders (rw_reader rd) \<noteq> []" "crs \<noteq> []"
    and "rwb_Pos (tr_rmpReaderBP (rw_reader rd)) = freePos (ww_rb w)"
  shows "\<exists>w1 w2 rd'. post_all aw (map m tms) w = Inr (1, w1) \<and> ProcWriter pt t aw w1 = Some (Inr w2)
    \<and> ReadRmp crs (rd\<lparr>rw_rb := ww_rb w2\<rparr>) = Some (Inr rd')
    \<and> rw_env rd' = fold (\<lambda>tm. fold (\<lambda>cr env.
        if accepts cr tm then cr_handler cr (tm_data tm) (of_nat (length (tm_data tm))) env else env) crs)
        tms (rw_env rd)"
  by (rule publish_and_read [OF assms])

text \<open>The waiting reader of TpReader on the ring of the plain writer.\<close>

definition subscriber :: "(mutex_view, seen list) reader_world" where
  "subscriber = waiting_world\<lparr>rw_rb := ww_rb plain_world\<rparr>"

lemma subscriber_inv: "reader_inv 0 subscriber"
  using waiting_world_inv plain_setup(2)
  by (simp add: reader_inv_def subscriber_def reader_ok_def rb_ok_def plain_world_def waiting_world_def)

theorem publish_subscribe_witness:
  "\<exists>w1 w2 rd'. post_all plain_writer [tm_image one_message] plain_world = Inr (1, w1)
    \<and> ProcWriter posix_pthread 4 plain_writer w1 = Some (Inr w2)
    \<and> ReadRmp [recorder 1 [97, 98] False] (subscriber\<lparr>rw_rb := ww_rb w2\<rparr>) = Some (Inr rd')
    \<and> rw_env rd' = [Got 1 [7]]"
proof -
  have tm: "tm_ok one_message" by (simp add: tm_ok_def one_message_def)
  have "CreateMessage (ww_rb plain_world) 0 [97] [7] 1 True = Inr (topic_image 0 True [97] [7])"
    using CreateMessage_image [OF plain_setup(2), of "[97]" 1 "[7]" 0 True] by (simp add: plain_setup(7))
  then have "tm_ok tm \<and> CreateMessage (ww_rb plain_world) (tm_gen tm) (tm_channel tm) (tm_data tm)
      (of_nat (length (tm_data tm))) (tm_desc tm) = Inr (tm_image tm)" if "tm \<in> set [one_message]" for tm
    using tm that by (simp add: one_message_def tm_image_def)
  moreover have "total (batch_segments (configBufSizeBytes (ww_rb plain_world)) (freePos (ww_rb plain_world))
      (map tm_image [one_message])) < unat (configBufSizeBytes (ww_rb plain_world))"
    "list_all seg_valid (batch_segments (configBufSizeBytes (ww_rb plain_world)) (freePos (ww_rb plain_world))
      (map tm_image [one_message]))"
    by (simp_all add: plain_world_def one_message_def tm_image_def topic_image_def write_segments_def filler_def index_of_def)
  moreover have "rw_rb subscriber = ww_rb plain_world" "tr_channelReaders (rw_reader subscriber) \<noteq> []"
    "rwb_Pos (tr_rmpReaderBP (rw_reader subscriber)) = freePos (ww_rb plain_world)" "rw_env subscriber = []"
    by (simp_all add: subscriber_def waiting_world_def plain_world_def rwb_Pos_def)
  moreover have "accepts (recorder 1 [97, 98] False) one_message" "tm_data one_message = [7]"
    "cr_handler (recorder 1 [97, 98] False) = (\<lambda>d n env. env @ [Got 1 d])"
    by (simp_all add: accepts_def recorder_def mk_ChannelReader_def one_message_def)
  ultimately show ?thesis
    using publish_subscribe [OF posix.robust_pthread_axioms plain_callbacks(1,2) plain_callbacks(3) [of "\<lambda>x. 0"]
      plain_setup(1-6), where tms = "[one_message]" and m = tm_image and k = 0 and rd = subscriber
        and crs = "[recorder 1 [97, 98] False]" and t = 4] subscriber_inv
    by simp
qed

end
